(* ===== verification/Prelude.thy ===== *)
theory Prelude
  imports Main "HOL-Library.Word"
begin

unbundle bit_operations_syntax

section \<open>Shared types, memory primitives and automation\<close>

text \<open>
  What every component shares: the machine integers under their C names, the ways a C function can
  fail to return (\<open>fault\<close>), a byte array as a list with \<open>memcpy\<close> into it (\<open>blit\<close>) and out of
  it (\<open>chunk\<close>), and the collections of rewrite rules the component proofs draw on:
  \<open>mem_simps\<close> for array reads and writes and \<open>ring_simps\<close> for index arithmetic modulo a size.
\<close>

named_theorems mem_simps "reads and writes of byte arrays"
named_theorems ring_simps "index arithmetic modulo the size of a ring"
named_theorems byte_simps "bytes cut out of a wider integer and put together again"

type_synonym u8 = "8 word"
type_synonym u16 = "16 word"
type_synonym u32 = "32 word"
type_synonym u64 = "64 word"
type_synonym bytes = "8 word list"

text \<open>
  The failures of the modelled C code that are not a return value: a failed \<open>assert\<close> or a call of
  \<open>abort\<close>, an access outside an object, a division by zero, a use of uninitialised memory, a signed integer
  or a conversion out of range, and a loop that does not end.
\<close>

datatype fault = Assert_Failed | Out_Of_Bounds | Div_By_Zero | Uninitialised | Overflow | Aborted | Diverges

type_synonym 'a result = "fault + 'a"

subsection \<open>Byte arrays\<close>

text \<open>\<open>memcpy (dst + off, src, length src)\<close> and the bytes \<open>memcpy\<close> reads at \<open>src + off\<close>.\<close>

definition blit :: "'a list \<Rightarrow> nat \<Rightarrow> 'a list \<Rightarrow> 'a list" where
  "blit dst off src = take off dst @ src @ drop (off + length src) dst"

definition chunk :: "'a list \<Rightarrow> nat \<Rightarrow> nat \<Rightarrow> 'a list" where
  "chunk xs off n = take n (drop off xs)"

lemma length_blit [simp, mem_simps]:
  "off + length src \<le> length dst \<Longrightarrow> length (blit dst off src) = length dst"
  by (simp add: blit_def)

lemma length_chunk [mem_simps]: "length (chunk xs off n) = min n (length xs - off)"
  by (simp add: chunk_def min.commute)

lemma length_chunk_in [simp]: "off + n \<le> length xs \<Longrightarrow> length (chunk xs off n) = n"
  by (simp add: chunk_def)

lemma nth_chunk [mem_simps]: "i < n \<Longrightarrow> off + i < length xs \<Longrightarrow> chunk xs off n ! i = xs ! (off + i)"
  by (simp add: chunk_def)

lemma nth_blit [mem_simps]:
  assumes "off + length src \<le> length dst" and "i < length dst"
  shows "blit dst off src ! i = (if off \<le> i \<and> i < off + length src then src ! (i - off) else dst ! i)"
proof -
  have "off \<le> length dst" using assms(1) by simp
  then have len: "length (take off dst) = off" by simp
  show ?thesis
    using assms unfolding blit_def by (auto simp: nth_append len)
qed

lemma chunk_blit_same [mem_simps]:
  "off \<le> length dst \<Longrightarrow> chunk (blit dst off src) off (length src) = src"
  by (simp add: chunk_def blit_def)

lemma chunk_blit_other [mem_simps]:
  assumes "off + length src \<le> length dst" and "o2 + n \<le> length dst"
    and "o2 + n \<le> off \<or> off + length src \<le> o2"
  shows "chunk (blit dst off src) o2 n = chunk dst o2 n"
  using assms by (intro nth_equalityI) (auto simp: nth_chunk nth_blit)

lemma chunk_append [mem_simps]: "chunk xs off (m + n) = chunk xs off m @ chunk xs (off + m) n"
  by (simp add: chunk_def take_add add.commute)

lemma chunk_0 [simp]: "chunk xs off 0 = []"
  by (simp add: chunk_def)

lemma chunk_full [simp]: "chunk xs 0 (length xs) = xs"
  by (simp add: chunk_def)

lemma blit_nil [simp]: "blit dst off [] = dst"
  by (simp add: blit_def)

lemma take_list_update_snoc [mem_simps]:
  "k < length xs \<Longrightarrow> take (Suc k) (xs[k := x]) = take k xs @ [x]"
  by (simp add: take_Suc_conv_app_nth)

subsection \<open>Positions in a ring\<close>

text \<open>
  The cells of a ring of \<open>n\<close> slots from position \<open>t\<close> on: the reading order of a circular buffer.
\<close>

definition ring_cells :: "'a list \<Rightarrow> nat \<Rightarrow> nat \<Rightarrow> 'a list" where
  "ring_cells xs t k = map (\<lambda>i. xs ! ((t + i) mod length xs)) [0..<k]"

lemma length_ring_cells [simp]: "length (ring_cells xs t k) = k"
  by (simp add: ring_cells_def)

lemma nth_ring_cells [ring_simps]: "i < k \<Longrightarrow> ring_cells xs t k ! i = xs ! ((t + i) mod length xs)"
  by (simp add: ring_cells_def)

lemma ring_cells_0 [simp]: "ring_cells xs t 0 = []"
  by (simp add: ring_cells_def)

lemma ring_cells_add [ring_simps]:
  "ring_cells xs t (j + k) = ring_cells xs t j @ ring_cells xs ((t + j) mod length xs) k"
proof (rule nth_equalityI)
  fix i assume i: "i < length (ring_cells xs t (j + k))"
  show "ring_cells xs t (j + k) ! i
      = (ring_cells xs t j @ ring_cells xs ((t + j) mod length xs) k) ! i"
  proof (cases "i < j")
    case True
    then show ?thesis by (simp add: nth_append nth_ring_cells)
  next
    case False
    then have "((t + j) mod length xs + (i - j)) mod length xs = (t + i) mod length xs"
      by (metis add.assoc le_add_diff_inverse linorder_le_less_linear mod_add_left_eq)
    with False i show ?thesis by (simp add: nth_append nth_ring_cells)
  qed
qed simp

lemma ring_cells_linear [ring_simps]:
  assumes "t + k \<le> length xs"
  shows "ring_cells xs t k = chunk xs t k"
  using assms by (intro nth_equalityI) (auto simp: nth_ring_cells nth_chunk)

lemma ring_cells_wrap [ring_simps]:
  assumes "t < length xs" and "k \<le> length xs" and "length xs \<le> t + k"
  shows "ring_cells xs t k = chunk xs t (length xs - t) @ chunk xs 0 (k - (length xs - t))"
proof -
  let ?n = "length xs"
  have "ring_cells xs t k = ring_cells xs t ((?n - t) + (k - (?n - t)))"
    using assms by simp
  also have "\<dots> = ring_cells xs t (?n - t) @ ring_cells xs 0 (k - (?n - t))"
    using assms by (simp only: ring_cells_add) simp
  also have "\<dots> = chunk xs t (?n - t) @ chunk xs 0 (k - (?n - t))"
    using assms by (simp add: ring_cells_linear)
  finally show ?thesis .
qed

lemma mod_add_inj:
  assumes eq: "(a + i) mod n = (a + j) mod (n::nat)" and "i < n" and "j < n"
  shows "i = j"
proof -
  have "(int a + int i) mod int n = (int a + int j) mod int n"
    using eq by (metis of_nat_add of_nat_mod)
  then have "int i mod int n = int j mod int n"
    by (metis add_diff_cancel_left' mod_diff_left_eq)
  with assms(2,3) show ?thesis by simp
qed

end
