(* ===== verification/Channel_Spec.thy ===== *)
theory Channel_Spec
  imports Prelude
begin

section \<open>The interface of a bounded byte channel\<close>

text \<open>
  What the transmitter and the receiver rely on when they share a buffer with the modem: a write
  appends a block or waits for room, a read takes a block from the front or waits for data, and
  neither does anything else. \<open>byte_channel\<close> states these laws; the system of a writing and a
  reading process that use the channel at the same time (\<open>comm_step\<close>) is analysed once, under the
  laws. \<open>Ring_Buffer\<close> interprets the locale with the code's operations.
\<close>

text \<open>One attempt at an operation that may block: it returns, waits, or does something undefined.\<close>

datatype ('r, 's) attempt = Returns 'r 's | Waits | Faults fault

subsection \<open>A writer and a reader\<close>

text \<open>
  The blocks one process still has to write and the block sizes the other still has to read; the
  bytes accepted and the bytes delivered so far. A step is one attempt of either process; a waiting
  attempt changes nothing.
\<close>

record 's comm =
  chan :: 's
  to_write :: "bytes list"
  to_read :: "nat list"
  sent :: bytes
  received :: bytes

definition comm_start :: "'s \<Rightarrow> bytes list \<Rightarrow> nat list \<Rightarrow> 's comm" where
  "comm_start c ws rs = \<lparr>chan = c, to_write = ws, to_read = rs, sent = [], received = []\<rparr>"

inductive comm_step ::
  "('s \<Rightarrow> bytes \<Rightarrow> (int, 's) attempt) \<Rightarrow> ('s \<Rightarrow> nat \<Rightarrow> (bytes, 's) attempt) \<Rightarrow> 's comm \<Rightarrow> 's comm \<Rightarrow> bool"
  for wr :: "'s \<Rightarrow> bytes \<Rightarrow> (int, 's) attempt" and rd :: "'s \<Rightarrow> nat \<Rightarrow> (bytes, 's) attempt" where
  write_done: "to_write s = d # ws \<Longrightarrow> wr (chan s) d = Returns r c' \<Longrightarrow>
     comm_step wr rd s (s\<lparr>chan := c', to_write := ws, sent := sent s @ d\<rparr>)"
| write_waits: "to_write s = d # ws \<Longrightarrow> wr (chan s) d = Waits \<Longrightarrow> comm_step wr rd s s"
| read_done: "to_read s = n # rs \<Longrightarrow> rd (chan s) n = Returns d c' \<Longrightarrow>
     comm_step wr rd s (s\<lparr>chan := c', to_read := rs, received := received s @ d\<rparr>)"
| read_waits: "to_read s = n # rs \<Longrightarrow> rd (chan s) n = Waits \<Longrightarrow> comm_step wr rd s s"

text \<open>Some process can complete its operation; some process is about to do something undefined.\<close>

definition can_progress ::
  "('s \<Rightarrow> bytes \<Rightarrow> (int, 's) attempt) \<Rightarrow> ('s \<Rightarrow> nat \<Rightarrow> (bytes, 's) attempt) \<Rightarrow> 's comm \<Rightarrow> bool" where
  "can_progress wr rd s \<longleftrightarrow>
     (case to_write s of [] \<Rightarrow> False | d # _ \<Rightarrow> (case wr (chan s) d of Returns _ _ \<Rightarrow> True | _ \<Rightarrow> False))
   \<or> (case to_read s of [] \<Rightarrow> False | n # _ \<Rightarrow> (case rd (chan s) n of Returns _ _ \<Rightarrow> True | _ \<Rightarrow> False))"

definition may_fault ::
  "('s \<Rightarrow> bytes \<Rightarrow> (int, 's) attempt) \<Rightarrow> ('s \<Rightarrow> nat \<Rightarrow> (bytes, 's) attempt) \<Rightarrow> 's comm \<Rightarrow> bool" where
  "may_fault wr rd s \<longleftrightarrow>
     (case to_write s of [] \<Rightarrow> False | d # _ \<Rightarrow> (case wr (chan s) d of Faults _ \<Rightarrow> True | _ \<Rightarrow> False))
   \<or> (case to_read s of [] \<Rightarrow> False | n # _ \<Rightarrow> (case rd (chan s) n of Faults _ \<Rightarrow> True | _ \<Rightarrow> False))"

text \<open>Operations left to complete: what bounds the number of steps that are not waits.\<close>

definition comm_work :: "'s comm \<Rightarrow> nat" where
  "comm_work s = length (to_write s) + length (to_read s)"

abbreviation comm_reach where
  "comm_reach wr rd \<equiv> (comm_step wr rd)\<^sup>*\<^sup>*"

subsection \<open>The laws\<close>

locale byte_channel =
  fixes inv :: "'s \<Rightarrow> bool"
    and contents :: "'s \<Rightarrow> bytes"
    and cap :: "'s \<Rightarrow> nat"
    and wr :: "'s \<Rightarrow> bytes \<Rightarrow> (int, 's) attempt"
    and rd :: "'s \<Rightarrow> nat \<Rightarrow> (bytes, 's) attempt"
  assumes bounded: "inv c \<Longrightarrow> length (contents c) \<le> cap c"
    and write_ok: "inv c \<Longrightarrow> d \<noteq> [] \<Longrightarrow> length (contents c) + length d \<le> cap c \<Longrightarrow>
      \<exists>c'. wr c d = Returns 0 c' \<and> inv c' \<and> contents c' = contents c @ d \<and> cap c' = cap c"
    and write_full: "inv c \<Longrightarrow> d \<noteq> [] \<Longrightarrow> cap c < length (contents c) + length d \<Longrightarrow> wr c d = Waits"
    and read_ok: "inv c \<Longrightarrow> 0 < n \<Longrightarrow> n \<le> length (contents c) \<Longrightarrow>
      \<exists>c' d. rd c n = Returns d c' \<and> inv c' \<and> length d = n \<and> contents c = d @ contents c' \<and> cap c' = cap c"
    and read_short: "inv c \<Longrightarrow> 0 < n \<Longrightarrow> length (contents c) < n \<Longrightarrow> rd c n = Waits"
begin

definition comm_inv :: "bytes list \<Rightarrow> nat list \<Rightarrow> nat \<Rightarrow> 's comm \<Rightarrow> bool" where
  "comm_inv ws rs m s \<longleftrightarrow> inv (chan s) \<and> cap (chan s) = m
     \<and> sent s = received s @ contents (chan s)
     \<and> sent s @ concat (to_write s) = concat ws
     \<and> length (received s) + sum_list (to_read s) = sum_list rs
     \<and> (\<forall>d \<in> set (to_write s). d \<in> set ws) \<and> (\<forall>n \<in> set (to_read s). n \<in> set rs)"

definition blocks_ok :: "bytes list \<Rightarrow> nat list \<Rightarrow> nat \<Rightarrow> bool" where
  "blocks_ok ws rs m \<longleftrightarrow> (\<forall>d \<in> set ws. d \<noteq> []) \<and> (\<forall>n \<in> set rs. 0 < n)
     \<and> (\<forall>d \<in> set ws. \<forall>n \<in> set rs. length d + n \<le> m + 1) \<and> (\<forall>d \<in> set ws. length d \<le> m)"

lemma comm_inv_start:
  "inv c \<Longrightarrow> contents c = [] \<Longrightarrow> comm_inv ws rs (cap c) (comm_start c ws rs)"
  by (simp add: comm_inv_def comm_start_def)

lemma write_cases:
  assumes "inv c" and "d \<noteq> []"
  obtains (ok) c' where "length (contents c) + length d \<le> cap c" "wr c d = Returns 0 c'" "inv c'"
      "contents c' = contents c @ d" "cap c' = cap c"
  | (waits) "cap c < length (contents c) + length d" "wr c d = Waits"
  using write_ok [OF assms] write_full [OF assms] by (meson linorder_not_le)

lemma read_cases:
  assumes "inv c" and "0 < n"
  obtains (ok) c' d where "n \<le> length (contents c)" "rd c n = Returns d c'" "inv c'" "length d = n"
      "contents c = d @ contents c'" "cap c' = cap c"
  | (waits) "length (contents c) < n" "rd c n = Waits"
  using read_ok [OF assms] read_short [OF assms] by (meson linorder_not_le)

lemma comm_step_inv:
  assumes "comm_step wr rd s t" and "comm_inv ws rs m s" and "blocks_ok ws rs m"
  shows "comm_inv ws rs m t"
  using assms
proof (induction rule: comm_step.induct)
  case (write_done s d ds r c')
  then have "inv (chan s)" "d \<noteq> []" by (auto simp: comm_inv_def blocks_ok_def)
  then show ?case
    by (cases rule: write_cases) (use write_done in \<open>auto simp: comm_inv_def\<close>)
next
  case (read_done s n ns d c')
  then have "inv (chan s)" "0 < n" by (auto simp: comm_inv_def blocks_ok_def)
  then show ?case
    by (cases rule: read_cases) (use read_done in \<open>auto simp: comm_inv_def\<close>)
qed simp_all

lemma comm_reach_inv:
  assumes "comm_reach wr rd s t" and "comm_inv ws rs m s" and "blocks_ok ws rs m"
  shows "comm_inv ws rs m t"
  using assms by (induction rule: rtranclp_induct) (auto intro: comm_step_inv)

lemma comm_no_fault:
  assumes "comm_inv ws rs m s" and "blocks_ok ws rs m"
  shows "\<not> may_fault wr rd s"
proof -
  have i: "inv (chan s)" using assms(1) by (simp add: comm_inv_def)
  have "\<not> (\<exists>f. wr (chan s) d = Faults f)" if "d \<in> set (to_write s)" for d
  proof -
    have "d \<noteq> []" using that assms by (auto simp: comm_inv_def blocks_ok_def)
    with i show ?thesis by (cases rule: write_cases) auto
  qed
  moreover have "\<not> (\<exists>f. rd (chan s) n = Faults f)" if "n \<in> set (to_read s)" for n
  proof -
    have "0 < n" using that assms by (auto simp: comm_inv_def blocks_ok_def)
    with i show ?thesis by (cases rule: read_cases) auto
  qed
  ultimately show ?thesis
    by (auto simp: may_fault_def split: list.splits attempt.splits)
qed

text \<open>
  Whenever the reader has a block left and as many bytes are written in all as are read, somebody can
  proceed: if the reader waits the channel holds fewer than its block, so the next block fits.
\<close>

lemma comm_deadlock_free:
  assumes ci: "comm_inv ws rs m s" and ok: "blocks_ok ws rs m"
    and enough: "sum_list rs \<le> length (concat ws)" and left: "to_read s = n # ns"
  shows "can_progress wr rd s"
proof (rule ccontr)
  assume stuck: "\<not> can_progress wr rd s"
  have i: "inv (chan s)" and mcap: "cap (chan s) = m" using ci by (auto simp: comm_inv_def)
  have n: "0 < n" "n \<in> set rs" using ci ok left by (auto simp: comm_inv_def blocks_ok_def)
  have short: "length (contents (chan s)) < n"
    using i n(1) stuck left by (cases rule: read_cases) (auto simp: can_progress_def)
  show False
  proof (cases "to_write s")
    case Nil
    then have "sent s = concat ws" "length (received s) + n \<le> sum_list rs"
      using ci left by (auto simp: comm_inv_def)
    then have "length (received s) + n \<le> length (sent s)" using enough by simp
    then show False using ci short by (simp add: comm_inv_def)
  next
    case (Cons d ds)
    then have d: "d \<noteq> []" "d \<in> set ws" using ci ok by (auto simp: comm_inv_def blocks_ok_def)
    then have "length d + n \<le> m + 1" using ok n by (auto simp: blocks_ok_def)
    with i d(1) show False
      using stuck short Cons mcap by (cases rule: write_cases) (auto simp: can_progress_def)
  qed
qed

end

text \<open>Every step that is not a wait completes one operation, whatever the channel.\<close>

lemma comm_step_work:
  "comm_step wr rd s t \<Longrightarrow> t = s \<or> Suc (comm_work t) = comm_work s"
  by (induction rule: comm_step.induct) (auto simp: comm_work_def)

end
