(* ===== verification/Ring_Buffer.thy ===== *)
theory Ring_Buffer
  imports Channel_Spec
begin

section \<open>The shared-memory ring buffer (ring_buffer_posix.h, ring_buffer_posix.c)\<close>

text \<open>
  The circular byte buffer through which the transmitter and the receiver talk to the Mercury modem.
  \<open>struct circular_buf_t_aux\<close> and the \<open>buffer\<close> it indexes are one record; \<open>mutex_ready\<close> says whether
  the mutex and the condition variable have been initialised. Every public operation holds the mutex
  from its first to its last access, so one pass through its body is one atomic attempt: it returns a
  value, or waits on the condition variable (and then runs again from \<open>try_again\<close>), or does something
  undefined. Indices are natural numbers: the invariant keeps head and tail below \<open>max\<close> and a length
  that passes a guard is at most \<open>max\<close>, so no sum formed from them exceeds \<open>2 * max\<close>.
\<close>

record cbuf =
  head :: nat
  tail :: nat
  max_size :: nat
  full :: bool
  mutex_ready :: bool
  cells :: bytes

definition with_lock :: "cbuf \<Rightarrow> ('r, cbuf) attempt \<Rightarrow> ('r, cbuf) attempt" where
  "with_lock c body = (if mutex_ready c then body else Faults Uninitialised)"

subsection \<open>Pointers and sizes\<close>

definition advance_pointer_n :: "cbuf \<Rightarrow> nat \<Rightarrow> cbuf" where
  "advance_pointer_n c len =
     (let c1 = (if full c then c\<lparr>tail := (tail c + len) mod max_size c\<rparr> else c);
          c2 = c1\<lparr>head := (head c1 + len) mod max_size c1\<rparr>
      in c2\<lparr>full := (head c2 = tail c2)\<rparr>)"

definition advance_pointer :: "cbuf \<Rightarrow> cbuf" where
  "advance_pointer c =
     (let c1 = (if full c then c\<lparr>tail := (tail c + 1) mod max_size c\<rparr> else c);
          c2 = c1\<lparr>head := (head c1 + 1) mod max_size c1\<rparr>
      in c2\<lparr>full := (head c2 = tail c2)\<rparr>)"

definition retreat_pointer_n :: "cbuf \<Rightarrow> nat \<Rightarrow> cbuf" where
  "retreat_pointer_n c len = c\<lparr>full := False, tail := (tail c + len) mod max_size c\<rparr>"

definition retreat_pointer :: "cbuf \<Rightarrow> cbuf" where
  "retreat_pointer c = c\<lparr>full := False, tail := (tail c + 1) mod max_size c\<rparr>"

definition circular_buf_size_internal :: "cbuf \<Rightarrow> nat" where
  "circular_buf_size_internal c =
     (if \<not> full c
      then (if tail c \<le> head c then head c - tail c else max_size c + head c - tail c)
      else max_size c)"

definition circular_buf_free_size_internal :: "cbuf \<Rightarrow> nat" where
  "circular_buf_free_size_internal c =
     (if \<not> full c
      then (if tail c \<le> head c then max_size c - (head c - tail c) else tail c - head c)
      else 0)"

subsection \<open>Observers and reset\<close>

definition size_buffer :: "cbuf \<Rightarrow> (nat, cbuf) attempt" where
  "size_buffer c = with_lock c
     (Returns (if \<not> full c
               then (if tail c \<le> head c then head c - tail c else max_size c + head c - tail c)
               else max_size c) c)"

definition circular_buf_free_size :: "cbuf \<Rightarrow> (nat, cbuf) attempt" where
  "circular_buf_free_size c = with_lock c
     (Returns (if \<not> full c
               then (if tail c \<le> head c then max_size c - (head c - tail c) else tail c - head c)
               else 0) c)"

definition circular_buf_capacity :: "cbuf \<Rightarrow> (nat, cbuf) attempt" where
  "circular_buf_capacity c = with_lock c (Returns (max_size c) c)"

definition circular_buf_empty :: "cbuf \<Rightarrow> (bool, cbuf) attempt" where
  "circular_buf_empty c = with_lock c (Returns (\<not> full c \<and> head c = tail c) c)"

definition circular_buf_full :: "cbuf \<Rightarrow> (bool, cbuf) attempt" where
  "circular_buf_full c = with_lock c (Returns (full c) c)"

definition circular_buf_reset :: "cbuf \<Rightarrow> (unit, cbuf) attempt" where
  "circular_buf_reset c = with_lock c (Returns () (c\<lparr>head := 0, tail := 0, full := False\<rparr>))"

subsection \<open>Initialisation\<close>

text \<open>
  The tail both initialisers share, in their two orders. In the shared-memory variant the mutex and
  the condition variable are initialised before the reset (which locks the mutex), in
  \<open>circular_buf_init\<close> after it. \<open>c\<close> is the structure as allocated: freshly mapped shared memory for
  the first, uninitialised heap memory for the second. A size of zero fails the assertion.
\<close>

definition checked_empty :: "cbuf \<Rightarrow> (cbuf, cbuf) attempt" where
  "checked_empty c =
     (case circular_buf_empty c of
        Returns e c' \<Rightarrow> (if e then Returns c' c' else Faults Assert_Failed)
      | Waits \<Rightarrow> Waits | Faults f \<Rightarrow> Faults f)"

definition circular_buf_init_shm :: "cbuf \<Rightarrow> nat \<Rightarrow> (cbuf, cbuf) attempt" where
  "circular_buf_init_shm c sz =
     (if sz = 0 then Faults Assert_Failed
      else let c1 = c\<lparr>cells := replicate sz 0, max_size := sz\<rparr>;
               c2 = c1\<lparr>mutex_ready := True\<rparr>
           in case circular_buf_reset c2 of
                Returns _ c3 \<Rightarrow> checked_empty c3
              | Waits \<Rightarrow> Waits | Faults f \<Rightarrow> Faults f)"

definition circular_buf_init :: "cbuf \<Rightarrow> bytes \<Rightarrow> nat \<Rightarrow> (cbuf, cbuf) attempt" where
  "circular_buf_init c buffer sz =
     (if sz = 0 then Faults Assert_Failed
      else let c1 = c\<lparr>cells := buffer, max_size := sz, mutex_ready := False\<rparr>
           in case circular_buf_reset c1 of
                Returns _ c2 \<Rightarrow> checked_empty (c2\<lparr>mutex_ready := True\<rparr>)
              | Waits \<Rightarrow> Waits | Faults f \<Rightarrow> Faults f)"

subsection \<open>One byte at a time\<close>

definition circular_buf_put :: "cbuf \<Rightarrow> u8 \<Rightarrow> (int, cbuf) attempt" where
  "circular_buf_put c d = with_lock c
     (if \<not> full c then Returns 0 (advance_pointer (c\<lparr>cells := (cells c)[head c := d]\<rparr>)) else Waits)"

definition circular_buf_get :: "cbuf \<Rightarrow> (int \<times> u8, cbuf) attempt" where
  "circular_buf_get c = with_lock c
     (if \<not> (\<not> full c \<and> head c = tail c)
      then Returns (0, cells c ! tail c) (retreat_pointer c) else Waits)"

subsection \<open>Blocks\<close>

text \<open>
  \<open>memcpy\<close> into the ring and out of it, faulting where it leaves either object. The caller's \<open>data\<close>
  has \<open>len\<close> bytes in a write, and room for \<open>len\<close> bytes in a read. The second copy's length
  \<open>len - (size - head)\<close> cannot wrap below zero once the first copy is inside \<open>data\<close>.
\<close>

definition copy_in :: "bytes \<Rightarrow> nat \<Rightarrow> bytes \<Rightarrow> nat \<Rightarrow> nat \<Rightarrow> bytes option" where
  "copy_in ring off data from n =
     (if off + n \<le> length ring \<and> from + n \<le> length data
      then Some (blit ring off (chunk data from n)) else None)"

definition copy_out :: "bytes \<Rightarrow> nat \<Rightarrow> nat \<Rightarrow> nat \<Rightarrow> bytes option" where
  "copy_out ring off n room =
     (if off + n \<le> length ring \<and> n \<le> room then Some (chunk ring off n) else None)"

definition write_buffer :: "cbuf \<Rightarrow> bytes \<Rightarrow> (int, cbuf) attempt" where
  "write_buffer c data = with_lock c
     (let sz = max_size c; len = length data in
      if len \<le> circular_buf_free_size_internal c
      then (if (head c + len) mod sz > head c
            then (case copy_in (cells c) (head c) data 0 len of
                    None \<Rightarrow> Faults Out_Of_Bounds
                  | Some r \<Rightarrow> Returns 0 (advance_pointer_n (c\<lparr>cells := r\<rparr>) len))
            else (case copy_in (cells c) (head c) data 0 (sz - head c) of
                    None \<Rightarrow> Faults Out_Of_Bounds
                  | Some r \<Rightarrow>
                     (case copy_in r 0 data (sz - head c) (len - (sz - head c)) of
                        None \<Rightarrow> Faults Out_Of_Bounds
                      | Some r' \<Rightarrow> Returns 0 (advance_pointer_n (c\<lparr>cells := r'\<rparr>) len))))
      else Waits)"

definition read_copy :: "cbuf \<Rightarrow> nat \<Rightarrow> bytes option" where
  "read_copy c len =
     (let sz = max_size c in
      if (tail c + len) mod sz > tail c then copy_out (cells c) (tail c) len len
      else (case copy_out (cells c) (tail c) (sz - tail c) len of
              None \<Rightarrow> None
            | Some a \<Rightarrow>
               (case copy_out (cells c) 0 (len - (sz - tail c)) (len - (sz - tail c)) of
                  None \<Rightarrow> None
                | Some b \<Rightarrow> Some (a @ b))))"

definition read_buffer :: "cbuf \<Rightarrow> nat \<Rightarrow> (bytes, cbuf) attempt" where
  "read_buffer c len = with_lock c
     (if len \<le> circular_buf_size_internal c
      then (case read_copy c len of
              None \<Rightarrow> Faults Out_Of_Bounds
            | Some d \<Rightarrow> Returns d (retreat_pointer_n c len))
      else Waits)"

definition read_buffer_all :: "cbuf \<Rightarrow> (bytes, cbuf) attempt" where
  "read_buffer_all c = with_lock c
     (let len = circular_buf_size_internal c in
      if 0 < len
      then (case read_copy c len of
              None \<Rightarrow> Faults Out_Of_Bounds
            | Some d \<Rightarrow> Returns d (retreat_pointer_n c len))
      else Waits)"

subsection \<open>Invariant and contents\<close>

definition cbuf_inv :: "cbuf \<Rightarrow> bool" where
  "cbuf_inv c \<longleftrightarrow> mutex_ready c \<and> head c < max_size c \<and> tail c < max_size c
     \<and> length (cells c) = max_size c \<and> (full c \<longrightarrow> head c = tail c)"

text \<open>The bytes waiting in the buffer, oldest first: what the structure stands for.\<close>

definition contents :: "cbuf \<Rightarrow> bytes" where
  "contents c = ring_cells (cells c) (tail c) (circular_buf_size_internal c)"

lemma length_contents [simp]: "length (contents c) = circular_buf_size_internal c"
  by (simp add: contents_def)

lemma size_le_max: "cbuf_inv c \<Longrightarrow> circular_buf_size_internal c \<le> max_size c"
  by (auto simp: cbuf_inv_def circular_buf_size_internal_def)

lemma free_size_eq:
  "cbuf_inv c \<Longrightarrow> circular_buf_free_size_internal c = max_size c - circular_buf_size_internal c"
  by (auto simp: cbuf_inv_def circular_buf_size_internal_def circular_buf_free_size_internal_def)

lemma head_eq_tail_plus_size:
  "cbuf_inv c \<Longrightarrow> head c = (tail c + circular_buf_size_internal c) mod max_size c"
  by (auto simp: cbuf_inv_def circular_buf_size_internal_def)

lemma advance_pointer_n_1: "advance_pointer c = advance_pointer_n c 1"
  by (simp add: advance_pointer_def advance_pointer_n_def)

lemma retreat_pointer_n_1: "retreat_pointer c = retreat_pointer_n c 1"
  by (simp add: retreat_pointer_def retreat_pointer_n_def)

lemma cbuf_with_lock [simp]: "cbuf_inv c \<Longrightarrow> with_lock c b = b"
  by (simp add: cbuf_inv_def with_lock_def)

subsubsection \<open>Advancing the head\<close>

text \<open>
  Storing \<open>data\<close> in the free cells from the head on and advancing by its length appends it.
  \<open>stored_at\<close> says that of the ring after the copies.
\<close>

definition stored_at :: "bytes \<Rightarrow> nat \<Rightarrow> bytes \<Rightarrow> bytes \<Rightarrow> bool" where
  "stored_at ring h data ring' \<longleftrightarrow> length ring' = length ring
     \<and> (\<forall>i < length data. ring' ! ((h + i) mod length ring) = data ! i)
     \<and> (\<forall>j < length ring. (\<forall>i < length data. j \<noteq> (h + i) mod length ring) \<longrightarrow> ring' ! j = ring ! j)"

lemma advance_fields:
  assumes "\<not> full c"
  shows "tail (advance_pointer_n c n) = tail c" "max_size (advance_pointer_n c n) = max_size c"
    "cells (advance_pointer_n c n) = cells c" "mutex_ready (advance_pointer_n c n) = mutex_ready c"
    "head (advance_pointer_n c n) = (head c + n) mod max_size c"
    "full (advance_pointer_n c n) \<longleftrightarrow> (head c + n) mod max_size c = tail c"
  using assms by (simp_all add: advance_pointer_n_def Let_def)

lemma advance_size:
  assumes "cbuf_inv c" and "\<not> full c" and "0 < n" and "n \<le> circular_buf_free_size_internal c"
  shows "circular_buf_size_internal (advance_pointer_n c n) = circular_buf_size_internal c + n"
proof -
  let ?m = "max_size c"
  have fits: "circular_buf_size_internal c + n \<le> ?m"
    using assms size_le_max [of c] by (simp add: free_size_eq)
  have h: "head c < ?m" "tail c < ?m" using assms(1) by (auto simp: cbuf_inv_def)
  note d = circular_buf_size_internal_def advance_fields [OF assms(2)]
  show ?thesis
  proof (cases "head c + n < ?m")
    case True
    with fits h assms(2,3) show ?thesis by (auto simp: d)
  next
    case False
    then have "(head c + n) mod ?m = head c + n - ?m"
      using fits h by (simp add: le_mod_geq)
    with False fits h assms(2,3) show ?thesis by (auto simp: d split: if_splits)
  qed
qed

lemma advance_contents:
  assumes inv: "cbuf_inv c" and nf: "\<not> full c" and n: "data \<noteq> []"
    and room: "length data \<le> circular_buf_free_size_internal c"
    and st: "stored_at (cells c) (head c) data r"
  defines "c' \<equiv> advance_pointer_n (c\<lparr>cells := r\<rparr>) (length data)"
  shows "cbuf_inv c' \<and> contents c' = contents c @ data \<and> max_size c' = max_size c"
proof -
  let ?m = "max_size c" and ?k = "circular_buf_size_internal c"
  have len: "length (cells c) = ?m" "length r = ?m" "0 < ?m"
    using inv st by (auto simp: cbuf_inv_def stored_at_def)
  have inv': "cbuf_inv (c\<lparr>cells := r\<rparr>)" using inv len by (simp add: cbuf_inv_def)
  have kk: "circular_buf_size_internal (c\<lparr>cells := r\<rparr>) = ?k"
    "circular_buf_free_size_internal (c\<lparr>cells := r\<rparr>) = circular_buf_free_size_internal c"
    by (simp_all add: circular_buf_size_internal_def circular_buf_free_size_internal_def)
  have size': "circular_buf_size_internal c' = ?k + length data"
    unfolding c'_def using advance_size [OF inv', of "length data"] nf n room by (simp add: kk)
  have fits: "?k + length data \<le> ?m"
    using inv room size_le_max [of c] by (simp add: free_size_eq)
  have f: "tail c' = tail c" "cells c' = r" "max_size c' = ?m"
    using nf by (simp_all add: c'_def advance_fields)
  have hd: "head c = (tail c + ?k) mod ?m" by (rule head_eq_tail_plus_size [OF inv])
  have old: "r ! ((tail c + i) mod ?m) = cells c ! ((tail c + i) mod ?m)" if i: "i < ?k" for i
  proof -
    have "(tail c + i) mod ?m \<noteq> (head c + j) mod ?m" if "j < length data" for j
    proof
      assume "(tail c + i) mod ?m = (head c + j) mod ?m"
      then have "(tail c + i) mod ?m = (tail c + (?k + j)) mod ?m"
        by (simp add: hd mod_simps add.assoc)
      with mod_add_inj [of "tail c" i ?m "?k + j"] i that fits show False by simp
    qed
    with st len show ?thesis by (simp add: stored_at_def)
  qed
  have new: "r ! ((tail c + (?k + j)) mod ?m) = data ! j" if "j < length data" for j
    using st that len by (simp add: stored_at_def hd mod_simps add.assoc)
  have "contents c' = contents c @ data"
  proof (rule nth_equalityI)
    fix i assume "i < length (contents c')"
    then have i: "i < ?k + length data" by (simp add: size')
    show "contents c' ! i = (contents c @ data) ! i"
    proof (cases "i < ?k")
      case True
      then show ?thesis using old i
        by (simp add: contents_def f size' nth_ring_cells len nth_append)
    next
      case False
      then show ?thesis using new [of "i - ?k"] i
        by (simp add: contents_def f size' nth_ring_cells len nth_append)
    qed
  qed (simp add: size')
  moreover have "cbuf_inv c'"
    using inv' nf by (auto simp: c'_def cbuf_inv_def advance_fields)
  ultimately show ?thesis by (simp add: f)
qed

subsubsection \<open>The copies of the code store the data\<close>

lemma stored_at_one: "h < length ring \<Longrightarrow> stored_at ring h [d] (ring[h := d])"
  by (auto simp: stored_at_def nth_list_update)

lemma stored_at_linear:
  assumes "h + length data \<le> length ring"
  shows "stored_at ring h data (blit ring h data)"
  unfolding stored_at_def
proof (intro conjI allI impI)
  show "length (blit ring h data) = length ring" using assms by simp
  fix i assume "i < length data"
  then show "blit ring h data ! ((h + i) mod length ring) = data ! i"
    using assms by (simp add: nth_blit)
next
  fix j assume j: "j < length ring" and out: "\<forall>i < length data. j \<noteq> (h + i) mod length ring"
  have "\<not> (h \<le> j \<and> j < h + length data)"
  proof
    assume "h \<le> j \<and> j < h + length data"
    then have "j - h < length data" "j = (h + (j - h)) mod length ring" using j by auto
    with out show False by blast
  qed
  with j assms show "blit ring h data ! j = ring ! j" by (auto simp: nth_blit)
qed

lemma stored_at_wrapped:
  assumes h: "h < length ring" and wrap: "length ring \<le> h + length data" and fits: "length data \<le> length ring"
  defines "k \<equiv> length ring - h"
  shows "stored_at ring h data (blit (blit ring h (chunk data 0 k)) 0 (chunk data k (length data - k)))"
    (is "stored_at ring h data ?r")
proof -
  let ?m = "length ring"
  have len1: "length (blit ring h (chunk data 0 k)) = ?m"
    using h wrap by (simp add: k_def)
  have cell: "?r ! j = (if j < length data - k then data ! (k + j)
       else if h \<le> j then data ! (j - h) else ring ! j)" if j: "j < ?m" for j
  proof -
    have "length (chunk data k (length data - k)) = length data - k"
      "length (chunk data 0 k) = k"
      using wrap by (simp_all add: k_def)
    then show ?thesis
      using j len1 h wrap fits by (auto simp: nth_blit nth_chunk k_def)
  qed
  show ?thesis
    unfolding stored_at_def
  proof (intro conjI allI impI)
    have "length (chunk data k (length data - k)) = length data - k" using wrap by (simp add: k_def)
    then show "length ?r = ?m" using len1 fits by (subst length_blit) simp_all
    fix i assume i: "i < length data"
    show "?r ! ((h + i) mod ?m) = data ! i"
    proof (cases "h + i < ?m")
      case True
      then have "\<not> h + i < length data - k" using fits by (simp add: k_def)
      with True show ?thesis by (simp add: cell)
    next
      case False
      then have "(h + i) mod ?m = h + i - ?m" using i h fits by (simp add: le_mod_geq)
      moreover have "h + i - ?m < length data - k" "k + (h + i - ?m) = i" "h + i - ?m < ?m"
        using False i h fits wrap by (auto simp: k_def)
      ultimately show ?thesis by (simp add: cell)
    qed
  next
    fix j assume j: "j < ?m" and out: "\<forall>i < length data. j \<noteq> (h + i) mod ?m"
    have "\<not> h \<le> j"
    proof
      assume "h \<le> j"
      then have "j - h < length data" "j = (h + (j - h)) mod ?m" using j wrap h by auto
      with out show False by blast
    qed
    moreover have "\<not> j < length data - k"
    proof
      assume "j < length data - k"
      then have "k + j < length data" "j = (h + (k + j)) mod ?m" using j h wrap by (auto simp: k_def)
      with out show False by blast
    qed
    ultimately show "?r ! j = ring ! j" using j by (simp add: cell)
  qed
qed

lemma wrap_test:
  assumes "h < m" and "0 < n" and "n \<le> m"
  shows "(h + n) mod m > h \<longleftrightarrow> h + n < (m::nat)"
proof (cases "h + n < m")
  case False
  then have "(h + n) mod m = h + n - m" using assms by (simp add: le_mod_geq)
  with False assms show ?thesis by simp
qed (use assms in simp)

lemma write_buffer_spec:
  assumes inv: "cbuf_inv c" and n: "data \<noteq> []"
  shows "if length data \<le> circular_buf_free_size_internal c
    then (\<exists>c'. write_buffer c data = Returns 0 c' \<and> cbuf_inv c' \<and> contents c' = contents c @ data
            \<and> max_size c' = max_size c)
    else write_buffer c data = Waits"
proof (cases "length data \<le> circular_buf_free_size_internal c")
  case True
  let ?m = "max_size c" and ?n = "length data" and ?h = "head c" and ?ring = "cells c"
  have nf: "\<not> full c" using True n by (auto simp: circular_buf_free_size_internal_def)
  have m: "?h < ?m" "length ?ring = ?m" using inv by (auto simp: cbuf_inv_def)
  have fits: "?n \<le> ?m" using True inv by (simp add: free_size_eq)
  have pos: "0 < ?n" using n by simp
  note test = wrap_test [OF m(1) pos fits]
  have "\<exists>r. stored_at ?ring ?h data r
      \<and> write_buffer c data = Returns 0 (advance_pointer_n (c\<lparr>cells := r\<rparr>) ?n)"
  proof (cases "?h + ?n < ?m")
    case lin: True
    then have "write_buffer c data
        = Returns 0 (advance_pointer_n (c\<lparr>cells := blit ?ring ?h data\<rparr>) ?n)"
      using True inv test m by (simp add: write_buffer_def copy_in_def Let_def)
    moreover have "stored_at ?ring ?h data (blit ?ring ?h data)"
      using lin m by (intro stored_at_linear) simp
    ultimately show ?thesis by blast
  next
    case wrap: False
    let ?k = "?m - ?h"
    let ?r = "blit (blit ?ring ?h (chunk data 0 ?k)) 0 (chunk data ?k (?n - ?k))"
    have "write_buffer c data = Returns 0 (advance_pointer_n (c\<lparr>cells := ?r\<rparr>) ?n)"
      using True inv test m wrap fits by (auto simp: write_buffer_def copy_in_def Let_def)
    moreover have "stored_at ?ring ?h data ?r"
      using stored_at_wrapped [of ?h ?ring data] m wrap fits by simp
    ultimately show ?thesis by blast
  qed
  with advance_contents [OF inv nf n True] True show ?thesis by auto
next
  case False
  then show ?thesis using inv by (simp add: write_buffer_def Let_def)
qed

lemma put_spec:
  assumes inv: "cbuf_inv c"
  shows "if full c then circular_buf_put c d = Waits
    else \<exists>c'. circular_buf_put c d = Returns 0 c' \<and> cbuf_inv c' \<and> contents c' = contents c @ [d]
      \<and> max_size c' = max_size c"
proof (cases "full c")
  case False
  then have "length [d] \<le> circular_buf_free_size_internal c"
    using inv by (auto simp: circular_buf_free_size_internal_def cbuf_inv_def)
  moreover have "stored_at (cells c) (head c) [d] ((cells c)[head c := d])"
    using inv by (intro stored_at_one) (simp add: cbuf_inv_def)
  ultimately show ?thesis
    using advance_contents [OF inv False, of "[d]"] False inv
    by (simp add: circular_buf_put_def advance_pointer_n_1)
qed (simp add: circular_buf_put_def inv)

subsubsection \<open>Reading\<close>

lemma retreat_contents:
  assumes inv: "cbuf_inv c" and n: "0 < n" and le: "n \<le> circular_buf_size_internal c"
  defines "c' \<equiv> retreat_pointer_n c n"
  shows "cbuf_inv c' \<and> contents c = ring_cells (cells c) (tail c) n @ contents c' \<and> max_size c' = max_size c"
proof -
  let ?m = "max_size c" and ?k = "circular_buf_size_internal c"
  have m: "length (cells c) = ?m" "0 < ?m" "tail c < ?m" "head c < ?m"
    using inv by (auto simp: cbuf_inv_def)
  have km: "?k \<le> ?m" by (rule size_le_max [OF inv])
  have "circular_buf_size_internal c' = ?k - n"
  proof (cases "tail c + n < ?m")
    case True
    then show ?thesis using le n m inv
      by (auto simp: c'_def retreat_pointer_n_def circular_buf_size_internal_def cbuf_inv_def split: if_splits)
  next
    case False
    then have "(tail c + n) mod ?m = tail c + n - ?m"
      using m km le by (simp add: le_mod_geq)
    then show ?thesis using False le n m inv
      by (auto simp: c'_def retreat_pointer_n_def circular_buf_size_internal_def cbuf_inv_def split: if_splits)
  qed
  moreover have "ring_cells (cells c) (tail c) (n + (?k - n))
      = ring_cells (cells c) (tail c) n @ ring_cells (cells c) ((tail c + n) mod ?m) (?k - n)"
    by (simp only: ring_cells_add m)
  ultimately have "contents c = ring_cells (cells c) (tail c) n @ contents c'"
    using le by (simp add: contents_def c'_def retreat_pointer_n_def)
  moreover have "cbuf_inv c'" using inv m by (auto simp: c'_def retreat_pointer_n_def cbuf_inv_def)
  ultimately show ?thesis by (simp add: c'_def retreat_pointer_n_def)
qed

lemma read_copy_spec:
  assumes inv: "cbuf_inv c" and n: "0 < n" and le: "n \<le> circular_buf_size_internal c"
  shows "read_copy c n = Some (ring_cells (cells c) (tail c) n)"
proof -
  let ?m = "max_size c"
  have m: "length (cells c) = ?m" "tail c < ?m" using inv by (auto simp: cbuf_inv_def)
  have nm: "n \<le> ?m" using le size_le_max [OF inv] by simp
  note test = wrap_test [OF m(2) n nm]
  show ?thesis
  proof (cases "tail c + n < ?m")
    case True
    then show ?thesis using test m
      by (simp add: read_copy_def copy_out_def Let_def ring_cells_linear)
  next
    case False
    then show ?thesis using test m nm
      by (auto simp: read_copy_def copy_out_def Let_def ring_cells_wrap)
  qed
qed

lemma read_buffer_spec:
  assumes inv: "cbuf_inv c" and n: "0 < n"
  shows "if n \<le> circular_buf_size_internal c
    then (\<exists>c' d. read_buffer c n = Returns d c' \<and> cbuf_inv c' \<and> length d = n
            \<and> contents c = d @ contents c' \<and> max_size c' = max_size c)
    else read_buffer c n = Waits"
  using retreat_contents [OF assms] read_copy_spec [OF assms] inv
  by (auto simp: read_buffer_def)

lemma read_buffer_all_spec:
  assumes inv: "cbuf_inv c"
  shows "if contents c = [] then read_buffer_all c = Waits
    else \<exists>c'. read_buffer_all c = Returns (contents c) c' \<and> cbuf_inv c' \<and> contents c' = []
      \<and> max_size c' = max_size c"
proof (cases "contents c = []")
  case True
  then have "circular_buf_size_internal c = 0" by (metis length_contents list.size(3))
  with True inv show ?thesis by (simp add: read_buffer_all_def Let_def)
next
  case False
  let ?k = "circular_buf_size_internal c"
  have k: "0 < ?k" using False by (metis length_contents length_greater_0_conv)
  have r: "contents c = contents c @ contents (retreat_pointer_n c ?k)"
    using retreat_contents [OF inv k order_refl] by (simp add: contents_def [of c])
  with False k retreat_contents [OF inv k order_refl] read_copy_spec [OF inv k order_refl] inv
  show ?thesis by (simp add: read_buffer_all_def Let_def contents_def [of c])
qed

lemma get_spec:
  assumes inv: "cbuf_inv c"
  shows "if contents c = [] then circular_buf_get c = Waits
    else \<exists>c'. circular_buf_get c = Returns (0, contents c ! 0) c' \<and> cbuf_inv c'
      \<and> contents c = (contents c ! 0) # contents c' \<and> max_size c' = max_size c"
proof -
  have e: "contents c = [] \<longleftrightarrow> \<not> full c \<and> head c = tail c"
    using inv by (simp add: length_0_conv [symmetric] del: length_0_conv)
      (auto simp: circular_buf_size_internal_def cbuf_inv_def)
  show ?thesis
  proof (cases "contents c = []")
    case True
    then show ?thesis using e inv by (simp add: circular_buf_get_def)
  next
    case False
    then have k: "1 \<le> circular_buf_size_internal c"
      by (metis One_nat_def Suc_leI length_contents length_greater_0_conv)
    have t: "ring_cells (cells c) (tail c) 1 = [cells c ! tail c]"
      using inv by (simp add: ring_cells_def cbuf_inv_def)
    from retreat_contents [OF inv _ k] False e inv t show ?thesis
      by (simp add: circular_buf_get_def retreat_pointer_n_1)
  qed
qed


subsection \<open>The buffer is a byte channel\<close>

interpretation ring: byte_channel cbuf_inv contents max_size write_buffer read_buffer
proof unfold_locales
  fix c and d :: bytes
  assume i: "cbuf_inv c" and d: "d \<noteq> []"
  have free: "length d \<le> circular_buf_free_size_internal c
      \<longleftrightarrow> length (contents c) + length d \<le> max_size c"
    using size_le_max [OF i] by (auto simp: free_size_eq [OF i])
  show "length (contents c) + length d \<le> max_size c \<Longrightarrow>
      \<exists>c'. write_buffer c d = Returns 0 c' \<and> cbuf_inv c' \<and> contents c' = contents c @ d
        \<and> max_size c' = max_size c"
    using write_buffer_spec [OF i d] free by auto
  show "max_size c < length (contents c) + length d \<Longrightarrow> write_buffer c d = Waits"
    using write_buffer_spec [OF i d] free by (auto split: if_splits)
next
  fix c n
  assume i: "cbuf_inv c" and n: "(0::nat) < n"
  show "n \<le> length (contents c) \<Longrightarrow> \<exists>c' d. read_buffer c n = Returns d c' \<and> cbuf_inv c'
      \<and> length d = n \<and> contents c = d @ contents c' \<and> max_size c' = max_size c"
    using read_buffer_spec [OF i n] by auto
  show "length (contents c) < n \<Longrightarrow> read_buffer c n = Waits"
    using read_buffer_spec [OF i n] by (auto split: if_splits)
qed (simp add: size_le_max)

definition sample_ring :: cbuf where
  "sample_ring = \<lparr>head = 1, tail = 3, max_size = 4, full = False, mutex_ready = True, cells = [12, 0, 0, 11]\<rparr>"

definition empty_ring :: cbuf where
  "empty_ring = \<lparr>head = 3, tail = 3, max_size = 4, full = False, mutex_ready = True, cells = [0, 0, 0, 0]\<rparr>"

lemma sample_ring_facts:
  "cbuf_inv sample_ring" "contents sample_ring = [11, 12]" "max_size sample_ring = 4"
  unfolding sample_ring_def by code_simp+

lemma empty_ring_facts:
  "cbuf_inv empty_ring" "contents empty_ring = []" "max_size empty_ring = 4"
  unfolding empty_ring_def by code_simp+

text \<open>C10: On a valid buffer the block operations are those of a bounded queue of bytes, across the wrap
  of the ring too: a write of a non-empty block appends it when it fits in the free space and waits
  without touching the buffer when it does not; a read of n > 0 bytes removes exactly the first n
  waiting bytes and waits when fewer are there; reading everything empties a non-empty buffer and
  waits on an empty one. The invariant and the capacity are kept.\<close>

theorem ring_refines_queue:
  assumes "cbuf_inv c" and "data \<noteq> []" and "0 < n"
  shows "(if length (contents c) + length data \<le> max_size c
      then \<exists>c'. write_buffer c data = Returns 0 c' \<and> cbuf_inv c' \<and> contents c' = contents c @ data
             \<and> max_size c' = max_size c
      else write_buffer c data = Waits)
    \<and> (if n \<le> length (contents c)
       then \<exists>c'. read_buffer c n = Returns (take n (contents c)) c' \<and> cbuf_inv c'
              \<and> contents c' = drop n (contents c) \<and> max_size c' = max_size c
       else read_buffer c n = Waits)
    \<and> (if contents c = [] then read_buffer_all c = Waits
       else \<exists>c'. read_buffer_all c = Returns (contents c) c' \<and> cbuf_inv c' \<and> contents c' = []
              \<and> max_size c' = max_size c)"
proof (intro conjI)
  show "if length (contents c) + length data \<le> max_size c
      then \<exists>c'. write_buffer c data = Returns 0 c' \<and> cbuf_inv c' \<and> contents c' = contents c @ data
             \<and> max_size c' = max_size c
      else write_buffer c data = Waits"
    using ring.write_ok [OF assms(1,2)] ring.write_full [OF assms(1,2)] by auto
  show "if n \<le> length (contents c)
      then \<exists>c'. read_buffer c n = Returns (take n (contents c)) c' \<and> cbuf_inv c'
             \<and> contents c' = drop n (contents c) \<and> max_size c' = max_size c
      else read_buffer c n = Waits"
    using ring.read_ok [OF assms(1,3)] ring.read_short [OF assms(1,3)] by fastforce
  show "if contents c = [] then read_buffer_all c = Waits
       else \<exists>c'. read_buffer_all c = Returns (contents c) c' \<and> cbuf_inv c' \<and> contents c' = []
              \<and> max_size c' = max_size c"
    using read_buffer_all_spec [OF assms(1)] by (auto split: if_splits)
qed

lemma ring_refines_queue_witness:
  "(\<exists>c'. write_buffer sample_ring [7, 8] = Returns 0 c' \<and> contents c' = [11, 12, 7, 8])
   \<and> (\<exists>c'. read_buffer sample_ring 2 = Returns [11, 12] c' \<and> contents c' = [])"
  using ring_refines_queue [of sample_ring "[7, 8]" 2]
  by (auto simp: sample_ring_facts simp del: length_contents)

text \<open>The single-byte operations agree with the queue too.\<close>

lemma ring_put_get:
  assumes "cbuf_inv c"
  shows "if length (contents c) = max_size c then circular_buf_put c d = Waits
      else \<exists>c'. circular_buf_put c d = Returns 0 c' \<and> cbuf_inv c' \<and> contents c' = contents c @ [d]"
    and "case contents c of [] \<Rightarrow> circular_buf_get c = Waits
       | b # bs \<Rightarrow> \<exists>c'. circular_buf_get c = Returns (0, b) c' \<and> cbuf_inv c' \<and> contents c' = bs"
proof -
  have "length (contents c) = max_size c \<longleftrightarrow> full c"
    using assms by (auto simp: cbuf_inv_def circular_buf_size_internal_def)
  then show "if length (contents c) = max_size c then circular_buf_put c d = Waits
      else \<exists>c'. circular_buf_put c d = Returns 0 c' \<and> cbuf_inv c' \<and> contents c' = contents c @ [d]"
    using put_spec [OF assms, of d] by (auto split: if_splits)
  show "case contents c of [] \<Rightarrow> circular_buf_get c = Waits
       | b # bs \<Rightarrow> \<exists>c'. circular_buf_get c = Returns (0, b) c' \<and> cbuf_inv c' \<and> contents c' = bs"
    using get_spec [OF assms] by (cases "contents c") (auto split: if_splits)
qed





text \<open>C31: A zero-length write or read on any valid buffer does not return: the test for a wrapped copy
  takes the second branch and copies up to the end of the ring, outside the caller's block.\<close>

theorem ring_zero_length:
  assumes "cbuf_inv c"
  shows "write_buffer c [] = Faults Out_Of_Bounds \<and> read_buffer c 0 = Faults Out_Of_Bounds"
  using assms by (auto simp: write_buffer_def read_buffer_def read_copy_def copy_in_def copy_out_def
      cbuf_inv_def with_lock_def Let_def)

lemma ring_zero_length_witness: "write_buffer sample_ring [] = Faults Out_Of_Bounds"
  using ring_zero_length [of sample_ring] by (simp add: sample_ring_facts)

text \<open>Initialising a shared-memory buffer of positive size gives a valid, empty buffer of that
  capacity; \<open>circular_buf_init\<close> locks the mutex in its reset before it has initialised it.\<close>

theorem ring_init:
  assumes "0 < sz"
  shows "(\<exists>c'. circular_buf_init_shm c sz = Returns c' c' \<and> cbuf_inv c' \<and> contents c' = []
      \<and> max_size c' = sz)
    \<and> circular_buf_init c buffer sz = Faults Uninitialised"
  using assms by (simp add: circular_buf_init_shm_def circular_buf_init_def circular_buf_reset_def
      checked_empty_def circular_buf_empty_def with_lock_def Let_def cbuf_inv_def contents_def
      circular_buf_size_internal_def)

lemma ring_init_witness:
  "\<exists>c'. circular_buf_init_shm sample_ring 5 = Returns c' c' \<and> contents c' = []"
  using ring_init [of 5 sample_ring] by auto

end
