(* ===== verification/Kiss.thy ===== *)
theory Kiss
  imports Prelude
begin

section \<open>KISS framing (kiss.h, kiss.c)\<close>

text \<open>
  The framer the TCP side uses in both directions: the receiver's byte-at-a-time state machine
  \<open>kiss_read\<close> with the buffer it writes into, and the sender's \<open>kiss_write_frame\<close>. The lemmas show
  that the state machine never writes past \<open>MAX_PAYLOAD\<close>, that it inverts the sender on any sequence
  of frames, and that after arbitrary input it is synchronised again two frames later. The C flags
  \<open>in_frame\<close> and \<open>escape\<close> (ints that hold 0 or 1) are booleans; \<open>frame_len\<close> is a natural number,
  which \<open>kiss_inv\<close> bounds far below \<open>INT_MAX\<close>.
\<close>

definition FEND :: u8 where "FEND = 0xC0"
definition FESC :: u8 where "FESC = 0xDB"
definition TFEND :: u8 where "TFEND = 0xDC"
definition TFESC :: u8 where "TFESC = 0xDD"
definition CMD_UNKNOWN :: u8 where "CMD_UNKNOWN = 0xFE"
definition CMD_DATA :: u8 where "CMD_DATA = 0x02"
definition MAX_PAYLOAD :: nat where "MAX_PAYLOAD = 756"

lemmas kiss_bytes = FEND_def FESC_def TFEND_def TFESC_def CMD_UNKNOWN_def CMD_DATA_def

record kiss_state =
  frame_len :: nat
  in_frame :: bool
  escape :: bool
  kiss_command :: u8

definition kiss_init :: kiss_state where
  "kiss_init = \<lparr>frame_len = 0, in_frame = False, escape = False, kiss_command = CMD_UNKNOWN\<rparr>"

subsection \<open>The receiver\<close>

text \<open>
  One byte: the returned length (0 when no frame is complete), the new state and the frame buffer.
\<close>

definition kiss_read :: "kiss_state \<Rightarrow> u8 \<Rightarrow> bytes \<Rightarrow> nat \<times> kiss_state \<times> bytes" where
  "kiss_read st sbyte buf =
     (if in_frame st \<and> sbyte = FEND \<and> kiss_command st = CMD_DATA
      then (frame_len st, st\<lparr>in_frame := False\<rparr>, buf)
      else if sbyte = FEND
      then (0, st\<lparr>in_frame := True, kiss_command := CMD_UNKNOWN, frame_len := 0\<rparr>, buf)
      else if in_frame st \<and> frame_len st < MAX_PAYLOAD
      then (if frame_len st = 0 \<and> kiss_command st = CMD_UNKNOWN
            then (0, st\<lparr>kiss_command := sbyte AND 0x0F\<rparr>, buf)
            else if kiss_command st = CMD_DATA
            then (if sbyte = FESC then (0, st\<lparr>escape := True\<rparr>, buf)
                  else let b1 = (if escape st \<and> sbyte = TFEND then FEND else sbyte);
                           b2 = (if escape st \<and> b1 = TFESC then FESC else b1);
                           st1 = (if escape st then st\<lparr>escape := False\<rparr> else st)
                       in if frame_len st1 < MAX_PAYLOAD
                          then (0, st1\<lparr>frame_len := frame_len st1 + 1\<rparr>, buf[frame_len st1 := b2])
                          else (0, st1, buf))
            else (0, st, buf))
      else (0, st, buf))"

text \<open>
  A receiver that feeds a byte stream to \<open>kiss_read\<close> and keeps each completed frame: the first
  \<open>frame_len\<close> bytes of the buffer at the time the length is returned.
\<close>

fun kiss_feed :: "kiss_state \<Rightarrow> bytes \<Rightarrow> bytes \<Rightarrow> bytes list \<times> kiss_state \<times> bytes" where
  "kiss_feed st buf [] = ([], st, buf)"
| "kiss_feed st buf (b # bs) =
     (case kiss_read st b buf of (n, st', buf') \<Rightarrow>
        (case kiss_feed st' buf' bs of (fs, r) \<Rightarrow>
           ((if n > 0 then take n buf' # fs else fs), r)))"

subsection \<open>The sender\<close>

definition kiss_escape :: "u8 \<Rightarrow> bytes" where
  "kiss_escape b =
     (if b = FEND then [FESC, TFEND] else if b = FESC then [FESC, TFESC] else [b])"

text \<open>The bytes \<open>kiss_write_frame\<close> leaves in \<open>write_buffer\<close>; it returns their number.\<close>

definition kiss_write_frame :: "bytes \<Rightarrow> bytes" where
  "kiss_write_frame p = [FEND, CMD_DATA] @ concat (map kiss_escape p) @ [FEND]"

subsection \<open>Bounds\<close>

lemma length_escaped: "length (concat (map kiss_escape p)) \<le> 2 * length p"
  by (induction p) (auto simp: kiss_escape_def)

definition kiss_inv :: "kiss_state \<Rightarrow> bool" where
  "kiss_inv st \<longleftrightarrow> frame_len st \<le> MAX_PAYLOAD"

lemma kiss_inv_init [simp]: "kiss_inv kiss_init"
  by (simp add: kiss_inv_def kiss_init_def)

lemma kiss_read_inv:
  assumes "kiss_inv st" and "kiss_read st b buf = (n, st', buf')"
  shows "kiss_inv st' \<and> n \<le> MAX_PAYLOAD \<and> length buf' = length buf"
  using assms by (auto simp: kiss_read_def kiss_inv_def Let_def split: if_splits)

text \<open>
  The only cell \<open>kiss_read\<close> writes is the one at \<open>frame_len\<close>, and only while that is below
  \<open>MAX_PAYLOAD\<close>: nothing at or past that index changes.
\<close>

lemma kiss_read_frame_cells:
  assumes "kiss_read st b buf = (n, st', buf')" and "MAX_PAYLOAD \<le> i"
  shows "drop i buf' = drop i buf"
  using assms by (auto simp: kiss_read_def Let_def drop_update_cancel split: if_splits)

lemma kiss_feed_append:
  "kiss_feed st buf (xs @ ys) =
     (case kiss_feed st buf xs of (fs, st1, buf1) \<Rightarrow>
        (case kiss_feed st1 buf1 ys of (gs, r) \<Rightarrow> (fs @ gs, r)))"
  by (induction xs arbitrary: st buf) (auto split: prod.splits)

lemma kiss_feed_inv:
  assumes "kiss_inv st" and "kiss_feed st buf bs = (fs, st', buf')" and "MAX_PAYLOAD \<le> length buf"
  shows "kiss_inv st' \<and> length buf' = length buf \<and> drop MAX_PAYLOAD buf' = drop MAX_PAYLOAD buf
    \<and> list_all (\<lambda>f. 0 < length f \<and> length f \<le> MAX_PAYLOAD) fs"
  using assms
proof (induction bs arbitrary: st buf fs)
  case Nil
  then show ?case by simp
next
  case (Cons b bs)
  obtain n st1 buf1 where r: "kiss_read st b buf = (n, st1, buf1)"
    by (cases "kiss_read st b buf")
  obtain gs where f: "kiss_feed st1 buf1 bs = (gs, st', buf')"
    and fs: "fs = (if n > 0 then take n buf1 # gs else gs)"
    using Cons.prems(2) r by (auto split: prod.splits)
  note i = kiss_read_inv [OF Cons.prems(1) r]
  note c = kiss_read_frame_cells [OF r order_refl]
  from Cons.IH [OF _ f] i Cons.prems(3) show ?case by (auto simp: fs c)
qed

subsection \<open>The receiver inverts the sender\<close>

text \<open>
  What the receiver makes of the first data byte of a frame: with a stale \<open>escape\<close> flag (set by a
  FESC that was the last byte of an earlier, broken frame and never cleared) a byte that looks like
  the second half of an escape is rewritten.
\<close>

definition unstuff :: "kiss_state \<Rightarrow> u8 \<Rightarrow> u8" where
  "unstuff st b =
     (if escape st then (if b = TFEND then FEND else if b = TFESC then FESC else b) else b)"

definition receiving :: "kiss_state \<Rightarrow> bool" where
  "receiving st \<longleftrightarrow> in_frame st \<and> kiss_command st = CMD_DATA"

definition frame_done :: "nat \<Rightarrow> kiss_state" where
  "frame_done n = \<lparr>frame_len = n, in_frame = False, escape = False, kiss_command = CMD_DATA\<rparr>"

lemma unstuff_plain [simp]: "\<not> escape st \<Longrightarrow> unstuff st b = b"
  by (simp add: unstuff_def)

lemma kiss_feed_escaped_byte:
  assumes "receiving st" and "frame_len st < MAX_PAYLOAD"
  shows "kiss_feed st buf (kiss_escape b)
    = ([], st\<lparr>frame_len := frame_len st + 1, escape := False\<rparr>, buf[frame_len st := unstuff st b])"
  using assms
  by (cases st) (auto simp: kiss_escape_def kiss_read_def receiving_def unstuff_def kiss_bytes Let_def)

lemma kiss_feed_body:
  assumes "receiving st" and "frame_len st + length p \<le> MAX_PAYLOAD" and "MAX_PAYLOAD \<le> length buf"
    and "\<not> escape st"
  shows "kiss_feed st buf (concat (map kiss_escape p))
    = ([], st\<lparr>frame_len := frame_len st + length p\<rparr>, blit buf (frame_len st) p)"
  using assms
proof (induction p arbitrary: st buf)
  case Nil
  then show ?case by simp
next
  case (Cons b p)
  let ?st = "st\<lparr>frame_len := frame_len st + 1, escape := False\<rparr>"
  have step: "kiss_feed st buf (kiss_escape b) = ([], ?st, buf[frame_len st := b])"
    using Cons.prems by (simp add: kiss_feed_escaped_byte)
  have upd: "blit (buf[frame_len st := b]) (Suc (frame_len st)) p = blit buf (frame_len st) (b # p)"
    using Cons.prems by (simp add: blit_def take_list_update_snoc drop_update_cancel)
  have st_eq: "st\<lparr>escape := False, frame_len := n\<rparr> = st\<lparr>frame_len := n\<rparr>" for n
    using Cons.prems(4) by (cases st) simp
  have "kiss_feed ?st (buf[frame_len st := b]) (concat (map kiss_escape p))
      = ([], ?st\<lparr>frame_len := frame_len ?st + length p\<rparr>, blit (buf[frame_len st := b]) (frame_len ?st) p)"
    using Cons.prems by (intro Cons.IH) (auto simp: receiving_def)
  then show ?case by (simp add: kiss_feed_append step upd st_eq)
qed

lemma kiss_feed_body_stale:
  assumes "receiving st" and "frame_len st = 0" and "length p \<le> MAX_PAYLOAD"
    and "MAX_PAYLOAD \<le> length buf" and "p \<noteq> []"
  shows "kiss_feed st buf (concat (map kiss_escape p))
    = ([], st\<lparr>frame_len := length p, escape := False\<rparr>, blit buf 0 (unstuff st (hd p) # tl p))"
proof -
  obtain b q where p: "p = b # q" using assms(5) by (cases p) auto
  let ?st = "st\<lparr>frame_len := 1, escape := False\<rparr>"
  have step: "kiss_feed st buf (kiss_escape b) = ([], ?st, buf[0 := unstuff st b])"
    using assms by (simp add: kiss_feed_escaped_byte MAX_PAYLOAD_def)
  have "kiss_feed ?st (buf[0 := unstuff st b]) (concat (map kiss_escape q))
      = ([], ?st\<lparr>frame_len := frame_len ?st + length q\<rparr>, blit (buf[0 := unstuff st b]) (frame_len ?st) q)"
    using assms p by (intro kiss_feed_body) (auto simp: receiving_def)
  moreover have "blit (buf[0 := unstuff st b]) 1 q = blit buf 0 (unstuff st b # q)"
    using assms by (cases buf) (auto simp: blit_def MAX_PAYLOAD_def)
  ultimately show ?thesis by (simp add: p kiss_feed_append step)
qed

text \<open>One frame from a state that is not collecting data: it is delivered and the flag cleared.\<close>

lemma kiss_feed_frame:
  assumes "\<not> receiving st" and "p \<noteq> []" and "length p \<le> MAX_PAYLOAD" and "MAX_PAYLOAD \<le> length buf"
  shows "kiss_feed st buf (kiss_write_frame p)
    = ([unstuff st (hd p) # tl p], frame_done (length p), blit buf 0 (unstuff st (hd p) # tl p))"
proof -
  let ?s1 = "st\<lparr>in_frame := True, kiss_command := CMD_UNKNOWN, frame_len := 0\<rparr>"
  let ?s2 = "?s1\<lparr>kiss_command := CMD_DATA\<rparr>"
  let ?q = "unstuff st (hd p) # tl p"
  have head: "kiss_feed st buf [FEND, CMD_DATA] = ([], ?s2, buf)"
    using assms(1) by (auto simp: kiss_read_def receiving_def kiss_bytes MAX_PAYLOAD_def)
  have body: "kiss_feed ?s2 buf (concat (map kiss_escape p))
      = ([], ?s2\<lparr>frame_len := length p, escape := False\<rparr>, blit buf 0 ?q)"
    using assms kiss_feed_body_stale [of ?s2 p buf] by (simp add: receiving_def unstuff_def)
  have len: "take (length p) (blit buf 0 ?q) = ?q"
    using assms(2) by (cases p) (simp_all add: blit_def)
  have "kiss_feed (?s2\<lparr>frame_len := length p, escape := False\<rparr>) (blit buf 0 ?q) [FEND]
      = ([?q], frame_done (length p), blit buf 0 ?q)"
    using assms(2) by (simp add: kiss_read_def frame_done_def len)
  then show ?thesis
    by (simp only: kiss_write_frame_def kiss_feed_append head body split append_Nil)
qed

text \<open>
  The same frame from a state that is collecting: the opening FEND ends the frame under way, the
  rest is skipped and the closing FEND is taken for the start of a frame.
\<close>

lemma kiss_feed_skipped:
  assumes "\<not> in_frame st" and "FEND \<notin> set bs"
  shows "kiss_feed st buf bs = ([], st, buf)"
  using assms by (induction bs) (auto simp: kiss_read_def)

lemma FEND_not_escaped: "FEND \<notin> set (concat (map kiss_escape p))"
  by (induction p) (auto simp: kiss_escape_def kiss_bytes split: if_splits)

lemma kiss_feed_frame_late:
  assumes "receiving st"
  shows "kiss_feed st buf (kiss_write_frame p)
    = ((if frame_len st > 0 then [take (frame_len st) buf] else []),
       st\<lparr>in_frame := True, kiss_command := CMD_UNKNOWN, frame_len := 0\<rparr>, buf)"
proof -
  let ?s1 = "st\<lparr>in_frame := False\<rparr>"
  have "kiss_feed st buf [FEND]
      = ((if frame_len st > 0 then [take (frame_len st) buf] else []), ?s1, buf)"
    using assms by (simp add: kiss_read_def receiving_def)
  moreover have "kiss_feed ?s1 buf (CMD_DATA # concat (map kiss_escape p)) = ([], ?s1, buf)"
    using FEND_not_escaped [of p]
    by (intro kiss_feed_skipped) (auto simp: FEND_def CMD_DATA_def)
  moreover have "kiss_feed ?s1 buf [FEND]
      = ([], st\<lparr>in_frame := True, kiss_command := CMD_UNKNOWN, frame_len := 0\<rparr>, buf)"
    by (simp add: kiss_read_def)
  moreover have "kiss_write_frame p = [FEND] @ (CMD_DATA # concat (map kiss_escape p)) @ [FEND]"
    by (simp add: kiss_write_frame_def)
  ultimately show ?thesis by (simp only: kiss_feed_append split) simp
qed

definition frame_ok :: "bytes \<Rightarrow> bool" where
  "frame_ok p \<longleftrightarrow> p \<noteq> [] \<and> length p \<le> MAX_PAYLOAD"

lemma not_receiving_done [simp]: "\<not> receiving (frame_done n)"
  by (simp add: receiving_def frame_done_def)

lemma not_escape_done [simp]: "\<not> escape (frame_done n)"
  by (simp add: frame_done_def)

lemma kiss_feed_frames:
  assumes "\<not> receiving st" and "\<not> escape st" and "list_all frame_ok ps" and "MAX_PAYLOAD \<le> length buf"
  shows "\<exists>st' buf'. kiss_feed st buf (concat (map kiss_write_frame ps)) = (ps, st', buf')
    \<and> \<not> receiving st' \<and> \<not> escape st' \<and> length buf' = length buf"
  using assms
proof (induction ps arbitrary: st buf)
  case Nil
  then show ?case by simp
next
  case (Cons p ps)
  have ok: "p \<noteq> []" "length p \<le> MAX_PAYLOAD" using Cons.prems(3) by (auto simp: frame_ok_def)
  have one: "kiss_feed st buf (kiss_write_frame p) = ([p], frame_done (length p), blit buf 0 p)"
    using kiss_feed_frame [OF Cons.prems(1) ok Cons.prems(4)] Cons.prems(2) ok by simp
  have len: "length (blit buf 0 p) = length buf" using ok Cons.prems(4) by simp
  obtain st' buf' where
    "kiss_feed (frame_done (length p)) (blit buf 0 p) (concat (map kiss_write_frame ps)) = (ps, st', buf')"
    and "\<not> receiving st' \<and> \<not> escape st' \<and> length buf' = length buf"
    using Cons.IH [of "frame_done (length p)" "blit buf 0 p"] Cons.prems len by auto
  then show ?case by (simp add: kiss_feed_append one)
qed

subsection \<open>Properties\<close>

text \<open>
  C9: a receiver that is between frames with no escape pending, fed any sequence of frames as
  \<open>kiss_write_frame\<close> writes them (each of 1 to \<open>MAX_PAYLOAD\<close> bytes, any byte values), delivers exactly
  those frames in order.
\<close>

theorem kiss_roundtrip:
  assumes "\<not> receiving st" and "\<not> escape st" and "list_all frame_ok ps" and "MAX_PAYLOAD \<le> length buf"
  shows "fst (kiss_feed st buf (concat (map kiss_write_frame ps))) = ps"
  using kiss_feed_frames [OF assms] by auto

theorem kiss_roundtrip_witness:
  "fst (kiss_feed kiss_init (replicate 756 0)
     (concat (map kiss_write_frame [[0xC0, 1], [0xDB, 0xDC, 0xDD]]))) = [[0xC0, 1], [0xDB, 0xDC, 0xDD]]"
proof -
  have "\<not> receiving kiss_init" "\<not> escape kiss_init"
    by (simp_all add: receiving_def kiss_init_def)
  moreover have "list_all frame_ok [[0xC0, 1], [0xDB, 0xDC, 0xDD]]"
    by (simp add: frame_ok_def MAX_PAYLOAD_def)
  moreover have "MAX_PAYLOAD \<le> length (replicate 756 (0::u8))"
    by (simp add: MAX_PAYLOAD_def)
  ultimately show ?thesis by (rule kiss_roundtrip)
qed

text \<open>whatever bytes arrive, the receiver stays within its buffer: it keeps \<open>frame_len\<close> at most
  \<open>MAX_PAYLOAD\<close>, delivers only frames of 1 to \<open>MAX_PAYLOAD\<close> bytes, and changes no cell of the caller's
  buffer at or past \<open>MAX_PAYLOAD\<close>.
\<close>

theorem kiss_feed_bounded:
  assumes "kiss_inv st" and "MAX_PAYLOAD \<le> length buf" and "kiss_feed st buf bs = (fs, st', buf')"
  shows "kiss_inv st' \<and> list_all (\<lambda>f. 0 < length f \<and> length f \<le> MAX_PAYLOAD) fs
    \<and> length buf' = length buf \<and> drop MAX_PAYLOAD buf' = drop MAX_PAYLOAD buf"
  using kiss_feed_inv [OF assms(1,3,2)] by simp

theorem kiss_feed_bounded_witness:
  "kiss_inv (fst (snd (kiss_feed kiss_init (replicate 756 0) [0xC0, 0x02, 7, 0xC0])))"
proof -
  obtain fs st' buf' where f: "kiss_feed kiss_init (replicate 756 0) [0xC0, 0x02, 7, 0xC0] = (fs, st', buf')"
    by (metis prod.collapse)
  have "MAX_PAYLOAD \<le> length (replicate 756 (0::u8))" by (simp add: MAX_PAYLOAD_def)
  from kiss_feed_bounded [OF kiss_inv_init this f] show ?thesis by (simp only: f) simp
qed

text \<open>
  C29: the receiver is self-stabilising. From any state at all (a stream joined in the middle, line
  noise, a stale escape), after two further well-formed frames every later frame is delivered
  exactly; at most two spurious frames precede them.
\<close>

theorem kiss_resync:
  assumes "frame_ok p1" and "frame_ok p2" and "list_all frame_ok ps" and "MAX_PAYLOAD \<le> length buf"
  shows "\<exists>g. length g \<le> 2 \<and>
    fst (kiss_feed st buf (kiss_write_frame p1 @ kiss_write_frame p2 @ concat (map kiss_write_frame ps)))
      = g @ ps"
proof -
  have later: "fst (kiss_feed (frame_done n) b (concat (map kiss_write_frame ps))) = ps"
    if "length b = length buf" for n b
    using assms(3,4) that by (intro kiss_roundtrip) simp_all
  have ok: "p1 \<noteq> []" "length p1 \<le> MAX_PAYLOAD" "p2 \<noteq> []" "length p2 \<le> MAX_PAYLOAD"
    using assms(1,2) by (auto simp: frame_ok_def)
  have len: "length (blit b 0 (x # tl p)) = length b"
    if "p \<noteq> []" "length p \<le> MAX_PAYLOAD" "length b = length buf" for p :: bytes and b x
    using that assms(4) by (cases p) auto
  show ?thesis
  proof (cases "receiving st")
    case False
    note f1 = kiss_feed_frame [OF False ok(1,2) assms(4)]
    let ?b1 = "blit buf 0 (unstuff st (hd p1) # tl p1)"
    have b1: "length ?b1 = length buf" using len ok by simp
    have f2: "kiss_feed (frame_done (length p1)) ?b1 (kiss_write_frame p2)
        = ([hd p2 # tl p2], frame_done (length p2), blit ?b1 0 (hd p2 # tl p2))"
      using kiss_feed_frame [of "frame_done (length p1)" p2 ?b1] ok assms(4) b1 by simp
    have "length (blit ?b1 0 (hd p2 # tl p2)) = length buf"
      by (rule trans [OF len [OF ok(3,4) b1] b1])
    from later [OF this, of "length p2"] show ?thesis
      by (intro exI [of _ "[unstuff st (hd p1) # tl p1, hd p2 # tl p2]"])
        (auto simp: kiss_feed_append f1 f2 split: prod.splits)
  next
    case True
    note f1 = kiss_feed_frame_late [OF True, of buf p1]
    let ?s = "st\<lparr>in_frame := True, kiss_command := CMD_UNKNOWN, frame_len := 0\<rparr>"
    have "\<not> receiving ?s" by (simp add: receiving_def kiss_bytes)
    note f2 = kiss_feed_frame [OF this ok(3,4) assms(4)]
    have "length (blit buf 0 (unstuff ?s (hd p2) # tl p2)) = length buf"
      using len ok by simp
    from later [OF this, of "length p2"] show ?thesis
      by (intro exI [of _ "(if frame_len st > 0 then [take (frame_len st) buf] else [])
            @ [unstuff ?s (hd p2) # tl p2]"])
        (auto simp: kiss_feed_append f1 f2 split: prod.splits)
  qed
qed

theorem kiss_resync_witness:
  "\<exists>g. length g \<le> 2 \<and>
    fst (kiss_feed \<lparr>frame_len = 3, in_frame = True, escape = True, kiss_command = CMD_DATA\<rparr> (replicate 756 0)
      (kiss_write_frame [0xDC] @ kiss_write_frame [0xDC] @ concat (map kiss_write_frame [[0xDC], [0xC0]])))
      = g @ [[0xDC], [0xC0]]"
  by (rule kiss_resync) (simp_all add: frame_ok_def MAX_PAYLOAD_def)


text \<open>Inside a written frame there is no frame end, and the sender's buffer of \<open>2 * len + 3\<close> bytes suffices.\<close>

lemma kiss_write_frame_shape:
  "\<exists>body. kiss_write_frame p = [FEND] @ body @ [FEND] \<and> FEND \<notin> set body
    \<and> length (kiss_write_frame p) \<le> 2 * length p + 3"
  using FEND_not_escaped [of p] length_escaped [of p]
  by (intro exI [of _ "CMD_DATA # concat (map kiss_escape p)"])
    (auto simp: kiss_write_frame_def FEND_def CMD_DATA_def)

end
