(* ===== verification/Net.thy ===== *)
theory Net
  imports Prelude
begin

section \<open>Stream sockets and the blocking reads and writes on them (net.h, net.c)\<close>

text \<open>
  The socket calls the program makes are modelled by the events the kernel has queued for the
  connection: bytes that have arrived, or a failed call with its \<open>errno\<close>. \<open>recv\<close> hands out at most as
  many bytes as it is asked for and leaves the rest queued; a queued empty block is the orderly
  shutdown, for which \<open>recv\<close> returns 0; with no event the call blocks (\<open>None\<close>).
\<close>

datatype errno = EINTR | EAGAIN | EWOULDBLOCK | Other_Error

datatype sock_event = Data bytes | Fail errno

datatype recv_ret = Got bytes | Failed errno

fun sock_recv :: "nat \<Rightarrow> sock_event list \<Rightarrow> (recv_ret \<times> sock_event list) option" where
  "sock_recv n [] = None"
| "sock_recv n (Data d # es) =
     Some (Got (take n d), if n < length d then Data (drop n d) # es else es)"
| "sock_recv n (Fail e # es) = Some (Failed e, es)"

fun event_bytes :: "sock_event list \<Rightarrow> bytes" where
  "event_bytes [] = []"
| "event_bytes (Data d # es) = d @ event_bytes es"
| "event_bytes (Fail e # es) = event_bytes es"

text \<open>What is left to receive: every successful or failed \<open>recv\<close> makes it smaller.\<close>

definition event_work :: "sock_event list \<Rightarrow> nat" where
  "event_work es = length es + length (event_bytes es)"

lemma event_bytes_append [simp]: "event_bytes (xs @ ys) = event_bytes xs @ event_bytes ys"
  by (induction xs rule: event_bytes.induct) auto

lemma event_bytes_Data [simp]: "event_bytes (map Data ds) = concat ds"
  by (induction ds) auto

lemma sock_recv_work: "0 < n \<Longrightarrow> sock_recv n es = Some (r, es') \<Longrightarrow> event_work es' < event_work es"
  by (cases "(n, es)" rule: sock_recv.cases) (auto simp: event_work_def split: if_splits)

lemma sock_recv_bytes:
  "sock_recv n es = Some (Got d, es') \<Longrightarrow> d @ event_bytes es' = event_bytes es \<and> length d \<le> n"
  by (cases "(n, es)" rule: sock_recv.cases) (auto split: if_splits)

lemma sock_recv_failed:
  "sock_recv n es = Some (Failed e, es') \<Longrightarrow> es = Fail e # es'"
  by (cases "(n, es)" rule: sock_recv.cases) auto

lemma sock_recv_None: "sock_recv n es = None \<longleftrightarrow> es = []"
  by (cases "(n, es)" rule: sock_recv.cases) auto

subsection \<open>Reading and writing a whole block\<close>

definition TCP_BLOCK :: nat where "TCP_BLOCK = 512"

text \<open>
  The loop of \<open>tcp_read\<close>: the return value, the buffer and the remaining events, or \<open>None\<close> when it
  blocks for good. An interrupted call is repeated.
\<close>

function tcp_read_loop :: "nat \<Rightarrow> nat \<Rightarrow> bytes \<Rightarrow> sock_event list \<Rightarrow> (bool \<times> bytes \<times> sock_event list) option" where
  "tcp_read_loop rx_size rcv_counter buffer es =
     (if rcv_counter < rx_size
      then let trx_size = (if TCP_BLOCK < rx_size - rcv_counter then TCP_BLOCK else rx_size - rcv_counter)
           in case sock_recv trx_size es of
                None \<Rightarrow> None
              | Some (Failed e, es') \<Rightarrow>
                  if e = EINTR then tcp_read_loop rx_size rcv_counter buffer es'
                  else Some (False, buffer, es')
              | Some (Got d, es') \<Rightarrow>
                  if d = [] then Some (False, buffer, es')
                  else tcp_read_loop rx_size (rcv_counter + length d) (blit buffer rcv_counter d) es'
      else Some (True, buffer, es))"
  by pat_completeness auto
termination
  by (relation "measure (\<lambda>(rx, c, b, es). event_work es)")
    (auto dest!: sock_recv_work [rotated] simp: TCP_BLOCK_def split: if_splits)

declare tcp_read_loop.simps [simp del]

definition tcp_read :: "bytes \<Rightarrow> nat \<Rightarrow> sock_event list \<Rightarrow> (bool \<times> bytes \<times> sock_event list) option" where
  "tcp_read buffer rx_size es = tcp_read_loop rx_size 0 buffer es"

text \<open>\<open>sent\<close> is what \<open>send\<close> returned.\<close>

definition tcp_write :: "int \<Rightarrow> bytes \<Rightarrow> bool" where
  "tcp_write sent buffer = (if sent < 0 then False else if nat sent \<noteq> length buffer then False else True)"

text \<open>
  \<open>addr\<close> is what \<open>inet_addr\<close> gave (\<open>None\<close> for \<open>INADDR_NONE\<close>), \<open>conn\<close> what \<open>connect\<close> returned, \<open>fd\<close>
  the descriptor \<open>socket\<close> returned; the result with the value left in \<open>*sockt\<close>.
\<close>

definition tcp_connect :: "int \<Rightarrow> u32 option \<Rightarrow> int \<Rightarrow> bool \<times> int" where
  "tcp_connect fd addr conn =
     (case addr of None \<Rightarrow> (False, fd) | Some _ \<Rightarrow> (if conn \<noteq> 0 then (False, fd) else (True, fd)))"

subsection \<open>Short reads do not matter\<close>

definition clean_event :: "sock_event \<Rightarrow> bool" where
  "clean_event e \<longleftrightarrow> (case e of Data d \<Rightarrow> d \<noteq> [] | Fail x \<Rightarrow> x = EINTR)"

lemma sock_recv_clean:
  "list_all clean_event es \<Longrightarrow> 0 < n \<Longrightarrow> sock_recv n es = Some (r, es') \<Longrightarrow>
   list_all clean_event es' \<and> r \<noteq> Got [] \<and> (\<forall>e. r = Failed e \<longrightarrow> e = EINTR)"
  by (cases "(n, es)" rule: sock_recv.cases) (auto simp: clean_event_def split: if_splits)

lemma take_blit_next:
  "c + length d \<le> length b \<Longrightarrow> take (c + length d) (blit b c d) = take c b @ d"
  by (simp add: blit_def)

lemma tcp_read_loop_complete:
  assumes "list_all clean_event es" and "rx \<le> c + length (event_bytes es)" and "c \<le> rx" and "rx \<le> length b"
  shows "\<exists>b' es'. tcp_read_loop rx c b es = Some (True, b', es') \<and> length b' = length b
    \<and> take rx b' = take c b @ take (rx - c) (event_bytes es) \<and> event_bytes es' = drop (rx - c) (event_bytes es)
    \<and> list_all clean_event es'"
  using assms
proof (induction rx c b es rule: tcp_read_loop.induct)
  case (1 rx c b es)
  show ?case
  proof (cases "c < rx")
    case False
    with "1.prems" show ?thesis by (simp add: tcp_read_loop.simps [of rx rx b es])
  next
    case True
    define t where "t = (if TCP_BLOCK < rx - c then TCP_BLOCK else rx - c)"
    have t: "0 < t" "t \<le> rx - c" using True by (auto simp: t_def TCP_BLOCK_def)
    have "es \<noteq> []" using "1.prems"(2) True by auto
    then obtain r es' where r: "sock_recv t es = Some (r, es')"
      by (metis not_None_eq sock_recv_None surj_pair)
    note cl = sock_recv_clean [OF "1.prems"(1) t(1) r]
    note unf = tcp_read_loop.simps [of rx c b es, unfolded Let_def, folded t_def]
    show ?thesis
    proof (cases r)
      case (Failed e)
      then have e: "e = EINTR" using cl by simp
      have "event_bytes es = event_bytes es'"
        using sock_recv_failed r Failed by fastforce
      with "1.IH"(2) [OF True t_def r refl Failed e] cl "1.prems" Failed e True r
      show ?thesis by (simp add: unf)
    next
      case (Got d)
      have d: "d @ event_bytes es' = event_bytes es" "length d \<le> t" "d \<noteq> []"
        using sock_recv_bytes r Got cl by auto
      have fit: "c + length d \<le> rx" using d(2) t(2) True by simp
      have ih: "\<exists>b' es''. tcp_read_loop rx (c + length d) (blit b c d) es' = Some (True, b', es'')
          \<and> length b' = length (blit b c d)
          \<and> take rx b' = take (c + length d) (blit b c d) @ take (rx - (c + length d)) (event_bytes es')
          \<and> event_bytes es'' = drop (rx - (c + length d)) (event_bytes es') \<and> list_all clean_event es''"
        using "1.IH"(1) [OF True t_def r refl Got d(3)] cl "1.prems" fit by (simp add: d(1) [symmetric])
      moreover have "take (rx - c) (event_bytes es) = d @ take (rx - (c + length d)) (event_bytes es')"
        "drop (rx - c) (event_bytes es) = drop (rx - (c + length d)) (event_bytes es')"
        using fit by (simp_all add: d(1) [symmetric])
      moreover have "length (blit b c d) = length b" "take (c + length d) (blit b c d) = take c b @ d"
        using fit "1.prems"(4) by (simp_all add: take_blit_next)
      ultimately show ?thesis using True r Got d(3) by (simp add: unf)
    qed
  qed
qed

text \<open>However the kernel cuts the stream into blocks, and however often the call is interrupted,
  \<open>tcp_read\<close> returns true once the requested bytes arrive, with exactly the next \<open>rx_size\<close> bytes
  of the stream in the buffer and the rest still queued.\<close>

theorem tcp_read_exact:
  assumes "list_all clean_event es" and "rx_size \<le> length (event_bytes es)" and "rx_size \<le> length buffer"
  shows "\<exists>buf' es'. tcp_read buffer rx_size es = Some (True, buf', es')
    \<and> take rx_size buf' = take rx_size (event_bytes es) \<and> event_bytes es' = drop rx_size (event_bytes es)"
  using tcp_read_loop_complete [of es rx_size 0 buffer] assms by (auto simp: tcp_read_def)

lemma tcp_read_exact_witness:
  "\<exists>buf' es'. tcp_read [0, 0, 0] 3 [Data [1, 2], Fail EINTR, Data [3, 4]] = Some (True, buf', es')
    \<and> take 3 buf' = [1, 2, 3]"
  using tcp_read_exact [of "[Data [1, 2], Fail EINTR, Data [3, 4]]" 3 "[0, 0, 0]"]
  by (auto simp: clean_event_def)

end
