(* ===== verification/Tcp_Interface.thy ===== *)
theory Tcp_Interface
  imports Kiss Net
begin

section \<open>KISS frames over a TCP connection (tcp_interface.h, tcp_interface.c)\<close>

text \<open>
  The link to hermes-modem: the connection handle and the file's static receive state (the decoder
  and the bytes of the last \<open>recv\<close> that have not been decoded yet) are one record; \<open>recv_partial\<close>
  is the first \<open>recv_partial_len\<close> bytes of \<open>recv_partial_buffer\<close>. What the system calls return is
  a parameter: the descriptor and status codes of a connect, the result of a send, the queued
  events of a receive. The main lemma says the decoded frames depend on the received bytes only,
  not on how \<open>recv\<close> cuts them.
\<close>

definition DEFAULT_MODEM_PORT :: int where "DEFAULT_MODEM_PORT = 8100"
definition DEFAULT_MODEM_IP :: string where "DEFAULT_MODEM_IP = ''127.0.0.1''"
definition TCP_BUFFER_SIZE :: nat where "TCP_BUFFER_SIZE = 8192"

record tcp_interface =
  socket :: int
  connected :: bool
  shutdown :: bool
  ip :: string
  port :: int
  tx_mutex :: bool
  recv_kiss :: kiss_state
  recv_partial :: bytes

subsection \<open>Connecting\<close>

text \<open>The receive state as the file's static initialisers leave it: \<open>recv_partial_len\<close> is 0 and
  survives \<open>tcp_interface_init\<close>, which resets the decoder only.\<close>

definition tcp_interface_init :: "tcp_interface \<Rightarrow> string option \<Rightarrow> int \<Rightarrow> tcp_interface" where
  "tcp_interface_init old i p =
     \<lparr>socket = -1, connected = False, shutdown = False,
      ip = take 63 (case i of Some s \<Rightarrow> s | None \<Rightarrow> DEFAULT_MODEM_IP),
      port = (if 0 < p then p else DEFAULT_MODEM_PORT), tx_mutex = True,
      recv_kiss = kiss_init, recv_partial = recv_partial old\<rparr>"

definition tcp_interface_connect :: "tcp_interface \<Rightarrow> int \<Rightarrow> int \<Rightarrow> int \<Rightarrow> bool \<times> tcp_interface" where
  "tcp_interface_connect iface fd pton conn =
     (if connected iface then (True, iface)
      else let i1 = iface\<lparr>socket := fd\<rparr>
           in if socket i1 < 0 then (False, i1)
              else if pton \<le> 0 then (False, i1\<lparr>socket := -1\<rparr>)
              else if conn < 0 then (False, i1\<lparr>socket := -1\<rparr>)
              else (True, i1\<lparr>connected := True\<rparr>))"

definition tcp_interface_disconnect :: "tcp_interface \<Rightarrow> tcp_interface" where
  "tcp_interface_disconnect iface =
     (let i1 = iface\<lparr>shutdown := True\<rparr>;
          i2 = (if 0 \<le> socket i1 then i1\<lparr>socket := -1\<rparr> else i1)
      in i2\<lparr>connected := False, tx_mutex := False\<rparr>)"

definition tcp_interface_is_connected :: "tcp_interface \<Rightarrow> bool" where
  "tcp_interface_is_connected iface = connected iface"

subsection \<open>Sending\<close>

text \<open>
  \<open>kernel_send\<close> is \<open>send\<close> on this socket: the number of bytes it takes, negative for a failure.
  The result with the bytes that went out.
\<close>

definition tcp_interface_send_kiss ::
  "tcp_interface \<Rightarrow> bytes \<Rightarrow> (bytes \<Rightarrow> int) \<Rightarrow> int \<times> bytes \<times> tcp_interface" where
  "tcp_interface_send_kiss iface data kernel_send =
     (if \<not> connected iface \<or> socket iface < 0 then (-1, [], iface)
      else let kiss_buffer = kiss_write_frame data; n = kernel_send kiss_buffer
           in if n < 0 then (-1, [], iface\<lparr>connected := False\<rparr>)
              else (n, take (nat n) kiss_buffer, iface))"

subsection \<open>Receiving\<close>

text \<open>
  The two decoding loops: bytes go through \<open>kiss_read\<close> until a frame completes; its length (0 if
  none), the decoder, the frame buffer and the bytes after the frame.
\<close>

fun kiss_scan :: "kiss_state \<Rightarrow> bytes \<Rightarrow> bytes \<Rightarrow> nat \<times> kiss_state \<times> bytes \<times> bytes" where
  "kiss_scan st buf [] = (0, st, buf, [])"
| "kiss_scan st buf (b # bs) =
     (case kiss_read st b buf of (n, st', buf') \<Rightarrow>
        if 0 < n then (n, st', buf', bs) else kiss_scan st' buf' bs)"

text \<open>One call: \<open>None\<close> when \<open>recv\<close> blocks, else the result, the handle, the caller's frame buffer and
  the events still queued.\<close>

definition tcp_interface_recv_kiss ::
  "tcp_interface \<Rightarrow> bytes \<Rightarrow> sock_event list \<Rightarrow> (int \<times> tcp_interface \<times> bytes \<times> sock_event list) option" where
  "tcp_interface_recv_kiss iface frame_buffer es =
     (if \<not> connected iface \<or> socket iface < 0 then Some (-1, iface, frame_buffer, es)
      else case kiss_scan (recv_kiss iface) frame_buffer (recv_partial iface) of (n, st, buf, rest) \<Rightarrow>
        let i1 = iface\<lparr>recv_kiss := st, recv_partial := rest\<rparr>
        in if 0 < n then Some (int n, i1, buf, es)
           else case sock_recv TCP_BUFFER_SIZE es of
                  None \<Rightarrow> None
                | Some (Failed e, es') \<Rightarrow>
                    if e = EAGAIN \<or> e = EWOULDBLOCK then Some (0, i1, buf, es')
                    else Some (-1, i1\<lparr>connected := False\<rparr>, buf, es')
                | Some (Got d, es') \<Rightarrow>
                    if d = [] then Some (-1, i1\<lparr>connected := False\<rparr>, buf, es')
                    else (case kiss_scan st buf d of (n', st', buf', rest') \<Rightarrow>
                            Some (int n', i1\<lparr>recv_kiss := st', recv_partial := rest'\<rparr>, buf', es')))"

lemma kiss_scan_rest_length:
  "kiss_scan st buf bs = (n, st', buf', rest) \<Longrightarrow>
   length rest \<le> length bs \<and> (0 < n \<longrightarrow> length rest < length bs) \<and> (n = 0 \<longrightarrow> rest = [])"
  by (induction bs arbitrary: st buf) (force split: prod.splits if_splits)+

text \<open>What is not decoded yet: every call makes it smaller unless it fails or blocks.\<close>

definition recv_work :: "tcp_interface \<Rightarrow> sock_event list \<Rightarrow> nat" where
  "recv_work iface es = length (recv_partial iface) + event_work es"

lemma sock_recv_Got_work:
  "0 < n \<Longrightarrow> sock_recv n es = Some (Got d, es') \<Longrightarrow> d \<noteq> [] \<Longrightarrow> length d + event_work es' \<le> event_work es"
  by (cases "(n, es)" rule: sock_recv.cases) (auto simp: event_work_def split: if_splits)

lemma recv_kiss_work:
  assumes "tcp_interface_recv_kiss i buf es = Some (n, i', buf', es')" and "0 \<le> n"
  shows "recv_work i' es' < recv_work i es"
proof -
  obtain m st b rest where s: "kiss_scan (recv_kiss i) buf (recv_partial i) = (m, st, b, rest)"
    by (metis prod_cases4)
  note r = kiss_scan_rest_length [OF s]
  have c: "connected i" "\<not> socket i < 0"
    using assms by (auto simp: tcp_interface_recv_kiss_def split: if_splits)
  have big: "0 < TCP_BUFFER_SIZE" by (simp add: TCP_BUFFER_SIZE_def)
  show ?thesis
  proof (cases "0 < m")
    case True
    then show ?thesis
      using assms c s r by (auto simp: tcp_interface_recv_kiss_def recv_work_def Let_def)
  next
    case False
    then obtain rr es1 where rv: "sock_recv TCP_BUFFER_SIZE es = Some (rr, es1)"
      using assms c s by (cases "sock_recv TCP_BUFFER_SIZE es") (auto simp: tcp_interface_recv_kiss_def Let_def)
    have rest: "rest = []" using r False by simp
    show ?thesis
    proof (cases rr)
      case (Failed e)
      then show ?thesis
        using assms c s False rv rest sock_recv_work [OF big rv]
        by (auto simp: tcp_interface_recv_kiss_def recv_work_def Let_def split: if_splits)
    next
      case (Got d)
      then have d: "d \<noteq> []"
        using assms c s False rv by (auto simp: tcp_interface_recv_kiss_def)
      obtain m2 st2 b2 rest2 where s2: "kiss_scan st b d = (m2, st2, b2, rest2)"
        by (metis prod_cases4)
      have res: "i' = i\<lparr>recv_kiss := st2, recv_partial := rest2\<rparr>" "es' = es1"
        using assms c s False rv Got d s2 by (auto simp: tcp_interface_recv_kiss_def Let_def)
      have "length rest2 + event_work es1 < recv_work i es"
        using kiss_scan_rest_length [OF s2] sock_recv_Got_work [OF big rv [unfolded Got] d]
          sock_recv_work [OF big rv]
        by (cases "0 < m2") (auto simp: recv_work_def)
      then show ?thesis by (simp add: res recv_work_def)
    qed
  qed
qed

subsection \<open>Draining a connection\<close>

text \<open>
  What a receiver that calls \<open>tcp_interface_recv_kiss\<close> again and again with the same frame buffer
  gets, until the connection fails or there is nothing more: the receiver's and the daemon's loop.
\<close>

function tcp_drain :: "tcp_interface \<Rightarrow> bytes \<Rightarrow> sock_event list \<Rightarrow> bytes list" where
  "tcp_drain iface buf es =
     (case tcp_interface_recv_kiss iface buf es of
        None \<Rightarrow> []
      | Some (n, iface', buf', es') \<Rightarrow>
          if n < 0 then []
          else (if 0 < n then [take (nat n) buf'] else []) @ tcp_drain iface' buf' es')"
  by pat_completeness auto
termination
  by (relation "measure (\<lambda>(i, b, es). recv_work i es)") (auto dest: recv_kiss_work)

declare tcp_drain.simps [simp del]

lemma kiss_scan_feed:
  "kiss_scan st buf bs = (n, st', buf', rest) \<Longrightarrow>
   kiss_feed st buf (bs @ ys) =
     (case kiss_feed st' buf' (rest @ ys) of (fs, r) \<Rightarrow> ((if 0 < n then take n buf' # fs else fs), r))"
proof (induction bs arbitrary: st buf)
  case (Cons b bs)
  obtain m st1 buf1 where k: "kiss_read st b buf = (m, st1, buf1)" by (metis prod_cases3)
  show ?case
  proof (cases "0 < m")
    case True
    then show ?thesis using Cons.prems k by (auto split: prod.splits)
  next
    case False
    then show ?thesis using Cons.IH [of st1 buf1] Cons.prems k by (auto split: prod.splits)
  qed
qed (auto split: prod.splits)

definition poll_event :: "sock_event \<Rightarrow> bool" where
  "poll_event e \<longleftrightarrow> (case e of Data d \<Rightarrow> d \<noteq> [] | Fail x \<Rightarrow> x = EAGAIN \<or> x = EWOULDBLOCK)"

lemma sock_recv_poll:
  "list_all poll_event es \<Longrightarrow> 0 < n \<Longrightarrow> sock_recv n es = Some (r, es') \<Longrightarrow>
   list_all poll_event es' \<and> (case r of Got d \<Rightarrow> d \<noteq> [] \<and> event_bytes es = d @ event_bytes es'
      | Failed e \<Rightarrow> (e = EAGAIN \<or> e = EWOULDBLOCK) \<and> event_bytes es = event_bytes es')"
  by (cases "(n, es)" rule: sock_recv.cases) (auto simp: poll_event_def split: if_splits)

lemma tcp_drain_feed:
  assumes "connected i" and "0 \<le> socket i" and "list_all poll_event es"
  shows "tcp_drain i buf es = fst (kiss_feed (recv_kiss i) buf (recv_partial i @ event_bytes es))"
  using assms
proof (induction i buf es rule: tcp_drain.induct)
  case (1 i buf es)
  obtain m st b rest where s: "kiss_scan (recv_kiss i) buf (recv_partial i) = (m, st, b, rest)"
    by (metis prod_cases4)
  have rest0: "m = 0 \<Longrightarrow> rest = []" using kiss_scan_rest_length [OF s] by simp
  note feed = kiss_scan_feed [OF s, of "event_bytes es"]
  have c: "connected i" "\<not> socket i < 0" using "1.prems" by auto
  have big: "0 < TCP_BUFFER_SIZE" by (simp add: TCP_BUFFER_SIZE_def)
  show ?case
  proof (cases "0 < m")
    case True
    then have rk: "tcp_interface_recv_kiss i buf es
        = Some (int m, i\<lparr>recv_kiss := st, recv_partial := rest\<rparr>, b, es)"
      using c s by (simp add: tcp_interface_recv_kiss_def Let_def)
    then have "tcp_drain (i\<lparr>recv_kiss := st, recv_partial := rest\<rparr>) b es
        = fst (kiss_feed st b (rest @ event_bytes es))"
      using "1.IH" [OF rk refl refl refl] "1.prems" by simp
    with True rk feed show ?thesis
      by (simp add: tcp_drain.simps [of i buf es] split: prod.splits)
  next
    case False
    then have m0: "m = 0" "rest = []" using rest0 by auto
    show ?thesis
    proof (cases "sock_recv TCP_BUFFER_SIZE es")
      case None
      then have "es = []" by (simp add: sock_recv_None)
      with None c s m0 feed show ?thesis
        by (simp add: tcp_drain.simps [of i buf "[]"] tcp_interface_recv_kiss_def Let_def)
    next
      case (Some p)
      then obtain r es1 where rv: "sock_recv TCP_BUFFER_SIZE es = Some (r, es1)" by (cases p) auto
      note po = sock_recv_poll [OF "1.prems"(3) big rv]
      show ?thesis
      proof (cases r)
        case (Failed e)
        then have rk: "tcp_interface_recv_kiss i buf es
            = Some (0, i\<lparr>recv_kiss := st, recv_partial := []\<rparr>, b, es1)"
          using c s m0 rv po by (simp add: tcp_interface_recv_kiss_def Let_def)
        with "1.IH" [OF rk refl refl refl] "1.prems" po Failed feed m0 show ?thesis
          by (simp add: tcp_drain.simps [of i buf es] split: prod.splits)
      next
        case (Got d)
        obtain m2 st2 b2 rest2 where s2: "kiss_scan st b d = (m2, st2, b2, rest2)"
          by (metis prod_cases4)
        have rk: "tcp_interface_recv_kiss i buf es
            = Some (int m2, i\<lparr>recv_kiss := st2, recv_partial := rest2\<rparr>, b2, es1)"
          using c s m0 rv po Got s2 by (simp add: tcp_interface_recv_kiss_def Let_def)
        have "kiss_feed st b (event_bytes es)
            = (case kiss_feed st2 b2 (rest2 @ event_bytes es1) of (fs, r) \<Rightarrow>
                 ((if 0 < m2 then take m2 b2 # fs else fs), r))"
          using kiss_scan_feed [OF s2, of "event_bytes es1"] po Got by simp
        with "1.IH" [OF rk refl refl refl] "1.prems" po rk feed m0 show ?thesis
          by (auto simp: tcp_drain.simps [of i buf es] split: prod.splits)
      qed
    qed
  qed
qed

definition sample_iface :: tcp_interface where
  "sample_iface = snd (tcp_interface_connect (tcp_interface_init
     \<lparr>socket = 0, connected = False, shutdown = False, ip = [], port = 0, tx_mutex = False,
      recv_kiss = kiss_init, recv_partial = []\<rparr> None 0) 3 1 0)"

lemma sample_iface_facts:
  "connected sample_iface" "socket sample_iface = 3" "recv_kiss sample_iface = kiss_init"
  "recv_partial sample_iface = []"
  by (simp_all add: sample_iface_def tcp_interface_connect_def tcp_interface_init_def Let_def)

text \<open>C20: The frames a connected receiver takes from the socket depend only on the bytes that arrive:
  however the kernel cuts them into receives, and whether a receive ends inside a frame, behind
  several frames or with EAGAIN, the calls return the frames of one uninterrupted decoder run.\<close>

theorem tcp_chunking_invisible:
  assumes "connected i" and "0 \<le> socket i" and "list_all poll_event es"
  shows "tcp_drain i buf es = fst (kiss_feed (recv_kiss i) buf (recv_partial i @ event_bytes es))"
  using tcp_drain_feed [OF assms] .

lemma tcp_chunking_invisible_witness:
  "tcp_drain sample_iface (replicate 756 0) [Data [0xC0, 2, 5, 0xC0, 0xC0], Fail EAGAIN, Data [2, 6, 0xC0]]
   = tcp_drain sample_iface (replicate 756 0) [Data [0xC0, 2], Data [5, 0xC0, 0xC0, 2, 6, 0xC0]]"
  using tcp_chunking_invisible [of sample_iface "[Data [0xC0, 2, 5, 0xC0, 0xC0], Fail EAGAIN, Data [2, 6, 0xC0]]"]
    tcp_chunking_invisible [of sample_iface "[Data [0xC0, 2], Data [5, 0xC0, 0xC0, 2, 6, 0xC0]]"]
  by (simp add: sample_iface_facts poll_event_def)

subsection \<open>From one end to the other\<close>

text \<open>A sender that sends a list of blocks; the bytes that went out.\<close>

fun send_all :: "tcp_interface \<Rightarrow> bytes list \<Rightarrow> (bytes \<Rightarrow> int) \<Rightarrow> bytes \<times> tcp_interface" where
  "send_all i [] k = ([], i)"
| "send_all i (p # ps) k =
     (case tcp_interface_send_kiss i p k of (r, out, i') \<Rightarrow>
        (case send_all i' ps k of (out', i'') \<Rightarrow> (out @ out', i'')))"

lemma send_all_full:
  assumes "connected i" and "0 \<le> socket i" and "\<And>b. k b = int (length b)"
  shows "send_all i ps k = (concat (map kiss_write_frame ps), i)"
  using assms(1,2)
  by (induction ps arbitrary: i) (simp_all add: tcp_interface_send_kiss_def Let_def assms(3))

text \<open>C19: Whatever blocks of 1 to \<open>MAX_PAYLOAD\<close> bytes are sent through a connection whose sends are
  complete, and however the stream is cut on the way, a freshly connected receiver gets exactly
  these blocks, in order, for every content of the bytes.\<close>

theorem tcp_end_to_end:
  assumes "connected s" and "0 \<le> socket s" and "list_all frame_ok ps"
    and "connected r" and "0 \<le> socket r" and "recv_kiss r = kiss_init" and "recv_partial r = []"
    and "MAX_PAYLOAD \<le> length buf" and "list_all poll_event es"
    and "event_bytes es = fst (send_all s ps (\<lambda>b. int (length b)))"
  shows "tcp_drain r buf es = ps"
proof -
  have "event_bytes es = concat (map kiss_write_frame ps)"
    using assms(10) send_all_full [OF assms(1,2), of "\<lambda>b. int (length b)" ps] by simp
  moreover have "\<not> receiving kiss_init" "\<not> escape kiss_init"
    by (simp_all add: receiving_def kiss_init_def)
  ultimately show ?thesis
    using tcp_drain_feed [OF assms(4,5,9)] kiss_feed_frames [OF _ _ assms(3,8)] assms(6,7) by fastforce
qed

lemma tcp_end_to_end_witness:
  "tcp_drain sample_iface (replicate 756 0) [Data [0xC0, 2, 0xDB], Data [0xDC, 7, 0xC0]] = [[0xC0, 7]]"
  by (rule tcp_end_to_end [of sample_iface "[[0xC0, 7]]"])
    (simp_all only: send_all_full sample_iface_facts,
      simp_all add: sample_iface_facts frame_ok_def poll_event_def MAX_PAYLOAD_def
        kiss_write_frame_def kiss_escape_def kiss_bytes)

end
