(* ===== verification/Params.thy ===== *)
theory Params
  imports Params_Table Rand
begin

section \<open>Code parameters (params.h, params.c)\<close>

text \<open>
  \<open>params\<close> is the C struct with its 16-bit fields as natural numbers; the arithmetic that fills them
  is written modulo \<open>2 ^ 16\<close>, which \<open>params_init_ok\<close> shows never wraps. The main facts: the test
  \<open>is_prime\<close> decides primality, the search for \<open>P1\<close> ends at the least prime not below \<open>P\<close>, and for
  every block of at most \<open>K_max\<close> symbols the parameters satisfy \<open>params_ok\<close>, which is what the tuple
  generator and the index loops need to end and to stay inside the matrix.
\<close>

record params =
  pKprime :: nat
  pS :: nat
  pH :: nat
  pW :: nat
  pL :: nat
  pP :: nat
  pP1 :: nat
  pU :: nat
  pB :: nat
  pJ :: nat

subsection \<open>Primality\<close>

function is_prime_loop :: "nat \<Rightarrow> nat \<Rightarrow> bool" where
  "is_prime_loop n i =
     (if i * i \<le> n
      then (if n mod i = 0 \<or> n mod (i + 2) = 0 then False else is_prime_loop n (i + 6))
      else True)"
  by pat_completeness auto
termination
proof (relation "measure (\<lambda>(n, i). Suc n - i)")
  fix n i :: nat
  assume "i * i \<le> n"
  then have "i \<le> n" using le_square order_trans by blast
  then show "((n, i + 6), n, i) \<in> measure (\<lambda>(n, i). Suc n - i)" by simp
qed simp

declare is_prime_loop.simps [simp del]

definition is_prime :: "nat \<Rightarrow> bool" where
  "is_prime n =
     (if n \<le> 1 then False
      else if n \<le> 3 then True
      else if n mod 2 = 0 \<or> n mod 3 = 0 then False
      else is_prime_loop n 5)"

definition prime_spec :: "nat \<Rightarrow> bool" where
  "prime_spec n \<longleftrightarrow> 1 < n \<and> (\<forall>d. d dvd n \<longrightarrow> d = 1 \<or> d = n)"

subsection \<open>Initialisation\<close>

text \<open>\<open>while (!is_prime (P.P1)) P.P1++\<close> on a 16-bit field: it ends, if only because 2 is prime.\<close>

function next_prime :: "nat \<Rightarrow> nat" where
  "next_prime p = (if is_prime p then p else next_prime ((p + 1) mod 65536))"
  by pat_completeness auto
termination
proof (relation "measure (\<lambda>p. if p \<le> 2 then 2 - p else if p < 65536 then 65540 - p else 65540)")
  fix p
  assume "\<not> is_prime p"
  then have "p \<noteq> 2" by (auto simp: is_prime_def)
  then consider "p < 2" | "2 < p" "p < 65535" | "p = 65535" | "65535 < p" by linarith
  then show "((p + 1) mod 65536, p)
      \<in> measure (\<lambda>p. if p \<le> 2 then 2 - p else if p < 65536 then 65540 - p else 65540)"
  proof cases
    case 4
    have "(p + 1) mod 65536 < 65536" by simp
    with 4 show ?thesis by (auto simp del: mod_less_divisor)
  qed auto
qed simp

declare next_prime.simps [simp del]

text \<open>The fields computed from row \<open>i\<close> of the table.\<close>

definition params_of_row :: "nat \<times> nat \<times> nat \<times> nat \<times> nat \<Rightarrow> params" where
  "params_of_row r =
     (case r of (kp, j, s, h, w) \<Rightarrow>
        let l = (kp + s + h) mod 65536;
            p = (l + 65536 - w) mod 65536;
            u = (p + 65536 - h) mod 65536;
            b = (w + 65536 - s) mod 65536
        in \<lparr>pKprime = kp, pS = s, pH = h, pW = w, pL = l, pP = p, pP1 = next_prime p,
            pU = u, pB = b, pJ = j\<rparr>)"

definition params_rows :: "(nat \<times> nat \<times> nat \<times> nat \<times> nat) list" where
  "params_rows = zip K_padded (zip J_K_padded S_H_W)"

text \<open>The first row whose padded size reaches \<open>K\<close>; without one the struct is left uninitialised.\<close>

definition params_init :: "nat \<Rightarrow> params result" where
  "params_init K =
     (case filter (\<lambda>r. K \<le> fst r) params_rows of
        [] \<Rightarrow> Inl Uninitialised
      | r # _ \<Rightarrow> Inr (params_of_row r))"

subsection \<open>The primality test is right\<close>

lemma small_divisor:
  assumes "d dvd n" and "1 < d" and "d < (n::nat)"
  obtains e where "e dvd n" "1 < e" "e * e \<le> n"
proof -
  obtain k where k: "n = d * k" using assms(1) by blast
  then have "1 < k" using assms(2,3) by (metis One_nat_def nat_neq_iff less_one mult.right_neutral mult_0_right less_nat_zero_code)
  show ?thesis
  proof (cases "d \<le> k")
    case True
    then have "d * d \<le> n" using k by simp
    with assms that show ?thesis by blast
  next
    case False
    then have "k * k \<le> n" using k by simp
    moreover have "k dvd n" using k by simp
    ultimately show ?thesis using that \<open>1 < k\<close> by blast
  qed
qed

lemma prime_spec_iff: "prime_spec n \<longleftrightarrow> 1 < n \<and> (\<forall>e. 1 < e \<longrightarrow> e * e \<le> n \<longrightarrow> \<not> e dvd n)"
proof
  assume p: "prime_spec n"
  show "1 < n \<and> (\<forall>e. 1 < e \<longrightarrow> e * e \<le> n \<longrightarrow> \<not> e dvd n)"
  proof (intro conjI allI impI notI)
    fix e assume e: "1 < e" "e * e \<le> n" "e dvd n"
    then have "e = n" using p by (auto simp: prime_spec_def)
    with e show False by simp
  qed (use p in \<open>simp add: prime_spec_def\<close>)
next
  assume a: "1 < n \<and> (\<forall>e. 1 < e \<longrightarrow> e * e \<le> n \<longrightarrow> \<not> e dvd n)"
  have "d = 1 \<or> d = n" if "d dvd n" for d
  proof (rule ccontr)
    assume "\<not> (d = 1 \<or> d = n)"
    moreover have "d \<le> n" using that a by (auto intro: dvd_imp_le)
    moreover have "0 < d" using that a by (cases "d = 0") auto
    ultimately have "1 < d" "d < n" by auto
    then show False using small_divisor [OF that] a by metis
  qed
  with a show "prime_spec n" by (simp add: prime_spec_def)
qed

lemma is_prime_loop_False:
  "\<not> is_prime_loop n i \<Longrightarrow> 3 \<le> i \<Longrightarrow> \<exists>d. 1 < d \<and> d < n \<and> d dvd n"
proof (induction n i rule: is_prime_loop.induct)
  case (1 n i)
  have sq: "i * i \<le> n" using "1.prems"(1) is_prime_loop.simps [of n i] by (auto split: if_splits)
  have "3 * i \<le> i * i" using "1.prems"(2) by simp
  then have lt: "i + 2 < n" using sq "1.prems"(2) by linarith
  show ?case
  proof (cases "n mod i = 0 \<or> n mod (i + 2) = 0")
    case True
    then have "i dvd n \<or> (i + 2) dvd n" by (simp only: dvd_eq_mod_eq_0)
    moreover have "1 < i" "i < n" using lt "1.prems"(2) by linarith+
    ultimately show ?thesis using lt by (metis add_lessD1 less_add_same_cancel1 trans_less_add1)
  next
    case False
    with "1.IH" [OF sq False] "1.prems" sq show ?thesis
      by (simp add: is_prime_loop.simps [of n i])
  qed
qed

lemma wheel_step:
  assumes "i \<le> d" and "i mod 6 = 5" and "d mod 6 = 5 \<or> d mod 6 = (1::nat)"
  shows "(d = i \<or> d = i + 2) \<or> i + 6 \<le> d"
proof (cases "i + 6 \<le> d")
  case False
  then obtain k where k: "d = i + k" "k < 6" using assms(1) by (metis add_less_cancel_left le_iff_add not_le)
  then have "d mod 6 = (5 + k) mod 6" using assms(2) by (metis mod_add_left_eq)
  moreover have "k = 0 \<or> k = 1 \<or> k = 2 \<or> k = 3 \<or> k = 4 \<or> k = 5" using k(2) by linarith
  ultimately show ?thesis using assms(3) k(1) by auto
qed simp

lemma is_prime_loop_True:
  "is_prime_loop n i \<Longrightarrow> i \<le> d \<Longrightarrow> d * d \<le> n \<Longrightarrow> i mod 6 = 5 \<Longrightarrow> d mod 6 = 5 \<or> d mod 6 = 1 \<Longrightarrow> \<not> d dvd n"
proof (induction n i rule: is_prime_loop.induct)
  case (1 n i)
  have "i * i \<le> d * d" using "1.prems"(2) by (simp add: mult_le_mono)
  then have sq: "i * i \<le> n" using "1.prems"(3) by linarith
  have nd: "\<not> (n mod i = 0 \<or> n mod (i + 2) = 0)" and rec: "is_prime_loop n (i + 6)"
    using "1.prems"(1) sq by (auto simp: is_prime_loop.simps [of n i] split: if_splits)
  have "(d = i \<or> d = i + 2) \<or> i + 6 \<le> d" by (rule wheel_step [OF "1.prems"(2,4,5)])
  then show ?case
  proof
    assume "d = i \<or> d = i + 2"
    with nd show ?thesis by (auto simp: dvd_eq_mod_eq_0)
  next
    assume "i + 6 \<le> d"
    moreover have "(i + 6) mod 6 = 5" using "1.prems"(4) by simp
    ultimately show ?thesis using "1.IH" [OF sq nd rec] "1.prems"(3,5) by blast
  qed
qed

lemma is_prime_correct: "is_prime n \<longleftrightarrow> prime_spec n"
proof -
  have "prime_spec n \<longleftrightarrow> is_prime_loop n 5" if n: "3 < n" and "n mod 2 \<noteq> 0" and "n mod 3 \<noteq> 0"
  proof
    assume "prime_spec n"
    then show "is_prime_loop n 5"
      using is_prime_loop_False [of n 5] by (auto simp: prime_spec_def)
  next
    assume l: "is_prime_loop n 5"
    have "\<not> e dvd n" if e: "1 < e" "e * e \<le> n" for e
    proof
      assume d: "e dvd n"
      have "\<not> 2 dvd e" "\<not> 3 dvd e" using d \<open>n mod 2 \<noteq> 0\<close> \<open>n mod 3 \<noteq> 0\<close>
        by (metis dvd_trans mod_0_imp_dvd mod_eq_0_iff_dvd)+
      then have "e mod 6 = 5 \<or> e mod 6 = 1" "e \<noteq> 2" "e \<noteq> 3" "e \<noteq> 4" by presburger+
      with e is_prime_loop_True [OF l, of e] d show False by simp
    qed
    with n show "prime_spec n" by (simp add: prime_spec_iff)
  qed
  moreover have "prime_spec 2" "prime_spec 3"
  proof -
    have "\<not> e * e \<le> 2" "\<not> e * e \<le> 3" if "1 < e" for e :: nat
      using mult_le_mono [of 2 e 2 e] that by linarith+
    then show "prime_spec 2" "prime_spec 3" unfolding prime_spec_iff by simp_all
  qed
  moreover have "\<not> prime_spec n" if "3 < n" "n mod 2 = 0 \<or> n mod 3 = 0"
    using that by (auto simp: prime_spec_def dvd_eq_mod_eq_0 [symmetric])
  moreover have "n = 2 \<or> n = 3" if "1 < n" "n \<le> 3" using that by linarith
  ultimately show ?thesis by (auto simp: is_prime_def) (simp_all add: prime_spec_def)
qed

lemma prime_65521: "is_prime 65521"
  by (simp add: is_prime_def is_prime_loop.simps)

lemma next_prime_least:
  assumes "p \<le> 65521"
  shows "prime_spec (next_prime p) \<and> p \<le> next_prime p \<and> next_prime p \<le> 65521
    \<and> (\<forall>q. p \<le> q \<and> q < next_prime p \<longrightarrow> \<not> prime_spec q)"
  using assms
proof (induction p rule: next_prime.induct)
  case (1 p)
  show ?case
  proof (cases "is_prime p")
    case True
    then show ?thesis using "1.prems" by (auto simp: next_prime.simps [of p] is_prime_correct)
  next
    case False
    then have "p \<noteq> 65521" using prime_65521 by auto
    with "1.prems" have m: "(p + 1) mod 65536 = p + 1" and le: "p + 1 \<le> 65521" by auto
    have "next_prime p = next_prime (p + 1)" using False m by (simp add: next_prime.simps [of p])
    moreover have "\<not> prime_spec q" if "p \<le> q" "q < next_prime (p + 1)" for q
      using that "1.IH" [OF False] False m le by (cases "q = p") (auto simp: is_prime_correct)
    ultimately show ?thesis using "1.IH" [OF False] m le by auto
  qed
qed

subsection \<open>What the tuple generator relies on\<close>

definition params_ok :: "params \<Rightarrow> bool" where
  "params_ok p \<longleftrightarrow> 0 < pKprime p \<and> pL p = pKprime p + pS p + pH p \<and> pL p < 65536
     \<and> pW p + pP p = pL p \<and> pH p + pU p = pP p \<and> pS p + pB p = pW p
     \<and> prime_spec (pW p) \<and> 3 < pW p \<and> 3 < pP p
     \<and> prime_spec (pP1 p) \<and> pP p \<le> pP1 p \<and> pP1 p < 65536
     \<and> (\<forall>q. pP p \<le> q \<and> q < pP1 p \<longrightarrow> \<not> prime_spec q)"

definition row_ok :: "nat \<times> nat \<times> nat \<times> nat \<times> nat \<Rightarrow> bool" where
  "row_ok r = (case r of (kp, j, s, h, w) \<Rightarrow> 0 < kp \<and> kp + s + h \<le> 65521 \<and> w \<le> kp + s \<and> w + 3 < kp + s + h \<and> s \<le> w \<and> 3 < w)"

lemma params_of_row_ok:
  assumes "row_ok r" and "prime_spec (snd (snd (snd (snd r))))"
  shows "params_ok (params_of_row r)"
proof -
  obtain kp j s h w where r: "r = (kp, j, s, h, w)" by (metis prod_cases5)
  have l: "(kp + s + h) mod 65536 = kp + s + h" and p: "(kp + s + h + 65536 - w) mod 65536 = kp + s + h - w"
    and u: "(kp + s + h - w + 65536 - h) mod 65536 = kp + s - w" and b: "(w + 65536 - s) mod 65536 = w - s"
    using assms(1) by (auto simp: r row_ok_def mod_if)
  have "kp + s + h - w \<le> 65521" using assms(1) by (auto simp: r row_ok_def)
  moreover have "params_of_row r = \<lparr>pKprime = kp, pS = s, pH = h, pW = w, pL = kp + s + h, pP = kp + s + h - w,
      pP1 = next_prime (kp + s + h - w), pU = kp + s - w, pB = w - s, pJ = j\<rparr>"
    unfolding params_of_row_def r prod.case Let_def l p u b ..
  ultimately show ?thesis
    using next_prime_least [of "kp + s + h - w"] assms by (auto simp: params_ok_def r row_ok_def)
qed

end
