(* ===== verification/Params_Check.thy ===== *)
theory Params_Check
  imports Params
begin

section \<open>Every row of the systematic index table\<close>

text \<open>
  The 477 rows of the table satisfy what the tuple generator relies on; in particular every \<open>W\<close> is
  prime, which \<open>no_factor\<close> shows by trial division with the primes up to 239 over the integers.
\<close>

definition small_primes :: "int list" where
  "small_primes = [
    2, 3, 5, 7, 11, 13, 17, 19, 23, 29, 31, 37, 41, 43, 47, 53, 59, 61, 67, 71, 73, 79, 83, 89,
    97, 101, 103, 107, 109, 113, 127, 131, 137, 139, 149, 151, 157, 163, 167, 173, 179, 181,
    191, 193, 197, 199, 211, 223, 227, 229, 233, 239]"

fun no_factor :: "int list \<Rightarrow> int \<Rightarrow> bool" where
  "no_factor [] w = False"
| "no_factor (q # qs) w = (if w < q * q then True else if w mod q = 0 then False else no_factor qs w)"

lemma no_factor_sound:
  "no_factor qs w \<Longrightarrow> sorted qs \<Longrightarrow> q \<in> set qs \<Longrightarrow> list_all (\<lambda>q. 0 < q) qs \<Longrightarrow> q * q \<le> w \<Longrightarrow> \<not> q dvd w"
proof (induction qs w rule: no_factor.induct)
  case (2 p qs w)
  show ?case
  proof (cases "w < p * p")
    case True
    have "p \<le> q" "0 < p" using "2.prems"(2-4) by auto
    then have "p * p \<le> q * q" by (simp add: mult_mono)
    with True "2.prems"(5) show ?thesis by simp
  next
    case False
    then show ?thesis using "2.prems" "2.IH" by (auto split: if_splits simp: dvd_eq_mod_eq_0)
  qed
qed simp

lemma small_primes_cover:
  assumes "1 < e" and "e < 239"
  shows "\<exists>q \<in> set small_primes. q dvd e \<and> q \<le> e"
proof -
  have "list_all (\<lambda>e. list_ex (\<lambda>q. e mod q = 0 \<and> q \<le> e) small_primes) [2..238]"
    unfolding small_primes_def by code_simp
  moreover have "e \<in> set [2..238]" using assms unfolding set_upto atLeastAtMost_iff by linarith
  ultimately have "list_ex (\<lambda>q. e mod q = 0 \<and> q \<le> e) small_primes" unfolding list_all_iff by (rule bspec)
  then show ?thesis by (auto simp: list_ex_iff dvd_eq_mod_eq_0)
qed

lemma no_factor_prime:
  assumes "no_factor small_primes (int w)" and "1 < w" and "w < 57121"
  shows "prime_spec w"
  unfolding prime_spec_iff
proof (intro conjI allI impI notI)
  fix e assume e: "1 < e" "e * e \<le> w" "e dvd w"
  have "e < 239"
  proof (rule ccontr)
    assume "\<not> e < 239"
    then have "239 * 239 \<le> e * e" using mult_le_mono [of 239 e 239 e] by linarith
    with e(2) assms(3) show False by simp
  qed
  then obtain q where q: "q \<in> set small_primes" "q dvd int e" "q \<le> int e"
    using small_primes_cover [of "int e"] e(1) by auto
  have pos: "list_all (\<lambda>q. 0 < q) small_primes" "sorted small_primes" by (simp_all add: small_primes_def)
  then have "0 < q" using q(1) by (auto simp: list_all_iff)
  then have "q * q \<le> int e * int e" using q(3) by (simp add: mult_mono)
  also have "\<dots> \<le> int w" using e(2) by (metis of_nat_le_iff of_nat_mult)
  finally have "\<not> q dvd int w" using no_factor_sound [OF assms(1) pos(2) q(1) pos(1)] by simp
  moreover have "q dvd int w" using q(2) e(3) by (meson dvd_trans of_nat_dvd_iff)
  ultimately show False by contradiction
qed (use assms in simp)

subsection \<open>Trial division\<close>

lemma w_primes_0: "list_all (no_factor small_primes) [
    17, 19, 29, 31, 37, 41, 43, 47, 53, 59, 61, 61, 67, 71, 73, 79, 89, 97, 101, 103, 107, 109,
    113, 127, 131, 137, 139, 149, 151, 163, 167, 173, 179, 181, 191, 193, 197, 199, 211, 223]"
  unfolding small_primes_def by code_simp

lemma w_primes_1: "list_all (no_factor small_primes) [
    233, 241, 251, 257, 263, 271, 277, 283, 293, 307, 313, 317, 337, 349, 353, 359, 367, 373,
    379, 389, 397, 401, 409, 421, 433, 443, 449, 461, 467, 479, 491, 499, 503, 509, 523, 541,
    547, 557, 563, 571]"
  unfolding small_primes_def by code_simp

lemma w_primes_2: "list_all (no_factor small_primes) [
    577, 587, 593, 601, 607, 613, 619, 631, 647, 653, 661, 683, 691, 701, 709, 719, 733, 743,
    751, 761, 773, 797, 811, 821, 829, 839, 853, 863, 877, 887, 907, 919, 929, 941, 953, 971,
    983, 997, 1009, 1021]"
  unfolding small_primes_def by code_simp

lemma w_primes_3: "list_all (no_factor small_primes) [
    1039, 1051, 1069, 1093, 1103, 1117, 1129, 1153, 1171, 1187, 1201, 1223, 1237, 1259, 1277,
    1291, 1307, 1327, 1367, 1381, 1409, 1423, 1439, 1459, 1483, 1499, 1523, 1543, 1559, 1583,
    1601, 1621, 1637, 1669, 1699, 1723, 1741, 1759, 1783, 1801]"
  unfolding small_primes_def by code_simp

lemma w_primes_4: "list_all (no_factor small_primes) [
    1823, 1847, 1867, 1889, 1913, 1931, 1951, 1979, 2003, 2029, 2069, 2099, 2131, 2153, 2179,
    2221, 2243, 2273, 2311, 2347, 2371, 2399, 2423, 2447, 2477, 2503, 2531, 2557, 2593, 2633,
    2671, 2699, 2731, 2767, 2801, 2833, 2861, 2909, 2939, 2971]"
  unfolding small_primes_def by code_simp

lemma w_primes_5: "list_all (no_factor small_primes) [
    3011, 3049, 3089, 3137, 3187, 3221, 3259, 3299, 3347, 3391, 3433, 3469, 3511, 3547, 3583,
    3623, 3659, 3701, 3739, 3793, 3833, 3881, 3923, 3967, 4013, 4057, 4111, 4159, 4211, 4253,
    4297, 4363, 4409, 4463, 4513, 4567, 4621, 4679, 4733, 4783]"
  unfolding small_primes_def by code_simp

lemma w_primes_6: "list_all (no_factor small_primes) [
    4831, 4889, 4951, 5003, 5059, 5113, 5171, 5227, 5279, 5333, 5387, 5443, 5507, 5563, 5623,
    5693, 5749, 5821, 5881, 5953, 6037, 6101, 6163, 6229, 6299, 6361, 6427, 6491, 6581, 6653,
    6719, 6803, 6871, 6949, 7027, 7103, 7177, 7253, 7351, 7433]"
  unfolding small_primes_def by code_simp

lemma w_primes_7: "list_all (no_factor small_primes) [
    7517, 7591, 7669, 7759, 7853, 7937, 8017, 8111, 8191, 8273, 8369, 8467, 8563, 8647, 8741,
    8831, 8923, 9013, 9103, 9199, 9293, 9391, 9491, 9587, 9697, 9803, 9907, 10009, 10111, 10223,
    10343, 10453, 10559, 10667, 10781, 10891, 11003, 11119, 11239, 11353]"
  unfolding small_primes_def by code_simp

lemma w_primes_8: "list_all (no_factor small_primes) [
    11471, 11587, 11701, 11821, 11941, 12073, 12203, 12323, 12451, 12577, 12721, 12853, 12983,
    13127, 13267, 13421, 13553, 13693, 13829, 13967, 14107, 14251, 14407, 14551, 14699, 14851,
    15013, 15161, 15319, 15473, 15643, 15803, 15959, 16127, 16319, 16493, 16661, 16831, 17011,
    17183]"
  unfolding small_primes_def by code_simp

lemma w_primes_9: "list_all (no_factor small_primes) [
    17359, 17539, 17729, 17911, 18097, 18289, 18481, 18679, 18869, 19087, 19309, 19507, 19727,
    19927, 20129, 20341, 20551, 20759, 20983, 21191, 21401, 21613, 21841, 22063, 22283, 22511,
    22751, 22993, 23227, 23473, 23719, 23957, 24197, 24443, 24709, 24953, 25219, 25471, 25733,
    26003]"
  unfolding small_primes_def by code_simp

lemma w_primes_10: "list_all (no_factor small_primes) [
    26267, 26539, 26821, 27091, 27367, 27653, 27953, 28229, 28517, 28817, 29131, 29423, 29717,
    30013, 30323, 30631, 30949, 31267, 31583, 31907, 32251, 32579, 32917, 33247, 33601, 33941,
    34283, 34631, 34981, 35363, 35731, 36097, 36457, 36833, 37201, 37579, 37967, 38351, 38749,
    39163]"
  unfolding small_primes_def by code_simp

lemma w_primes_11: "list_all (no_factor small_primes) [
    39551, 39953, 40361, 40787, 41213, 41621, 42043, 42467, 42899, 43331, 43801, 44257, 44701,
    45161, 45613, 46073, 46549, 47017, 47507, 47981, 48463, 48953, 49451, 49943, 50461, 50993,
    51503, 52027, 52571, 53093, 53623, 54163, 54713, 55259, 55817, 56393, 56951]"
  unfolding small_primes_def by code_simp

lemma w_primes: "list_all (\<lambda>(s, h, w). no_factor small_primes (int w)) S_H_W"
  using w_primes_0 w_primes_1 w_primes_2 w_primes_3 w_primes_4 w_primes_5 w_primes_6 w_primes_7
    w_primes_8 w_primes_9 w_primes_10 w_primes_11
  by (simp add: S_H_W_def)

subsection \<open>The parameters of every block size\<close>

lemma rows_ok: "list_all row_ok params_rows"
  by (simp add: params_rows_def K_padded_def J_K_padded_def S_H_W_def row_ok_def)

lemma rows_bound: "list_all (\<lambda>r. snd (snd (snd (snd r))) < 57121) params_rows"
  by (simp add: params_rows_def K_padded_def J_K_padded_def S_H_W_def)

lemma rows_primes: "r \<in> set params_rows \<Longrightarrow> no_factor small_primes (int (snd (snd (snd (snd r)))))"
  using w_primes by (cases r) (auto simp: params_rows_def list_all_iff dest!: set_zip_rightD)

lemma rows_params_ok:
  assumes "r \<in> set params_rows"
  shows "params_ok (params_of_row r)"
proof (rule params_of_row_ok)
  show ok: "row_ok r" using assms rows_ok by (simp add: list_all_iff)
  show "prime_spec (snd (snd (snd (snd r))))"
    using no_factor_prime [OF rows_primes [OF assms]] assms rows_bound ok
    by (auto simp: list_all_iff row_ok_def split: prod.splits)
qed

lemma rows_K_max: "(56403, 471, 907, 16, 56951) \<in> set params_rows"
  by (simp add: params_rows_def K_padded_def J_K_padded_def S_H_W_def)

lemma fst_rows: "map fst params_rows = K_padded"
  by (simp add: params_rows_def K_padded_def J_K_padded_def S_H_W_def)

lemma rows_sorted: "sorted (map fst params_rows)"
  unfolding fst_rows K_padded_def by (simp add: sorted2 sorted1 del: sorted_wrt.simps(2))

lemma first_row: "filter (\<lambda>r. K \<le> fst r) params_rows = r # rs \<Longrightarrow> r \<in> set params_rows \<and> K \<le> fst r"
  by (metis (mono_tags, lifting) filter_eq_ConsD in_set_conv_decomp)

lemma params_init_row:
  assumes "K \<le> K_max"
  obtains r where "r \<in> set params_rows" "params_init K = Inr (params_of_row r)" "K \<le> fst r"
proof -
  have "filter (\<lambda>r. K \<le> fst r) params_rows \<noteq> []"
    using rows_K_max assms by (auto simp: filter_empty_conv K_max_def intro!: bexI)
  then obtain r rs where f: "filter (\<lambda>r. K \<le> fst r) params_rows = r # rs"
    by (meson neq_Nil_conv)
  then have "r \<in> set params_rows" "K \<le> fst r" using first_row by blast+
  with f that show thesis by (simp add: params_init_def)
qed

lemma params_init_ok:
  assumes "K \<le> K_max"
  obtains p where "params_init K = Inr p" "params_ok p" "K \<le> pKprime p"
proof -
  obtain r where r: "r \<in> set params_rows" "params_init K = Inr (params_of_row r)" "K \<le> fst r"
    using params_init_row [OF assms] .
  have "pKprime (params_of_row r) = fst r" by (simp add: params_of_row_def Let_def split: prod.splits)
  with r rows_params_ok [OF r(1)] that show thesis by simp
qed

text \<open>C21: For every block of at most \<open>K_max\<close> symbols \<open>params_init\<close> fills the struct, with no 16-bit
  field wrapping: \<open>K'\<close> is the least table size reaching \<open>K\<close>, the matrix width splits into the LT
  and PI parts (\<open>L = W + P\<close>, \<open>W = S + B\<close>, \<open>P = H + U\<close>), \<open>W\<close> is prime and \<open>P1\<close> is the least prime
  not below \<open>P\<close>; a larger block leaves the struct uninitialised.\<close>

theorem params_init_correct:
  "(K \<le> K_max \<longrightarrow> (\<exists>p. params_init K = Inr p \<and> params_ok p \<and> K \<le> pKprime p
      \<and> pKprime p \<in> set K_padded \<and> (\<forall>k \<in> set K_padded. K \<le> k \<longrightarrow> pKprime p \<le> k)))
   \<and> (K_max < K \<longrightarrow> params_init K = Inl Uninitialised)"
proof (intro conjI impI)
  assume K: "K \<le> K_max"
  obtain q where "q \<in> set params_rows" "K \<le> fst q" using params_init_row [OF K] by metis
  then have "filter (\<lambda>r. K \<le> fst r) params_rows \<noteq> []" by (auto simp: filter_empty_conv)
  then obtain r rs where f: "filter (\<lambda>r. K \<le> fst r) params_rows = r # rs"
    by (meson neq_Nil_conv)
  then have r: "r \<in> set params_rows" "K \<le> fst r" using first_row by blast+
  have kp: "pKprime (params_of_row r) = fst r" by (simp add: params_of_row_def Let_def split: prod.splits)
  have "fst r \<le> k" if k: "k \<in> set K_padded" "K \<le> k" for k
  proof -
    have "sorted (map fst (r # rs))" using sorted_filter [OF rows_sorted, of "\<lambda>r. K \<le> fst r"] f by simp
    moreover obtain q where "q \<in> set params_rows" "fst q = k" using k(1) fst_rows by (metis image_iff set_map)
    then have "q \<in> set (filter (\<lambda>r. K \<le> fst r) params_rows)" using k(2) by simp
    then have "q \<in> set (r # rs)" by (simp only: f)
    ultimately show ?thesis using \<open>fst q = k\<close> by auto
  qed
  moreover have "fst r \<in> set K_padded" using r(1) fst_rows by (metis image_eqI set_map)
  ultimately show "\<exists>p. params_init K = Inr p \<and> params_ok p \<and> K \<le> pKprime p
      \<and> pKprime p \<in> set K_padded \<and> (\<forall>k \<in> set K_padded. K \<le> k \<longrightarrow> pKprime p \<le> k)"
    using f rows_params_ok [OF r(1)] kp r(2) by (auto simp: params_init_def)
next
  assume "K_max < K"
  then have "list_all (\<lambda>r. \<not> K \<le> fst r) params_rows"
    by (simp add: params_rows_def K_padded_def J_K_padded_def S_H_W_def K_max_def)
  then have "filter (\<lambda>r. K \<le> fst r) params_rows = []" by (auto simp: list_all_iff filter_empty_conv)
  then show "params_init K = Inl Uninitialised" by (simp add: params_init_def)
qed

lemma params_init_correct_witness:
  "(\<exists>p. params_init 11 = Inr p \<and> params_ok p) \<and> params_init 60000 = Inl Uninitialised"
  using params_init_correct [of 11] params_init_correct [of 60000] by (auto simp: K_max_def)

end
