(* ===== verification/Tuple.thy ===== *)
theory Tuple
  imports Params
begin

section \<open>Tuples and the columns of an encoding row (tuple.h, tuple.c, params.c)\<close>

text \<open>
  \<open>gen_tuple\<close> derives from an internal symbol id the six numbers that choose the intermediate symbols
  of a row, and \<open>params_set_idxs\<close> walks them. The walk skips permutation positions with a \<open>while\<close>
  loop that need not end for arbitrary parameters, so it is a \<open>partial_function\<close>; that it ends, and
  that the row then has \<open>d + d1\<close> distinct columns inside the matrix, rests on \<open>params_ok\<close>. The 32-bit
  sums of the walk stay below \<open>2 ^ 17\<close>, so its fields are natural numbers.
\<close>

record rq_tuple =
  t_d :: nat
  t_a :: nat
  t_b :: nat
  t_d1 :: nat
  t_a1 :: nat
  t_b1 :: nat

definition degree_dist :: "nat list" where
  "degree_dist = [
    0,       5243,    529531,  704294,  791675,  844104,  879057,  904023,
    922747,  937311,  948962,  958494,  966438,  973160,  978921,  983914,
    988283,  992138,  995565,  998631,  1001391, 1003887, 1006157, 1008229,
    1010129, 1011876, 1013490, 1014983, 1016370, 1017662, 1048576]"

text \<open>The first degree whose bound exceeds \<open>v\<close>, capped by \<open>W - 2\<close>; the index of the table grows with \<open>d\<close>.\<close>

fun deg_loop :: "nat list \<Rightarrow> nat \<Rightarrow> nat \<Rightarrow> nat \<Rightarrow> nat" where
  "deg_loop [] d v w = 0"
| "deg_loop (x # xs) d v w =
     (if v < x then (if int d < int w - 2 then d else nat ((int w - 2) mod 65536))
      else deg_loop xs (d + 1) v w)"

definition deg :: "nat \<Rightarrow> nat \<Rightarrow> nat" where
  "deg v w = deg_loop degree_dist 0 v w"

text \<open>Only the low 32 bits of the \<open>size_t\<close> sum \<open>B1 + X * A\<close> survive in \<open>y\<close>.\<close>

definition gen_tuple :: "u32 \<Rightarrow> params \<Rightarrow> rq_tuple" where
  "gen_tuple X p =
     (let a0 = 53591 + pJ p * 997;
          a = (if a0 mod 2 = 0 then a0 + 1 else a0);
          b1 = 10267 * (pJ p + 1);
          y = (of_nat (b1 + unat X * a) :: u32);
          v = rnd_get y 0 (push_bit 20 1);
          d = deg (unat v) (pW p)
      in \<lparr>t_d = d,
          t_a = 1 + unat (rnd_get y 1 (of_nat (pW p) - 1)),
          t_b = unat (rnd_get y 2 (of_nat (pW p))),
          t_d1 = (if d < 4 then 2 + unat (rnd_get X 3 2) else 2),
          t_a1 = 1 + unat (rnd_get X 4 (of_nat (pP1 p) - 1)),
          t_b1 = unat (rnd_get X 5 (of_nat (pP1 p)))\<rparr>)"

subsection \<open>The walk\<close>

text \<open>\<open>while (t.b1 >= P->P) t.b1 = (t.b1 + t.a1) % P->P1\<close>.\<close>

partial_function (option) skip_pi :: "params \<Rightarrow> nat \<Rightarrow> nat \<Rightarrow> nat option" where
  "skip_pi p a1 b1 = (if pP p \<le> b1 then skip_pi p a1 ((b1 + a1) mod pP1 p) else Some b1)"

declare skip_pi.simps [code]

text \<open>The LT columns after the first, and the PI columns after the first: \<open>n\<close> passes of each loop.\<close>

fun lt_walk :: "params \<Rightarrow> nat \<Rightarrow> nat \<Rightarrow> nat \<Rightarrow> nat list" where
  "lt_walk p a b 0 = []"
| "lt_walk p a b (Suc n) = (let b' = (b + a) mod pW p in b' # lt_walk p a b' n)"

fun pi_walk :: "params \<Rightarrow> nat \<Rightarrow> nat \<Rightarrow> nat \<Rightarrow> nat list option" where
  "pi_walk p a1 b1 0 = Some []"
| "pi_walk p a1 b1 (Suc n) =
     (case skip_pi p a1 ((b1 + a1) mod pP1 p) of
        None \<Rightarrow> None
      | Some b1' \<Rightarrow> map_option (\<lambda>xs. (pW p + b1') # xs) (pi_walk p a1 b1' n))"

text \<open>The indices \<open>params_set_idxs\<close> pushes, in order; \<open>None\<close> when a skip does not end.\<close>

definition params_set_idxs :: "u32 \<Rightarrow> params \<Rightarrow> nat list option" where
  "params_set_idxs X p =
     (let t = gen_tuple X p
      in case skip_pi p (t_a1 t) (t_b1 t) of
           None \<Rightarrow> None
         | Some b1 \<Rightarrow>
             map_option (\<lambda>pis. t_b t # lt_walk p (t_a t) (t_b t) (t_d t - 1) @ (pW p + b1) # pis)
               (pi_walk p (t_a1 t) b1 (t_d1 t - 1)))"

subsection \<open>The tuple is in range\<close>

definition tuple_ok :: "params \<Rightarrow> rq_tuple \<Rightarrow> bool" where
  "tuple_ok p t \<longleftrightarrow> 1 \<le> t_d t \<and> t_d t \<le> 30 \<and> t_d t < pW p \<and> 1 \<le> t_a t \<and> t_a t < pW p \<and> t_b t < pW p
     \<and> 2 \<le> t_d1 t \<and> t_d1 t \<le> 3 \<and> 1 \<le> t_a1 t \<and> t_a1 t < pP1 p \<and> t_b1 t < pP1 p"

lemma deg_loop_range:
  "3 < w \<Longrightarrow> w < 65536 \<Longrightarrow> v < last (x # xs) \<Longrightarrow> deg_loop (x # xs) d v w \<le> d + length xs
    \<and> deg_loop (x # xs) d v w < w \<and> (0 < d \<or> x \<le> v \<longrightarrow> 0 < deg_loop (x # xs) d v w)"
proof (induction xs arbitrary: x d)
  case Nil
  then show ?case by (auto simp: nat_less_iff)
next
  case (Cons y ys)
  then show ?case using Cons.IH [of y "d + 1"] by (auto simp: nat_less_iff)
qed

lemma deg_range:
  assumes "3 < w" and "w < 65536" and "v < 1048576"
  shows "1 \<le> deg v w \<and> deg v w \<le> 30 \<and> deg v w < w"
  using deg_loop_range [of w v 0 "tl degree_dist" 0] assms by (simp add: deg_def degree_dist_def)

lemma unat_rnd_get_less:
  assumes "0 < n" and "n < 2 ^ 32"
  shows "unat (rnd_get y i (of_nat n)) < n"
proof -
  have n: "unat (of_nat n :: u32) = n" using assms(2) by (simp add: unat_of_nat)
  then have "(0::u32) < of_nat n" using assms(1) by (simp add: word_less_nat_alt)
  from rnd_get_less [OF this, of y i] show ?thesis by (simp add: word_less_nat_alt n)
qed

lemma gen_tuple_ok:
  assumes "params_ok p"
  shows "tuple_ok p (gen_tuple X p)"
proof -
  have w: "3 < pW p" "pW p < 65536" "1 < pP1 p" "pP1 p < 65536"
    using assms by (auto simp: params_ok_def prime_spec_def)
  have sub: "(of_nat n - 1 :: u32) = of_nat (n - 1)" if "1 < n" for n
    using that by (simp add: of_nat_diff)
  have small: "pW p - 1 < 2 ^ 32" "pW p < 2 ^ 32" "pP1 p - 1 < 2 ^ 32" "pP1 p < 2 ^ 32" using w by simp_all
  have v: "unat (rnd_get y 0 (push_bit 20 1)) < 1048576" for y
    using unat_rnd_get_less [of 1048576 y 0] by (simp add: push_bit_eq_mult)
  have d1: "unat (rnd_get X 3 2) < 2"
    using unat_rnd_get_less [of 2 X 3] by simp
  have a: "1 + unat (rnd_get y 1 (of_nat (pW p) - 1)) < pW p" for y
  proof -
    have gt: "1 < pW p" and pos: "0 < pW p - 1" using w by linarith+
    show ?thesis using unat_rnd_get_less [OF pos small(1), of y 1] unfolding sub [OF gt] by linarith
  qed
  have a1: "1 + unat (rnd_get X 4 (of_nat (pP1 p) - 1)) < pP1 p"
  proof -
    have gt: "1 < pP1 p" and pos: "0 < pP1 p - 1" using w by linarith+
    show ?thesis using unat_rnd_get_less [OF pos small(3), of X 4] unfolding sub [OF gt] by linarith
  qed
  have b: "unat (rnd_get y 2 (of_nat (pW p))) < pW p" "unat (rnd_get X 5 (of_nat (pP1 p))) < pP1 p" for y
    using unat_rnd_get_less [of "pW p" y 2] unat_rnd_get_less [of "pP1 p" X 5] small w by simp_all
  obtain y where g: "gen_tuple X p = \<lparr>t_d = deg (unat (rnd_get y 0 (push_bit 20 1))) (pW p),
      t_a = 1 + unat (rnd_get y 1 (of_nat (pW p) - 1)), t_b = unat (rnd_get y 2 (of_nat (pW p))),
      t_d1 = (if deg (unat (rnd_get y 0 (push_bit 20 1))) (pW p) < 4 then 2 + unat (rnd_get X 3 2) else 2),
      t_a1 = 1 + unat (rnd_get X 4 (of_nat (pP1 p) - 1)), t_b1 = unat (rnd_get X 5 (of_nat (pP1 p)))\<rparr>"
    unfolding gen_tuple_def Let_def by blast
  have "2 + unat (rnd_get X 3 2) \<le> 3" using d1 by linarith
  then show ?thesis
    unfolding tuple_ok_def g rq_tuple.select_convs
    using deg_range [OF w(1,2) v, of y] a [of y] a1 b(1) [of y] b(2)
    by (intro conjI; (linarith | (split if_split, intro conjI impI; linarith)))
qed

subsection \<open>Steps of a fixed size through the residues of a prime\<close>

lemma prime_coprime: "prime_spec q \<Longrightarrow> 0 < a \<Longrightarrow> a < q \<Longrightarrow> coprime a q"
proof -
  assume q: "prime_spec q" and a: "0 < a" "a < q"
  have "gcd a q dvd q" by simp
  then have "gcd a q = 1 \<or> gcd a q = q" using q by (simp add: prime_spec_def)
  moreover have "gcd a q \<le> a" using a by (simp add: gcd_le1_nat)
  ultimately show "coprime a q" using a by (auto simp: coprime_iff_gcd_eq_1)
qed

definition orbit :: "nat \<Rightarrow> nat \<Rightarrow> nat \<Rightarrow> nat \<Rightarrow> nat" where
  "orbit q a b j = (b + j * a) mod q"

lemma orbit_Suc: "orbit q a b (Suc j) = (orbit q a b j + a) mod q"
  by (simp add: orbit_def mod_simps add_ac)

lemma orbit_inj:
  assumes "prime_spec q" and "0 < a" and "a < q"
  shows "inj_on (orbit q a b) {0..<q}"
proof (rule inj_onI)
  fix i j assume ij: "i \<in> {0..<q}" "j \<in> {0..<q}" and eq: "orbit q a b i = orbit q a b j"
  have "int q dvd int i * int a - int j * int a"
  proof -
    have "(int b + int i * int a) mod int q = (int b + int j * int a) mod int q"
      using eq unfolding orbit_def by (metis of_nat_add of_nat_mod of_nat_mult)
    then show ?thesis by (metis add_diff_cancel_left mod_eq_dvd_iff)
  qed
  then have "int q dvd (int i - int j) * int a" by (simp add: left_diff_distrib)
  moreover have "coprime (int q) (int a)"
    using prime_coprime [OF assms] by (simp add: coprime_commute)
  ultimately have "int q dvd int i - int j" using coprime_dvd_mult_left_iff by blast
  then have "int i mod int q = int j mod int q" by (simp add: mod_eq_dvd_iff)
  with ij show "i = j" by simp
qed

lemma orbit_surj:
  assumes "prime_spec q" and "0 < a" and "a < q"
  shows "orbit q a b ` {0..<q} = {0..<q}"
proof -
  have "orbit q a b ` {0..<q} \<subseteq> {0..<q}" using assms by (auto simp: orbit_def)
  moreover have "card (orbit q a b ` {0..<q}) = card {0..<q}"
    using card_image [OF orbit_inj [OF assms]] .
  ultimately show ?thesis by (intro card_subset_eq) auto
qed

subsection \<open>The walk visits the valid positions in order\<close>

text \<open>The positions of a full round of the PI walk that the loop does not skip.\<close>

definition pi_positions :: "params \<Rightarrow> nat \<Rightarrow> nat \<Rightarrow> nat \<Rightarrow> nat list" where
  "pi_positions p a1 b1 i = filter (\<lambda>x. x < pP p) (map (orbit (pP1 p) a1 b1) [i..<pP1 p])"

lemma skip_pi_positions:
  "pi_positions p a1 b1 j = x # xs \<Longrightarrow>
   skip_pi p a1 (orbit (pP1 p) a1 b1 j) = Some x
   \<and> (\<exists>i. x = orbit (pP1 p) a1 b1 i \<and> xs = pi_positions p a1 b1 (Suc i))"
proof (induction "pP1 p - j" arbitrary: j)
  case 0
  then show ?case by (simp add: pi_positions_def)
next
  case (Suc k)
  then have j: "j < pP1 p" by linarith
  show ?case
  proof (cases "orbit (pP1 p) a1 b1 j < pP p")
    case True
    then have "x = orbit (pP1 p) a1 b1 j" "xs = pi_positions p a1 b1 (Suc j)"
      using Suc.prems j by (simp_all add: pi_positions_def upt_conv_Cons)
    with True show ?thesis by (subst skip_pi.simps) auto
  next
    case False
    then have "pi_positions p a1 b1 (Suc j) = x # xs"
      using Suc.prems j by (simp add: pi_positions_def upt_conv_Cons)
    moreover have "k = pP1 p - Suc j" using Suc.hyps(2) by linarith
    ultimately show ?thesis using Suc.hyps(1) [of "Suc j"] False
      by (subst skip_pi.simps) (simp add: orbit_Suc)
  qed
qed

lemma pi_walk_positions:
  "n \<le> length (pi_positions p a1 b1 (Suc i)) \<Longrightarrow>
   pi_walk p a1 (orbit (pP1 p) a1 b1 i) n = Some (map ((+) (pW p)) (take n (pi_positions p a1 b1 (Suc i))))"
proof (induction n arbitrary: i)
  case (Suc n)
  then obtain x xs where x: "pi_positions p a1 b1 (Suc i) = x # xs"
    by (metis Suc_le_length_iff)
  from skip_pi_positions [OF this] obtain k where
    "skip_pi p a1 (orbit (pP1 p) a1 b1 (Suc i)) = Some x" "x = orbit (pP1 p) a1 b1 k"
    "xs = pi_positions p a1 b1 (Suc k)" by blast
  with Suc x show ?case by (simp add: orbit_Suc)
qed simp

lemma lt_walk_orbit:
  "lt_walk p a (orbit (pW p) a b i) n = map (orbit (pW p) a b) [Suc i..<Suc i + n]"
proof (induction n arbitrary: i)
  case (Suc n)
  have "[Suc i..<Suc i + Suc n] = Suc i # [Suc (Suc i)..<Suc (Suc i) + n]"
    by (simp add: upt_conv_Cons del: upt_Suc)
  then show ?case
    using Suc.IH [of "Suc i"] by (simp add: Let_def orbit_Suc [symmetric] del: upt_Suc)
qed simp

lemma pi_positions_all:
  assumes "params_ok p" and "tuple_ok p t"
  shows "distinct (pi_positions p (t_a1 t) (t_b1 t) 0)" "set (pi_positions p (t_a1 t) (t_b1 t) 0) = {0..<pP p}"
proof -
  have q: "prime_spec (pP1 p)" "0 < t_a1 t" "t_a1 t < pP1 p" "pP p \<le> pP1 p"
    using assms by (auto simp: params_ok_def tuple_ok_def)
  show "distinct (pi_positions p (t_a1 t) (t_b1 t) 0)"
    unfolding pi_positions_def
    by (intro distinct_filter) (simp only: distinct_map distinct_upt set_upt orbit_inj [OF q(1-3)])
  have "set (pi_positions p (t_a1 t) (t_b1 t) 0) = {x \<in> {0..<pP1 p}. x < pP p}"
    unfolding pi_positions_def set_filter set_map set_upt orbit_surj [OF q(1-3)] ..
  also have "\<dots> = {0..<pP p}" using q(4) by auto
  finally show "set (pi_positions p (t_a1 t) (t_b1 t) 0) = {0..<pP p}" .
qed

text \<open>The columns of a row: the first \<open>d\<close> steps through the LT part, then the first \<open>d1\<close> valid steps
  through the PI part.\<close>

definition row_columns :: "u32 \<Rightarrow> params \<Rightarrow> nat list" where
  "row_columns X p =
     (let t = gen_tuple X p
      in map (\<lambda>j. (t_b t + j * t_a t) mod pW p) [0..<t_d t]
         @ map (\<lambda>x. pW p + x) (take (t_d1 t)
             (filter (\<lambda>x. x < pP p) (map (\<lambda>j. (t_b1 t + j * t_a1 t) mod pP1 p) [0..<pP1 p]))))"

lemma row_columns_orbit:
  "row_columns X p = map (orbit (pW p) (t_a (gen_tuple X p)) (t_b (gen_tuple X p))) [0..<t_d (gen_tuple X p)]
     @ map ((+) (pW p)) (take (t_d1 (gen_tuple X p))
         (pi_positions p (t_a1 (gen_tuple X p)) (t_b1 (gen_tuple X p)) 0))"
  by (simp add: row_columns_def pi_positions_def orbit_def [abs_def] Let_def)

lemma params_set_idxs_columns:
  assumes p: "params_ok p"
  shows "params_set_idxs X p = Some (row_columns X p)"
proof -
  define t where "t = gen_tuple X p"
  have t: "tuple_ok p t" unfolding t_def by (rule gen_tuple_ok [OF p])
  let ?ps = "pi_positions p (t_a1 t) (t_b1 t)"
  have len: "t_d1 t \<le> length (?ps 0)"
    using pi_positions_all [OF p t] distinct_card [of "?ps 0"] p t by (simp add: params_ok_def tuple_ok_def)
  have d1: "t_d1 t = Suc (t_d1 t - 1)" and d: "t_d t = Suc (t_d t - 1)" using t by (auto simp: tuple_ok_def)
  obtain x xs where x: "?ps 0 = x # xs"
    using len d1 by (metis Suc_le_length_iff)
  have b1: "orbit (pP1 p) (t_a1 t) (t_b1 t) 0 = t_b1 t" and b: "orbit (pW p) (t_a t) (t_b t) 0 = t_b t"
    using t by (auto simp: orbit_def tuple_ok_def)
  from skip_pi_positions [OF x] obtain i where i: "skip_pi p (t_a1 t) (t_b1 t) = Some x"
      "x = orbit (pP1 p) (t_a1 t) (t_b1 t) i" "xs = ?ps (Suc i)"
    unfolding b1 by blast
  have "t_d1 t - 1 \<le> length (?ps (Suc i))" using len x i(3) by simp
  note pw = pi_walk_positions [OF this, folded i(2,3)]
  have lt: "t_b t # lt_walk p (t_a t) (t_b t) (t_d t - 1) = map (orbit (pW p) (t_a t) (t_b t)) [0..<t_d t]"
    using lt_walk_orbit [of p "t_a t" "t_b t" 0 "t_d t - 1"] d b
    by (simp add: upt_conv_Cons)
  have pi: "(pW p + x) # map ((+) (pW p)) (take (t_d1 t - 1) xs) = map ((+) (pW p)) (take (t_d1 t) (?ps 0))"
    using x by (subst d1) simp
  show ?thesis
    unfolding params_set_idxs_def row_columns_orbit t_def [symmetric] Let_def
    by (simp add: i(1) pw lt [symmetric] pi [symmetric] del: One_nat_def)
qed

lemma row_columns_props:
  assumes p: "params_ok p"
  shows "distinct (row_columns X p)" "set (row_columns X p) \<subseteq> {0..<pL p}"
    "length (row_columns X p) = t_d (gen_tuple X p) + t_d1 (gen_tuple X p)"
proof -
  define t where "t = gen_tuple X p"
  have t: "tuple_ok p t" unfolding t_def by (rule gen_tuple_ok [OF p])
  let ?ps = "pi_positions p (t_a1 t) (t_b1 t) 0"
  have w: "prime_spec (pW p)" "0 < t_a t" "t_a t < pW p" "t_d t < pW p" "pW p + pP p = pL p"
    using p t by (auto simp: params_ok_def tuple_ok_def)
  have c: "row_columns X p = map (orbit (pW p) (t_a t) (t_b t)) [0..<t_d t] @ map ((+) (pW p)) (take (t_d1 t) ?ps)"
    by (simp add: row_columns_orbit t_def)
  have lt: "set (map (orbit (pW p) (t_a t) (t_b t)) [0..<t_d t]) \<subseteq> {0..<pW p}"
    using w by (auto simp: orbit_def)
  have pi: "set (map ((+) (pW p)) (take (t_d1 t) ?ps)) \<subseteq> {pW p..<pL p}"
    using pi_positions_all [OF p t] w(5) by (auto dest!: in_set_takeD)
  have "inj_on (orbit (pW p) (t_a t) (t_b t)) {0..<t_d t}"
    using orbit_inj [OF w(1-3)] by (rule inj_on_subset) (use w in auto)
  then have "distinct (map (orbit (pW p) (t_a t) (t_b t)) [0..<t_d t])" by (simp add: distinct_map)
  moreover have "distinct (map ((+) (pW p)) (take (t_d1 t) ?ps))"
    using pi_positions_all(1) [OF p t] by (simp add: distinct_map)
  ultimately show "distinct (row_columns X p)" unfolding c distinct_append using lt pi by fastforce
  show "set (row_columns X p) \<subseteq> {0..<pL p}" unfolding c using lt pi w(5) by fastforce
  have "t_d1 t \<le> length ?ps"
    using pi_positions_all [OF p t] distinct_card [of ?ps] p t by (simp add: params_ok_def tuple_ok_def)
  then show "length (row_columns X p) = t_d (gen_tuple X p) + t_d1 (gen_tuple X p)"
    by (simp add: c t_def [symmetric])
qed

text \<open>For the parameters of any block size and every 32-bit internal symbol id, the generated tuple
  is in range: \<open>1 \<le> d \<le> 30\<close> with \<open>d < W\<close>, \<open>1 \<le> a < W\<close>, \<open>b < W\<close>, \<open>d1\<close> is 2 or 3, \<open>1 \<le> a1 < P1\<close> and
  \<open>b1 < P1\<close>.\<close>

theorem gen_tuple_in_range:
  assumes "params_ok p"
  shows "let t = gen_tuple X p in 1 \<le> t_d t \<and> t_d t \<le> 30 \<and> t_d t < pW p \<and> 1 \<le> t_a t \<and> t_a t < pW p
    \<and> t_b t < pW p \<and> 2 \<le> t_d1 t \<and> t_d1 t \<le> 3 \<and> 1 \<le> t_a1 t \<and> t_a1 t < pP1 p \<and> t_b1 t < pP1 p"
  using gen_tuple_ok [OF assms, of X] by (simp add: tuple_ok_def Let_def)

text \<open>The parameters of the smallest block.\<close>

definition params_10 :: params where
  "params_10 = \<lparr>pKprime = 10, pS = 7, pH = 10, pW = 17, pL = 27, pP = 10, pP1 = 11, pU = 0, pB = 10, pJ = 254\<rparr>"

lemma next_prime_10: "next_prime 10 = 11"
  by (simp add: next_prime.simps is_prime_def is_prime_loop.simps)

lemma params_10_row: "params_of_row (10, 254, 7, 10, 17) = params_10"
  by (simp add: params_of_row_def params_10_def next_prime_10)

lemma params_10_ok: "params_ok params_10"
proof -
  have "prime_spec 17" using is_prime_correct [of 17] by (simp add: is_prime_def is_prime_loop.simps)
  then show ?thesis using params_of_row_ok [of "(10, 254, 7, 10, 17)"] by (simp add: row_ok_def params_10_row)
qed

lemma gen_tuple_in_range_witness: "t_d (gen_tuple 0 params_10) < 17"
  using gen_tuple_in_range [OF params_10_ok, of 0] by (simp add: Let_def params_10_def)

text \<open>C22: The index loops end for every symbol id, and push exactly the columns of the specification
  in order: the first \<open>d\<close> steps of size \<open>a\<close> through the LT columns, then the first \<open>d1\<close> of the steps
  of size \<open>a1\<close> modulo \<open>P1\<close> that hit a PI column.\<close>

theorem params_set_idxs_correct:
  assumes "params_ok p"
  shows "params_set_idxs X p = Some (row_columns X p)"
  using params_set_idxs_columns [OF assms] .

lemma params_set_idxs_correct_witness:
  "\<exists>cols. params_set_idxs 5 params_10 = Some cols"
  using params_set_idxs_correct [OF params_10_ok, of 5] by simp

text \<open>C23: No row of the code addresses a column twice or outside the matrix: the pushed indices are
  distinct, all below \<open>L\<close>, and \<open>d + d1\<close> many, so a later XOR over them cancels nothing.\<close>

theorem row_indices_distinct:
  assumes "params_ok p" and "params_set_idxs X p = Some cols"
  shows "distinct cols \<and> (\<forall>c \<in> set cols. c < pL p)
    \<and> length cols = t_d (gen_tuple X p) + t_d1 (gen_tuple X p)"
  using row_columns_props [OF assms(1), of X] params_set_idxs_columns [OF assms(1), of X] assms(2) by auto

lemma row_indices_distinct_witness:
  "\<exists>cols. params_set_idxs 5 params_10 = Some cols \<and> distinct cols \<and> (\<forall>c \<in> set cols. c < 27)"
  using row_indices_distinct [OF params_10_ok, of 5] params_set_idxs_columns [OF params_10_ok, of 5]
  by (auto simp: params_10_def)

end
