(* ===== verification/Byte_Codec.thy ===== *)
theory Byte_Codec
  imports Prelude
begin

section \<open>Integers cut into bytes and put together again\<close>

text \<open>
  The word facts behind the packets: masks and shifts as arithmetic on the numbers, and a wider
  integer rebuilt from its bytes by shifts and ORs.
\<close>

lemma mask_literals: "(0xff :: 'a::len word) = mask 8" "(0xffff :: 'a word) = mask 16"
    "(0x00ffffff :: 'a word) = mask 24" "(0x3f :: 'a word) = mask 6"
  by (simp_all add: mask_eq_exp_minus_1)

lemma and_literals [byte_simps]:
  fixes w :: "'a::len word"
  shows "w AND 0xff = take_bit 8 w" "w AND 0xffff = take_bit 16 w" "w AND 0x00ffffff = take_bit 24 w"
    "w AND 0x3f = take_bit 6 w"
  by (simp_all only: mask_literals take_bit_eq_mask)

lemma unat_take_bit [byte_simps]: "unat (take_bit n w) = unat w mod 2 ^ n"
  for w :: "'a::len word"
  using unsigned_take_bit_eq [of n w, where ?'a = nat] take_bit_eq_mod [of n "unat w"] by (rule trans)

lemma unat_drop_bit [byte_simps]: "unat (drop_bit n w) = unat w div 2 ^ n"
  for w :: "'a::len word"
  using unat_drop_bit_eq [of n w] by (simp only: drop_bit_eq_div [of n "unat w"])

lemma take_bit_of_nat_small: "n < 2 ^ k \<Longrightarrow> take_bit k (of_nat n :: 'a::len word) = of_nat n"
  by (metis of_nat_take_bit take_bit_nat_eq_self_iff take_bit_of_nat)

text \<open>A low part and a shifted high part do not meet.\<close>

lemma drop_or_push [byte_simps]:
  fixes x y :: "'a::len word"
  assumes "n < LENGTH('a)"
  shows "drop_bit n (push_bit n x OR take_bit n y) = take_bit (LENGTH('a) - n) x"
  by (rule bit_word_eqI) (use assms in \<open>auto simp: bit_simps\<close>)

lemma take_or_push [byte_simps]:
  fixes x y :: "'a::len word"
  shows "m \<le> n \<Longrightarrow> take_bit m (push_bit n x OR y) = take_bit m y"
  by (rule bit_word_eqI) (auto simp: bit_simps)

lemma bit_take_bounded: "take_bit k w = w \<Longrightarrow> bit w n \<Longrightarrow> n < k"
  for w :: "'a::len word"
  by (metis bit_take_bit_iff)

text \<open>The transfer length and symbol size from the five bytes of the reduced form.\<close>

lemma join_common:
  fixes f t :: u64
  assumes "take_bit 24 f = f"
  shows "push_bit 24 (take_bit 8 f) OR push_bit 32 (take_bit 8 (drop_bit 8 f))
      OR push_bit 40 (take_bit 8 (drop_bit 16 f)) OR take_bit 8 t OR push_bit 8 (take_bit 8 (drop_bit 8 t))
    = push_bit 24 f OR take_bit 16 t"
proof (rule bit_word_eqI)
  fix n assume "n < LENGTH(64)"
  consider "n < 8" | k where "n = 8 + k" "k < 8" | "16 \<le> n" "n < 24" | k where "n = 24 + k" "k < 8"
    | k where "n = 32 + k" "k < 8" | k where "n = 40 + k" "k < 8" | k where "n = 48 + k" "k < 16"
  proof -
    have "n < 8 \<or> n - 8 < 8 \<or> (16 \<le> n \<and> n < 24) \<or> (24 \<le> n \<and> n - 24 < 8) \<or> (32 \<le> n \<and> n - 32 < 8)
        \<or> (40 \<le> n \<and> n - 40 < 8) \<or> (48 \<le> n \<and> n - 48 < 16)"
      using \<open>n < LENGTH(64)\<close> by simp linarith
    then show thesis using that by (metis le_add_diff_inverse linorder_not_less nat_less_le)
  qed
  then show "bit (push_bit 24 (take_bit 8 f) OR push_bit 32 (take_bit 8 (drop_bit 8 f))
      OR push_bit 40 (take_bit 8 (drop_bit 16 f)) OR take_bit 8 t OR push_bit 8 (take_bit 8 (drop_bit 8 t))) n
    = bit (push_bit 24 f OR take_bit 16 t) n"
    by cases (auto simp: bit_simps dest: bit_take_bounded [OF assms])
qed

text \<open>The block count and sub-block count from the three bytes of the reduced form.\<close>

lemma join_scheme:
  fixes z n :: u64
  shows "push_bit 24 (ucast (take_bit 8 z)) OR push_bit 8 (ucast (take_bit 8 n))
      OR push_bit 16 (ucast (take_bit 8 (drop_bit 8 n)))
    = (ucast (push_bit 24 z) :: u32) OR ucast (push_bit 8 (take_bit 16 n))"
proof (rule bit_word_eqI)
  fix i assume "i < LENGTH(32)"
  consider "i < 8" | k where "i = 8 + k" "k < 8" | k where "i = 16 + k" "k < 8" | k where "i = 24 + k" "k < 8"
  proof -
    have "i < 8 \<or> (8 \<le> i \<and> i - 8 < 8) \<or> (16 \<le> i \<and> i - 16 < 8) \<or> (24 \<le> i \<and> i - 24 < 8)"
      using \<open>i < LENGTH(32)\<close> by simp linarith
    then show thesis using that by (metis le_add_diff_inverse)
  qed
  then show "bit (push_bit 24 (ucast (take_bit 8 z)) OR push_bit 8 (ucast (take_bit 8 n))
      OR push_bit 16 (ucast (take_bit 8 (drop_bit 8 n))) :: u32) i
    = bit ((ucast (push_bit 24 z) :: u32) OR ucast (push_bit 8 (take_bit 16 n))) i"
    by cases (auto simp: bit_simps)
qed

text \<open>The block number and the symbol id from the tag, and from the three bytes of the reduced tag.\<close>

lemma split_tag:
  fixes s :: u8 and e :: u32
  shows "ucast (drop_bit 24 (push_bit 24 (ucast s) OR take_bit 24 e)) = s"
    "take_bit 24 (push_bit 24 (ucast s) OR take_bit 24 e) = take_bit 24 e"
proof -
  show "ucast (drop_bit 24 (push_bit 24 (ucast s) OR take_bit 24 e)) = s"
    by (rule bit_word_eqI) (auto simp: bit_simps)
  show "take_bit 24 (push_bit 24 (ucast s) OR take_bit 24 e) = take_bit 24 e"
    by (rule bit_word_eqI) (auto simp: bit_simps)
qed

lemma join_esi:
  fixes e :: u32
  shows "(ucast (ucast (take_bit 8 e) :: u8) :: u32) OR push_bit 8 (ucast (ucast (take_bit 8 (drop_bit 8 e)) :: u8))
    = take_bit 16 e"
proof (rule bit_word_eqI)
  fix i assume "i < LENGTH(32)"
  consider "i < 8" | k where "i = 8 + k" by (metis le_add_diff_inverse linorder_not_less)
  then show "bit ((ucast (ucast (take_bit 8 e) :: u8) :: u32)
      OR push_bit 8 (ucast (ucast (take_bit 8 (drop_bit 8 e)) :: u8))) i = bit (take_bit 16 e) i"
    using \<open>i < LENGTH(32)\<close> by cases (auto simp: bit_simps)
qed

end
