(* ===== verification/Oti.thy ===== *)
theory Oti
  imports Params_Check Tuple Byte_Codec
begin

section \<open>Object parameters: partitioning and transmission information (nanorq.c)\<close>

text \<open>
  How an encoder and a decoder are set up: the partition of the object into source blocks, the
  object transmission information (OTI) in its 64-bit, 32-bit and reduced byte forms, and the decoder
  built from it. The main facts: the encoder the programs ask for is built for every non-empty file
  and covers it exactly, and a decoder built from the encoder's OTI agrees with it on every
  parameter. The \<open>size_t\<close> fields are natural numbers (a transfer length is below \<open>2 ^ 40\<close>, so no
  product formed from one wraps); the 16-bit and 8-bit parameters are truncated where C truncates.
  A \<open>NULL\<close> result is \<open>None\<close>, a division by zero \<open>Inl Div_By_Zero\<close>.
\<close>

definition NANORQ_MAX_TRANSFER :: nat where "NANORQ_MAX_TRANSFER = 946270874880"

definition div_ceil :: "nat \<Rightarrow> nat \<Rightarrow> nat" where
  "div_ceil a b = a div b + (if a mod b \<noteq> 0 then 1 else 0)"

definition div_floor :: "nat \<Rightarrow> nat \<Rightarrow> nat" where
  "div_floor a b = a div b"

record oti_common =
  oF :: nat
  oT :: nat
  oAl :: nat

record oti_scheme =
  oZ :: nat
  oN :: nat
  oKt :: nat

record part =
  IL :: nat
  IS :: nat
  JL :: nat
  JS :: nat

text \<open>The fields of \<open>struct nanorq\<close> that are fixed when it is built.\<close>

record nanorq_params =
  common :: oti_common
  scheme :: oti_scheme
  src_part :: part
  sub_part :: part
  rqP :: params

subsection \<open>Partitions\<close>

definition fill_partition :: "nat \<Rightarrow> nat \<Rightarrow> part" where
  "fill_partition i j0 =
     (let j = j0 mod 65536
      in if j = 0 then \<lparr>IL = 0, IS = 0, JL = 0, JS = 0\<rparr>
         else let p = \<lparr>IL = div_ceil i j, IS = div_floor i j, JL = i - div_floor i j * j,
                       JS = j - (i - div_floor i j * j)\<rparr>
              in if JL p = 0 then p\<lparr>IL := 0\<rparr> else p)"

text \<open>\<open>while (div_ceil (Kt, Z) > K_max) Z++\<close> with \<open>Z\<close> at least 1.\<close>

function grow_Z :: "nat \<Rightarrow> nat \<Rightarrow> nat" where
  "grow_Z kt z = (if 0 < z \<and> K_max < div_ceil kt z then grow_Z kt (z + 1) else z)"
  by pat_completeness auto
termination
proof (relation "measure (\<lambda>(kt, z). Suc kt - z)")
  fix kt z :: nat
  assume a: "0 < z \<and> K_max < div_ceil kt z"
  have "z \<le> kt"
  proof (rule ccontr)
    assume "\<not> z \<le> kt"
    then have "div_ceil kt z \<le> 1" by (simp add: div_ceil_def)
    with a show False by (simp add: K_max_def)
  qed
  then show "((kt, z + 1), kt, z) \<in> measure (\<lambda>(kt, z). Suc kt - z)" by simp
qed simp

declare grow_Z.simps [simp del]

definition gen_scheme_specific :: "oti_common \<Rightarrow> nat \<Rightarrow> nat \<Rightarrow> oti_scheme result" where
  "gen_scheme_specific c k z0 =
     (if oT c = 0 then Inl Div_By_Zero
      else let kt = div_ceil (oF c) (oT c);
               z = (if k = 0 \<and> z0 = 0 then grow_Z kt 16 else z0);
               kn = (if 0 < z \<and> k = 0 then div_ceil kt z else if k = 0 then kt else k)
           in if kn = 0 then Inl Div_By_Zero
              else Inr \<lparr>oZ = div_ceil kt kn, oN = 1, oKt = kt\<rparr>)"

subsection \<open>The encoder\<close>

text \<open>The largest supported alignment not above \<open>Al\<close>: the loop over 8, 4, 2, 1.\<close>

definition match_align :: "nat \<Rightarrow> nat" where
  "match_align al =
     (if 8 \<le> al then 8 else if 4 \<le> al then 4 else if 2 \<le> al then 2 else if 1 \<le> al then 1 else 1)"

text \<open>\<open>while (div_ceil (len, T) > Z_max * K_max) T *= Al\<close> on a 16-bit \<open>T\<close>: \<open>None\<close> when it never ends.\<close>

partial_function (option) grow_T :: "nat \<Rightarrow> nat \<Rightarrow> nat \<Rightarrow> nat result option" where
  "grow_T len t al =
     (if t = 0 then Some (Inl Div_By_Zero)
      else if Z_max * K_max < div_ceil len t then grow_T len (t * al mod 65536) al
      else Some (Inr t))"

definition block_symbols :: "part \<Rightarrow> nat \<Rightarrow> nat" where
  "block_symbols p sbn =
     (if sbn < JL p then IL p else if sbn - JL p < JS p then IS p else 0)"

text \<open>The outer option is \<open>None\<close> when the call does not return, the inner one when it returns \<open>NULL\<close>.\<close>

definition nanorq_encoder_new_ex ::
  "nat \<Rightarrow> nat \<Rightarrow> nat \<Rightarrow> nat \<Rightarrow> nat \<Rightarrow> nanorq_params option result option" where
  "nanorq_encoder_new_ex len t0 k z al0 =
     (if NANORQ_MAX_TRANSFER < len then Some (Inr None)
      else let al = match_align al0;
               t1 = (if t0 < al then al else t0 - t0 mod al)
           in case grow_T len t1 al of
                None \<Rightarrow> None
              | Some (Inl f) \<Rightarrow> Some (Inl f)
              | Some (Inr t) \<Rightarrow>
                  let c = \<lparr>oF = len, oT = t, oAl = al\<rparr>
                  in case gen_scheme_specific c k z of
                       Inl f \<Rightarrow> Some (Inl f)
                     | Inr s \<Rightarrow>
                         if oZ s = 0 \<or> oN s = 0 \<or> Z_max < oZ s \<or> K_max < div_ceil (oKt s) (oZ s)
                         then Some (Inr None)
                         else let src = fill_partition (oKt s) (oZ s);
                                  sub = fill_partition (t div al) (oN s)
                              in case params_init (block_symbols src 0 mod 65536) of
                                   Inl f \<Rightarrow> Some (Inl f)
                                 | Inr p \<Rightarrow>
                                     Some (Inr (Some \<lparr>common = c, scheme = s, src_part = src, sub_part = sub, rqP = p\<rparr>)))"

definition nanorq_encoder_new :: "nat \<Rightarrow> nat \<Rightarrow> nat \<Rightarrow> nanorq_params option result option" where
  "nanorq_encoder_new len t al = nanorq_encoder_new_ex len t 0 0 al"

subsection \<open>The transmission information\<close>

definition nanorq_oti_common :: "nanorq_params \<Rightarrow> u64" where
  "nanorq_oti_common rq =
     (push_bit 24 (of_nat (oF (common rq)))) OR ((of_nat (oT (common rq)) - 1) AND 0xffff)"

text \<open>The 64-bit values of \<open>Z - 1\<close> and \<open>N - 1\<close> are shifted as 64-bit values and then stored in 32 bits.\<close>

definition nanorq_oti_scheme_specific :: "nanorq_params \<Rightarrow> u32" where
  "nanorq_oti_scheme_specific rq =
     (let r1 = (ucast (push_bit 24 (of_nat (oZ (scheme rq)) - 1 :: u64)) :: u32);
          r2 = (ucast (push_bit 8 (of_nat (oN (scheme rq)) - 1 :: u64)) :: u32)
      in r1 OR r2 OR of_nat (oAl (common rq)))"

text \<open>The five and three bytes of the configuration packet.\<close>

definition nanorq_oti_common_reduced :: "nanorq_params \<Rightarrow> bytes" where
  "nanorq_oti_common_reduced rq =
     (let f = (of_nat (oF (common rq)) :: u64); t = (of_nat (oT (common rq)) - 1 :: u64)
      in [ucast (f AND 0xff), ucast (drop_bit 8 f AND 0xff), ucast (drop_bit 16 f AND 0xff),
          ucast (t AND 0xff), ucast (drop_bit 8 t AND 0xff)])"

definition nanorq_oti_scheme_specific_align1 :: "nanorq_params \<Rightarrow> bytes" where
  "nanorq_oti_scheme_specific_align1 rq =
     (let z = (of_nat (oZ (scheme rq)) - 1 :: u64); n = (of_nat (oN (scheme rq)) - 1 :: u64)
      in [ucast z, ucast (n AND 0xff), ucast (drop_bit 8 n AND 0xff)])"

definition nanorq_tag :: "u8 \<Rightarrow> u32 \<Rightarrow> u32" where
  "nanorq_tag sbn esi = push_bit 24 (ucast sbn) OR (esi AND 0x00ffffff)"

definition nanorq_tag_reduced :: "u8 \<Rightarrow> u32 \<Rightarrow> bytes" where
  "nanorq_tag_reduced sbn esi = [sbn, ucast (esi AND 0xff), ucast (drop_bit 8 esi AND 0xff)]"

subsection \<open>The decoder\<close>

text \<open>
  \<open>T\<close> is 16 bits wide, so the increment wraps to 0 when the field is 0xffff; the tests after
  \<open>Z\<close> and \<open>N\<close> for zero never fire. The result with the initial \<open>max_esi\<close>.
\<close>

definition nanorq_decoder_new :: "u64 \<Rightarrow> u32 \<Rightarrow> (nanorq_params \<times> nat) option result" where
  "nanorq_decoder_new com sch =
     (let f = unat (drop_bit 24 com);
          t = (unat (com AND 0xffff) + 1) mod 65536
      in if NANORQ_MAX_TRANSFER < f then Inr None
         else let z0 = unat (drop_bit 24 sch AND 0x00ff) + 1;
                  n0 = unat (drop_bit 8 sch AND 0xffff) + 1;
                  al = unat (sch AND 0xff)
              in if t = 0 then Inl Div_By_Zero
                 else let kt = div_ceil f t;
                          z = (if z0 = 0 then Z_max else z0);
                          n = (if n0 = 0 then 1 else n0)
                      in if t < al then Inr None
                         else if al = 0 then Inl Div_By_Zero
                         else if t mod al \<noteq> 0 \<or> K_max < div_ceil (div_ceil f t) z then Inr None
                         else let src = fill_partition kt z;
                                  sub = fill_partition (t div al) n
                              in case params_init (block_symbols src 0 mod 65536) of
                                   Inl e \<Rightarrow> Inl e
                                 | Inr p \<Rightarrow>
                                     Inr (Some (\<lparr>common = \<lparr>oF = f, oT = t, oAl = al\<rparr>,
                                                 scheme = \<lparr>oZ = z, oN = n, oKt = kt\<rparr>,
                                                 src_part = src, sub_part = sub, rqP = p\<rparr>, 2 * pKprime p)))"

definition nanorq_transfer_length :: "nanorq_params \<Rightarrow> nat" where
  "nanorq_transfer_length rq = oF (common rq)"

definition nanorq_symbol_size :: "nanorq_params \<Rightarrow> nat" where
  "nanorq_symbol_size rq = oT (common rq)"

definition nanorq_block_symbols :: "nanorq_params \<Rightarrow> nat \<Rightarrow> nat" where
  "nanorq_block_symbols rq sbn = block_symbols (src_part rq) sbn"

definition nanorq_max_blocks :: nat where "nanorq_max_blocks = Z_max"

definition nanorq_blocks :: "nanorq_params \<Rightarrow> nat" where
  "nanorq_blocks rq = JL (src_part rq) + JS (src_part rq)"

subsection \<open>Partitions cover\<close>

lemma div_ceil_1 [simp]: "div_ceil n 1 = n" "div_ceil n (Suc 0) = n"
  by (simp_all add: div_ceil_def)

lemma div_ceil_bounds:
  assumes "0 < b"
  shows "a \<le> div_ceil a b * b" "div_ceil a b * b < a + b"
proof -
  have e: "a = a div b * b + a mod b" by simp
  have m: "a mod b < b" using assms by simp
  have *: "div_ceil a b * b = a div b * b + (if a mod b = 0 then 0 else b)"
    by (simp add: div_ceil_def)
  have "a \<le> div_ceil a b * b \<and> div_ceil a b * b < a + b"
  proof (cases "a mod b = 0")
    case True
    with * have "div_ceil a b * b = a div b * b" by simp
    with e True assms show ?thesis by linarith
  next
    case False
    with * have "div_ceil a b * b = a div b * b + b" by simp
    moreover have "0 < a mod b" using False by simp
    ultimately show ?thesis using e m by linarith
  qed
  then show "a \<le> div_ceil a b * b" "div_ceil a b * b < a + b" by simp_all
qed

lemma div_ceil_le_iff: "0 < b \<Longrightarrow> div_ceil a b \<le> k \<longleftrightarrow> a \<le> k * b"
proof
  assume b: "0 < b" and "div_ceil a b \<le> k"
  then have "div_ceil a b * b \<le> k * b" by simp
  then show "a \<le> k * b" using div_ceil_bounds(1) [OF b, of a] by linarith
next
  assume b: "0 < b" and "a \<le> k * b"
  then have "div_ceil a b * b < (k + 1) * b" using div_ceil_bounds(2) [OF b, of a] by simp
  then have "div_ceil a b < k + 1" using mult_less_cancel2 by blast
  then show "div_ceil a b \<le> k" by simp
qed

lemma div_ceil_pos_iff: "0 < b \<Longrightarrow> 0 < div_ceil a b \<longleftrightarrow> 0 < a"
  using div_ceil_le_iff [of b a 0] by auto

text \<open>The block that a partition gives position \<open>sbn\<close> starts at \<open>part_start\<close>.\<close>

definition part_start :: "part \<Rightarrow> nat \<Rightarrow> nat" where
  "part_start p sbn = sum_list (map (block_symbols p) [0..<sbn])"

lemma fill_partition_cases:
  assumes "0 < j" and "j < 65536"
  shows "fill_partition i j = \<lparr>IL = (if i mod j = 0 then 0 else i div j + 1), IS = i div j, JL = i mod j, JS = j - i mod j\<rparr>"
  using assms by (auto simp: fill_partition_def Let_def div_ceil_def div_floor_def minus_div_mult_eq_mod)

lemma part_start_long: "sbn \<le> JL p \<Longrightarrow> part_start p sbn = sbn * IL p"
  by (induction sbn) (auto simp: part_start_def block_symbols_def)

lemma part_start_short:
  "JL p \<le> sbn \<Longrightarrow> sbn \<le> JL p + JS p \<Longrightarrow> part_start p sbn = JL p * IL p + (sbn - JL p) * IS p"
proof (induction sbn)
  case (Suc n)
  show ?case
  proof (cases "Suc n = JL p")
    case True
    then show ?thesis using part_start_long [of "Suc n" p] by simp
  next
    case False
    then have "JL p \<le> n" "n \<le> JL p + JS p" "n - JL p < JS p" "\<not> n < JL p" using Suc.prems by auto
    moreover have "Suc n - JL p = Suc (n - JL p)" using \<open>JL p \<le> n\<close> by simp
    ultimately show ?thesis using Suc.IH by (simp add: part_start_def block_symbols_def)
  qed
qed (simp add: part_start_def)

lemma part_total:
  assumes "0 < j" and "j < 65536"
  shows "part_start (fill_partition i j) j = i"
    and "JL (fill_partition i j) + JS (fill_partition i j) = j"
proof -
  have m: "i mod j < j" using assms by simp
  show s: "JL (fill_partition i j) + JS (fill_partition i j) = j"
    using m by (simp add: fill_partition_cases [OF assms])
  have "part_start (fill_partition i j) j
      = JL (fill_partition i j) * IL (fill_partition i j) + (j - JL (fill_partition i j)) * IS (fill_partition i j)"
    using s by (intro part_start_short) linarith+
  also have "\<dots> = (i mod j) * (i div j + 1) + (j - i mod j) * (i div j)"
    by (simp add: fill_partition_cases [OF assms])
  also have "\<dots> = i mod j + (i mod j + (j - i mod j)) * (i div j)"
    by (simp only: distrib_left distrib_right mult_1_right)
  also have "\<dots> = i" using m by (simp add: mult.commute)
  finally show "part_start (fill_partition i j) j = i" .
qed

lemma block_symbols_bound:
  assumes "0 < j" and "j < 65536"
  shows "block_symbols (fill_partition i j) sbn \<le> div_ceil i j"
    and "block_symbols (fill_partition i j) sbn \<le> block_symbols (fill_partition i j) 0"
    and "sbn < j \<Longrightarrow> j \<le> i \<Longrightarrow> 0 < block_symbols (fill_partition i j) sbn"
  using assms by (auto simp: block_symbols_def fill_partition_cases div_ceil_def div_greater_zero_iff)

subsection \<open>What the encoder builds\<close>

definition rq_ok :: "nanorq_params \<Rightarrow> bool" where
  "rq_ok rq \<longleftrightarrow> oF (common rq) \<le> NANORQ_MAX_TRANSFER
     \<and> 0 < oT (common rq) \<and> oT (common rq) < 65536 \<and> 0 < oAl (common rq) \<and> oAl (common rq) \<le> 8
     \<and> oAl (common rq) dvd oT (common rq)
     \<and> 0 < oZ (scheme rq) \<and> oZ (scheme rq) \<le> Z_max \<and> oN (scheme rq) = 1
     \<and> oKt (scheme rq) = div_ceil (oF (common rq)) (oT (common rq))
     \<and> div_ceil (oKt (scheme rq)) (oZ (scheme rq)) \<le> K_max
     \<and> src_part rq = fill_partition (oKt (scheme rq)) (oZ (scheme rq))
     \<and> sub_part rq = fill_partition (oT (common rq) div oAl (common rq)) 1
     \<and> params_init (block_symbols (src_part rq) 0 mod 65536) = Inr (rqP rq)"

lemma match_align_cases: "match_align al = 1 \<or> match_align al = 2 \<or> match_align al = 4 \<or> match_align al = 8"
  by (simp add: match_align_def)

lemma match_align_dvd: "match_align al dvd 65536" "0 < match_align al" "match_align al \<le> 8"
  using match_align_cases [of al] by auto

definition grown :: "nat \<Rightarrow> nat \<Rightarrow> nat \<Rightarrow> nat result \<Rightarrow> bool" where
  "grown len t al r \<longleftrightarrow> (al dvd t \<longrightarrow> al dvd 65536 \<longrightarrow> t < 65536 \<longrightarrow>
     (case r of Inl f \<Rightarrow> True
      | Inr t' \<Rightarrow> 0 < t' \<and> t' < 65536 \<and> al dvd t' \<and> div_ceil len t' \<le> Z_max * K_max))"

lemma grow_T_grown: "grow_T len t al = Some r \<Longrightarrow> grown len t al r"
proof (rule grow_T.raw_induct [where P = grown])
  fix rec len t al r
  assume ih: "\<And>len t al r. rec len t al = Some r \<Longrightarrow> grown len t al r"
    and r: "(if t = 0 then Some (Inl Div_By_Zero)
      else if Z_max * K_max < div_ceil len t then rec len (t * al mod 65536) al else Some (Inr t)) = Some r"
  have "al dvd t * al mod 65536" if "al dvd 65536" using that by (simp add: dvd_mod)
  then show "grown len t al r"
    using r ih [of len "t * al mod 65536" al r] by (auto simp: grown_def split: if_splits)
qed

lemma grow_T_ok:
  assumes "grow_T len t al = Some (Inr t')" and "al dvd t" and "al dvd 65536" and "t < 65536"
  shows "0 < t' \<and> t' < 65536 \<and> al dvd t' \<and> div_ceil len t' \<le> Z_max * K_max"
  using grow_T_grown [OF assms(1)] assms(2-4) by (simp add: grown_def)

lemma gen_scheme_ok:
  assumes "gen_scheme_specific c k z = Inr s"
  shows "oN s = 1 \<and> oKt s = div_ceil (oF c) (oT c) \<and> 0 < oT c"
  using assms by (auto simp: gen_scheme_specific_def Let_def split: if_splits)

lemma encoder_rq_ok:
  assumes "nanorq_encoder_new_ex len t0 k z al0 = Some (Inr (Some rq))" and "t0 < 65536"
  shows "rq_ok rq \<and> oF (common rq) = len"
proof -
  define al where "al = match_align al0"
  define t1 where "t1 = (if t0 < al then al else t0 - t0 mod al)"
  have al: "al dvd 65536" "0 < al" "al \<le> 8" unfolding al_def by (rule match_align_dvd)+
  have t1: "al dvd t1" "t1 < 65536"
    using assms(2) al by (auto simp: t1_def dvd_minus_mod)
  note new = assms(1) [unfolded nanorq_encoder_new_ex_def Let_def, folded al_def, folded t1_def]
  have max: "\<not> NANORQ_MAX_TRANSFER < len" using new by (auto split: if_splits)
  obtain t where t: "grow_T len t1 al = Some (Inr t)"
    using new max by (auto split: option.splits sum.splits)
  note new1 = new [unfolded t if_not_P [OF max] option.case sum.case]
  note tok = grow_T_ok [OF t t1(1) al(1) t1(2)]
  obtain s where s: "gen_scheme_specific \<lparr>oF = len, oT = t, oAl = al\<rparr> k z = Inr s"
    using new1 by (auto split: sum.splits)
  note new2 = new1 [unfolded s sum.case]
  note sok = gen_scheme_ok [OF s]
  have z: "\<not> (oZ s = 0 \<or> oN s = 0 \<or> Z_max < oZ s \<or> K_max < div_ceil (oKt s) (oZ s))"
    using new2 by (auto split: if_splits)
  note new3 = new2 [unfolded if_not_P [OF z]]
  obtain p where p: "params_init (block_symbols (fill_partition (oKt s) (oZ s)) 0 mod 65536) = Inr p"
    using new3 by (auto split: sum.splits)
  have "rq = \<lparr>common = \<lparr>oF = len, oT = t, oAl = al\<rparr>, scheme = s, src_part = fill_partition (oKt s) (oZ s),
      sub_part = fill_partition (t div al) (oN s), rqP = p\<rparr>"
    using new3 p by simp
  then show ?thesis
    using max tok al sok z p by (auto simp: rq_ok_def)
qed

lemma rq_ok_symbols:
  assumes "rq_ok rq"
  shows "block_symbols (src_part rq) sbn \<le> K_max"
    and "block_symbols (src_part rq) sbn \<le> pKprime (rqP rq)"
    and "params_ok (rqP rq)"
    and "nanorq_blocks rq = oZ (scheme rq)"
    and "part_start (src_part rq) (nanorq_blocks rq) = oKt (scheme rq)"
proof -
  have z: "0 < oZ (scheme rq)" "oZ (scheme rq) < 65536"
    and src: "src_part rq = fill_partition (oKt (scheme rq)) (oZ (scheme rq))"
    and km: "div_ceil (oKt (scheme rq)) (oZ (scheme rq)) \<le> K_max"
    and pi: "params_init (block_symbols (src_part rq) 0 mod 65536) = Inr (rqP rq)"
    using assms by (auto simp: rq_ok_def Z_max_def)
  have le: "block_symbols (src_part rq) b \<le> K_max" for b
    unfolding src using block_symbols_bound(1) [OF z] km by (meson order_trans)
  then show "block_symbols (src_part rq) sbn \<le> K_max" .
  have "block_symbols (src_part rq) 0 mod 65536 = block_symbols (src_part rq) 0"
    using le [of 0] by (simp add: K_max_def)
  with pi params_init_ok [OF le [of 0]] show pok: "params_ok (rqP rq)" by (metis Inr_inject)
  have "block_symbols (src_part rq) 0 \<le> pKprime (rqP rq)"
    using pi params_init_ok [OF le [of 0]] \<open>_ mod 65536 = _\<close> by (metis Inr_inject)
  then show "block_symbols (src_part rq) sbn \<le> pKprime (rqP rq)"
    unfolding src using block_symbols_bound(2) [OF z] by (meson order_trans)
  show b: "nanorq_blocks rq = oZ (scheme rq)"
    unfolding nanorq_blocks_def src by (rule part_total(2) [OF z])
  show "part_start (src_part rq) (nanorq_blocks rq) = oKt (scheme rq)"
    unfolding b src by (rule part_total(1) [OF z])
qed

lemma grow_Z_spec:
  assumes "0 < z0" and "z0 \<le> m" and "div_ceil kt m \<le> K_max"
  shows "z0 \<le> grow_Z kt z0 \<and> grow_Z kt z0 \<le> m \<and> div_ceil kt (grow_Z kt z0) \<le> K_max"
  using assms
proof (induction kt z0 rule: grow_Z.induct)
  case (1 kt z)
  show ?case
  proof (cases "K_max < div_ceil kt z")
    case True
    then have "z \<noteq> m" using "1.prems"(3) by auto
    then have "z + 1 \<le> m" using "1.prems"(2) by simp
    with "1.IH" True "1.prems" show ?thesis by (simp add: grow_Z.simps [of kt z])
  next
    case False
    with "1.prems" show ?thesis by (simp add: grow_Z.simps [of kt z])
  qed
qed

lemma encoder_new_exists:
  assumes "0 < len" and "0 < t" and "t < 65536" and "div_ceil len t \<le> Z_max * K_max"
    and "len \<le> NANORQ_MAX_TRANSFER"
  obtains rq where "nanorq_encoder_new len t 1 = Some (Inr (Some rq))" "common rq = \<lparr>oF = len, oT = t, oAl = 1\<rparr>"
proof -
  let ?kt = "div_ceil len t" and ?c = "\<lparr>oF = len, oT = t, oAl = 1\<rparr>"
  have kt: "0 < ?kt" using div_ceil_pos_iff assms(1,2) by blast
  have g: "grow_T len t 1 = Some (Inr t)" using assms(2,4) by (subst grow_T.simps) simp
  define z where "z = grow_Z ?kt 16"
  have "div_ceil ?kt 256 \<le> K_max"
    using assms(4) by (simp add: div_ceil_le_iff Z_max_def mult.commute)
  then have z: "16 \<le> z" "z \<le> 256" "div_ceil ?kt z \<le> K_max"
    using grow_Z_spec [of 16 256 ?kt] by (auto simp: z_def)
  define kn where "kn = div_ceil ?kt z"
  have kn: "0 < kn" unfolding kn_def using div_ceil_pos_iff [of z ?kt] kt z(1) by simp
  define s where "s = \<lparr>oZ = div_ceil ?kt kn, oN = 1, oKt = ?kt\<rparr>"
  have s: "gen_scheme_specific ?c 0 0 = Inr s"
    using assms(2) z(1) kn by (auto simp: gen_scheme_specific_def Let_def s_def z_def [symmetric] kn_def [symmetric])
  have "?kt \<le> kn * z" unfolding kn_def using div_ceil_bounds(1) [of z ?kt] z(1) by simp
  then have oz: "oZ s \<le> 256" "0 < oZ s"
    using kn kt z(2) by (auto simp: s_def div_ceil_le_iff div_ceil_pos_iff mult.commute intro: order_trans)
  have "?kt \<le> oZ s * kn" unfolding s_def using div_ceil_bounds(1) [OF kn, of ?kt] by simp
  then have kk: "div_ceil ?kt (oZ s) \<le> K_max"
    using oz(2) z(3) by (auto simp: div_ceil_le_iff kn_def [symmetric] intro: order_trans)
  have "block_symbols (fill_partition ?kt (oZ s)) 0 \<le> K_max"
    using block_symbols_bound(1) [of "oZ s" ?kt 0] oz kk by simp
  then obtain p where p: "params_init (block_symbols (fill_partition ?kt (oZ s)) 0 mod 65536) = Inr p"
    using params_init_ok mod_less_eq_dividend order_trans by metis
  have "nanorq_encoder_new len t 1 = Some (Inr (Some \<lparr>common = ?c, scheme = s, src_part = fill_partition ?kt (oZ s),
      sub_part = fill_partition t 1, rqP = p\<rparr>))"
    using assms g s oz kk p
    by (simp add: nanorq_encoder_new_def nanorq_encoder_new_ex_def match_align_def Let_def Z_max_def s_def)
  with that show thesis by simp
qed

subsection \<open>Round trip through the transmission information\<close>

lemma unat_of_nat_small: "k < 2 ^ LENGTH('a) \<Longrightarrow> unat (of_nat k :: 'a::len word) = k"
  by (simp add: unat_of_nat)

lemma dec_word:
  assumes "0 < n" and "n \<le> 65536"
  shows "unat (of_nat n - 1 :: u64) = n - 1" "take_bit 16 (of_nat n - 1 :: u64) = of_nat n - 1"
proof -
  have e: "(of_nat n - 1 :: u64) = of_nat (n - 1)" using assms by (simp add: of_nat_diff)
  show "unat (of_nat n - 1 :: u64) = n - 1" unfolding e by (rule unat_of_nat_small) (use assms in simp)
  show "take_bit 16 (of_nat n - 1 :: u64) = of_nat n - 1"
    unfolding e by (rule take_bit_of_nat_small) (use assms in simp)
qed

lemma oti_common_fields:
  assumes "rq_ok rq"
  shows "unat (drop_bit 24 (nanorq_oti_common rq)) = oF (common rq)"
    "unat (nanorq_oti_common rq AND 0xffff) + 1 = oT (common rq)"
proof -
  let ?f = "oF (common rq)" and ?t = "oT (common rq)"
  have b: "?f < 2 ^ 40" "0 < ?t" "?t \<le> 65536"
    using assms by (auto simp: rq_ok_def NANORQ_MAX_TRANSFER_def)
  have c: "nanorq_oti_common rq = push_bit 24 (of_nat ?f) OR take_bit 16 (of_nat ?t - 1)"
    by (simp add: nanorq_oti_common_def and_literals)
  have "drop_bit 24 (push_bit 24 x OR take_bit 16 y) = take_bit 40 x" for x y :: u64
    by (rule bit_word_eqI) (auto simp: bit_simps)
  then have "drop_bit 24 (nanorq_oti_common rq) = of_nat ?f"
    unfolding c using take_bit_of_nat_small [OF b(1)] by simp
  then show "unat (drop_bit 24 (nanorq_oti_common rq)) = ?f"
    using b(1) by (simp add: unat_of_nat)
  have "nanorq_oti_common rq AND 0xffff = take_bit 16 (of_nat ?t - 1)"
  proof -
    have "take_bit 16 (push_bit 24 x OR take_bit 16 y) = take_bit 16 y" for x y :: u64
      by (rule bit_word_eqI) (auto simp: bit_simps)
    then show ?thesis unfolding and_literals c .
  qed
  then show "unat (nanorq_oti_common rq AND 0xffff) + 1 = ?t"
    using dec_word [OF b(2,3)] b(2) by simp
qed

lemma oti_scheme_fields:
  assumes "rq_ok rq"
  shows "unat (drop_bit 24 (nanorq_oti_scheme_specific rq) AND 0x00ff) + 1 = oZ (scheme rq)"
    "unat (drop_bit 8 (nanorq_oti_scheme_specific rq) AND 0xffff) + 1 = oN (scheme rq)"
    "unat (nanorq_oti_scheme_specific rq AND 0xff) = oAl (common rq)"
proof -
  let ?z = "oZ (scheme rq)" and ?al = "oAl (common rq)"
  have b: "0 < ?z" "?z \<le> 65536" "?z - 1 < 2 ^ 8" "oN (scheme rq) = 1" "?al < 2 ^ 8"
    using assms by (auto simp: rq_ok_def Z_max_def)
  define z :: u64 where "z = of_nat ?z - 1"
  define al :: u32 where "al = of_nat ?al"
  have z: "unat z = ?z - 1" using dec_word(1) [OF b(1,2)] by (simp add: z_def)
  then have z8: "take_bit 8 z = z" using b(3) by (simp add: word_unat_eq_iff unat_take_bit)
  have al: "take_bit 8 al = al" unfolding al_def by (rule take_bit_of_nat_small [OF b(5)])
  have s: "nanorq_oti_scheme_specific rq = ucast (push_bit 24 z) OR al"
    using b(4) by (simp add: nanorq_oti_scheme_specific_def z_def al_def)
  have "take_bit 8 (drop_bit 24 (ucast (push_bit 24 z) OR al)) = ucast z"
    "take_bit 16 (drop_bit 8 (ucast (push_bit 24 z) OR al)) = 0"
    "take_bit 8 (ucast (push_bit 24 z) OR al) = al"
    by (rule bit_word_eqI; auto simp: bit_simps dest: bit_take_bounded [OF al] bit_take_bounded [OF z8])+
  then show "unat (drop_bit 24 (nanorq_oti_scheme_specific rq) AND 0x00ff) + 1 = ?z"
    "unat (drop_bit 8 (nanorq_oti_scheme_specific rq) AND 0xffff) + 1 = oN (scheme rq)"
    "unat (nanorq_oti_scheme_specific rq AND 0xff) = ?al"
    using b z unfolding s by (simp_all add: and_literals al_def unat_of_nat_small unsigned_ucast_eq take_bit_nat_eq_self)
qed

lemma decoder_of_fields:
  assumes "rq_ok rq"
    and "unat (drop_bit 24 com) = oF (common rq)" and "unat (com AND 0xffff) + 1 = oT (common rq)"
    and "unat (drop_bit 24 sch AND 0x00ff) + 1 = oZ (scheme rq)"
    and "unat (drop_bit 8 sch AND 0xffff) + 1 = oN (scheme rq)"
    and "unat (sch AND 0xff) = oAl (common rq)"
  shows "nanorq_decoder_new com sch = Inr (Some (rq, 2 * pKprime (rqP rq)))"
proof -
  have t: "oT (common rq) mod 65536 = oT (common rq)" "oT (common rq) \<noteq> 0" "\<not> oT (common rq) < oAl (common rq)"
      "oT (common rq) mod oAl (common rq) = 0"
    and z: "oZ (scheme rq) \<noteq> 0" "oN (scheme rq) \<noteq> 0" "oAl (common rq) \<noteq> 0"
    using assms(1) by (auto simp: rq_ok_def dvd_eq_mod_eq_0 [symmetric] intro: dvd_imp_le simp: not_less)
  have k: "\<not> NANORQ_MAX_TRANSFER < oF (common rq)"
    "\<not> K_max < div_ceil (div_ceil (oF (common rq)) (oT (common rq))) (oZ (scheme rq))"
    "params_init (block_symbols (fill_partition (div_ceil (oF (common rq)) (oT (common rq))) (oZ (scheme rq))) 0 mod 65536)
      = Inr (rqP rq)"
    using assms(1) by (auto simp: rq_ok_def)
  have e: "rq = \<lparr>common = \<lparr>oF = oF (common rq), oT = oT (common rq), oAl = oAl (common rq)\<rparr>,
      scheme = \<lparr>oZ = oZ (scheme rq), oN = oN (scheme rq), oKt = div_ceil (oF (common rq)) (oT (common rq))\<rparr>,
      src_part = fill_partition (div_ceil (oF (common rq)) (oT (common rq))) (oZ (scheme rq)),
      sub_part = fill_partition (oT (common rq) div oAl (common rq)) (oN (scheme rq)), rqP = rqP rq\<rparr>"
    using assms(1) by (auto simp: rq_ok_def)
  show ?thesis
    unfolding nanorq_decoder_new_def Let_def assms(2-6) using t z k e by simp
qed



text \<open>C16: Whatever encoder is built, for any of its size, alignment and block arguments, a decoder built
  from its two OTI words agrees with it on all parameters: transfer length, symbol size, alignment,
  block and sub-block partition and code parameters.\<close>

theorem oti_roundtrip:
  assumes "nanorq_encoder_new_ex len t k z al = Some (Inr (Some rq))" and "t < 65536"
  shows "nanorq_decoder_new (nanorq_oti_common rq) (nanorq_oti_scheme_specific rq)
    = Inr (Some (rq, 2 * pKprime (rqP rq)))"
proof -
  have ok: "rq_ok rq" using encoder_rq_ok [OF assms] ..
  show ?thesis
    by (rule decoder_of_fields [OF ok oti_common_fields [OF ok] oti_scheme_fields [OF ok]])
qed

lemma oti_roundtrip_witness:
  "\<exists>rq. nanorq_encoder_new_ex 1000 122 0 0 1 = Some (Inr (Some rq))
    \<and> nanorq_decoder_new (nanorq_oti_common rq) (nanorq_oti_scheme_specific rq)
      = Inr (Some (rq, 2 * pKprime (rqP rq)))"
proof -
  obtain rq where "nanorq_encoder_new_ex 1000 122 0 0 1 = Some (Inr (Some rq))"
    using encoder_new_exists [of 1000 122]
    by (auto simp: nanorq_encoder_new_def NANORQ_MAX_TRANSFER_def Z_max_def K_max_def div_ceil_def)
  with oti_roundtrip [OF this] show ?thesis by simp
qed

text \<open>An empty file has no encoder: with no symbols the number of symbols per block is 0, and the
  division by it faults, for every symbol size.\<close>

theorem encoder_empty_file:
  assumes "0 < t"
  shows "nanorq_encoder_new 0 t 1 = Some (Inl Div_By_Zero)"
proof -
  have "grow_T 0 t 1 = Some (Inr t)" using assms by (subst grow_T.simps) (simp add: div_ceil_def)
  moreover have "gen_scheme_specific \<lparr>oF = 0, oT = t, oAl = 1\<rparr> 0 0 = Inl Div_By_Zero"
    using assms by (simp add: gen_scheme_specific_def div_ceil_def Let_def grow_Z.simps)
  ultimately show ?thesis
    using assms by (simp add: nanorq_encoder_new_def nanorq_encoder_new_ex_def match_align_def Let_def)
qed

lemma encoder_empty_file_witness: "nanorq_encoder_new 0 122 1 = Some (Inl Div_By_Zero)"
  using encoder_empty_file [of 122] by simp

text \<open>A received configuration whose symbol-size field is 0xffff makes the decoder divide by zero:
  the 16-bit increment wraps to 0, for every transfer length up to the maximum and every scheme.\<close>

theorem decoder_symbol_size_wraps:
  assumes "com AND 0xffff = 0xffff" and "unat (drop_bit 24 com) \<le> NANORQ_MAX_TRANSFER"
  shows "nanorq_decoder_new com sch = Inl Div_By_Zero"
  using assms by (simp add: nanorq_decoder_new_def Let_def)

lemma decoder_symbol_size_wraps_witness: "nanorq_decoder_new 0x64000000FFFF 1 = Inl Div_By_Zero"
  by (rule decoder_symbol_size_wraps) (simp_all add: NANORQ_MAX_TRANSFER_def drop_bit_eq_div)

end
