(* ===== verification/Crc6.thy ===== *)
theory Crc6
  imports Prelude
begin

section \<open>The 6-bit CRC of the frame header (crc6.c)\<close>

text \<open>
  The table-driven routine \<open>crc6_0X6F\<close>, its specification as the remainder of a polynomial division
  over the two-element field, and what the polynomial detects. Bits are listed most significant
  first. The table's 256 entries are those of the source; the kernel evaluates all of them against
  the division once (\<open>table_is_division\<close>), and everything else is proved from that.
\<close>

definition crc6_table :: "u8 list" where
  "crc6_table =
    [0x00, 0x2f, 0x31, 0x1e, 0x0d, 0x22, 0x3c, 0x13, 0x1a, 0x35, 0x2b, 0x04, 0x17, 0x38, 0x26, 0x09,
     0x34, 0x1b, 0x05, 0x2a, 0x39, 0x16, 0x08, 0x27, 0x2e, 0x01, 0x1f, 0x30, 0x23, 0x0c, 0x12, 0x3d,
     0x07, 0x28, 0x36, 0x19, 0x0a, 0x25, 0x3b, 0x14, 0x1d, 0x32, 0x2c, 0x03, 0x10, 0x3f, 0x21, 0x0e,
     0x33, 0x1c, 0x02, 0x2d, 0x3e, 0x11, 0x0f, 0x20, 0x29, 0x06, 0x18, 0x37, 0x24, 0x0b, 0x15, 0x3a,
     0x0e, 0x21, 0x3f, 0x10, 0x03, 0x2c, 0x32, 0x1d, 0x14, 0x3b, 0x25, 0x0a, 0x19, 0x36, 0x28, 0x07,
     0x3a, 0x15, 0x0b, 0x24, 0x37, 0x18, 0x06, 0x29, 0x20, 0x0f, 0x11, 0x3e, 0x2d, 0x02, 0x1c, 0x33,
     0x09, 0x26, 0x38, 0x17, 0x04, 0x2b, 0x35, 0x1a, 0x13, 0x3c, 0x22, 0x0d, 0x1e, 0x31, 0x2f, 0x00,
     0x3d, 0x12, 0x0c, 0x23, 0x30, 0x1f, 0x01, 0x2e, 0x27, 0x08, 0x16, 0x39, 0x2a, 0x05, 0x1b, 0x34,
     0x1c, 0x33, 0x2d, 0x02, 0x11, 0x3e, 0x20, 0x0f, 0x06, 0x29, 0x37, 0x18, 0x0b, 0x24, 0x3a, 0x15,
     0x28, 0x07, 0x19, 0x36, 0x25, 0x0a, 0x14, 0x3b, 0x32, 0x1d, 0x03, 0x2c, 0x3f, 0x10, 0x0e, 0x21,
     0x1b, 0x34, 0x2a, 0x05, 0x16, 0x39, 0x27, 0x08, 0x01, 0x2e, 0x30, 0x1f, 0x0c, 0x23, 0x3d, 0x12,
     0x2f, 0x00, 0x1e, 0x31, 0x22, 0x0d, 0x13, 0x3c, 0x35, 0x1a, 0x04, 0x2b, 0x38, 0x17, 0x09, 0x26,
     0x12, 0x3d, 0x23, 0x0c, 0x1f, 0x30, 0x2e, 0x01, 0x08, 0x27, 0x39, 0x16, 0x05, 0x2a, 0x34, 0x1b,
     0x26, 0x09, 0x17, 0x38, 0x2b, 0x04, 0x1a, 0x35, 0x3c, 0x13, 0x0d, 0x22, 0x31, 0x1e, 0x00, 0x2f,
     0x15, 0x3a, 0x24, 0x0b, 0x18, 0x37, 0x29, 0x06, 0x0f, 0x20, 0x3e, 0x11, 0x02, 0x2d, 0x33, 0x1c,
     0x21, 0x0e, 0x10, 0x3f, 0x2c, 0x03, 0x1d, 0x32, 0x3b, 0x14, 0x0a, 0x25, 0x36, 0x19, 0x07, 0x28]"

definition tbl_idx :: "u16 \<Rightarrow> u8 \<Rightarrow> u8" where
  "tbl_idx crc d = ucast (push_bit 2 crc XOR ucast d)"

fun crc6_0X6F :: "u16 \<Rightarrow> bytes \<Rightarrow> u16" where
  "crc6_0X6F crc [] = crc AND 0x3f"
| "crc6_0X6F crc (d # ds) = crc6_0X6F (ucast (crc6_table ! unat (tbl_idx crc d)) AND 0x3f) ds"

subsection \<open>Specification: the remainder of a division\<close>

text \<open>
  \<open>crc_generator\<close> is the divisor D^6 + D^5 + D^3 + D^2 + D + 1 without its leading term.
\<close>

definition crc_generator :: "bool list" where
  "crc_generator = [True, False, True, True, True, True]"

fun xor_prefix :: "bool list \<Rightarrow> bool list \<Rightarrow> bool list" where
  "xor_prefix [] ys = ys"
| "xor_prefix (x # xs) [] = []"
| "xor_prefix (x # xs) (y # ys) = (x \<noteq> y) # xor_prefix xs ys"

lemma length_xor_prefix [simp]: "length (xor_prefix xs ys) = length ys"
  by (induction xs ys rule: xor_prefix.induct) auto

text \<open>Long division: cancel the leading bit with the divisor until six bits are left.\<close>

function poly_mod :: "bool list \<Rightarrow> bool list" where
  "poly_mod bs =
     (if length bs \<le> 6 then bs
      else if hd bs then poly_mod (xor_prefix crc_generator (tl bs)) else poly_mod (tl bs))"
  by pat_completeness auto
termination by (relation "measure length") auto

declare poly_mod.simps [simp del]

lemma poly_mod_short [simp]: "length bs \<le> 6 \<Longrightarrow> poly_mod bs = bs"
  by (simp add: poly_mod.simps)

lemma poly_mod_Cons [simp]:
  "6 \<le> length bs \<Longrightarrow>
    poly_mod (b # bs) = (if b then poly_mod (xor_prefix crc_generator bs) else poly_mod bs)"
  by (subst poly_mod.simps) simp

definition byte_bits :: "u8 \<Rightarrow> bool list" where
  "byte_bits d = map (bit d) [7, 6, 5, 4, 3, 2, 1, 0]"

definition crc_bits :: "'a::len word \<Rightarrow> bool list" where
  "crc_bits c = map (bit c) [5, 4, 3, 2, 1, 0]"

lemma length_byte_bits [simp]: "length (byte_bits d) = 8"
  by (simp add: byte_bits_def)

lemma length_crc_bits [simp]: "length (crc_bits c) = 6"
  by (simp add: crc_bits_def)

abbreviation message_bits :: "bytes \<Rightarrow> bool list" where
  "message_bits ds \<equiv> concat (map byte_bits ds)"

text \<open>
  The checksum of a message from the initial value \<open>crc\<close>: the message's bits followed by six zeros,
  with the initial value added to the first six, modulo the divisor.
\<close>

definition crc6_spec :: "'a::len word \<Rightarrow> bytes \<Rightarrow> bool list" where
  "crc6_spec crc ds = poly_mod (xor_prefix (crc_bits crc) (message_bits ds @ replicate 6 False))"

subsection \<open>The division with a six-bit register\<close>

fun reg_step :: "bool list \<Rightarrow> bool \<Rightarrow> bool list" where
  "reg_step r b =
     (let s = tl r @ [False] in if hd r \<noteq> b then xor_prefix crc_generator s else s)"

fun reg_run :: "bool list \<Rightarrow> bool list \<Rightarrow> bool list" where
  "reg_run r [] = r"
| "reg_run r (b # bs) = reg_run (reg_step r b) bs"

lemma length_reg_step [simp]: "length r = 6 \<Longrightarrow> length (reg_step r b) = 6"
  by (simp add: Let_def)

lemma length_reg_run [simp]: "length r = 6 \<Longrightarrow> length (reg_run r bs) = 6"
  by (induction r bs rule: reg_run.induct) (simp_all del: reg_step.simps)

lemma xor_prefix_append:
  "length xs \<le> length ys \<Longrightarrow> xor_prefix xs (ys @ zs) = xor_prefix xs ys @ zs"
  by (induction xs ys rule: xor_prefix.induct) auto

lemma xor_prefix_xor_prefix:
  "length xs = length ys \<Longrightarrow> xor_prefix xs (xor_prefix ys zs) = xor_prefix (xor_prefix xs ys) zs"
proof (induction xs ys arbitrary: zs rule: xor_prefix.induct)
  case (3 x xs y ys)
  then show ?case by (cases zs) auto
qed simp_all

lemma xor_prefix_zeros [simp]: "xor_prefix (replicate n False) ys = ys"
proof (induction n arbitrary: ys)
  case (Suc n)
  then show ?case by (cases ys) auto
qed simp

lemma xor_prefix_pad: "xor_prefix (xs @ replicate n False) ys = xor_prefix xs ys"
  by (induction xs ys rule: xor_prefix.induct) auto

lemma reg_step_poly_mod:
  assumes "length r = 6" and "6 \<le> length rest"
  shows "poly_mod (xor_prefix r (b # rest)) = poly_mod (xor_prefix (reg_step r b) rest)"
proof -
  obtain r0 rs where r: "r = r0 # rs" "length rs = 5"
    using assms(1) by (cases r) auto
  have pad: "xor_prefix (rs @ [False]) rest = xor_prefix rs rest"
    using xor_prefix_pad [of rs 1 rest] by simp
  have "xor_prefix crc_generator (xor_prefix rs rest)
      = xor_prefix (xor_prefix crc_generator (rs @ [False])) rest"
    using r(2) by (simp add: xor_prefix_xor_prefix [symmetric] pad crc_generator_def)
  with assms(2) show ?thesis by (simp add: r(1) Let_def pad)
qed

lemma reg_run_poly_mod:
  "length r = 6 \<Longrightarrow> 6 \<le> length rest \<Longrightarrow>
    poly_mod (xor_prefix r (bs @ rest)) = poly_mod (xor_prefix (reg_run r bs) rest)"
proof (induction r bs rule: reg_run.induct)
  case (2 r b bs)
  have "poly_mod (xor_prefix r ((b # bs) @ rest)) = poly_mod (xor_prefix (reg_step r b) (bs @ rest))"
    using reg_step_poly_mod [of r "bs @ rest" b] 2(2,3) by simp
  also have "\<dots> = poly_mod (xor_prefix (reg_run (reg_step r b) bs) rest)"
    using 2 by (intro 2(1)) (simp_all del: reg_step.simps)
  finally show ?case by simp
qed simp

lemma xor_prefix_replicate_False:
  "length r = n \<Longrightarrow> xor_prefix r (replicate n False) = r"
  by (induction r arbitrary: n) auto

lemma reg_run_remainder:
  assumes "length r = 6"
  shows "reg_run r bs = poly_mod (xor_prefix r (bs @ replicate 6 False))"
  using reg_run_poly_mod [OF assms, of "replicate 6 False" bs] assms
  by (simp add: xor_prefix_replicate_False)

lemma reg_run_from_zero:
  assumes "length r = 6" and "6 \<le> length bs"
  shows "reg_run r bs = reg_run (replicate 6 False) (xor_prefix r bs)"
proof -
  have "reg_run r bs = poly_mod (xor_prefix r bs @ replicate 6 False)"
    using assms by (simp add: reg_run_remainder xor_prefix_append)
  also have "\<dots> = reg_run (replicate 6 False) (xor_prefix r bs)"
    by (simp only: reg_run_remainder length_replicate xor_prefix_zeros)
  finally show ?thesis .
qed

subsection \<open>The table holds the division's remainders\<close>

definition entry_ok :: "nat \<times> u8 \<Rightarrow> bool" where
  "entry_ok e \<longleftrightarrow>
     crc_bits (snd e) = reg_run (replicate 6 False) (byte_bits (word_of_nat (fst e)))"

lemma crc6_table_entries: "list_all entry_ok (enumerate 0 crc6_table)"
  by code_simp

lemma table_is_division:
  "crc_bits (crc6_table ! unat (i :: u8)) = reg_run (replicate 6 False) (byte_bits i)"
proof -
  have "unat i < 2 ^ LENGTH(8)" by (rule unsigned_less)
  then have i: "unat i < length crc6_table" by (simp add: crc6_table_def)
  then have "(unat i, crc6_table ! unat i) \<in> set (enumerate 0 crc6_table)"
    by (simp add: in_set_enumerate_eq)
  then have "entry_ok (unat i, crc6_table ! unat i)"
    using crc6_table_entries by (simp only: list_all_iff)
  then show ?thesis by (simp add: entry_ok_def)
qed

lemma byte_bits_tbl_idx: "byte_bits (tbl_idx crc d) = xor_prefix (crc_bits crc) (byte_bits d)"
  by (simp add: tbl_idx_def byte_bits_def crc_bits_def bit_simps)

lemma crc_bits_masked: "crc_bits ((ucast (t :: u8) :: u16) AND 0x3f) = crc_bits t"
proof -
  have "(0x3f :: u16) = mask 6" by (simp add: mask_eq_exp_minus_1)
  then show ?thesis by (simp add: crc_bits_def bit_simps)
qed

lemma crc_bits_step:
  "crc_bits ((ucast (crc6_table ! unat (tbl_idx crc d)) :: u16) AND 0x3f)
    = reg_run (crc_bits crc) (byte_bits d)"
  using reg_run_from_zero [of "crc_bits crc" "byte_bits d"]
  by (simp add: crc_bits_masked table_is_division byte_bits_tbl_idx)

lemma reg_run_append: "reg_run r (xs @ ys) = reg_run (reg_run r xs) ys"
  by (induction r xs rule: reg_run.induct) simp_all

lemma crc6_reg_run: "crc_bits (crc6_0X6F crc ds) = reg_run (crc_bits crc) (message_bits ds)"
proof (induction ds arbitrary: crc)
  case Nil
  have "(0x3f :: u16) = mask 6" by (simp add: mask_eq_exp_minus_1)
  then show ?case by (simp add: crc_bits_def bit_simps)
next
  case (Cons d ds)
  then show ?case by (simp add: crc_bits_step reg_run_append del: reg_run.simps)
qed

lemma crc6_masked: "crc6_0X6F crc ds = crc6_0X6F crc ds AND 0x3f"
  by (induction ds arbitrary: crc) (simp_all add: and.assoc)

lemma crc6_eqI:
  assumes "crc_bits (crc6_0X6F c xs) = crc_bits (crc6_0X6F c' ys)"
  shows "crc6_0X6F c xs = crc6_0X6F c' ys"
proof -
  have m: "(0x3f :: u16) = mask 6" by (simp add: mask_eq_exp_minus_1)
  have "bit (crc6_0X6F c xs) n = bit (crc6_0X6F c' ys) n" if "n < 6" for n
  proof -
    have "n \<in> {0, 1, 2, 3, 4, 5}" using that by auto
    with assms show ?thesis by (auto simp: crc_bits_def)
  qed
  then have "crc6_0X6F c xs AND mask 6 = crc6_0X6F c' ys AND mask 6"
    by (intro bit_word_eqI) (auto simp: bit_simps)
  then show ?thesis using crc6_masked [of c xs] crc6_masked [of c' ys] by (simp add: m)
qed

lemma crc6_bound: "crc6_0X6F crc ds < 64"
proof -
  have "(0x3f :: u16) = mask 6" by (simp add: mask_eq_exp_minus_1)
  then have "crc6_0X6F crc ds AND mask 6 < 64"
    using and_mask_less' [of 6 "crc6_0X6F crc ds"] by simp
  then show ?thesis using crc6_masked [of crc ds] \<open>0x3f = mask 6\<close> by simp
qed

text \<open>
  C11: for every initial value and message the table-driven routine returns the 6-bit remainder of
  the message polynomial divided by D^6 + D^5 + D^3 + D^2 + D + 1, as the comment above it promises,
  and the result fits six bits.
\<close>

theorem crc6_is_remainder:
  "crc_bits (crc6_0X6F crc ds) = crc6_spec crc ds \<and> crc6_0X6F crc ds < 64"
  by (simp add: crc6_reg_run crc6_spec_def reg_run_remainder crc6_bound)

subsection \<open>What the checksum detects\<close>

definition odd_ones :: "bool list \<Rightarrow> bool" where
  "odd_ones bs \<longleftrightarrow> odd (length (filter id bs))"

lemma odd_ones_simps [simp]:
  "\<not> odd_ones []"
  "odd_ones (b # bs) \<longleftrightarrow> (b \<noteq> odd_ones bs)"
  by (auto simp: odd_ones_def)

lemma odd_ones_append [simp]: "odd_ones (xs @ ys) \<longleftrightarrow> (odd_ones xs \<noteq> odd_ones ys)"
  by (induction xs) auto

lemma odd_ones_zeros [simp]: "\<not> odd_ones (replicate n False)"
  by (induction n) auto

lemma odd_ones_xor_prefix:
  "length xs \<le> length ys \<Longrightarrow> odd_ones (xor_prefix xs ys) \<longleftrightarrow> (odd_ones xs \<noteq> odd_ones ys)"
  by (induction xs ys rule: xor_prefix.induct) auto

text \<open>The divisor has an even number of terms, so division keeps the parity.\<close>

lemma odd_ones_poly_mod: "odd_ones (poly_mod bs) = odd_ones bs"
proof (induction bs rule: poly_mod.induct)
  case (1 bs)
  show ?case
  proof (cases "length bs \<le> 6")
    case False
    then obtain b cs where bs: "bs = b # cs" "6 \<le> length cs" by (cases bs) auto
    then show ?thesis
      using 1 by (auto simp: odd_ones_xor_prefix crc_generator_def)
  qed simp
qed

lemma odd_ones_crc6:
  "odd_ones (crc_bits (crc6_0X6F crc ds)) \<longleftrightarrow> (odd_ones (crc_bits crc) \<noteq> odd_ones (message_bits ds))"
proof -
  have "length (crc_bits crc) \<le> length (message_bits ds @ replicate 6 False)" by simp
  from odd_ones_xor_prefix [OF this] show ?thesis
    by (simp add: crc6_reg_run reg_run_remainder odd_ones_poly_mod)
qed

text \<open>Linearity: the register of a difference is the difference of the registers.\<close>

lemma six_bits:
  assumes "length r = 6"
  obtains a b c d e f where "r = [a, b, c, d, e, f]"
  using assms by (auto simp: numeral_eq_Suc length_Suc_conv)

lemma reg_step_linear:
  assumes "length r = 6" and "length s = 6"
  shows "reg_step (xor_prefix r s) (a \<noteq> b) = xor_prefix (reg_step r a) (reg_step s b)"
proof -
  obtain r0 r1 r2 r3 r4 r5 where r: "r = [r0, r1, r2, r3, r4, r5]" by (rule six_bits [OF assms(1)])
  obtain s0 s1 s2 s3 s4 s5 where s: "s = [s0, s1, s2, s3, s4, s5]" by (rule six_bits [OF assms(2)])
  show ?thesis
    by (cases "r0 \<noteq> a"; cases "s0 \<noteq> b") (auto simp: r s crc_generator_def Let_def)
qed

lemma reg_run_linear:
  assumes "length xs = length ys" and "length r = 6" and "length s = 6"
  shows "reg_run (xor_prefix r s) (xor_prefix xs ys) = xor_prefix (reg_run r xs) (reg_run s ys)"
  using assms
proof (induction xs ys arbitrary: r s rule: list_induct2)
  case (Cons x xs y ys)
  have "reg_run (xor_prefix r s) (xor_prefix (x # xs) (y # ys))
      = reg_run (xor_prefix (reg_step r x) (reg_step s y)) (xor_prefix xs ys)"
    using Cons.prems by (simp only: xor_prefix.simps reg_run.simps reg_step_linear)
  also have "\<dots> = xor_prefix (reg_run (reg_step r x) xs) (reg_run (reg_step s y) ys)"
    using Cons.prems by (intro Cons.IH length_reg_step)
  finally show ?case by simp
qed simp

definition zeros :: "nat \<Rightarrow> bool list" where
  "zeros n = replicate n False"

lemma length_zeros [simp]: "length (zeros n) = n"
  by (simp add: zeros_def)

lemma xor_prefix_zeros' [simp]: "xor_prefix (zeros n) ys = ys"
  by (simp add: zeros_def)

lemma xor_prefix_same: "xor_prefix xs xs = zeros (length xs)"
  by (induction xs) (simp_all add: zeros_def)

lemma xor_prefix_eq_zeros: "length xs = length ys \<Longrightarrow> xor_prefix xs ys = zeros n \<Longrightarrow> xs = ys"
  by (induction xs ys arbitrary: n rule: list_induct2) (auto simp: zeros_def Cons_replicate_eq)

text \<open>The divisor ends in 1, so a step on a zero bit loses no information.\<close>

lemma reg_step_eq_zeros:
  assumes "length r = 6" and "reg_step r False = zeros 6"
  shows "r = zeros 6"
proof -
  obtain r0 r1 r2 r3 r4 r5 where r: "r = [r0, r1, r2, r3, r4, r5]" by (rule six_bits [OF assms(1)])
  show ?thesis
    using assms(2)
    by (cases r0) (simp_all add: r crc_generator_def zeros_def numeral_eq_Suc Let_def)
qed

lemma reg_run_zeros_eq_zeros:
  "length r = 6 \<Longrightarrow> reg_run r (zeros n) = zeros 6 \<Longrightarrow> r = zeros 6"
proof (induction n arbitrary: r)
  case 0
  then show ?case by (simp add: zeros_def)
next
  case (Suc n)
  have "reg_run (reg_step r False) (zeros n) = zeros 6"
    using Suc.prems(2) by (simp add: zeros_def)
  then have "reg_step r False = zeros 6"
    using Suc.IH [of "reg_step r False"] Suc.prems(1) by (simp del: reg_step.simps)
  with Suc.prems(1) show ?case by (rule reg_step_eq_zeros)
qed

lemma reg_step_zeros: "reg_step (zeros 6) False = zeros 6"
  by code_simp

lemma reg_run_zero_zeros: "reg_run (zeros 6) (zeros n) = zeros 6"
proof (induction n)
  case (Suc n)
  have "reg_run (zeros 6) (zeros (Suc n)) = reg_run (reg_step (zeros 6) False) (zeros n)"
    by (simp add: zeros_def)
  then show ?case by (simp only: reg_step_zeros Suc)
qed (simp add: zeros_def)

lemma xor_prefix_comm: "length xs = length ys \<Longrightarrow> xor_prefix xs ys = xor_prefix ys xs"
  by (induction xs ys rule: list_induct2) auto

lemma reg_run_burst:
  assumes "length w \<le> 6" and "reg_run (zeros 6) w = zeros 6"
  shows "w = zeros (length w)"
proof -
  let ?w = "zeros (6 - length w) @ w"
  have len: "length ?w = 6" using assms(1) by simp
  have "reg_run ?w (zeros 6) = reg_run (zeros 6) (xor_prefix ?w (zeros 6))"
    using len reg_run_from_zero [of ?w "zeros 6"] by (simp add: zeros_def)
  also have "xor_prefix ?w (zeros 6) = ?w"
    using len xor_prefix_comm [of ?w "zeros 6"] by simp
  also have "reg_run (zeros 6) ?w = zeros 6"
    by (simp only: reg_run_append reg_run_zero_zeros assms(2))
  finally have "?w = zeros 6"
    by (rule reg_run_zeros_eq_zeros [OF len])
  then have "set (zeros (6 - length w) @ w) \<subseteq> {False}"
    by (simp only: zeros_def) auto
  then have "\<forall>b \<in> set w. b = False" by auto
  then have "w = replicate (length w) False" by (intro replicate_eqI) auto
  then show ?thesis by (simp only: zeros_def)
qed

lemma length_message_bits [simp]: "length (message_bits ds) = 8 * length ds"
  by (induction ds) simp_all

lemma crc6_difference:
  assumes "length ds = length ds'" and "crc6_0X6F crc ds = crc6_0X6F crc ds'"
  shows "reg_run (zeros 6) (xor_prefix (message_bits ds) (message_bits ds')) = zeros 6"
proof -
  have "xor_prefix (reg_run (crc_bits crc) (message_bits ds)) (reg_run (crc_bits crc) (message_bits ds'))
      = zeros 6"
    using assms(2) by (simp add: crc6_reg_run [symmetric] xor_prefix_same)
  then show ?thesis
    using assms(1)
    by (simp add: reg_run_linear [symmetric] xor_prefix_same)
qed

lemma crc6_odd_changes:
  assumes "length ds = length ds'" and "odd_ones (xor_prefix (message_bits ds) (message_bits ds'))"
  shows "crc6_0X6F crc ds \<noteq> crc6_0X6F crc ds'"
proof
  assume "crc6_0X6F crc ds = crc6_0X6F crc ds'"
  then have "odd_ones (message_bits ds) = odd_ones (message_bits ds')"
    by (metis odd_ones_crc6)
  then show False using assms by (simp add: odd_ones_xor_prefix)
qed

lemma crc6_burst_changes:
  assumes "length ds = length ds'"
    and "xor_prefix (message_bits ds) (message_bits ds') = zeros i @ w @ zeros j"
    and "length w \<le> 6" and "True \<in> set w"
  shows "crc6_0X6F crc ds \<noteq> crc6_0X6F crc ds'"
proof
  assume "crc6_0X6F crc ds = crc6_0X6F crc ds'"
  then have "reg_run (zeros 6) (zeros i @ w @ zeros j) = zeros 6"
    using crc6_difference [OF assms(1)] assms(2) by simp
  then have "reg_run (reg_run (zeros 6) w) (zeros j) = zeros 6"
    by (simp only: reg_run_append reg_run_zero_zeros)
  then have "reg_run (zeros 6) w = zeros 6"
    by (rule reg_run_zeros_eq_zeros [rotated]) simp
  then have "w = zeros (length w)"
    by (rule reg_run_burst [OF assms(3)])
  with assms(4) show False by (metis in_set_replicate zeros_def)
qed

text \<open>
  C27: damage of two kinds always changes the checksum of a message, wherever it falls: an odd number of
  flipped bits, and a burst (all flipped bits within six consecutive positions, at least one flipped).
\<close>

theorem crc6_detects_damage:
  assumes "length ds = length ds'"
    and "odd_ones (xor_prefix (message_bits ds) (message_bits ds'))
      \<or> (\<exists>i w j. xor_prefix (message_bits ds) (message_bits ds') = zeros i @ w @ zeros j
            \<and> length w \<le> 6 \<and> True \<in> set w)"
  shows "crc6_0X6F crc ds \<noteq> crc6_0X6F crc ds'"
  using assms crc6_odd_changes crc6_burst_changes by blast

theorem crc6_detects_damage_witness:
  "crc6_0X6F 1 [0x10, 0x20] \<noteq> crc6_0X6F 1 [0x11, 0xe0] \<and> crc6_0X6F 1 [0x11, 0x22] \<noteq> crc6_0X6F 1 [0x12, 0xe2]"
proof
  show "crc6_0X6F 1 [0x10, 0x20] \<noteq> crc6_0X6F 1 [0x11, 0xe0]"
    by (rule crc6_detects_damage) (simp_all add: byte_bits_def)
  have "xor_prefix (message_bits [0x11, 0x22]) (message_bits [0x12, 0xe2])
      = zeros 6 @ [True, True, True, True] @ zeros 6"
    by code_simp
  then show "crc6_0X6F 1 [0x11, 0x22] \<noteq> crc6_0X6F 1 [0x12, 0xe2]"
    by (intro crc6_detects_damage disjI2 exI conjI) (assumption | simp)+
qed

end
