(* ===== verification/Packets.thy ===== *)
theory Packets
  imports Oti Crc6
begin

section \<open>Packet formats (mercury_modes.h, transmitter.c, receiver.c, daemon.c)\<close>

text \<open>
  The frames on the air: a header byte (packet type and CRC-6), then the configuration (the reduced
  OTI), a tagged symbol, or, in the daemon's frames, both. The sender's side builds a frame as the
  code fills its array, the receiver's side reads fields out of a buffer of \<open>MAX_PAYLOAD\<close> bytes, where
  a checksum over more bytes than the buffer has is a fault. The lemmas show that the fields survive
  the trip and that the header test rejects damaged frames.
\<close>

definition SHM_PAYLOAD_BUFFER_SIZE :: nat where "SHM_PAYLOAD_BUFFER_SIZE = 131072"
definition CONFIG_PACKET_SIZE :: nat where "CONFIG_PACKET_SIZE = 9"
definition TAG_SIZE :: nat where "TAG_SIZE = 3"
definition HERMES_SIZE :: nat where "HERMES_SIZE = 1"
definition RQ_HEADER_SIZE :: nat where "RQ_HEADER_SIZE = 4"
definition PACKET_RQ_CONFIG :: u8 where "PACKET_RQ_CONFIG = 0x02"
definition PACKET_RQ_PAYLOAD :: u8 where "PACKET_RQ_PAYLOAD = 0x03"
definition MERCURY_MODE_MAX :: nat where "MERCURY_MODE_MAX = 16"
definition HERMES_MODE_MAX :: nat where "HERMES_MODE_MAX = 6"
definition CONFIG_BODY_SIZE :: nat where "CONFIG_BODY_SIZE = 8"
definition TAG_BODY_SIZE :: nat where "TAG_BODY_SIZE = 3"
definition MAX_ESI :: nat where "MAX_ESI = 65535"

definition mercury_frame_size :: "nat list" where
  "mercury_frame_size = [12, 25, 37, 50, 62, 75, 100, 62, 75, 100, 74, 99, 175, 100, 174, 175, 162]"

definition hermes_frame_size :: "nat list" where
  "hermes_frame_size = [510, 126, 14, 54, 14, 3, 30]"

lemmas packet_sizes = CONFIG_PACKET_SIZE_def TAG_SIZE_def HERMES_SIZE_def RQ_HEADER_SIZE_def
  CONFIG_BODY_SIZE_def TAG_BODY_SIZE_def

lemmas packet_types = PACKET_RQ_CONFIG_def PACKET_RQ_PAYLOAD_def

subsection \<open>Sending\<close>

text \<open>The header byte of a frame with the given bytes after it: \<open>data[0] = (type << 6) & 0xff\<close>, then
  \<open>data[0] |= crc6_0X6F (1, data + 1, n)\<close>.\<close>

definition frame_header :: "u8 \<Rightarrow> bytes \<Rightarrow> u8" where
  "frame_header ty body = (push_bit 6 ty AND 0xff) OR ucast (crc6_0X6F 1 body)"

text \<open>The configuration packet the transmitter's \<open>main\<close> prepares.\<close>

definition configuration_packet :: "nanorq_params \<Rightarrow> bytes" where
  "configuration_packet rq =
     (let body = nanorq_oti_common_reduced rq @ nanorq_oti_scheme_specific_align1 rq
      in frame_header PACKET_RQ_CONFIG body # body)"

text \<open>The frame \<open>write_esi\<close> makes of an encoded symbol.\<close>

definition payload_frame :: "u8 \<Rightarrow> u32 \<Rightarrow> bytes \<Rightarrow> bytes" where
  "payload_frame sbn esi symbol =
     (let body = nanorq_tag_reduced sbn esi @ symbol
      in frame_header PACKET_RQ_PAYLOAD body # body)"

text \<open>
  \<open>write_configuration_packet\<close>: in shared memory two blocks (the second only if there is stuffing),
  over TCP one frame; a TCP frame shorter than the configuration overflows \<open>full_packet\<close>.
\<close>

definition config_blocks_shm :: "bytes \<Rightarrow> nat \<Rightarrow> bytes list" where
  "config_blocks_shm config packet_size =
     (if CONFIG_PACKET_SIZE < packet_size
      then [config, replicate (packet_size - CONFIG_PACKET_SIZE) 0] else [config])"

definition config_frame_tcp :: "bytes \<Rightarrow> nat \<Rightarrow> bytes result" where
  "config_frame_tcp config packet_size =
     (if packet_size < length config then Inl Out_Of_Bounds
      else Inr (blit (replicate packet_size 0) 0 config))"

text \<open>The daemon's frame: configuration body, tag and symbol under one checksum (\<open>tx_send_one_frame\<close>).\<close>

definition joint_frame :: "bytes \<Rightarrow> u8 \<Rightarrow> u32 \<Rightarrow> bytes \<Rightarrow> bytes" where
  "joint_frame config_body sbn esi symbol =
     (let body = config_body @ nanorq_tag_reduced sbn esi @ symbol
      in frame_header PACKET_RQ_CONFIG body # body)"

subsection \<open>Receiving\<close>

definition packet_type :: "bytes \<Rightarrow> u8" where
  "packet_type frame = drop_bit 6 (frame ! 0) AND 0x3"

definition crc_of :: "bytes \<Rightarrow> nat \<Rightarrow> nat \<Rightarrow> u16 result" where
  "crc_of buf off n = (if off + n \<le> length buf then Inr (crc6_0X6F 1 (chunk buf off n)) else Inl Out_Of_Bounds)"

text \<open>
  \<open>data_len\<close> is \<open>frame_size - 1\<close> computed in 32 bits: for an empty frame it is \<open>-1\<close>, which the loop of
  \<open>crc6_0X6F\<close> counts down past every buffer.
\<close>

definition parse_frame_header :: "bytes \<Rightarrow> nat \<Rightarrow> int result" where
  "parse_frame_header data_frame frame_size =
     (let ty = packet_type data_frame;
          crc6_local = (ucast (data_frame ! 0) :: u16) AND 0x3f
      in case (if ty = 0x02 then crc_of data_frame HERMES_SIZE (CONFIG_PACKET_SIZE - HERMES_SIZE)
               else if frame_size = 0 then Inl Out_Of_Bounds
               else crc_of data_frame HERMES_SIZE (frame_size - HERMES_SIZE)) of
           Inl f \<Rightarrow> Inl f
         | Inr crc6_calc \<Rightarrow> if crc6_local \<noteq> crc6_calc then Inr (-1) else Inr (int (unat ty)))"

definition parse_tag_oti_common :: "bytes \<Rightarrow> u64" where
  "parse_tag_oti_common packet =
     push_bit 24 (ucast (packet ! 1)) OR push_bit 32 (ucast (packet ! 2)) OR push_bit 40 (ucast (packet ! 3))
     OR ucast (packet ! 4) OR push_bit 8 (ucast (packet ! 5))"

definition parse_tag_oti_scheme :: "bytes \<Rightarrow> u32" where
  "parse_tag_oti_scheme packet =
     push_bit 24 (ucast (packet ! 6)) OR push_bit 8 (ucast (packet ! 7)) OR push_bit 16 (ucast (packet ! 8)) OR 1"

definition parse_oti_common_from_frame :: "bytes \<Rightarrow> u64" where
  "parse_oti_common_from_frame frame =
     push_bit 24 (ucast (frame ! 1)) OR push_bit 32 (ucast (frame ! 2)) OR push_bit 40 (ucast (frame ! 3))
     OR ucast (frame ! 4) OR push_bit 8 (ucast (frame ! 5))"

definition parse_oti_scheme_from_frame :: "bytes \<Rightarrow> u32" where
  "parse_oti_scheme_from_frame frame =
     push_bit 24 (ucast (frame ! 6)) OR push_bit 8 (ucast (frame ! 7)) OR push_bit 16 (ucast (frame ! 8)) OR 1"

text \<open>Block number and symbol id behind the first \<open>at\<close> bytes of a frame: offset 1 in the receiver's
  payload packets, \<open>1 + CONFIG_BODY_SIZE\<close> in the daemon's frames.\<close>

definition frame_sbn :: "bytes \<Rightarrow> nat \<Rightarrow> u8" where
  "frame_sbn frame at = frame ! at"

definition frame_esi :: "bytes \<Rightarrow> nat \<Rightarrow> u32" where
  "frame_esi frame at = ucast (frame ! (at + 1)) OR push_bit 8 (ucast (frame ! (at + 2)))"

definition tag_sbn :: "u32 \<Rightarrow> u8" where
  "tag_sbn tag = ucast (drop_bit 24 tag AND 0xff)"

definition tag_esi :: "u32 \<Rightarrow> u32" where
  "tag_esi tag = tag AND 0x00ffffff"

text \<open>The daemon's receiver accepts a frame of its own size, of configuration type, with the right
  checksum over everything behind the header.\<close>

definition joint_frame_ok :: "bytes \<Rightarrow> nat \<Rightarrow> bool result" where
  "joint_frame_ok frame frame_size =
     (if packet_type frame = PACKET_RQ_PAYLOAD then Inr False
      else if packet_type frame \<noteq> PACKET_RQ_CONFIG then Inr False
      else case crc_of frame HERMES_SIZE (frame_size - HERMES_SIZE) of
             Inl f \<Rightarrow> Inl f
           | Inr c \<Rightarrow> Inr (frame ! 0 AND 0x3f = ucast c))"

subsection \<open>The header\<close>

lemma frame_header_fields:
  assumes "ty < 4"
  shows "drop_bit 6 (frame_header ty body) AND 0x3 = ty"
    "(ucast (frame_header ty body) :: u16) AND 0x3f = crc6_0X6F 1 body"
    "frame_header ty body AND 0x3f = ucast (crc6_0X6F 1 body)"
proof -
  define c where "c = crc6_0X6F 1 body"
  have c: "c = take_bit 6 c"
    unfolding c_def using crc6_masked [of 1 body] by (simp add: and_literals)
  have "unat ty < 4" using assms by (simp add: word_less_nat_alt)
  then have ty: "take_bit 2 ty = ty" by (simp add: word_unat_eq_iff unat_take_bit)
  have three: "(0x3 :: u8) = mask 2" by (simp add: mask_eq_exp_minus_1)
  note h = frame_header_def c_def [symmetric] and_literals three take_bit_eq_mask [symmetric]
  have "take_bit 2 (drop_bit 6 (take_bit 8 (push_bit 6 ty) OR ucast c)) = take_bit 2 ty"
    "(take_bit 6 (ucast (take_bit 8 (push_bit 6 ty) OR (ucast c :: u8))) :: u16) = take_bit 6 c"
    "take_bit 6 (take_bit 8 (push_bit 6 ty) OR (ucast c :: u8)) = ucast (take_bit 6 c)"
    by (rule bit_word_eqI; auto simp: bit_simps dest: bit_take_bounded [OF c [symmetric]])+
  then show "drop_bit 6 (frame_header ty body) AND 0x3 = ty"
    "(ucast (frame_header ty body) :: u16) AND 0x3f = crc6_0X6F 1 body"
    "frame_header ty body AND 0x3f = ucast (crc6_0X6F 1 body)"
    using ty c by (simp_all add: h)
qed

lemma payload_type_less: "PACKET_RQ_CONFIG < 4" "PACKET_RQ_PAYLOAD < 4"
  by (simp_all add: packet_types)

lemma chunk_after_header: "chunk (h # body @ rest) 1 (length body) = body"
  by (simp add: chunk_def)

lemma crc_of_frame: "length body = n \<Longrightarrow> crc_of (h # body @ rest) 1 n = Inr (crc6_0X6F 1 body)"
  using chunk_after_header [of h body rest] by (auto simp: crc_of_def)

subsection \<open>The configuration survives\<close>

lemma byte_of_byte:
  "ucast (ucast (take_bit 8 x) :: u8) = take_bit 8 x" for x :: u64
  by (rule bit_word_eqI) (auto simp: bit_simps)

lemma parse_reduced_common:
  assumes "rq_ok rq" and "oF (common rq) < 2 ^ 24" and "p = h # nanorq_oti_common_reduced rq @ rest"
  shows "parse_tag_oti_common p = nanorq_oti_common rq" "parse_oti_common_from_frame p = nanorq_oti_common rq"
proof -
  have f: "take_bit 24 (of_nat (oF (common rq)) :: u64) = of_nat (oF (common rq))"
    by (rule take_bit_of_nat_small [OF assms(2)])
  show "parse_tag_oti_common p = nanorq_oti_common rq"
    unfolding assms(3) using join_common [OF f, of "of_nat (oT (common rq)) - 1"]
    by (simp add: parse_tag_oti_common_def nanorq_oti_common_reduced_def nanorq_oti_common_def Let_def
        and_literals byte_of_byte)
  then show "parse_oti_common_from_frame p = nanorq_oti_common rq"
    by (simp add: parse_tag_oti_common_def parse_oti_common_from_frame_def)
qed

lemma ucast_ucast_8: "(ucast (ucast z :: u8) :: u32) = ucast (take_bit 8 z)" for z :: u64
  by (rule bit_word_eqI) (auto simp: bit_simps)

lemma parse_reduced_scheme:
  assumes "rq_ok rq" and "oAl (common rq) = 1"
    and "p = h # c1 # c2 # c3 # c4 # c5 # nanorq_oti_scheme_specific_align1 rq @ rest"
  shows "parse_tag_oti_scheme p = nanorq_oti_scheme_specific rq"
    "parse_oti_scheme_from_frame p = nanorq_oti_scheme_specific rq"
proof -
  have n: "oN (scheme rq) = 1" using assms(1) by (simp add: rq_ok_def)
  have "(ucast (push_bit 8 (0 :: u64)) :: u32) = 0" by simp
  show "parse_tag_oti_scheme p = nanorq_oti_scheme_specific rq"
    unfolding assms(3) using join_scheme [of "of_nat (oZ (scheme rq)) - 1" 0] n assms(2)
    by (simp add: parse_tag_oti_scheme_def nanorq_oti_scheme_specific_align1_def nanorq_oti_scheme_specific_def
        Let_def and_literals ucast_ucast_8)
  then show "parse_oti_scheme_from_frame p = nanorq_oti_scheme_specific rq"
    by (simp add: parse_tag_oti_scheme_def parse_oti_scheme_from_frame_def)
qed

lemma config_body_shape:
  "\<exists>c1 c2 c3 c4 c5. nanorq_oti_common_reduced rq = [c1, c2, c3, c4, c5]"
  "\<exists>z n1 n2. nanorq_oti_scheme_specific_align1 rq = [z, n1, n2]"
  by (simp_all add: nanorq_oti_common_reduced_def nanorq_oti_scheme_specific_align1_def Let_def)

lemma configuration_parsed:
  assumes "nanorq_encoder_new len t 1 = Some (Inr (Some rq))" and "t < 65536" and "len < 2 ^ 24"
  shows "parse_frame_header (configuration_packet rq @ rest) n = Inr 2
    \<and> parse_tag_oti_common (configuration_packet rq @ rest) = nanorq_oti_common rq
    \<and> parse_tag_oti_scheme (configuration_packet rq @ rest) = nanorq_oti_scheme_specific rq
    \<and> nanorq_decoder_new (parse_tag_oti_common (configuration_packet rq @ rest))
        (parse_tag_oti_scheme (configuration_packet rq @ rest)) = Inr (Some (rq, 2 * pKprime (rqP rq)))"
proof -
  have ok: "rq_ok rq" "oF (common rq) = len"
    using encoder_rq_ok [OF _ assms(2)] assms(1) unfolding nanorq_encoder_new_def by blast+
  have al: "oAl (common rq) = 1"
    using assms(1) by (auto simp: nanorq_encoder_new_def nanorq_encoder_new_ex_def match_align_def Let_def
        split: if_splits option.splits sum.splits)
  let ?b = "nanorq_oti_common_reduced rq @ nanorq_oti_scheme_specific_align1 rq"
  let ?p = "frame_header PACKET_RQ_CONFIG ?b # ?b @ rest"
  have p: "configuration_packet rq @ rest = ?p" by (simp add: configuration_packet_def Let_def)
  have len: "length ?b = 8"
    using config_body_shape [of rq] by auto
  have crc: "crc_of ?p HERMES_SIZE (CONFIG_PACKET_SIZE - HERMES_SIZE) = Inr (crc6_0X6F 1 ?b)"
    using chunk_after_header [of _ ?b rest] len by (simp add: crc_of_def packet_sizes)
  have "parse_frame_header ?p n = Inr 2"
    using crc frame_header_fields [OF payload_type_less(1), of ?b]
    by (simp add: parse_frame_header_def packet_type_def PACKET_RQ_CONFIG_def Let_def)
  moreover have "parse_tag_oti_common ?p = nanorq_oti_common rq"
    using parse_reduced_common(1) [OF ok(1)] ok(2) assms(3) by simp
  moreover obtain c1 c2 c3 c4 c5 where "nanorq_oti_common_reduced rq = [c1, c2, c3, c4, c5]"
    using config_body_shape(1) by blast
  then have "parse_tag_oti_scheme ?p = nanorq_oti_scheme_specific rq"
    using parse_reduced_scheme(1) [OF ok(1) al, of ?p] by simp
  ultimately show ?thesis
    unfolding p using decoder_of_fields [OF ok(1) oti_common_fields [OF ok(1)] oti_scheme_fields [OF ok(1)]]
    by simp
qed

text \<open>C17: The configuration packet of an encoder for a file below 16 MB with byte alignment, followed in
  the receiver's buffer by anything at all (stuffing, or what an earlier frame left), passes the
  header test as a configuration packet whatever frame size is passed in, and the decoder built from
  the parsed fields has exactly the encoder's parameters.\<close>

theorem configuration_roundtrip:
  assumes "nanorq_encoder_new len t 1 = Some (Inr (Some rq))" and "t < 65536" and "len < 2 ^ 24"
  shows "parse_frame_header (configuration_packet rq @ rest) n = Inr 2
    \<and> nanorq_decoder_new (parse_tag_oti_common (configuration_packet rq @ rest))
        (parse_tag_oti_scheme (configuration_packet rq @ rest)) = Inr (Some (rq, 2 * pKprime (rqP rq)))"
  using configuration_parsed [OF assms] by blast

lemma configuration_roundtrip_witness:
  "\<exists>rq. nanorq_encoder_new 1000 122 1 = Some (Inr (Some rq))
    \<and> parse_frame_header (configuration_packet rq @ replicate 747 0) 126 = Inr 2"
proof -
  obtain rq where rq: "nanorq_encoder_new 1000 122 1 = Some (Inr (Some rq))"
    using encoder_new_exists [of 1000 122]
    by (auto simp: NANORQ_MAX_TRANSFER_def Z_max_def K_max_def div_ceil_def)
  with configuration_roundtrip [OF rq, of "replicate 747 0" 126] show ?thesis by simp
qed

subsection \<open>Symbols survive\<close>

lemma tag_fields:
  "tag_sbn (nanorq_tag sbn esi) = sbn" "tag_esi (nanorq_tag sbn esi) = esi AND 0x00ffffff"
proof -
  have "take_bit 8 (drop_bit 24 (push_bit 24 (ucast sbn) OR take_bit 24 esi)) = drop_bit 24 (push_bit 24 (ucast sbn :: u32) OR take_bit 24 esi)"
    by (rule bit_word_eqI) (auto simp: bit_simps)
  then show "tag_sbn (nanorq_tag sbn esi) = sbn"
    using split_tag(1) [of sbn esi] by (simp add: tag_sbn_def nanorq_tag_def and_literals)
  show "tag_esi (nanorq_tag sbn esi) = esi AND 0x00ffffff"
    using split_tag(2) [of sbn esi] by (simp add: tag_esi_def nanorq_tag_def and_literals)
qed

lemma reduced_tag_fields:
  assumes "drop at p = nanorq_tag_reduced sbn esi @ rest" and "at < length p"
  shows "frame_sbn p at = sbn" "frame_esi p at = take_bit 16 esi"
proof -
  have n: "p ! (at + i) = (nanorq_tag_reduced sbn esi @ rest) ! i" for i
    using assms by (metis nth_drop order_less_imp_le)
  show "frame_sbn p at = sbn"
    using n [of 0] by (simp add: frame_sbn_def nanorq_tag_reduced_def)
  show "frame_esi p at = take_bit 16 esi"
    using n [of 1] n [of 2] join_esi [of esi] by (simp add: frame_esi_def nanorq_tag_reduced_def and_literals)
qed

lemma payload_parsed:
  fixes sbn :: u8 and esi :: u32 and symbol rest :: bytes
  assumes "esi \<le> 0xffff" and p_eq: "p = payload_frame sbn esi symbol @ rest"
  shows "parse_frame_header p (RQ_HEADER_SIZE + length symbol) = Inr 3
    \<and> frame_sbn p 1 = sbn \<and> frame_esi p 1 = esi
    \<and> chunk p RQ_HEADER_SIZE (length symbol) = symbol
    \<and> tag_sbn (nanorq_tag sbn (frame_esi p 1)) = sbn \<and> tag_esi (nanorq_tag sbn (frame_esi p 1)) = esi"
proof -
  have "unat esi \<le> 65535" using assms(1) by (simp add: word_le_nat_alt)
  then have e: "take_bit 16 esi = esi" "take_bit 24 esi = esi"
    by (simp_all add: word_unat_eq_iff unat_take_bit)
  let ?b = "nanorq_tag_reduced sbn esi @ symbol"
  have p: "p = frame_header PACKET_RQ_PAYLOAD ?b # ?b @ rest"
    by (simp add: p_eq payload_frame_def Let_def)
  have len: "length ?b = 3 + length symbol" by (simp add: nanorq_tag_reduced_def)
  have crc: "crc_of p HERMES_SIZE (RQ_HEADER_SIZE + length symbol - HERMES_SIZE) = Inr (crc6_0X6F 1 ?b)"
    unfolding p using chunk_after_header [of _ ?b rest] len by (simp add: crc_of_def packet_sizes)
  have "parse_frame_header p (RQ_HEADER_SIZE + length symbol) = Inr 3"
    using crc frame_header_fields [OF payload_type_less(2), of ?b]
    by (simp add: parse_frame_header_def packet_type_def p PACKET_RQ_PAYLOAD_def Let_def RQ_HEADER_SIZE_def)
  moreover have "frame_sbn p 1 = sbn" "frame_esi p 1 = esi"
    using reduced_tag_fields [of 1 p sbn esi "symbol @ rest"] e(1)
    by (simp_all add: p nanorq_tag_reduced_def)
  moreover have "chunk p RQ_HEADER_SIZE (length symbol) = symbol"
    by (simp add: p chunk_def RQ_HEADER_SIZE_def nanorq_tag_reduced_def)
  ultimately show ?thesis using e(2) by (simp add: tag_fields and_literals)
qed

text \<open>A payload frame, with anything behind it in the receiver's buffer, passes the header test of a
  receiver that expects its length, and the receiver recovers the block number, the symbol id (of
  the 16 bits the frame carries) and the symbol; the 32-bit tag it builds splits into the same two.\<close>

theorem payload_roundtrip:
  fixes sbn :: u8 and esi :: u32 and symbol rest :: bytes
  assumes "esi \<le> 0xffff" and p_eq: "p = payload_frame sbn esi symbol @ rest"
  shows "parse_frame_header p (RQ_HEADER_SIZE + length symbol) = Inr 3
    \<and> frame_sbn p 1 = sbn \<and> frame_esi p 1 = esi
    \<and> chunk p RQ_HEADER_SIZE (length symbol) = symbol
    \<and> tag_sbn (nanorq_tag sbn (frame_esi p 1)) = sbn \<and> tag_esi (nanorq_tag sbn (frame_esi p 1)) = esi"
  using assms by (rule payload_parsed)

lemma payload_roundtrip_witness:
  "parse_frame_header (payload_frame 3 0x1234 [7, 8, 9] @ [1, 2]) 7 = Inr 3
    \<and> frame_esi (payload_frame 3 0x1234 [7, 8, 9] @ [1, 2]) 1 = 0x1234"
  using payload_roundtrip [where esi = "0x1234" and sbn = 3 and symbol = "[7, 8, 9]" and rest = "[1, 2]", OF _ refl] by (simp add: RQ_HEADER_SIZE_def)

lemma joint_parsed:
  fixes sbn :: u8 and esi :: u32 and symbol rest :: bytes
  assumes "nanorq_encoder_new len t 1 = Some (Inr (Some rq))" and "t < 65536" and "len < 2 ^ 24"
    and "esi \<le> 0xffff" and p_eq: "p = joint_frame (tl (configuration_packet rq)) sbn esi symbol @ rest"
  shows "joint_frame_ok p (HERMES_SIZE + CONFIG_BODY_SIZE + TAG_BODY_SIZE + length symbol) = Inr True
    \<and> parse_oti_common_from_frame p = nanorq_oti_common rq
    \<and> parse_oti_scheme_from_frame p = nanorq_oti_scheme_specific rq
    \<and> nanorq_decoder_new (parse_oti_common_from_frame p) (parse_oti_scheme_from_frame p)
        = Inr (Some (rq, 2 * pKprime (rqP rq)))
    \<and> frame_sbn p (1 + CONFIG_BODY_SIZE) = sbn \<and> frame_esi p (1 + CONFIG_BODY_SIZE) = esi
    \<and> chunk p (1 + CONFIG_BODY_SIZE + TAG_BODY_SIZE) (length symbol) = symbol"
proof -
  have "unat esi \<le> 65535" using assms(4) by (simp add: word_le_nat_alt)
  then have e: "take_bit 16 esi = esi" by (simp add: word_unat_eq_iff unat_take_bit)
  have ok: "rq_ok rq" "oF (common rq) = len"
    using encoder_rq_ok [OF _ assms(2)] assms(1) unfolding nanorq_encoder_new_def by blast+
  have al: "oAl (common rq) = 1"
    using assms(1) by (auto simp: nanorq_encoder_new_def nanorq_encoder_new_ex_def match_align_def Let_def
        split: if_splits option.splits sum.splits)
  obtain c1 c2 c3 c4 c5 z n1 n2 where cb: "nanorq_oti_common_reduced rq = [c1, c2, c3, c4, c5]"
      "nanorq_oti_scheme_specific_align1 rq = [z, n1, n2]"
    using config_body_shape by metis
  let ?b = "nanorq_oti_common_reduced rq @ nanorq_oti_scheme_specific_align1 rq @ nanorq_tag_reduced sbn esi @ symbol"
  have p: "p = frame_header PACKET_RQ_CONFIG ?b # ?b @ rest"
    by (simp add: p_eq joint_frame_def configuration_packet_def Let_def)
  have len: "length ?b = 11 + length symbol" by (simp add: cb nanorq_tag_reduced_def)
  have crc: "crc_of p HERMES_SIZE (HERMES_SIZE + CONFIG_BODY_SIZE + TAG_BODY_SIZE + length symbol - HERMES_SIZE)
      = Inr (crc6_0X6F 1 ?b)"
  proof -
    have "crc_of p 1 (11 + length symbol) = Inr (crc6_0X6F 1 ?b)"
      unfolding p by (rule crc_of_frame [OF len])
    then show ?thesis by (simp add: packet_sizes)
  qed
  have "joint_frame_ok p (HERMES_SIZE + CONFIG_BODY_SIZE + TAG_BODY_SIZE + length symbol) = Inr True"
    using crc frame_header_fields [OF payload_type_less(1), of ?b]
    by (simp add: joint_frame_ok_def packet_type_def p packet_types)
  moreover have "parse_oti_common_from_frame p = nanorq_oti_common rq"
    using parse_reduced_common(2) [OF ok(1)] ok(2) assms(3) by (simp add: p)
  moreover have "parse_oti_scheme_from_frame p = nanorq_oti_scheme_specific rq"
    using parse_reduced_scheme(2) [OF ok(1) al, of p] by (simp add: p cb)
  moreover have "drop 9 p = nanorq_tag_reduced sbn esi @ symbol @ rest" by (simp add: p cb)
  then have "frame_sbn p 9 = sbn" "frame_esi p 9 = esi"
    using reduced_tag_fields [of 9 p sbn esi "symbol @ rest"] e
    by (simp_all add: p cb nanorq_tag_reduced_def)
  moreover have "chunk p 12 (length symbol) = symbol"
    by (simp add: p cb chunk_def nanorq_tag_reduced_def)
  ultimately show ?thesis
    using decoder_of_fields [OF ok(1) oti_common_fields [OF ok(1)] oti_scheme_fields [OF ok(1)]]
    by (simp add: packet_sizes)
qed

text \<open>C25: The daemon's joint frame passes the test of a daemon in the same mode and yields the encoder's
  OTI, the block number, the symbol id and the symbol.\<close>

theorem joint_frame_roundtrip:
  fixes sbn :: u8 and esi :: u32 and symbol rest :: bytes
  assumes "nanorq_encoder_new len t 1 = Some (Inr (Some rq))" and "t < 65536" and "len < 2 ^ 24"
    and "esi \<le> 0xffff" and p_eq: "p = joint_frame (tl (configuration_packet rq)) sbn esi symbol @ rest"
  shows "joint_frame_ok p (HERMES_SIZE + CONFIG_BODY_SIZE + TAG_BODY_SIZE + length symbol) = Inr True
    \<and> nanorq_decoder_new (parse_oti_common_from_frame p) (parse_oti_scheme_from_frame p)
        = Inr (Some (rq, 2 * pKprime (rqP rq)))
    \<and> frame_sbn p (1 + CONFIG_BODY_SIZE) = sbn \<and> frame_esi p (1 + CONFIG_BODY_SIZE) = esi
    \<and> chunk p (1 + CONFIG_BODY_SIZE + TAG_BODY_SIZE) (length symbol) = symbol"
  using joint_parsed [OF assms] by blast

lemma joint_frame_roundtrip_witness:
  "\<exists>rq. nanorq_encoder_new 1000 114 1 = Some (Inr (Some rq))
    \<and> frame_esi (joint_frame (tl (configuration_packet rq)) 0 0x1234 (replicate 114 5) @ []) 9 = 0x1234"
proof -
  obtain rq where rq: "nanorq_encoder_new 1000 114 1 = Some (Inr (Some rq))"
    using encoder_new_exists [of 1000 114]
    by (auto simp: NANORQ_MAX_TRANSFER_def Z_max_def K_max_def div_ceil_def)
  with joint_frame_roundtrip [where esi = "0x1234" and sbn = 0 and symbol = "replicate 114 5" and rest = "[]", OF rq _ _ _ refl] show ?thesis
    by (simp add: packet_sizes)
qed

subsection \<open>Damaged frames\<close>

text \<open>C26: A payload frame whose bytes behind the header were damaged on the way, by an odd number of
  flipped bits or by flips within six consecutive bits, is rejected by the header test.\<close>

theorem damaged_frame_rejected:
  assumes "p = payload_frame sbn esi symbol" and "length body = length p - 1"
    and "odd_ones (xor_prefix (message_bits (tl p)) (message_bits body))
      \<or> (\<exists>i w j. xor_prefix (message_bits (tl p)) (message_bits body) = zeros i @ w @ zeros j
            \<and> length w \<le> 6 \<and> True \<in> set w)"
  shows "parse_frame_header (hd p # body @ rest) (length p) = Inr (-1)"
proof -
  let ?b = "nanorq_tag_reduced sbn esi @ symbol"
  have p: "p = frame_header PACKET_RQ_PAYLOAD ?b # ?b" using assms(1) by (simp add: payload_frame_def Let_def)
  have len: "length ?b = length body" using assms(2) by (simp add: p)
  have "crc6_0X6F 1 ?b \<noteq> crc6_0X6F 1 body"
    using assms(3) crc6_odd_changes [OF len, of 1] crc6_burst_changes [OF len, where crc = 1]
    by (auto simp: p)
  moreover have "crc_of (frame_header PACKET_RQ_PAYLOAD ?b # body @ rest) 1 (length body) = Inr (crc6_0X6F 1 body)"
    by (rule crc_of_frame) simp
  ultimately show ?thesis
    using frame_header_fields [OF payload_type_less(2), of ?b] len
    by (simp add: parse_frame_header_def packet_type_def p PACKET_RQ_PAYLOAD_def HERMES_SIZE_def Let_def)
qed

lemma damaged_frame_rejected_witness:
  "parse_frame_header (hd (payload_frame 3 0x1234 [7, 8, 9]) # [3, 0x34, 0x12, 7, 8, 8] @ [])
     (length (payload_frame 3 0x1234 [7, 8, 9])) = Inr (-1)"
  using damaged_frame_rejected [where sbn = 3 and esi = "0x1234" and symbol = "[7, 8, 9]" and rest = "[]"
      and body = "[3, 0x34, 0x12, 7, 8, 8]", OF refl]
  by (simp add: payload_frame_def nanorq_tag_reduced_def Let_def byte_bits_def)

end
