(* ===== verification/Bitmask.thy ===== *)
theory Bitmask
  imports Prelude
begin

section \<open>The set of received symbols (bitmask.h, bitmask.c)\<close>

text \<open>
  A growable vector of 32-bit words (a \<open>kvec_t (uint32_t)\<close>) that the decoder uses as the set of the
  encoding symbol ids it holds. \<open>mask_set\<close> is the set a mask stands for. The locale \<open>symbol_set\<close>
  is the interface the decoder uses, with the laws it relies on; the interpretation at the end
  proves them for the bit operations.
\<close>

type_synonym bitmask = "u32 list"

definition IDXBITS :: nat where "IDXBITS = 32"

subsection \<open>Operations\<close>

text \<open>The loop \<open>while (idx >= kv_size (bm)) kv_push (uint32_t, bm, 0)\<close> of three of the operations.\<close>

function bitmask_grow :: "bitmask \<Rightarrow> nat \<Rightarrow> bitmask" where
  "bitmask_grow bm idx = (if length bm \<le> idx then bitmask_grow (bm @ [0]) idx else bm)"
  by pat_completeness auto
termination by (relation "measure (\<lambda>(bm, idx). Suc idx - length bm)") auto

declare bitmask_grow.simps [simp del]

definition bitmask_new :: "nat \<Rightarrow> bitmask" where
  "bitmask_new initial_size = bitmask_grow [] (initial_size div IDXBITS + 1)"

definition bitmask_set :: "bitmask \<Rightarrow> nat \<Rightarrow> bitmask" where
  "bitmask_set bm i =
     (let idx = i div IDXBITS; bm' = bitmask_grow bm idx
      in bm'[idx := (bm' ! idx) OR push_bit (i mod IDXBITS) 1])"

definition bitmask_clear :: "bitmask \<Rightarrow> nat \<Rightarrow> bitmask" where
  "bitmask_clear bm i =
     (let idx = i div IDXBITS; bm' = bitmask_grow bm idx
      in bm'[idx := (bm' ! idx) AND NOT (push_bit (i mod IDXBITS) 1)])"

definition bitmask_check :: "bitmask \<Rightarrow> nat \<Rightarrow> bool" where
  "bitmask_check bm i =
     (let idx = i div IDXBITS
      in if length bm \<le> idx then False else (bm ! idx) AND push_bit (i mod IDXBITS) 1 \<noteq> 0)"

definition popcount :: "u32 \<Rightarrow> nat" where
  "popcount w = length (filter (bit w) [0..<32])"

definition bitmask_popcount :: "bitmask \<Rightarrow> nat" where
  "bitmask_popcount bm = sum_list (map popcount bm)"

text \<open>The partial last word is read at \<open>idx\<close> whether or not the vector is that long.\<close>

definition bitmask_gaps :: "bitmask \<Rightarrow> nat \<Rightarrow> nat result" where
  "bitmask_gaps bm until =
     (let until_idx = (if length bm < until div IDXBITS then length bm else until div IDXBITS);
          gaps = sum_list (map (\<lambda>target. popcount (NOT target)) (take until_idx bm))
      in if until mod IDXBITS \<noteq> 0
         then (if until_idx < length bm
               then let until_mask = push_bit (until mod IDXBITS) 1 - 1;
                        target = (bm ! until_idx) OR NOT until_mask
                    in Inr (gaps + popcount (NOT target))
               else Inl Out_Of_Bounds)
         else Inr gaps)"

definition bitmask_reset :: "bitmask \<Rightarrow> bitmask" where
  "bitmask_reset bm = map (\<lambda>_. 0) bm"

subsection \<open>The set\<close>

definition mask_set :: "bitmask \<Rightarrow> nat set" where
  "mask_set bm = {i. i div 32 < length bm \<and> bit (bm ! (i div 32)) (i mod 32)}"

definition mask_cap :: "bitmask \<Rightarrow> nat" where
  "mask_cap bm = 32 * length bm"

lemma bitmask_grow_eq: "bitmask_grow bm idx = bm @ replicate (Suc idx - length bm) 0"
proof (induction bm idx rule: bitmask_grow.induct)
  case (1 bm idx)
  show ?case
  proof (cases "length bm \<le> idx")
    case True
    then have "Suc idx - length bm = Suc (idx - length bm)" by simp
    with True 1 show ?thesis by (simp add: bitmask_grow.simps [of bm idx])
  qed (simp add: bitmask_grow.simps [of bm idx])
qed

lemma mask_set_grow [simp]: "mask_set (bm @ replicate n 0) = mask_set bm"
proof -
  have "i \<in> mask_set (bm @ replicate n 0) \<longleftrightarrow> i \<in> mask_set bm" for i
    by (cases "i div 32 < length bm") (auto simp: mask_set_def nth_append)
  then show ?thesis by blast
qed

lemma mask_set_bound: "i \<in> mask_set bm \<Longrightarrow> i < mask_cap bm"
  by (auto simp: mask_set_def mask_cap_def)

lemma bit_single: "k < 32 \<Longrightarrow> bit (push_bit k (1::u32)) j \<longleftrightarrow> j = k"
  by (auto simp: bit_simps)

lemma bit_power: "bit ((2::u32) ^ k) j \<longleftrightarrow> k < 32 \<and> j = k"
  by (auto simp: bit_simps)

lemma single_test: "k < 32 \<Longrightarrow> (w AND push_bit k (1::u32) \<noteq> 0) \<longleftrightarrow> bit w k"
  by (simp add: and_exp_eq_0_iff_not_bit)

lemma mask_set_update:
  assumes "idx < length bm" and "\<And>j. j < 32 \<Longrightarrow> bit w j \<longleftrightarrow> (if j = k then b else bit (bm ! idx) j)" and "k < 32"
  shows "mask_set (bm[idx := w]) = (if b then insert (32 * idx + k) (mask_set bm) else mask_set bm - {32 * idx + k})"
proof -
  have "i \<in> mask_set (bm[idx := w])
      \<longleftrightarrow> (if i = 32 * idx + k then b else i \<in> mask_set bm)" for i
  proof (cases "i div 32 = idx")
    case True
    then have "i = 32 * idx + k \<longleftrightarrow> i mod 32 = k"
      using mult_div_mod_eq [of 32 i] by linarith
    moreover have "i \<in> mask_set (bm[idx := w]) \<longleftrightarrow> bit w (i mod 32)" "i \<in> mask_set bm \<longleftrightarrow> bit (bm ! idx) (i mod 32)"
      using True assms(1) by (simp_all add: mask_set_def)
    ultimately show ?thesis using assms(2) [of "i mod 32"] by simp
  next
    case False
    then have "i \<noteq> 32 * idx + k" using assms(3) by auto
    with False show ?thesis by (simp add: mask_set_def)
  qed
  then show ?thesis by (intro set_eqI) simp
qed

lemma mask_set_new [simp]: "mask_set (bitmask_new n) = {}" "n < mask_cap (bitmask_new n)"
  using mask_set_grow [of "[]" "n div 32 + 2"]
  by (simp_all add: bitmask_new_def bitmask_grow_eq mask_cap_def IDXBITS_def mask_set_def)

lemma mask_set_set [simp]: "mask_set (bitmask_set bm i) = insert i (mask_set bm)"
proof -
  let ?b = "bm @ replicate (Suc (i div 32) - length bm) 0"
  have "i = 32 * (i div 32) + i mod 32" by simp
  moreover have "mask_set (?b[i div 32 := (?b ! (i div 32)) OR push_bit (i mod 32) 1])
      = (if True then insert (32 * (i div 32) + i mod 32) (mask_set ?b)
         else mask_set ?b - {32 * (i div 32) + i mod 32})"
    by (rule mask_set_update) (auto simp: bit_or_iff bit_power)
  ultimately show ?thesis by (simp add: bitmask_set_def bitmask_grow_eq IDXBITS_def Let_def)
qed

lemma mask_set_clear [simp]: "mask_set (bitmask_clear bm i) = mask_set bm - {i}"
proof -
  let ?b = "bm @ replicate (Suc (i div 32) - length bm) 0"
  have "i = 32 * (i div 32) + i mod 32" by simp
  moreover have "mask_set (?b[i div 32 := (?b ! (i div 32)) AND NOT (push_bit (i mod 32) 1)])
      = (if False then insert (32 * (i div 32) + i mod 32) (mask_set ?b)
         else mask_set ?b - {32 * (i div 32) + i mod 32})"
    by (rule mask_set_update) (auto simp: bit_and_iff bit_not_iff bit_power)
  ultimately show ?thesis by (simp add: bitmask_clear_def bitmask_grow_eq IDXBITS_def Let_def)
qed

lemma mask_cap_set: "mask_cap bm \<le> mask_cap (bitmask_set bm i)"
  by (simp add: mask_cap_def bitmask_set_def bitmask_grow_eq Let_def)

lemma bitmask_check_iff [simp]: "bitmask_check bm i \<longleftrightarrow> i \<in> mask_set bm"
  by (auto simp: bitmask_check_def mask_set_def single_test [simplified] IDXBITS_def Let_def)

lemma mask_set_reset [simp]: "mask_set (bitmask_reset bm) = {}"
  by (auto simp: mask_set_def bitmask_reset_def)

subsection \<open>Counting\<close>

lemma popcount_card: "popcount w = card {j. j < 32 \<and> bit w j}"
proof -
  have "popcount w = card (set (filter (bit w) [0..<32]))"
    unfolding popcount_def by (rule distinct_card [symmetric]) simp
  also have "set (filter (bit w) [0..<32]) = {j. j < 32 \<and> bit w j}" by auto
  finally show ?thesis .
qed

text \<open>The ids below a bound that a prefix of the mask leaves out.\<close>

definition missing :: "bitmask \<Rightarrow> nat \<Rightarrow> nat set" where
  "missing bm until = {i. i < until \<and> i \<notin> mask_set bm}"

lemma finite_missing [simp]: "finite (missing bm n)"
  by (simp add: missing_def)

lemma missing_word:
  assumes "k < length bm" and "r \<le> 32"
  shows "missing bm (32 * k + r) = missing bm (32 * k) \<union> (\<lambda>j. 32 * k + j) ` {j. j < r \<and> \<not> bit (bm ! k) j}"
proof -
  have "i \<in> missing bm (32 * k + r) \<longleftrightarrow>
      i \<in> missing bm (32 * k) \<union> (\<lambda>j. 32 * k + j) ` {j. j < r \<and> \<not> bit (bm ! k) j}" for i
  proof (cases "i < 32 * k")
    case True
    then show ?thesis by (auto simp: missing_def)
  next
    case False
    then obtain j where j: "i = 32 * k + j" by (metis le_add_diff_inverse linorder_not_less)
    show ?thesis
    proof (cases "j < r")
      case True
      then have "i div 32 = k" "i mod 32 = j" using j assms(2) by auto
      then show ?thesis using True j assms(1) by (auto simp: missing_def mask_set_def)
    next
      case False
      then show ?thesis using j by (auto simp: missing_def)
    qed
  qed
  then show ?thesis by blast
qed

lemma card_missing_word:
  assumes "k < length bm" and "r \<le> 32"
  shows "card (missing bm (32 * k + r)) = card (missing bm (32 * k)) + card {j. j < r \<and> \<not> bit (bm ! k) j}"
proof -
  have "card ((\<lambda>j. 32 * k + j) ` {j. j < r \<and> \<not> bit (bm ! k) j}) = card {j. j < r \<and> \<not> bit (bm ! k) j}"
    by (rule card_image) (simp add: inj_on_def)
  moreover have "missing bm (32 * k) \<inter> (\<lambda>j. 32 * k + j) ` {j. j < r \<and> \<not> bit (bm ! k) j} = {}"
    by (auto simp: missing_def)
  ultimately show ?thesis
    unfolding missing_word [OF assms] by (subst card_Un_disjoint) (simp_all add: finite_subset)
qed

lemma popcount_not: "popcount (NOT w) = card {j. j < 32 \<and> \<not> bit w j}"
  unfolding popcount_card by (rule arg_cong [where f = card]) (auto simp: bit_not_iff)

lemma popcount_not_low:
  assumes "r < 32"
  shows "popcount (NOT (w OR NOT (push_bit r 1 - 1))) = card {j. j < r \<and> \<not> bit w j}"
proof -
  have "push_bit r 1 - 1 = (mask r :: u32)" by (simp add: mask_eq_exp_minus_1)
  then show ?thesis
    unfolding popcount_card using assms
    by (intro arg_cong [where f = card]) (auto simp: bit_not_iff bit_and_iff bit_or_iff bit_mask_iff)
qed

lemma gaps_full_words:
  "k \<le> length bm \<Longrightarrow> sum_list (map (\<lambda>t. popcount (NOT t)) (take k bm)) = card (missing bm (32 * k))"
proof (induction k)
  case 0
  then show ?case by (simp add: missing_def)
next
  case (Suc k)
  then have "take (Suc k) bm = take k bm @ [bm ! k]" by (simp add: take_Suc_conv_app_nth)
  moreover have "card (missing bm (32 * Suc k)) = card (missing bm (32 * k)) + popcount (NOT (bm ! k))"
    using card_missing_word [of k bm 32] Suc.prems by (simp add: popcount_not add.commute)
  ultimately show ?case using Suc by simp
qed

lemma bitmask_gaps_card:
  assumes "until \<le> mask_cap bm"
  shows "bitmask_gaps bm until = Inr (card (missing bm until))"
proof -
  let ?k = "until div 32" and ?r = "until mod 32"
  have until: "until = 32 * ?k + ?r" by simp
  have k: "?k \<le> length bm" using assms by (simp add: mask_cap_def)
  show ?thesis
  proof (cases "?r = 0")
    case True
    then show ?thesis using k gaps_full_words [OF k] until
      by (simp add: bitmask_gaps_def IDXBITS_def Let_def)
  next
    case False
    then have "32 * ?k < 32 * length bm"
      using assms until unfolding mask_cap_def by linarith
    then have k': "?k < length bm" by simp
    then have "\<not> length bm < ?k" by simp
    moreover have "card (missing bm until) = card (missing bm (32 * ?k)) + card {j. j < ?r \<and> \<not> bit (bm ! ?k) j}"
      using card_missing_word [OF k', of ?r] until by simp
    ultimately show ?thesis using False k' gaps_full_words [OF k] popcount_not_low [of ?r "bm ! ?k"]
      by (simp add: bitmask_gaps_def IDXBITS_def Let_def)
  qed
qed


subsection \<open>The interface of a symbol set\<close>

locale symbol_set =
  fixes elems :: "'m \<Rightarrow> nat set"
    and cap :: "'m \<Rightarrow> nat"
    and check :: "'m \<Rightarrow> nat \<Rightarrow> bool"
    and add :: "'m \<Rightarrow> nat \<Rightarrow> 'm"
    and gaps :: "'m \<Rightarrow> nat \<Rightarrow> nat result"
  assumes check_iff: "check m i \<longleftrightarrow> i \<in> elems m"
    and elems_add: "elems (add m i) = insert i (elems m)"
    and cap_add: "cap m \<le> cap (add m i)"
    and gaps_ok: "n \<le> cap m \<Longrightarrow> gaps m n = Inr (card ({0..<n} - elems m))"
begin

lemma gaps_zero_iff: "n \<le> cap m \<Longrightarrow> gaps m n = Inr 0 \<longleftrightarrow> {0..<n} \<subseteq> elems m"
  by (auto simp: gaps_ok)

lemma gaps_add:
  assumes "n \<le> cap m" and "i \<notin> elems m" and "gaps m n = Inr g"
  shows "gaps (add m i) n = Inr (if i < n then g - 1 else g)"
proof -
  have "{0..<n} - insert i (elems m) = ({0..<n} - elems m) - {i}" by auto
  then have "gaps (add m i) n = Inr (card (({0..<n} - elems m) - {i}))"
    using gaps_ok [of n "add m i"] cap_add [of m i] assms(1) by (simp add: elems_add)
  moreover have "g = card ({0..<n} - elems m)" using assms gaps_ok by simp
  ultimately show ?thesis using assms(2) by (simp add: card_Diff_singleton_if)
qed

text \<open>Adding every id below the bound, in any order and with repetitions, closes all gaps.\<close>

lemma elems_fold: "elems (foldl add m is) = elems m \<union> set is"
  by (induction "is" arbitrary: m) (auto simp: elems_add)

lemma cap_fold: "cap m \<le> cap (foldl add m is)"
  by (induction "is" arbitrary: m) (auto intro: order_trans cap_add)

lemma gaps_fold:
  "n \<le> cap m \<Longrightarrow> gaps (foldl add m is) n = Inr (card ({0..<n} - elems m - set is))"
  using gaps_ok [of n "foldl add m is"] cap_fold [of m "is"] by (simp add: elems_fold Diff_eq Int_assoc)

end

interpretation mask: symbol_set mask_set mask_cap bitmask_check bitmask_set bitmask_gaps
proof unfold_locales
  fix n m
  assume "n \<le> mask_cap m"
  then have "bitmask_gaps m n = Inr (card (missing m n))" by (rule bitmask_gaps_card)
  moreover have "missing m n = {0..<n} - mask_set m" by (auto simp: missing_def)
  ultimately show "bitmask_gaps m n = Inr (card ({0..<n} - mask_set m))" by simp
qed (simp_all add: mask_cap_set)

text \<open>C30: The bit operations are set operations: a new mask is empty, setting, clearing and resetting
  insert, remove and empty, growing the vector where the id lies past its end, and checking is
  membership, also for ids past the end.\<close>

theorem bitmask_is_set:
  "bitmask_check (bitmask_set bm i) j = (j = i \<or> bitmask_check bm j)
   \<and> bitmask_check (bitmask_clear bm i) j = (j \<noteq> i \<and> bitmask_check bm j)
   \<and> \<not> bitmask_check (bitmask_reset bm) j \<and> \<not> bitmask_check (bitmask_new n) j"
  by auto

text \<open>After any sequence of insertions into a new mask of capacity for \<open>n\<close> ids, \<open>bitmask_gaps\<close> stays
  inside the vector and returns exactly the number of ids below any bound \<open>k \<le> n\<close> that were never
  inserted, the partial last word included; a bound past the vector reads beyond its end.\<close>

theorem bitmask_gaps_counts:
  assumes "k \<le> n"
  shows "bitmask_gaps (foldl bitmask_set (bitmask_new n) is) k = Inr (card ({0..<k} - set is))
    \<and> bitmask_gaps [] 5 = Inl Out_Of_Bounds"
proof
  have "k \<le> mask_cap (bitmask_new n)" using assms mask_set_new(2) [of n] by linarith
  then show "bitmask_gaps (foldl bitmask_set (bitmask_new n) is) k = Inr (card ({0..<k} - set is))"
    using mask.gaps_fold by simp
  show "bitmask_gaps [] 5 = Inl Out_Of_Bounds" by code_simp
qed

lemma bitmask_gaps_counts_witness:
  "bitmask_gaps (foldl bitmask_set (bitmask_new 70) [3, 65, 3, 40]) 66 = Inr 63"
proof -
  have "{0..<66} - {3, 65, 3, 40} = {0..<66::nat} - {3, 40, 65}" by auto
  moreover have "card ({0..<66} - {3, 40, 65::nat}) = 63" by (subst card_Diff_subset) auto
  ultimately show ?thesis
    using bitmask_gaps_counts [of 66 70 "[3, 65, 3, 40]"] by simp
qed

end
