(* ===== verification/Io.thy ===== *)
theory Io
  imports Prelude
begin

section \<open>Positioned input and output (io.h, io.c)\<close>

text \<open>
  The \<open>ioctx\<close> the coder reads the file from and writes it to: the struct of function pointers is one
  datatype with a constructor per implementation, and \<open>io_read\<close>, \<open>io_write\<close>, \<open>io_seek\<close> and \<open>io_size\<close>
  call the implementation's function. A \<open>FILE\<close> is its contents, its position and whether it was
  opened for writing; a write past the end fills the gap with zeros, as stdio does. The locale
  \<open>random_access\<close> is the contract the coder relies on (seek, then read or write), with the lemma
  that blocks written in any order tile the file.
\<close>

subsection \<open>Memory\<close>

record memio =
  m_ptr :: bytes
  m_pos :: nat
  m_size :: nat

definition memio_read :: "memio \<Rightarrow> nat \<Rightarrow> bytes \<times> memio" where
  "memio_read io len =
     (if m_size io < m_pos io + len
      then (chunk (m_ptr io) (m_pos io) (m_size io - m_pos io), io\<lparr>m_pos := m_size io\<rparr>)
      else (chunk (m_ptr io) (m_pos io) len, io\<lparr>m_pos := m_pos io + len\<rparr>))"

definition memio_write :: "memio \<Rightarrow> bytes \<Rightarrow> nat \<times> memio" where
  "memio_write io buf =
     (if m_size io < m_pos io + length buf
      then (m_size io - m_pos io,
            io\<lparr>m_ptr := blit (m_ptr io) (m_pos io) (take (m_size io - m_pos io) buf), m_pos := m_size io\<rparr>)
      else (length buf, io\<lparr>m_ptr := blit (m_ptr io) (m_pos io) buf, m_pos := m_pos io + length buf\<rparr>))"

definition memio_seek :: "memio \<Rightarrow> nat \<Rightarrow> bool \<times> memio" where
  "memio_seek io offset = (if m_size io \<le> offset then (False, io) else (True, io\<lparr>m_pos := offset\<rparr>))"

definition memio_tell :: "memio \<Rightarrow> nat" where "memio_tell io = m_pos io"

definition memio_size :: "memio \<Rightarrow> nat" where "memio_size io = m_size io"

definition ioctx_from_mem :: "bytes \<Rightarrow> memio" where
  "ioctx_from_mem ptr = \<lparr>m_ptr = ptr, m_pos = 0, m_size = length ptr\<rparr>"

subsection \<open>Files\<close>

record fileio =
  f_bytes :: bytes
  f_pos :: nat
  f_writable :: bool

text \<open>The bytes of a file after \<open>d\<close> was written at \<open>off\<close>.\<close>

definition splice :: "bytes \<Rightarrow> nat \<Rightarrow> bytes \<Rightarrow> bytes" where
  "splice xs off d = (if d = [] then xs
     else take off xs @ replicate (off - length xs) 0 @ d @ drop (off + length d) xs)"

definition fileio_read :: "fileio \<Rightarrow> nat \<Rightarrow> bytes \<times> fileio" where
  "fileio_read io len =
     (let d = chunk (f_bytes io) (f_pos io) len in (d, io\<lparr>f_pos := f_pos io + length d\<rparr>))"

definition fileio_write :: "fileio \<Rightarrow> bytes \<Rightarrow> nat \<times> fileio" where
  "fileio_write io buf =
     (if f_writable io
      then (length buf, io\<lparr>f_bytes := splice (f_bytes io) (f_pos io) buf, f_pos := f_pos io + length buf\<rparr>)
      else (0, io))"

definition fileio_seek :: "fileio \<Rightarrow> nat \<Rightarrow> bool \<times> fileio" where
  "fileio_seek io offset = (True, io\<lparr>f_pos := offset\<rparr>)"

definition fileio_tell :: "fileio \<Rightarrow> nat" where "fileio_tell io = f_pos io"

definition fileio_size :: "fileio \<Rightarrow> nat" where "fileio_size io = length (f_bytes io)"

text \<open>\<open>on_disk\<close> is the file's contents before it is opened (\<open>None\<close> when \<open>fopen\<close> fails).\<close>

definition ioctx_from_file :: "bytes option \<Rightarrow> bool \<Rightarrow> fileio option" where
  "ioctx_from_file on_disk t =
     (case on_disk of
        None \<Rightarrow> None
      | Some bs \<Rightarrow> Some (if t then \<lparr>f_bytes = bs, f_pos = 0, f_writable = False\<rparr>
                        else \<lparr>f_bytes = [], f_pos = 0, f_writable = True\<rparr>))"

subsection \<open>The interface\<close>

datatype ioctx = Mem memio | File fileio

fun io_read :: "ioctx \<Rightarrow> nat \<Rightarrow> bytes \<times> ioctx" where
  "io_read (Mem m) n = (case memio_read m n of (d, m') \<Rightarrow> (d, Mem m'))"
| "io_read (File f) n = (case fileio_read f n of (d, f') \<Rightarrow> (d, File f'))"

fun io_write :: "ioctx \<Rightarrow> bytes \<Rightarrow> nat \<times> ioctx" where
  "io_write (Mem m) d = (case memio_write m d of (n, m') \<Rightarrow> (n, Mem m'))"
| "io_write (File f) d = (case fileio_write f d of (n, f') \<Rightarrow> (n, File f'))"

fun io_seek :: "ioctx \<Rightarrow> nat \<Rightarrow> bool \<times> ioctx" where
  "io_seek (Mem m) off = (case memio_seek m off of (b, m') \<Rightarrow> (b, Mem m'))"
| "io_seek (File f) off = (case fileio_seek f off of (b, f') \<Rightarrow> (b, File f'))"

fun io_size :: "ioctx \<Rightarrow> nat" where
  "io_size (Mem m) = memio_size m"
| "io_size (File f) = fileio_size f"

subsection \<open>Splicing\<close>

lemma length_splice [simp]: "d \<noteq> [] \<Longrightarrow> length (splice xs off d) = max (length xs) (off + length d)"
  by (auto simp: splice_def max_def)

lemma splice_nil [simp]: "splice xs off [] = xs"
  by (simp add: splice_def)

lemma nth_splice:
  assumes "i < max (length xs) (off + length d)" and "d \<noteq> []"
  shows "splice xs off d ! i
    = (if off \<le> i \<and> i < off + length d then d ! (i - off) else if i < length xs then xs ! i else 0)"
proof -
  have [simp]: "min (length xs) off + (off - length xs) = off" by auto
  consider "i < off" | "off \<le> i" "i < off + length d" | "off + length d \<le> i" by linarith
  then show ?thesis
  proof cases
    case 1
    then show ?thesis using assms by (auto simp: splice_def nth_append)
  next
    case 2
    then show ?thesis using assms by (auto simp: splice_def nth_append)
  next
    case 3
    then have "i < length xs" using assms by auto
    with 3 show ?thesis using assms by (auto simp: splice_def nth_append)
  qed
qed

lemma splice_inside:
  assumes "off + length d \<le> length xs"
  shows "splice xs off d = blit xs off d"
  using assms by (auto simp: splice_def blit_def)

lemma chunk_splice_same [mem_simps]: "chunk (splice xs off d) off (length d) = d"
proof (cases "d = []")
  case False
  show ?thesis
    by (rule nth_equalityI) (use False in \<open>auto simp: length_chunk nth_chunk nth_splice\<close>)
qed simp

lemma chunk_splice_other:
  assumes "o2 + n \<le> length xs" and "o2 + n \<le> off \<or> off + length d \<le> o2"
  shows "chunk (splice xs off d) o2 n = chunk xs o2 n"
proof (cases "d = []")
  case False
  show ?thesis
  proof (rule nth_equalityI)
    show "length (chunk (splice xs off d) o2 n) = length (chunk xs o2 n)"
      using assms False by (auto simp: length_chunk)
    fix i assume "i < length (chunk (splice xs off d) o2 n)"
    then have "i < n" by (auto simp: length_chunk)
    then show "chunk (splice xs off d) o2 n ! i = chunk xs o2 n ! i"
      using assms False by (auto simp: nth_chunk nth_splice)
  qed
qed simp

subsection \<open>What the coder relies on\<close>

locale random_access =
  fixes content :: "'io \<Rightarrow> bytes"
    and ready :: "'io \<Rightarrow> bool"
    and room :: "'io \<Rightarrow> nat \<Rightarrow> bool"
    and seek :: "'io \<Rightarrow> nat \<Rightarrow> bool \<times> 'io"
    and get :: "'io \<Rightarrow> nat \<Rightarrow> bytes \<times> 'io"
    and put :: "'io \<Rightarrow> bytes \<Rightarrow> nat \<times> 'io"
  assumes seek_get: "ready s \<Longrightarrow> off < length (content s) \<Longrightarrow>
      \<exists>s1 s2. seek s off = (True, s1) \<and> get s1 n = (chunk (content s) off n, s2)
        \<and> ready s2 \<and> content s2 = content s"
    and seek_put: "ready s \<Longrightarrow> d \<noteq> [] \<Longrightarrow> room s (off + length d) \<Longrightarrow>
      \<exists>s1 s2. seek s off = (True, s1) \<and> put s1 d = (length d, s2)
        \<and> ready s2 \<and> content s2 = splice (content s) off d \<and> (\<forall>k. room s2 k = room s k)"
    and room_mono: "room s k \<Longrightarrow> j \<le> k \<Longrightarrow> room s j"
begin

definition put_at :: "'io \<Rightarrow> nat \<times> bytes \<Rightarrow> 'io" where
  "put_at s b = snd (put (snd (seek s (fst b))) (snd b))"

lemma put_at_spec:
  assumes "ready s" and "snd b \<noteq> []" and "room s (fst b + length (snd b))"
  shows "ready (put_at s b) \<and> content (put_at s b) = splice (content s) (fst b) (snd b)
    \<and> (\<forall>k. room (put_at s b) k = room s k)"
proof -
  obtain s1 s2 where "seek s (fst b) = (True, s1)" "put s1 (snd b) = (length (snd b), s2)"
      "ready s2" "content s2 = splice (content s) (fst b) (snd b)" "\<forall>k. room s2 k = room s k"
    using seek_put [OF assms] by blast
  then show ?thesis by (simp add: put_at_def)
qed

text \<open>Blocks of a file, written in any order and any number of times: what they cover is the file.\<close>

definition agrees :: "bytes \<Rightarrow> nat set \<Rightarrow> bytes \<Rightarrow> bool" where
  "agrees xs I f \<longleftrightarrow> length xs \<le> length f \<and> (\<forall>i \<in> I. i < length f \<longrightarrow> i < length xs \<and> xs ! i = f ! i)"

lemma agrees_splice:
  assumes "agrees xs I f" and "d = chunk f off (length d)" and "off + length d \<le> length f"
  shows "agrees (splice xs off d) (I \<union> {off..<off + length d}) f"
proof (cases "d = []")
  case True
  then show ?thesis using assms by (simp add: agrees_def)
next
  case False
  have "d ! k = f ! (off + k)" if "k < length d" for k
    using assms(2,3) that nth_chunk [of k "length d" off f] by simp
  then have at: "splice xs off d ! i = f ! i" if "i \<in> I \<union> {off..<off + length d}" "i < length f" for i
    using assms(1) False that by (cases "off \<le> i \<and> i < off + length d") (auto simp: nth_splice agrees_def)
  have "i < length (splice xs off d)" if "i \<in> I \<union> {off..<off + length d}" "i < length f" for i
    using assms(1) False that by (auto simp: agrees_def)
  moreover have "length (splice xs off d) \<le> length f" using assms(1,3) False by (simp add: agrees_def)
  ultimately show ?thesis using at by (simp add: agrees_def)
qed

lemma put_blocks:
  assumes "ready s" and "agrees (content s) I f" and "room s (length f)"
    and "\<forall>b \<in> set bs. snd b \<noteq> [] \<and> fst b + length (snd b) \<le> length f
          \<and> snd b = chunk f (fst b) (length (snd b))"
  shows "ready (foldl put_at s bs) \<and> room (foldl put_at s bs) (length f)
    \<and> agrees (content (foldl put_at s bs)) (I \<union> (\<Union>b \<in> set bs. {fst b..<fst b + length (snd b)})) f"
  using assms
proof (induction bs arbitrary: s I)
  case (Cons b bs)
  have b: "snd b \<noteq> []" "fst b + length (snd b) \<le> length f" "snd b = chunk f (fst b) (length (snd b))"
    using Cons.prems(4) by simp_all
  have rm: "room s (fst b + length (snd b))" using room_mono [OF Cons.prems(3) b(2)] .
  note sp = put_at_spec [OF Cons.prems(1) b(1) rm]
  have "agrees (content (put_at s b)) (I \<union> {fst b..<fst b + length (snd b)}) f"
    using sp agrees_splice [OF Cons.prems(2) b(3,2)] by simp
  with Cons.IH [of "put_at s b" "I \<union> {fst b..<fst b + length (snd b)}"] sp Cons.prems show ?case
    by (simp add: Un_assoc)
qed simp

lemma agrees_all: "agrees xs I f \<Longrightarrow> {0..<length f} \<subseteq> I \<Longrightarrow> xs = f"
proof (rule nth_equalityI)
  assume a: "agrees xs I f" "{0..<length f} \<subseteq> I"
  then have le: "length xs \<le> length f" by (simp add: agrees_def)
  show "length xs = length f"
  proof (rule ccontr)
    assume "length xs \<noteq> length f"
    with le have "length xs < length f" by simp
    moreover then have "length xs \<in> I" using a(2) by auto
    ultimately show False using a(1) by (auto simp: agrees_def)
  qed
  fix i assume "i < length xs"
  then have "i \<in> I" "i < length f" using a(2) le by auto
  then show "xs ! i = f ! i" using a(1) by (simp add: agrees_def)
qed

end

text \<open>Both implementations keep the contract. Memory has room up to its size, a file opened for
  writing has room for every offset.\<close>

fun io_content :: "ioctx \<Rightarrow> bytes" where
  "io_content (Mem m) = m_ptr m"
| "io_content (File f) = f_bytes f"

fun io_ready :: "ioctx \<Rightarrow> bool" where
  "io_ready (Mem m) \<longleftrightarrow> length (m_ptr m) = m_size m"
| "io_ready (File f) \<longleftrightarrow> True"

fun io_room :: "ioctx \<Rightarrow> nat \<Rightarrow> bool" where
  "io_room (Mem m) k \<longleftrightarrow> k \<le> m_size m"
| "io_room (File f) k \<longleftrightarrow> f_writable f"

interpretation rio: random_access io_content io_ready io_room io_seek io_read io_write
proof unfold_locales
  fix s off n
  assume "io_ready s" "off < length (io_content s)"
  then show "\<exists>s1 s2. io_seek s off = (True, s1) \<and> io_read s1 n = (chunk (io_content s) off n, s2)
      \<and> io_ready s2 \<and> io_content s2 = io_content s"
    by (cases s) (auto simp: memio_seek_def memio_read_def fileio_seek_def fileio_read_def Let_def chunk_def)
next
  fix s off and d :: bytes
  assume "io_ready s" "d \<noteq> []" "io_room s (off + length d)"
  then show "\<exists>s1 s2. io_seek s off = (True, s1) \<and> io_write s1 d = (length d, s2)
      \<and> io_ready s2 \<and> io_content s2 = splice (io_content s) off d \<and> (\<forall>k. io_room s2 k = io_room s k)"
    by (cases s) (auto simp: memio_seek_def memio_write_def fileio_seek_def fileio_write_def splice_inside
        length_greater_0_conv [symmetric] simp del: length_greater_0_conv)
next
  fix s k j
  assume "io_room s k" "j \<le> (k::nat)"
  then show "io_room s j" by (cases s) auto
qed

end
