(* ===== verification/Spmat.thy ===== *)
theory Spmat
  imports Prelude
begin

section \<open>Sparse bit matrices and schedules (spmat.h, spmat.c, sched.h, sched.c, kvec.h)\<close>

text \<open>
  A sparse matrix is, row by row, the list of the columns that hold a one (a \<open>kvec\<close> is a list:
  \<open>kv_push\<close> appends, \<open>kv_pop\<close> takes the last element). A schedule has the row and column
  permutations of the solver with their inverses, the per-row counters and the recorded operations;
  an operation with \<open>beta\<close> 0 scales row \<open>i\<close> by \<open>j\<close>, any other adds \<open>beta\<close> times row \<open>j\<close> to row \<open>i\<close>.
\<close>

record spmat =
  sp_rows :: nat
  sp_cols :: nat
  idxs :: "nat list list"

definition spmat_new :: "nat \<Rightarrow> nat \<Rightarrow> spmat" where
  "spmat_new r c = \<lparr>sp_rows = r, sp_cols = c, idxs = replicate r []\<rparr>"

definition spmat_clear_row :: "spmat \<Rightarrow> nat \<Rightarrow> spmat" where
  "spmat_clear_row s i = s\<lparr>idxs := (idxs s)[i := []]\<rparr>"

definition spmat_push :: "spmat \<Rightarrow> nat \<Rightarrow> nat \<Rightarrow> spmat" where
  "spmat_push s i j = s\<lparr>idxs := (idxs s)[i := idxs s ! i @ [j]]\<rparr>"

definition spmat_transpose :: "spmat \<Rightarrow> spmat" where
  "spmat_transpose s =
     foldl (\<lambda>t i. foldl (\<lambda>t j. spmat_push t j i) t (idxs s ! i)) (spmat_new (sp_cols s) (sp_rows s)) [0..<sp_rows s]"

definition spmat_nnz :: "spmat \<Rightarrow> nat \<Rightarrow> nat \<Rightarrow> nat \<Rightarrow> nat" where
  "spmat_nnz s row start end' = length (filter (\<lambda>col. start \<le> col \<and> col < end') (idxs s ! row))"

record sched_op =
  op_beta :: u8
  op_i :: nat
  op_j :: nat

record schedule =
  s_rows :: nat
  s_cols :: nat
  s_c :: "nat list"
  s_d :: "nat list"
  s_ci :: "nat list"
  s_di :: "nat list"
  s_nz :: "u32 list"
  s_ops :: "sched_op list"
  s_i :: nat
  s_u :: nat
  s_mark0 :: u32
  s_mark1 :: u32

definition sched_new :: "nat \<Rightarrow> nat \<Rightarrow> schedule" where
  "sched_new r c =
     \<lparr>s_rows = r, s_cols = c, s_c = [0..<c], s_d = [0..<r], s_ci = [0..<c], s_di = [0..<r],
      s_nz = replicate r 0, s_ops = [], s_i = 0, s_u = 0, s_mark0 = 0, s_mark1 = 0\<rparr>"

definition sched_push :: "schedule \<Rightarrow> nat \<Rightarrow> nat \<Rightarrow> u8 \<Rightarrow> schedule" where
  "sched_push S i j beta = S\<lparr>s_ops := s_ops S @ [\<lparr>op_beta = beta, op_i = i, op_j = j\<rparr>]\<rparr>"

subsection \<open>Entries\<close>

definition sp_ok :: "spmat \<Rightarrow> bool" where
  "sp_ok s \<longleftrightarrow> length (idxs s) = sp_rows s \<and> (\<forall>i < sp_rows s. \<forall>j \<in> set (idxs s ! i). j < sp_cols s)"

lemma sp_new_ok [simp]: "sp_ok (spmat_new r c)"
  by (simp add: sp_ok_def spmat_new_def)

lemma sp_push_ok: "sp_ok s \<Longrightarrow> j < sp_cols s \<Longrightarrow> sp_ok (spmat_push s i j)"
  by (cases "i < sp_rows s") (auto simp: sp_ok_def spmat_push_def nth_list_update split: if_splits)

lemma sp_push_simps [simp]:
  "sp_rows (spmat_push s i j) = sp_rows s" "sp_cols (spmat_push s i j) = sp_cols s"
  "length (idxs (spmat_push s i j)) = length (idxs s)"
  by (simp_all add: spmat_push_def)

lemma sp_push_nth:
  "i < length (idxs s) \<Longrightarrow> r < length (idxs s) \<Longrightarrow> idxs (spmat_push s i j) ! r = (if r = i then idxs s ! i @ [j] else idxs s ! r)"
  by (simp add: spmat_push_def)

lemma transpose_row:
  assumes "\<forall>j \<in> set js. j < length (idxs t)"
  shows "let t' = foldl (\<lambda>t j. spmat_push t j i) t js
         in sp_rows t' = sp_rows t \<and> sp_cols t' = sp_cols t \<and> length (idxs t') = length (idxs t)
            \<and> (\<forall>r < length (idxs t). idxs t' ! r = idxs t ! r @ replicate (count_list js r) i)"
  using assms
proof (induction js rule: rev_induct)
  case (snoc j js)
  then show ?case by (auto simp: Let_def sp_push_nth replicate_append_same)
qed simp

text \<open>Row \<open>r\<close> of the transpose lists, in ascending order, the rows that have column \<open>r\<close>.\<close>

lemma transpose_spec:
  assumes "sp_ok s"
  shows "sp_rows (spmat_transpose s) = sp_cols s" "sp_cols (spmat_transpose s) = sp_rows s"
    "length (idxs (spmat_transpose s)) = sp_cols s"
    "r < sp_cols s \<Longrightarrow> idxs (spmat_transpose s) ! r
       = concat (map (\<lambda>i. replicate (count_list (idxs s ! i) r) i) [0..<sp_rows s])"
proof -
  let ?f = "\<lambda>t i. foldl (\<lambda>t j. spmat_push t j i) t (idxs s ! i)"
  have "n \<le> sp_rows s \<Longrightarrow>
    (let t = foldl ?f (spmat_new (sp_cols s) (sp_rows s)) [0..<n]
     in sp_rows t = sp_cols s \<and> sp_cols t = sp_rows s \<and> length (idxs t) = sp_cols s
        \<and> (\<forall>r < sp_cols s. idxs t ! r = concat (map (\<lambda>i. replicate (count_list (idxs s ! i) r) i) [0..<n])))" for n
  proof (induction n)
    case 0
    then show ?case by (simp add: spmat_new_def)
  next
    case (Suc n)
    define t where "t = foldl ?f (spmat_new (sp_cols s) (sp_rows s)) [0..<n]"
    have len: "length (idxs t) = sp_cols s" and n: "n < sp_rows s" using Suc by (auto simp: t_def Let_def)
    then have "\<forall>j \<in> set (idxs s ! n). j < length (idxs t)" using assms by (auto simp: sp_ok_def)
    from transpose_row [OF this, of n] Suc show ?case
      by (simp add: Let_def len flip: t_def)
  qed
  from this [of "sp_rows s"]
  show "sp_rows (spmat_transpose s) = sp_cols s" "sp_cols (spmat_transpose s) = sp_rows s"
    "length (idxs (spmat_transpose s)) = sp_cols s"
    "r < sp_cols s \<Longrightarrow> idxs (spmat_transpose s) ! r
       = concat (map (\<lambda>i. replicate (count_list (idxs s ! i) r) i) [0..<sp_rows s])"
    by (simp_all add: spmat_transpose_def Let_def)
qed

end
