(* ===== verification/Nanorq.thy ===== *)
theory Nanorq
  imports Oti Bitmask Io Spmat
begin

section \<open>Blocks, symbols and the file (nanorq.c)\<close>

text \<open>
  The part of the coder that moves symbols between the file, the symbol matrices and the network: the
  block encoders with their state, the addresses of a symbol's sub-symbols in the file, the transfer
  of a symbol in either direction, loading a block, and the decoder's handling of a received symbol.
  The matrix of a block is the list of its rows (\<open>om_R\<close>), each of \<open>T\<close> bytes. What the theorems show:
  an encoder loads exactly the file, and a decoder that has received every source symbol, in any
  order, repeated and mixed with repair symbols, has written exactly the file. Generating repair
  symbols and repairing a block with them is the subject of the theory \<open>Repair\<close>.
\<close>

record block_encoder =
  eK :: nat
  eloaded :: bool
  einverted :: bool
  eD :: "bytes list"
  repair_bin :: "(nat \<times> bytes) list"
  repair_mask :: bitmask

record nanorq =
  par :: nanorq_params
  max_esi :: nat
  rqS :: "schedule option"
  encoders :: "nat \<Rightarrow> block_encoder option"

definition nanorq_init :: "nanorq_params \<Rightarrow> nat \<Rightarrow> nanorq" where
  "nanorq_init p m = \<lparr>par = p, max_esi = m, rqS = None, encoders = (\<lambda>_. None)\<rparr>"

abbreviation rqT :: "nanorq \<Rightarrow> nat" where "rqT rq \<equiv> oT (common (par rq))"
abbreviation rqAl :: "nanorq \<Rightarrow> nat" where "rqAl rq \<equiv> oAl (common (par rq))"
abbreviation rqF :: "nanorq \<Rightarrow> nat" where "rqF rq \<equiv> oF (common (par rq))"

definition nanorq_set_max_esi :: "nanorq \<Rightarrow> nat \<Rightarrow> bool \<times> nanorq" where
  "nanorq_set_max_esi rq m =
     (if 2 ^ 24 \<le> m \<or> m < pKprime (rqP (par rq)) then (False, rq) else (True, rq\<lparr>max_esi := m\<rparr>))"

subsection \<open>Block encoders\<close>

text \<open>
  \<open>spare\<close> is an \<open>int\<close>; the matrix gets \<open>L + spare\<close> zero rows, and a negative count, as a \<open>size_t\<close>, an
  allocation that fails and exits.
\<close>

definition get_block_encoder :: "nanorq \<Rightarrow> nat \<Rightarrow> (block_encoder \<times> nanorq) result" where
  "get_block_encoder rq sbn =
     (case encoders rq sbn of
        Some enc \<Rightarrow> Inr (enc, rq)
      | None \<Rightarrow>
          let k = nanorq_block_symbols (par rq) sbn mod 65536;
              mask = (if max_esi rq \<noteq> 0 then bitmask_new (max_esi rq) else []);
              spare = (if max_esi rq \<noteq> 0 then int (max_esi rq) - int k else 0);
              rows = int (pL (rqP (par rq))) + spare
          in if rows < 0 then Inl Aborted
             else let enc = \<lparr>eK = k, eloaded = False, einverted = False,
                             eD = replicate (nat rows) (replicate (rqT rq) 0),
                             repair_bin = [], repair_mask = mask\<rparr>
                  in Inr (enc, rq\<lparr>encoders := (encoders rq)(sbn := Some enc)\<rparr>))"

definition nanorq_encoder_cleanup :: "nanorq \<Rightarrow> nat \<Rightarrow> nanorq" where
  "nanorq_encoder_cleanup rq sbn = rq\<lparr>encoders := (encoders rq)(sbn := None)\<rparr>"

definition nanorq_encoder_reset :: "nanorq \<Rightarrow> nat \<Rightarrow> nanorq" where
  "nanorq_encoder_reset rq sbn =
     (case encoders rq sbn of
        None \<Rightarrow> rq
      | Some enc \<Rightarrow>
          rq\<lparr>encoders := (encoders rq)(sbn := Some (enc\<lparr>eloaded := False, einverted := False,
               eD := map (\<lambda>r. replicate (length r) 0) (eD enc), repair_bin := [],
               repair_mask := bitmask_reset (repair_mask enc)\<rparr>))\<rparr>)"

subsection \<open>Where a symbol lies in the file\<close>

record source_block =
  sbloc :: nat
  part_tot :: nat
  bpart :: part

definition get_source_block :: "nanorq_params \<Rightarrow> nat \<Rightarrow> nat \<Rightarrow> source_block" where
  "get_source_block p sbn symbol_size =
     \<lparr>sbloc = (if sbn < JL (src_part p) then sbn * IL (src_part p) * symbol_size
               else if sbn - JL (src_part p) < JS (src_part p)
               then (IL (src_part p) * JL (src_part p)) * symbol_size
                    + (sbn - JL (src_part p)) * IS (src_part p) * symbol_size
               else 0),
      part_tot = IL (sub_part p) * JL (sub_part p), bpart = sub_part p\<rparr>"

definition get_symbol_offset :: "source_block \<Rightarrow> nat \<Rightarrow> nat \<Rightarrow> nat \<Rightarrow> nat result" where
  "get_symbol_offset blk pos k esi =
     (if pos < part_tot blk
      then (if IL (bpart blk) = 0 then Inl Div_By_Zero
            else let sub_blk_id = pos div IL (bpart blk)
                 in Inr (sbloc blk + sub_blk_id * k * IL (bpart blk) + esi * IL (bpart blk)
                         + pos mod IL (bpart blk)))
      else let pos_part2 = pos - part_tot blk
           in if IS (bpart blk) = 0 then Inl Div_By_Zero
              else let sub_blk_id = pos_part2 div IS (bpart blk)
                   in Inr (sbloc blk + part_tot blk * k + sub_blk_id * k * IS (bpart blk)
                           + esi * IS (bpart blk) + pos_part2 mod IS (bpart blk)))"

text \<open>
  The loop of \<open>transfer_esi\<close> over the sub-symbols: bytes moved, the symbol's memory and the file. A
  sub-symbol that starts past the end of the file is skipped, one that crosses it is cut.
\<close>

function transfer_loop ::
  "nanorq_params \<Rightarrow> source_block \<Rightarrow> nat \<Rightarrow> nat \<Rightarrow> bool \<Rightarrow> nat \<Rightarrow> nat \<Rightarrow> nat \<Rightarrow> nat \<Rightarrow> bytes \<Rightarrow> ioctx
   \<Rightarrow> (nat \<times> bytes \<times> ioctx) result" where
  "transfer_loop p blk k esi out symbol_size i col transfer ptr io =
     (if symbol_size \<le> i then Inr (transfer, ptr, io)
      else case get_symbol_offset blk i k esi of
             Inl f \<Rightarrow> Inl f
           | Inr o' \<Rightarrow>
               let offset = o' * oAl (common p);
                   sublen = (if i < part_tot blk then IL (bpart blk) else IS (bpart blk));
                   stride0 = sublen * oAl (common p);
                   i' = i + sublen
               in if oF (common p) \<le> offset
                  then transfer_loop p blk k esi out symbol_size i' col transfer ptr io
                  else case io_seek io offset of
                         (False, io1) \<Rightarrow> transfer_loop p blk k esi out symbol_size i' col transfer ptr io1
                       | (True, io1) \<Rightarrow>
                           let stride = (if oF (common p) \<le> offset + stride0 then oF (common p) - offset else stride0)
                           in if length ptr < col + stride then Inl Out_Of_Bounds
                              else if out
                              then (case io_write io1 (chunk ptr col stride) of
                                      (n, io2) \<Rightarrow>
                                        transfer_loop p blk k esi out symbol_size i' (col + stride) (transfer + n) ptr io2)
                              else (case io_read io1 stride of
                                      (d, io2) \<Rightarrow>
                                        transfer_loop p blk k esi out symbol_size i' (col + stride)
                                          (transfer + length d) (blit ptr col d) io2))"
  by pat_completeness auto
termination
  by (relation "measure (\<lambda>(p, blk, k, esi, out, sz, i, col, tr, ptr, io). sz - i)")
    (auto simp: get_symbol_offset_def Let_def split: if_splits)

declare transfer_loop.simps [simp del]

definition transfer_esi ::
  "nanorq_params \<Rightarrow> nat \<Rightarrow> nat \<Rightarrow> nat \<Rightarrow> bytes \<Rightarrow> ioctx \<Rightarrow> bool \<Rightarrow> (nat \<times> bytes \<times> ioctx) result" where
  "transfer_esi p sbn esi k ptr io out =
     (if oAl (common p) = 0 then Inl Div_By_Zero
      else let symbol_size = oT (common p) div oAl (common p)
           in transfer_loop p (get_source_block p sbn (symbol_size mod 65536)) k esi out symbol_size 0 0 0 ptr io)"

subsection \<open>Loading a block\<close>

fun load_rows :: "nanorq_params \<Rightarrow> nat \<Rightarrow> nat \<Rightarrow> nat list \<Rightarrow> bytes list \<Rightarrow> ioctx \<Rightarrow> (bytes list \<times> ioctx) result" where
  "load_rows p sbn k [] d io = Inr (d, io)"
| "load_rows p sbn k (esi # es) d io =
     (let row = pS (rqP p) + pH (rqP p) + esi
      in if length d \<le> row then Inl Out_Of_Bounds
         else case transfer_esi p sbn esi k (d ! row) io False of
                Inl f \<Rightarrow> Inl f
              | Inr (_, r, io') \<Rightarrow> load_rows p sbn k es (d[row := r]) io')"

definition load_symbol_matrix :: "nanorq \<Rightarrow> nat \<Rightarrow> ioctx \<Rightarrow> (nanorq \<times> ioctx) result" where
  "load_symbol_matrix rq sbn io =
     (case get_block_encoder rq sbn of
        Inl f \<Rightarrow> Inl f
      | Inr (enc, rq1) \<Rightarrow>
          (case load_rows (par rq) sbn (eK enc) [0..<eK enc] (eD enc) io of
             Inl f \<Rightarrow> Inl f
           | Inr (d, io') \<Rightarrow> Inr (rq1\<lparr>encoders := (encoders rq1)(sbn := Some (enc\<lparr>eD := d\<rparr>))\<rparr>, io')))"

subsection \<open>Receiving a symbol\<close>

definition NANORQ_SYM_DUP :: int where "NANORQ_SYM_DUP = 2"
definition NANORQ_SYM_IGN :: int where "NANORQ_SYM_IGN = 1"
definition NANORQ_SYM_ADDED :: int where "NANORQ_SYM_ADDED = 0"
definition NANORQ_SYM_ERR :: int where "NANORQ_SYM_ERR = -1"

lemmas sym_codes = NANORQ_SYM_DUP_def NANORQ_SYM_IGN_def NANORQ_SYM_ADDED_def NANORQ_SYM_ERR_def

text \<open>\<open>data\<close> is what lies behind the pointer: at least \<open>T\<close> bytes of it are read.\<close>

definition nanorq_decoder_add_symbol ::
  "nanorq \<Rightarrow> bytes \<Rightarrow> u32 \<Rightarrow> ioctx \<Rightarrow> (int \<times> nanorq \<times> ioctx) result" where
  "nanorq_decoder_add_symbol rq data tag io =
     (let sbn = unat (drop_bit 24 tag AND 0xff); esi = unat (tag AND 0x00ffffff)
      in case get_block_encoder rq sbn of
           Inl f \<Rightarrow> Inl f
         | Inr (dec, rq1) \<Rightarrow>
             if max_esi rq1 < esi then Inr (NANORQ_SYM_ERR, rq1, io)
             else case bitmask_gaps (repair_mask dec) (eK dec) of
                    Inl f \<Rightarrow> Inl f
                  | Inr g \<Rightarrow>
                      if g = 0 then Inr (NANORQ_SYM_IGN, rq1, io)
                      else if bitmask_check (repair_mask dec) esi then Inr (NANORQ_SYM_DUP, rq1, io)
                      else if length data < rqT rq1 then Inl Out_Of_Bounds
                      else let sym = take (rqT rq1) data
                           in if esi < eK dec
                              then (let row = pS (rqP (par rq1)) + pH (rqP (par rq1)) + esi
                                    in if length (eD dec) \<le> row then Inl Out_Of_Bounds
                                       else case transfer_esi (par rq1) sbn esi (eK dec) sym io True of
                                              Inl f \<Rightarrow> Inl f
                                            | Inr (_, _, io') \<Rightarrow>
                                                Inr (NANORQ_SYM_ADDED,
                                                     rq1\<lparr>encoders := (encoders rq1)(sbn := Some (dec\<lparr>eD := (eD dec)[row := sym],
                                                       repair_mask := bitmask_set (repair_mask dec) esi\<rparr>))\<rparr>, io'))
                              else Inr (NANORQ_SYM_ADDED,
                                        rq1\<lparr>encoders := (encoders rq1)(sbn := Some (dec\<lparr>repair_bin := repair_bin dec @ [(esi, sym)],
                                          repair_mask := bitmask_set (repair_mask dec) esi\<rparr>))\<rparr>, io))"

definition nanorq_num_missing :: "nanorq \<Rightarrow> nat \<Rightarrow> (nat \<times> nanorq) result" where
  "nanorq_num_missing rq sbn =
     (case get_block_encoder rq sbn of
        Inl f \<Rightarrow> Inl f
      | Inr (dec, rq1) \<Rightarrow>
          (case bitmask_gaps (repair_mask dec) (eK dec) of Inl f \<Rightarrow> Inl f | Inr g \<Rightarrow> Inr (g, rq1)))"

definition nanorq_num_repair :: "nanorq \<Rightarrow> nat \<Rightarrow> (nat \<times> nanorq) result" where
  "nanorq_num_repair rq sbn =
     (case get_block_encoder rq sbn of
        Inl f \<Rightarrow> Inl f
      | Inr (dec, rq1) \<Rightarrow> Inr (length (repair_bin dec), rq1))"

subsection \<open>One symbol, one stretch of the file\<close>

definition sym_off :: "nanorq_params \<Rightarrow> nat \<Rightarrow> nat \<Rightarrow> nat" where
  "sym_off p sbn esi = (part_start (src_part p) sbn + esi) * oT (common p)"

definition sym_len :: "nanorq_params \<Rightarrow> nat \<Rightarrow> nat \<Rightarrow> nat" where
  "sym_len p sbn esi = min (oT (common p)) (oF (common p) - sym_off p sbn esi)"

text \<open>A symbol of the file \<open>f\<close>: its stretch, the last one padded with zeros.\<close>

definition file_symbol :: "nanorq_params \<Rightarrow> bytes \<Rightarrow> nat \<Rightarrow> nat \<Rightarrow> bytes" where
  "file_symbol p f sbn esi =
     chunk f (sym_off p sbn esi) (sym_len p sbn esi) @ replicate (oT (common p) - sym_len p sbn esi) 0"

lemma part_start_mono: "a \<le> b \<Longrightarrow> part_start p a \<le> part_start p b"
proof (induction b)
  case (Suc b)
  then show ?case by (cases "a = Suc b") (auto simp: part_start_def)
qed simp

lemma symbol_index_less:
  assumes "rq_ok p" and "sbn < nanorq_blocks p" and "esi < nanorq_block_symbols p sbn"
  shows "part_start (src_part p) sbn + esi < oKt (scheme p)"
proof -
  have "part_start (src_part p) sbn + esi < part_start (src_part p) (Suc sbn)"
    using assms(3) by (simp add: part_start_def nanorq_block_symbols_def)
  also have "\<dots> \<le> part_start (src_part p) (nanorq_blocks p)"
    using assms(2) by (intro part_start_mono) simp
  finally show ?thesis using rq_ok_symbols(5) [OF assms(1)] by simp
qed

lemma sym_off_less:
  assumes "rq_ok p" and "sbn < nanorq_blocks p" and "esi < nanorq_block_symbols p sbn"
  shows "sym_off p sbn esi < oF (common p)"
proof -
  let ?n = "part_start (src_part p) sbn + esi" and ?t = "oT (common p)"
  have kt: "oKt (scheme p) = div_ceil (oF (common p)) ?t" "0 < ?t" using assms(1) by (auto simp: rq_ok_def)
  have "(?n + 1) * ?t \<le> oKt (scheme p) * ?t"
    using symbol_index_less [OF assms] by (intro mult_le_mono1) simp
  also have "\<dots> < oF (common p) + ?t" unfolding kt(1) by (rule div_ceil_bounds(2) [OF kt(2)])
  finally show ?thesis by (simp add: sym_off_def)
qed

lemma one_sub_block:
  assumes "rq_ok p"
  shows "sub_part p = \<lparr>IL = 0, IS = oT (common p) div oAl (common p), JL = 0, JS = 1\<rparr>"
    "oT (common p) div oAl (common p) * oAl (common p) = oT (common p)"
    "0 < oT (common p) div oAl (common p)" "oT (common p) div oAl (common p) < 65536"
proof -
  have c: "oAl (common p) dvd oT (common p)" "0 < oT (common p)" "oT (common p) < 65536"
    "sub_part p = fill_partition (oT (common p) div oAl (common p)) 1"
    using assms by (auto simp: rq_ok_def)
  show "sub_part p = \<lparr>IL = 0, IS = oT (common p) div oAl (common p), JL = 0, JS = 1\<rparr>"
    unfolding c(4) by (simp add: fill_partition_cases)
  show m: "oT (common p) div oAl (common p) * oAl (common p) = oT (common p)" using c(1) by simp
  then show "0 < oT (common p) div oAl (common p)" using c(2) by (cases "oT (common p) div oAl (common p)") auto
  show "oT (common p) div oAl (common p) < 65536"
    using c(3) div_le_dividend [of "oT (common p)" "oAl (common p)"] by linarith
qed

lemma source_block_start:
  assumes "rq_ok p" and "sbn < nanorq_blocks p"
  shows "sbloc (get_source_block p sbn sz) = part_start (src_part p) sbn * sz"
proof (cases "sbn < JL (src_part p)")
  case True
  then show ?thesis by (simp add: get_source_block_def part_start_long)
next
  case False
  then have "sbn - JL (src_part p) < JS (src_part p)" "JL (src_part p) \<le> sbn" "sbn \<le> JL (src_part p) + JS (src_part p)"
    using assms(2) by (auto simp: nanorq_blocks_def)
  then show ?thesis
    using False part_start_short [of "src_part p" sbn] by (simp add: get_source_block_def algebra_simps)
qed

lemma transfer_step:
  assumes "rq_ok p" and "sbn < nanorq_blocks p" and "esi < nanorq_block_symbols p sbn" and "length ptr = oT (common p)"
    and "io_seek io (sym_off p sbn esi) = (True, io1)"
  shows "transfer_esi p sbn esi k ptr io out =
    (if out
     then (case io_write io1 (chunk ptr 0 (sym_len p sbn esi)) of (n, io2) \<Rightarrow> Inr (n, ptr, io2))
     else (case io_read io1 (sym_len p sbn esi) of (d, io2) \<Rightarrow> Inr (length d, blit ptr 0 d, io2)))"
proof -
  let ?al = "oAl (common p)" and ?off = "sym_off p sbn esi"
  define sz where "sz = oT (common p) div ?al"
  define blk where "blk = get_source_block p sbn (sz mod 65536)"
  note sb = one_sub_block [OF assms(1), folded sz_def]
  have al: "?al \<noteq> 0" using assms(1) by (auto simp: rq_ok_def)
  have blk: "part_tot blk = 0" "IS (bpart blk) = sz" "sbloc blk = part_start (src_part p) sbn * sz"
    using source_block_start [OF assms(1,2)] sb by (auto simp: blk_def get_source_block_def)
  have off: "get_symbol_offset blk 0 k esi = Inr (sbloc blk + esi * sz)"
    using blk sb(3) by (simp add: get_symbol_offset_def Let_def)
  have foff: "(sbloc blk + esi * sz) * ?al = ?off"
    by (simp only: blk(3) distrib_right [symmetric] mult.assoc sb(2) sym_off_def)
  have lt: "\<not> oF (common p) \<le> ?off" using sym_off_less [OF assms(1-3)] by simp
  have len: "(if oF (common p) \<le> ?off + sz * ?al then oF (common p) - ?off else sz * ?al) = sym_len p sbn esi"
    unfolding sb(2) by (auto simp: sym_len_def)
  have fits: "\<not> length ptr < 0 + sym_len p sbn esi" using assms(4) by (simp add: sym_len_def)
  have sz0: "\<not> sz \<le> 0" "\<not> (0::nat) < part_tot blk" using sb(3) blk(1) by auto
  have stop: "transfer_loop p blk k esi out sz (0 + sz) col tr q io2 = Inr (tr, q, io2)" for col tr q io2
    by (simp add: transfer_loop.simps)
  have "transfer_esi p sbn esi k ptr io out = transfer_loop p blk k esi out sz 0 0 0 ptr io"
    using al by (simp add: transfer_esi_def sz_def [symmetric] blk_def [symmetric])
  also have "\<dots> = (if out
     then (case io_write io1 (chunk ptr 0 (sym_len p sbn esi)) of (n, io2) \<Rightarrow> Inr (0 + n, ptr, io2))
     else (case io_read io1 (sym_len p sbn esi) of (d, io2) \<Rightarrow> Inr (0 + length d, blit ptr 0 d, io2)))"
    by (subst transfer_loop.simps, simp only: sz0 off foff lt len fits assms(5) blk(2)
        sum.case prod.case bool.case if_False if_True Let_def)
      (simp only: stop split: prod.split if_split, simp)
  finally show ?thesis by simp
qed

lemma transfer_in:
  assumes "rq_ok p" and "sbn < nanorq_blocks p" and "esi < nanorq_block_symbols p sbn" and "length ptr = oT (common p)"
    and "io_ready io" and "length (io_content io) = oF (common p)"
  shows "\<exists>io'. transfer_esi p sbn esi k ptr io False
      = Inr (sym_len p sbn esi, blit ptr 0 (chunk (io_content io) (sym_off p sbn esi) (sym_len p sbn esi)), io')
    \<and> io_ready io' \<and> io_content io' = io_content io"
proof -
  have off: "sym_off p sbn esi < length (io_content io)" using sym_off_less [OF assms(1-3)] assms(6) by simp
  obtain s1 s2 where s: "io_seek io (sym_off p sbn esi) = (True, s1)"
      "io_read s1 (sym_len p sbn esi) = (chunk (io_content io) (sym_off p sbn esi) (sym_len p sbn esi), s2)"
      "io_ready s2" "io_content s2 = io_content io"
    using rio.seek_get [OF assms(5) off] by blast
  have "sym_off p sbn esi + sym_len p sbn esi \<le> length (io_content io)"
    using off assms(6) by (auto simp: sym_len_def)
  then show ?thesis using transfer_step [OF assms(1-4) s(1), of k False] s by simp
qed

lemma transfer_out:
  assumes "rq_ok p" and "sbn < nanorq_blocks p" and "esi < nanorq_block_symbols p sbn" and "length ptr = oT (common p)"
    and "io_ready io" and "io_room io (oF (common p))"
  shows "transfer_esi p sbn esi k ptr io True
      = Inr (sym_len p sbn esi, ptr, rio.put_at io (sym_off p sbn esi, chunk ptr 0 (sym_len p sbn esi)))"
proof -
  let ?d = "chunk ptr 0 (sym_len p sbn esi)"
  have off: "sym_off p sbn esi < oF (common p)" by (rule sym_off_less [OF assms(1-3)])
  have t: "0 < oT (common p)" using assms(1) by (simp add: rq_ok_def)
  have len: "length ?d = sym_len p sbn esi" "0 < sym_len p sbn esi"
    using assms(4) off t by (auto simp: sym_len_def)
  then have "?d \<noteq> []" by (metis length_greater_0_conv)
  moreover have "io_room io (sym_off p sbn esi + length ?d)"
    using rio.room_mono [OF assms(6)] off len by (simp add: sym_len_def)
  ultimately obtain s1 s2 where s: "io_seek io (sym_off p sbn esi) = (True, s1)"
      "io_write s1 ?d = (length ?d, s2)"
    using rio.seek_put [OF assms(5)] by metis
  show ?thesis
    using transfer_step [OF assms(1-4) s(1), of k True] s len by (simp add: rio.put_at_def)
qed

subsection \<open>A block is loaded with its stretch of the file\<close>

lemma blit_zero_row:
  "length d \<le> n \<Longrightarrow> blit (replicate n 0) 0 d = d @ replicate (n - length d) (0::u8)"
  by (simp add: blit_def)

lemma length_file_chunk:
  assumes "rq_ok p" and "sbn < nanorq_blocks p" and "esi < nanorq_block_symbols p sbn"
    and "length f = oF (common p)"
  shows "length (chunk f (sym_off p sbn esi) (sym_len p sbn esi)) = sym_len p sbn esi"
    and "sym_off p sbn esi + sym_len p sbn esi \<le> length f"
  using sym_off_less [OF assms(1-3)] assms(4) by (auto simp: sym_len_def length_chunk)

lemma length_file_symbol:
  assumes "rq_ok p" and "sbn < nanorq_blocks p" and "esi < nanorq_block_symbols p sbn"
    and "length f = oF (common p)"
  shows "length (file_symbol p f sbn esi) = oT (common p)"
  using length_file_chunk [OF assms] by (simp add: file_symbol_def sym_len_def)

lemma load_rows_spec:
  assumes "rq_ok p" and "sbn < nanorq_blocks p" and "k = nanorq_block_symbols p sbn"
    and "pS (rqP p) + pH (rqP p) + k \<le> length d" and "\<forall>r < length d. length (d ! r) = oT (common p)"
    and "distinct es" and "\<forall>e \<in> set es. e < k"
    and "io_ready io" and "io_content io = f" and "length f = oF (common p)"
  shows "\<exists>d' io'. load_rows p sbn k es d io = Inr (d', io') \<and> io_ready io' \<and> io_content io' = f
    \<and> length d' = length d
    \<and> (\<forall>e \<in> set es. d' ! (pS (rqP p) + pH (rqP p) + e)
          = blit (d ! (pS (rqP p) + pH (rqP p) + e)) 0 (chunk f (sym_off p sbn e) (sym_len p sbn e)))
    \<and> (\<forall>e. e \<notin> set es \<longrightarrow> d' ! (pS (rqP p) + pH (rqP p) + e) = d ! (pS (rqP p) + pH (rqP p) + e))"
  using assms(4-9)
proof (induction es arbitrary: d io)
  case Nil
  then show ?case by simp
next
  case (Cons e es)
  let ?sh = "pS (rqP p) + pH (rqP p)"
  have e: "e < nanorq_block_symbols p sbn" "?sh + e < length d" using Cons.prems(1,4) assms(3) by auto
  obtain io1 where io1: "transfer_esi p sbn e k (d ! (?sh + e)) io False
      = Inr (sym_len p sbn e, blit (d ! (?sh + e)) 0 (chunk f (sym_off p sbn e) (sym_len p sbn e)), io1)"
      "io_ready io1" "io_content io1 = f"
    using transfer_in [OF assms(1,2) e(1), of "d ! (?sh + e)" io k] Cons.prems(2,5,6) assms(10) e(2) by auto
  let ?r = "blit (d ! (?sh + e)) 0 (chunk f (sym_off p sbn e) (sym_len p sbn e))"
  have len: "length ?r = oT (common p)"
    using length_file_chunk [OF assms(1,2) e(1) assms(10)] Cons.prems(2) e(2)
    by (subst length_blit) (auto simp: sym_len_def)
  have rows: "\<forall>r < length (d[?sh + e := ?r]). length (d[?sh + e := ?r] ! r) = oT (common p)"
    using Cons.prems(2) len e(2) by (simp add: nth_list_update)
  obtain d' io' where ih: "load_rows p sbn k es (d[?sh + e := ?r]) io1 = Inr (d', io')" "io_ready io'"
      "io_content io' = f" "length d' = length d"
      "\<forall>e' \<in> set es. d' ! (?sh + e') = blit (d[?sh + e := ?r] ! (?sh + e')) 0 (chunk f (sym_off p sbn e') (sym_len p sbn e'))"
      "\<forall>e'. e' \<notin> set es \<longrightarrow> d' ! (?sh + e') = d[?sh + e := ?r] ! (?sh + e')"
    using Cons.IH [OF _ rows _ _ io1(2,3)] Cons.prems(1,3,4) by auto
  have "load_rows p sbn k (e # es) d io = Inr (d', io')"
    using io1(1) ih(1) e(2) by (simp add: Let_def add.assoc)
  moreover have ne: "e \<notin> set es" using Cons.prems(3) by simp
  have upd: "d[?sh + e := ?r] ! (?sh + e') = d ! (?sh + e')" if "e' \<noteq> e" for e' using that by simp
  have "d' ! (?sh + e') = blit (d ! (?sh + e')) 0 (chunk f (sym_off p sbn e') (sym_len p sbn e'))"
    if "e' \<in> set (e # es)" for e'
    using that ih(5,6) ne upd e(2) by (cases "e' = e") auto
  moreover have "d' ! (?sh + e') = d ! (?sh + e')" if "e' \<notin> set (e # es)" for e'
    using that ih(6) upd by simp
  ultimately show ?case using ih(2-4) by blast
qed

lemma get_new_encoder:
  assumes "rq_ok (par rq)" and "encoders rq sbn = None"
    and "max_esi rq = 0 \<or> pKprime (rqP (par rq)) \<le> max_esi rq"
  obtains enc where "get_block_encoder rq sbn = Inr (enc, rq\<lparr>encoders := (encoders rq)(sbn := Some enc)\<rparr>)"
    "eK enc = nanorq_block_symbols (par rq) sbn" "pL (rqP (par rq)) \<le> length (eD enc)"
    "\<forall>r < length (eD enc). eD enc ! r = replicate (rqT rq) 0" "repair_bin enc = []"
    "mask_set (repair_mask enc) = {}" "max_esi rq \<noteq> 0 \<Longrightarrow> max_esi rq < mask_cap (repair_mask enc)"
proof -
  let ?k = "nanorq_block_symbols (par rq) sbn"
  have k: "?k mod 65536 = ?k" "?k \<le> pKprime (rqP (par rq))"
    using rq_ok_symbols(1,2) [OF assms(1), of sbn] by (simp_all add: nanorq_block_symbols_def K_max_def)
  have empty: "mask_set [] = {}" by (auto simp: mask_set_def)
  show thesis
  proof (cases "max_esi rq = 0")
    case True
    show thesis
      by (rule that [of "\<lparr>eK = ?k, eloaded = False, einverted = False,
            eD = replicate (pL (rqP (par rq))) (replicate (rqT rq) 0), repair_bin = [], repair_mask = []\<rparr>"])
        (use True assms(2) k empty in \<open>simp_all add: get_block_encoder_def Let_def\<close>)
  next
    case False
    then have spare: "\<not> int (pL (rqP (par rq))) + (int (max_esi rq) - int ?k) < 0"
      "pL (rqP (par rq)) \<le> nat (int (pL (rqP (par rq))) + (int (max_esi rq) - int ?k))"
      using assms(3) k(2) by linarith+
    show thesis
      by (rule that [of "\<lparr>eK = ?k, eloaded = False, einverted = False,
            eD = replicate (nat (int (pL (rqP (par rq))) + (int (max_esi rq) - int ?k))) (replicate (rqT rq) 0),
            repair_bin = [], repair_mask = bitmask_new (max_esi rq)\<rparr>"])
        (use False assms(2) k(1) spare in \<open>simp_all add: get_block_encoder_def Let_def\<close>)
  qed
qed

lemma rows_in_matrix:
  assumes "rq_ok p" and "e < nanorq_block_symbols p sbn"
  shows "pS (rqP p) + pH (rqP p) + e < pL (rqP p)"
  using rq_ok_symbols(2) [OF assms(1), of sbn] rq_ok_symbols(3) [OF assms(1)] assms(2)
  by (simp add: params_ok_def nanorq_block_symbols_def)

text \<open>Loading a block of an encoder built for the file reads, without fault and without changing the
  file, exactly the block's stretch of it: row \<open>S + H + i\<close> of the matrix becomes source symbol \<open>i\<close>, the
  last symbol of the file padded with zeros.\<close>

theorem block_loads_file:
  assumes "rq_ok (par rq)" and "sbn < nanorq_blocks (par rq)" and "encoders rq sbn = None"
    and "max_esi rq = 0 \<or> pKprime (rqP (par rq)) \<le> max_esi rq"
    and "io_ready io" and "io_content io = f" and "length f = rqF rq"
  shows "\<exists>rq' io' enc. load_symbol_matrix rq sbn io = Inr (rq', io') \<and> io_content io' = f
    \<and> encoders rq' sbn = Some enc
    \<and> (\<forall>i < nanorq_block_symbols (par rq) sbn.
          eD enc ! (pS (rqP (par rq)) + pH (rqP (par rq)) + i) = file_symbol (par rq) f sbn i)"
proof -
  let ?p = "par rq" and ?k = "nanorq_block_symbols (par rq) sbn"
  let ?sh = "pS (rqP ?p) + pH (rqP ?p)"
  obtain enc where enc: "get_block_encoder rq sbn = Inr (enc, rq\<lparr>encoders := (encoders rq)(sbn := Some enc)\<rparr>)"
    "eK enc = ?k" "pL (rqP ?p) \<le> length (eD enc)" "\<forall>r < length (eD enc). eD enc ! r = replicate (rqT rq) 0"
    using get_new_encoder [OF assms(1,3,4)] by metis
  have "?sh + ?k \<le> length (eD enc)"
    using rq_ok_symbols(2) [OF assms(1), of sbn] rq_ok_symbols(3) [OF assms(1)] enc(3) by (simp add: params_ok_def nanorq_block_symbols_def)
  then obtain d io' where d: "load_rows ?p sbn ?k [0..<?k] (eD enc) io = Inr (d, io')" "io_content io' = f"
      "\<forall>e \<in> set [0..<?k]. d ! (?sh + e) = blit (eD enc ! (?sh + e)) 0 (chunk f (sym_off ?p sbn e) (sym_len ?p sbn e))"
    using load_rows_spec [OF assms(1,2) refl _ _ _ _ assms(5,6,7), of "eD enc" "[0..<?k]"] enc(4) by auto
  have row: "d ! (?sh + i) = file_symbol ?p f sbn i" if i: "i < ?k" for i
  proof -
    have "eD enc ! (?sh + i) = replicate (rqT rq) 0"
      using enc(3,4) rows_in_matrix [OF assms(1) i] by simp
    then show ?thesis
      using d(3) i length_file_chunk [OF assms(1,2) i assms(7)]
      by (simp add: blit_zero_row file_symbol_def sym_len_def)
  qed
  then show ?thesis using enc(1,2) d(1,2) by (simp add: load_symbol_matrix_def)
qed

lemma sample_encoder:
  obtains p where "nanorq_encoder_new 1000 122 1 = Some (Inr (Some p))" "rq_ok p"
    "oF (common p) = 1000" "0 < nanorq_blocks p" "oT (common p) = 122"
proof -
  obtain p where p: "nanorq_encoder_new 1000 122 1 = Some (Inr (Some p))" "common p = \<lparr>oF = 1000, oT = 122, oAl = 1\<rparr>"
    using encoder_new_exists [of 1000 122]
    by (auto simp: NANORQ_MAX_TRANSFER_def Z_max_def K_max_def div_ceil_def)
  then have ok: "rq_ok p" using encoder_rq_ok [of 1000 122 0 0 1 p] by (simp add: nanorq_encoder_new_def)
  then have "0 < nanorq_blocks p" using rq_ok_symbols(4) [OF ok] by (simp add: rq_ok_def)
  with that p ok show thesis by simp
qed

lemma block_loads_file_witness:
  "\<exists>p rq' io'. load_symbol_matrix (nanorq_init p 0) 0 (Mem (ioctx_from_mem (replicate 1000 7))) = Inr (rq', io')"
proof -
  obtain p where p: "rq_ok p" "oF (common p) = 1000" "0 < nanorq_blocks p" using sample_encoder by metis
  have "\<exists>rq' io' enc. load_symbol_matrix (nanorq_init p 0) 0 (Mem (ioctx_from_mem (replicate 1000 7))) = Inr (rq', io')
      \<and> io_content io' = replicate 1000 7 \<and> encoders rq' 0 = Some enc
      \<and> (\<forall>i < nanorq_block_symbols (par (nanorq_init p 0)) 0.
          eD enc ! (pS (rqP (par (nanorq_init p 0))) + pH (rqP (par (nanorq_init p 0))) + i)
            = file_symbol (par (nanorq_init p 0)) (replicate 1000 7) 0 i)"
    by (rule block_loads_file) (use p in \<open>simp_all add: nanorq_init_def ioctx_from_mem_def\<close>)
  then show ?thesis by blast
qed

subsection \<open>The decoder's file\<close>

text \<open>
  A received symbol: block, symbol id and the bytes behind the tag. It is valid for a file when the
  block exists, the id is within the decoder's limit and, for a source symbol, the bytes start with
  the file's symbol.
\<close>

definition symbol_valid :: "nanorq_params \<Rightarrow> nat \<Rightarrow> bytes \<Rightarrow> nat \<times> nat \<times> bytes \<Rightarrow> bool" where
  "symbol_valid p m f s \<longleftrightarrow>
     (case s of (sbn, esi, d) \<Rightarrow>
        sbn < nanorq_blocks p \<and> esi \<le> m \<and> oT (common p) \<le> length d
        \<and> (esi < nanorq_block_symbols p sbn \<longrightarrow> take (oT (common p)) d = file_symbol p f sbn esi))"

definition symbol_bytes :: "nanorq_params \<Rightarrow> nat \<times> nat \<Rightarrow> nat set" where
  "symbol_bytes p s = {sym_off p (fst s) (snd s)..<sym_off p (fst s) (snd s) + sym_len p (fst s) (snd s)}"

text \<open>Symbols handed to the decoder one after the other, as the receivers do.\<close>

fun feed_symbols :: "nanorq \<Rightarrow> ioctx \<Rightarrow> (nat \<times> nat \<times> bytes) list \<Rightarrow> (int list \<times> nanorq \<times> ioctx) result" where
  "feed_symbols rq io [] = Inr ([], rq, io)"
| "feed_symbols rq io ((sbn, esi, d) # ss) =
     (case nanorq_decoder_add_symbol rq d (nanorq_tag (of_nat sbn) (of_nat esi)) io of
        Inl f \<Rightarrow> Inl f
      | Inr (r, rq', io') \<Rightarrow>
          (case feed_symbols rq' io' ss of Inl f \<Rightarrow> Inl f | Inr (rs, x) \<Rightarrow> Inr (r # rs, x)))"

text \<open>\<open>R\<close> is the set of symbols the decoder has accepted.\<close>

definition dec_inv :: "nanorq_params \<Rightarrow> nat \<Rightarrow> bytes \<Rightarrow> nanorq \<Rightarrow> ioctx \<Rightarrow> (nat \<times> nat) set \<Rightarrow> bool" where
  "dec_inv p m f rq io R \<longleftrightarrow> par rq = p \<and> max_esi rq = m \<and> io_ready io \<and> io_room io (length f)
     \<and> (\<forall>sbn. case encoders rq sbn of
          None \<Rightarrow> \<forall>esi. (sbn, esi) \<notin> R
        | Some enc \<Rightarrow> eK enc = nanorq_block_symbols p sbn \<and> pL (rqP p) \<le> length (eD enc)
            \<and> m < mask_cap (repair_mask enc) \<and> mask_set (repair_mask enc) = {esi. (sbn, esi) \<in> R})
     \<and> rio.agrees (io_content io)
         (\<Union>s \<in> {s \<in> R. snd s < nanorq_block_symbols p (fst s)}. symbol_bytes p s) f"

lemma get_encoder_inv:
  assumes "rq_ok p" and "0 < m" and "pKprime (rqP p) \<le> m" and "dec_inv p m f rq io R"
  obtains enc rq1 where "get_block_encoder rq sbn = Inr (enc, rq1)" "encoders rq1 sbn = Some enc"
    "dec_inv p m f rq1 io R"
proof (cases "encoders rq sbn")
  case (Some enc)
  then show thesis using that [of enc rq] assms(4) by (simp add: get_block_encoder_def)
next
  case None
  have pr: "par rq = p" "max_esi rq = m" using assms(4) by (auto simp: dec_inv_def)
  obtain enc where enc: "get_block_encoder rq sbn = Inr (enc, rq\<lparr>encoders := (encoders rq)(sbn := Some enc)\<rparr>)"
    "eK enc = nanorq_block_symbols p sbn" "pL (rqP p) \<le> length (eD enc)" "mask_set (repair_mask enc) = {}"
    "m < mask_cap (repair_mask enc)"
    using get_new_encoder [of rq sbn] assms(1-3) None pr by (metis less_numeral_extra(3))
  have "case encoders rq sbn of None \<Rightarrow> \<forall>esi. (sbn, esi) \<notin> R
      | Some enc \<Rightarrow> eK enc = nanorq_block_symbols p sbn \<and> pL (rqP p) \<le> length (eD enc)
          \<and> m < mask_cap (repair_mask enc) \<and> mask_set (repair_mask enc) = {esi. (sbn, esi) \<in> R}"
    using assms(4) unfolding dec_inv_def by blast
  then have "{esi. (sbn, esi) \<in> R} = {}" using None by simp
  then have "dec_inv p m f (rq\<lparr>encoders := (encoders rq)(sbn := Some enc)\<rparr>) io R"
    using assms(4) enc(2-5) by (auto simp: dec_inv_def)
  with that enc(1) show thesis by simp
qed

lemma chunk_file_symbol:
  assumes "rq_ok p" and "sbn < nanorq_blocks p" and "esi < nanorq_block_symbols p sbn" and "length f = oF (common p)"
  shows "chunk (file_symbol p f sbn esi) 0 (sym_len p sbn esi) = chunk f (sym_off p sbn esi) (sym_len p sbn esi)"
  using length_file_chunk(1) [OF assms] by (simp add: file_symbol_def chunk_def)

lemma tag_numbers:
  assumes "sbn < 256" and "esi < 2 ^ 24"
  shows "unat (drop_bit 24 (nanorq_tag (of_nat sbn) (of_nat esi)) AND 0xff) = sbn"
    "unat (nanorq_tag (of_nat sbn) (of_nat esi) AND 0x00ffffff) = esi"
proof -
  let ?s = "of_nat sbn :: u8" and ?e = "of_nat esi :: u32"
  have e: "unat ?e = esi" using assms(2) by (intro unat_of_nat_small) simp
  have "take_bit 8 (drop_bit 24 (push_bit 24 (ucast ?s) OR take_bit 24 ?e)) = (ucast ?s :: u32)"
    by (rule bit_word_eqI) (auto simp: bit_simps)
  moreover have "unat (ucast ?s :: u32) = sbn"
    using assms(1) by (simp add: unsigned_ucast_eq unat_of_nat_small take_bit_nat_eq_self)
  ultimately show "unat (drop_bit 24 (nanorq_tag ?s ?e) AND 0xff) = sbn"
    by (simp add: nanorq_tag_def and_literals)
  have "take_bit 24 ?e = ?e" using assms(2) by (rule take_bit_of_nat_small)
  then show "unat (nanorq_tag ?s ?e AND 0x00ffffff) = esi"
    using split_tag(2) [of ?s ?e] e by (simp add: nanorq_tag_def and_literals)
qed

lemma dec_inv_enc:
  assumes "dec_inv p m f rq io R" and "encoders rq sbn = Some enc"
  shows "eK enc = nanorq_block_symbols p sbn" "pL (rqP p) \<le> length (eD enc)"
    "m < mask_cap (repair_mask enc)" "mask_set (repair_mask enc) = {esi. (sbn, esi) \<in> R}"
proof -
  have "case encoders rq sbn of None \<Rightarrow> \<forall>esi. (sbn, esi) \<notin> R
      | Some enc \<Rightarrow> eK enc = nanorq_block_symbols p sbn \<and> pL (rqP p) \<le> length (eD enc)
          \<and> m < mask_cap (repair_mask enc) \<and> mask_set (repair_mask enc) = {esi. (sbn, esi) \<in> R}"
    using assms(1) unfolding dec_inv_def by blast
  then show "eK enc = nanorq_block_symbols p sbn" "pL (rqP p) \<le> length (eD enc)"
    "m < mask_cap (repair_mask enc)" "mask_set (repair_mask enc) = {esi. (sbn, esi) \<in> R}"
    using assms(2) by simp_all
qed

text \<open>Accepting a symbol adds it to the block's mask and, when it is a source symbol, to the file.\<close>

lemma dec_inv_accept:
  assumes "dec_inv p m f rq io R" and "encoders rq sbn = Some dec" and "mask_cap (repair_mask dec) \<le> mask_cap mk"
    and "mask_set mk = insert esi (mask_set (repair_mask dec))" and "length d = length (eD dec)"
    and "io_ready io'" and "io_room io' (length f)"
    and "rio.agrees (io_content io')
        (\<Union>s \<in> {s \<in> insert (sbn, esi) R. snd s < nanorq_block_symbols p (fst s)}. symbol_bytes p s) f"
  shows "dec_inv p m f (rq\<lparr>encoders := (encoders rq)(sbn := Some (dec\<lparr>eD := d, repair_bin := b, repair_mask := mk\<rparr>))\<rparr>)
    io' (insert (sbn, esi) R)"
proof -
  note e = dec_inv_enc [OF assms(1,2)]
  have "case ((encoders rq)(sbn := Some (dec\<lparr>eD := d, repair_bin := b, repair_mask := mk\<rparr>))) b' of
      None \<Rightarrow> \<forall>esi'. (b', esi') \<notin> insert (sbn, esi) R
    | Some enc \<Rightarrow> eK enc = nanorq_block_symbols p b' \<and> pL (rqP p) \<le> length (eD enc)
        \<and> m < mask_cap (repair_mask enc) \<and> mask_set (repair_mask enc) = {x. (b', x) \<in> insert (sbn, esi) R}" for b'
  proof (cases "b' = sbn")
    case True
    then show ?thesis using e assms(3-5) by auto
  next
    case False
    have "case encoders rq b' of None \<Rightarrow> \<forall>esi. (b', esi) \<notin> R
      | Some enc \<Rightarrow> eK enc = nanorq_block_symbols p b' \<and> pL (rqP p) \<le> length (eD enc)
          \<and> m < mask_cap (repair_mask enc) \<and> mask_set (repair_mask enc) = {esi. (b', esi) \<in> R}"
      using assms(1) unfolding dec_inv_def by blast
    with False show ?thesis by (auto split: option.splits)
  qed
  then show ?thesis using assms(1,6-8) unfolding dec_inv_def by simp
qed

text \<open>What the file holds after a source symbol was accepted.\<close>

abbreviation source_bytes :: "nanorq_params \<Rightarrow> (nat \<times> nat) set \<Rightarrow> nat set" where
  "source_bytes p R \<equiv> (\<Union>s \<in> {s \<in> R. snd s < nanorq_block_symbols p (fst s)}. symbol_bytes p s)"

lemma source_bytes_insert:
  "esi < nanorq_block_symbols p sbn \<Longrightarrow> source_bytes p (insert (sbn, esi) R) = source_bytes p R \<union> symbol_bytes p (sbn, esi)"
  "\<not> esi < nanorq_block_symbols p sbn \<Longrightarrow> source_bytes p (insert (sbn, esi) R) = source_bytes p R"
  by auto

lemma symbol_written:
  assumes p: "rq_ok p" and sbn: "sbn < nanorq_blocks p" and esi: "esi < nanorq_block_symbols p sbn"
    and f: "length f = oF (common p)" and io: "io_ready io" "io_room io (length f)" and ag: "rio.agrees (io_content io) I f"
  shows "\<exists>io'. transfer_esi p sbn esi k (file_symbol p f sbn esi) io True
        = Inr (sym_len p sbn esi, file_symbol p f sbn esi, io')
    \<and> io_ready io' \<and> io_room io' (length f) \<and> rio.agrees (io_content io') (I \<union> symbol_bytes p (sbn, esi)) f"
proof -
  let ?blk = "(sym_off p sbn esi, chunk (file_symbol p f sbn esi) 0 (sym_len p sbn esi))"
  note ch = chunk_file_symbol [OF p sbn esi f] and lf = length_file_chunk [OF p sbn esi f]
  have "0 < sym_len p sbn esi"
    using sym_off_less [OF p sbn esi] p by (simp add: sym_len_def rq_ok_def)
  then have ne: "snd ?blk \<noteq> []" using ch lf(1) by auto
  have ok: "io_ready (rio.put_at io ?blk) \<and> (\<forall>k. io_room (rio.put_at io ?blk) k = io_room io k)
      \<and> io_content (rio.put_at io ?blk) = splice (io_content io) (fst ?blk) (snd ?blk)"
    using rio.put_at_spec [OF io(1) ne] rio.room_mono [OF io(2)] ch lf by simp
  then have "rio.agrees (io_content (rio.put_at io ?blk)) (I \<union> symbol_bytes p (sbn, esi)) f"
    using rio.agrees_splice [OF ag, of "snd ?blk" "fst ?blk"] ch lf by (simp add: symbol_bytes_def)
  then show ?thesis
    using transfer_out [OF p sbn esi length_file_symbol [OF p sbn esi f] io(1), of k] ok io(2) f by simp
qed

lemma add_symbol_exact:
  assumes p: "rq_ok p" and m: "0 < m" "pKprime (rqP p) \<le> m" "m < 2 ^ 24"
    and f: "length f = oF (common p)" and inv: "dec_inv p m f rq io R" and v: "symbol_valid p m f (sbn, esi, d)"
  shows "\<exists>r rq' io'. nanorq_decoder_add_symbol rq d (nanorq_tag (of_nat sbn) (of_nat esi)) io = Inr (r, rq', io')
    \<and> (if (\<forall>g < nanorq_block_symbols p sbn. (sbn, g) \<in> R) \<or> (sbn, esi) \<in> R
       then r \<in> {NANORQ_SYM_IGN, NANORQ_SYM_DUP} \<and> dec_inv p m f rq' io' R
       else r = NANORQ_SYM_ADDED \<and> dec_inv p m f rq' io' (insert (sbn, esi) R))"
proof -
  let ?k = "nanorq_block_symbols p sbn" and ?t = "oT (common p)"
  have b: "sbn < nanorq_blocks p" "esi \<le> m" "?t \<le> length d"
    and dat: "esi < ?k \<Longrightarrow> take ?t d = file_symbol p f sbn esi"
    using v by (auto simp: symbol_valid_def)
  have "nanorq_blocks p \<le> 256" using rq_ok_symbols(4) [OF p] p by (simp add: rq_ok_def Z_max_def)
  then have tag: "unat (drop_bit 24 (nanorq_tag (of_nat sbn) (of_nat esi)) AND 0xff) = sbn"
      "unat (nanorq_tag (of_nat sbn) (of_nat esi) AND 0x00ffffff) = esi"
    using tag_numbers [of sbn esi] b m(3) by auto
  obtain dec rq1 where g: "get_block_encoder rq sbn = Inr (dec, rq1)" "encoders rq1 sbn = Some dec"
      and inv1: "dec_inv p m f rq1 io R"
    using get_encoder_inv [OF p m(1,2) inv] .
  note e = dec_inv_enc [OF inv1 g(2)]
  have pr: "par rq1 = p" "max_esi rq1 = m" "io_ready io" "io_room io (length f)"
    and ag: "rio.agrees (io_content io) (source_bytes p R) f"
    using inv1 by (auto simp: dec_inv_def)
  have kcap: "?k \<le> mask_cap (repair_mask dec)"
    using rq_ok_symbols(2) [OF p, of sbn] m(2) e(3) by (simp add: nanorq_block_symbols_def)
  note call = nanorq_decoder_add_symbol_def [of rq d "nanorq_tag (of_nat sbn) (of_nat esi)" io,
      unfolded Let_def tag g(1) sum.case prod.case]
  note known = mask.gaps_ok [OF kcap] e(1) b(2) pr(1,2)
  let ?mk = "bitmask_set (repair_mask dec) esi"
  have known_ids: "{0..<?k} - mask_set (repair_mask dec) = {} \<longleftrightarrow> (\<forall>g < ?k. (sbn, g) \<in> R)" "esi \<in> mask_set (repair_mask dec) \<longleftrightarrow> (sbn, esi) \<in> R"
    using e(4) by auto
  consider "{0..<?k} - mask_set (repair_mask dec) = {} \<or> esi \<in> mask_set (repair_mask dec)"
    | "{0..<?k} - mask_set (repair_mask dec) \<noteq> {}" "esi \<notin> mask_set (repair_mask dec)" "esi < ?k"
    | "{0..<?k} - mask_set (repair_mask dec) \<noteq> {}" "esi \<notin> mask_set (repair_mask dec)" "\<not> esi < ?k"
    by blast
  then show ?thesis
  proof cases
    case 1
    then have "\<exists>r. nanorq_decoder_add_symbol rq d (nanorq_tag (of_nat sbn) (of_nat esi)) io = Inr (r, rq1, io)
        \<and> r \<in> {NANORQ_SYM_IGN, NANORQ_SYM_DUP}"
      using known by (auto simp: call sym_codes)
    then show ?thesis using 1 inv1 unfolding known_ids by auto
  next
    case 2
    let ?row = "pS (rqP p) + pH (rqP p) + esi" and ?sym = "file_symbol p f sbn esi"
    have row: "\<not> length (eD dec) \<le> ?row" using rows_in_matrix [OF p 2(3)] e(2) by simp
    obtain io' where io': "transfer_esi p sbn esi ?k ?sym io True = Inr (sym_len p sbn esi, ?sym, io')"
        "io_ready io'" "io_room io' (length f)"
        "rio.agrees (io_content io') (source_bytes p (insert (sbn, esi) R)) f"
      using symbol_written [OF p b(1) 2(3) f pr(3,4) ag] unfolding source_bytes_insert(1) [OF 2(3)] by blast
    have "dec_inv p m f (rq1\<lparr>encoders := (encoders rq1)(sbn := Some (dec\<lparr>eD := (eD dec)[?row := ?sym],
        repair_bin := repair_bin dec, repair_mask := ?mk\<rparr>))\<rparr>) io' (insert (sbn, esi) R)"
      by (rule dec_inv_accept [OF inv1 g(2) _ _ _ io'(2-4)]) (use mask_cap_set in auto)
    moreover have "nanorq_decoder_add_symbol rq d (nanorq_tag (of_nat sbn) (of_nat esi)) io = Inr (NANORQ_SYM_ADDED,
        rq1\<lparr>encoders := (encoders rq1)(sbn := Some (dec\<lparr>eD := (eD dec)[?row := ?sym], repair_mask := ?mk\<rparr>))\<rparr>, io')"
      using known 2 row io'(1) b(3) dat [OF 2(3)] by (simp add: call)
    ultimately show ?thesis using 2(1,2) unfolding known_ids by auto
  next
    case 3
    have ag': "rio.agrees (io_content io) (source_bytes p (insert (sbn, esi) R)) f"
      using ag unfolding source_bytes_insert(2) [OF 3(3)] .
    have "dec_inv p m f (rq1\<lparr>encoders := (encoders rq1)(sbn := Some (dec\<lparr>eD := eD dec,
        repair_bin := repair_bin dec @ [(esi, take ?t d)], repair_mask := ?mk\<rparr>))\<rparr>) io (insert (sbn, esi) R)"
      by (rule dec_inv_accept [OF inv1 g(2) _ _ _ pr(3,4) ag'])
        (use mask_cap_set in auto)
    moreover have "nanorq_decoder_add_symbol rq d (nanorq_tag (of_nat sbn) (of_nat esi)) io = Inr (NANORQ_SYM_ADDED,
        rq1\<lparr>encoders := (encoders rq1)(sbn := Some (dec\<lparr>repair_bin := repair_bin dec @ [(esi, take ?t d)], repair_mask := ?mk\<rparr>))\<rparr>, io)"
      using known 3 b(3) by (simp add: call)
    ultimately show ?thesis using 3(1,2) unfolding known_ids by auto
  qed
qed

lemma add_symbol_inv:
  assumes p: "rq_ok p" and m: "0 < m" "pKprime (rqP p) \<le> m" "m < 2 ^ 24"
    and f: "length f = oF (common p)" and inv: "dec_inv p m f rq io R" and v: "symbol_valid p m f (sbn, esi, d)"
  shows "\<exists>r rq' io' R'. nanorq_decoder_add_symbol rq d (nanorq_tag (of_nat sbn) (of_nat esi)) io = Inr (r, rq', io')
    \<and> r \<noteq> NANORQ_SYM_ERR \<and> dec_inv p m f rq' io' R' \<and> R \<subseteq> R'
    \<and> (esi < nanorq_block_symbols p sbn \<longrightarrow> (sbn, esi) \<in> R')"
proof -
  from add_symbol_exact [OF assms] obtain r rq' io' where
    a: "nanorq_decoder_add_symbol rq d (nanorq_tag (of_nat sbn) (of_nat esi)) io = Inr (r, rq', io')"
    and b: "if (\<forall>g < nanorq_block_symbols p sbn. (sbn, g) \<in> R) \<or> (sbn, esi) \<in> R
       then r \<in> {NANORQ_SYM_IGN, NANORQ_SYM_DUP} \<and> dec_inv p m f rq' io' R
       else r = NANORQ_SYM_ADDED \<and> dec_inv p m f rq' io' (insert (sbn, esi) R)" by blast
  show ?thesis
  proof (cases "(\<forall>g < nanorq_block_symbols p sbn. (sbn, g) \<in> R) \<or> (sbn, esi) \<in> R")
    case True
    with a b show ?thesis by (intro exI [of _ r] exI [of _ rq'] exI [of _ io'] exI [of _ R]) (auto simp: sym_codes)
  next
    case False
    with a b show ?thesis by (intro exI [of _ r] exI [of _ rq'] exI [of _ io'] exI [of _ "insert (sbn, esi) R"]) (auto simp: sym_codes)
  qed
qed

lemma feed_symbols_inv:
  assumes p: "rq_ok p" and m: "0 < m" "pKprime (rqP p) \<le> m" "m < 2 ^ 24" and f: "length f = oF (common p)"
  shows "dec_inv p m f rq io R \<Longrightarrow> list_all (symbol_valid p m f) ss \<Longrightarrow>
    \<exists>rs rq' io' R'. feed_symbols rq io ss = Inr (rs, rq', io') \<and> NANORQ_SYM_ERR \<notin> set rs
      \<and> dec_inv p m f rq' io' R' \<and> R \<subseteq> R'
      \<and> (\<forall>(sbn, esi, d) \<in> set ss. esi < nanorq_block_symbols p sbn \<longrightarrow> (sbn, esi) \<in> R')"
proof (induction ss arbitrary: rq io R)
  case (Cons s ss)
  obtain sbn esi d where s: "s = (sbn, esi, d)" by (metis prod_cases3)
  then have v: "symbol_valid p m f (sbn, esi, d)" using Cons.prems(2) by simp
  obtain r rq1 io1 R1 where one: "nanorq_decoder_add_symbol rq d (nanorq_tag (of_nat sbn) (of_nat esi)) io = Inr (r, rq1, io1)"
      "r \<noteq> NANORQ_SYM_ERR" "dec_inv p m f rq1 io1 R1" "R \<subseteq> R1"
      "esi < nanorq_block_symbols p sbn \<longrightarrow> (sbn, esi) \<in> R1"
    using add_symbol_inv [OF p m f Cons.prems(1) v] by blast
  have "list_all (symbol_valid p m f) ss" using Cons.prems(2) by simp
  from Cons.IH [OF one(3) this] obtain rs rq' io' R' where rest: "feed_symbols rq1 io1 ss = Inr (rs, rq', io')"
      "NANORQ_SYM_ERR \<notin> set rs" "dec_inv p m f rq' io' R'" "R1 \<subseteq> R'"
      "\<forall>(sbn, esi, d) \<in> set ss. esi < nanorq_block_symbols p sbn \<longrightarrow> (sbn, esi) \<in> R'"
    by blast
  have "feed_symbols rq io (s # ss) = Inr (r # rs, rq', io')" using one(1) rest(1) by (simp add: s)
  moreover have "NANORQ_SYM_ERR \<notin> set (r # rs)" using one(2) rest(2) by simp
  moreover have "\<forall>(sbn, esi, d) \<in> set (s # ss). esi < nanorq_block_symbols p sbn \<longrightarrow> (sbn, esi) \<in> R'"
    using one(4,5) rest(4,5) by (auto simp: s)
  ultimately show ?case using rest(3,4) one(4) by blast
qed auto

text \<open>The bytes of all source symbols are all bytes of the file.\<close>

lemma part_start_locate:
  "n < part_start p b \<Longrightarrow> \<exists>sbn esi. sbn < b \<and> esi < block_symbols p sbn \<and> n = part_start p sbn + esi"
proof (induction b)
  case (Suc b)
  show ?case
  proof (cases "n < part_start p b")
    case True
    then show ?thesis using Suc.IH less_SucI by blast
  next
    case False
    then have "n - part_start p b < block_symbols p b" "n = part_start p b + (n - part_start p b)"
      using Suc.prems by (auto simp: part_start_def)
    then show ?thesis by blast
  qed
qed (simp add: part_start_def)

lemma symbols_cover:
  assumes p: "rq_ok p" and i: "i < oF (common p)"
  shows "\<exists>sbn esi. sbn < nanorq_blocks p \<and> esi < nanorq_block_symbols p sbn \<and> i \<in> symbol_bytes p (sbn, esi)"
proof -
  let ?t = "oT (common p)"
  have t: "0 < ?t" and kt: "oKt (scheme p) = div_ceil (oF (common p)) ?t" using p by (auto simp: rq_ok_def)
  have "i < oKt (scheme p) * ?t"
    unfolding kt using div_ceil_bounds(1) [OF t, of "oF (common p)"] i by linarith
  then have "i div ?t < oKt (scheme p)" by (simp add: less_mult_imp_div_less)
  then have "i div ?t < part_start (src_part p) (nanorq_blocks p)" using rq_ok_symbols(5) [OF p] by simp
  then obtain sbn esi where s: "sbn < nanorq_blocks p" "esi < block_symbols (src_part p) sbn"
      "i div ?t = part_start (src_part p) sbn + esi"
    using part_start_locate by metis
  have off: "sym_off p sbn esi = i div ?t * ?t" using s(3) by (simp add: sym_off_def)
  have "i mod ?t < ?t" "i = i div ?t * ?t + i mod ?t" using t by simp_all
  then have "sym_off p sbn esi \<le> i" "i - sym_off p sbn esi < ?t" unfolding off by linarith+
  then have "i \<in> symbol_bytes p (sbn, esi)"
    using i by (simp add: symbol_bytes_def sym_len_def less_diff_conv2 min_def)
  with s show ?thesis by (auto simp: nanorq_block_symbols_def)
qed

text \<open>C8: A decoder set up with the sender's parameters for a file, writing to a fresh output file, that is
  given valid symbols of it in any order, repeated, from any block, mixed with repair symbols of any
  content, reports no error; once every source symbol has been among them the output file is the
  file, byte for byte.\<close>

theorem source_symbols_rebuild_file:
  assumes "rq_ok p" and "length f = nanorq_transfer_length p"
    and "m < 2 ^ 24" and "pKprime (rqP p) \<le> m"
    and "list_all (symbol_valid p m f) ss"
    and "\<forall>sbn < nanorq_blocks p. \<forall>esi < nanorq_block_symbols p sbn. \<exists>d. (sbn, esi, d) \<in> set ss"
  shows "\<exists>rs rq io. feed_symbols (nanorq_init p m) (File \<lparr>f_bytes = [], f_pos = 0, f_writable = True\<rparr>) ss = Inr (rs, rq, io)
    \<and> NANORQ_SYM_ERR \<notin> set rs \<and> io_content io = f"
proof -
  let ?io = "File \<lparr>f_bytes = [], f_pos = 0, f_writable = True\<rparr>"
  have f: "length f = oF (common p)" using assms(2) by (simp add: nanorq_transfer_length_def)
  have m: "0 < m" using rq_ok_symbols(3) [OF assms(1)] assms(4) by (simp add: params_ok_def)
  have "dec_inv p m f (nanorq_init p m) ?io {}"
    by (simp add: dec_inv_def nanorq_init_def rio.agrees_def)
  then obtain rs rq io R where r: "feed_symbols (nanorq_init p m) ?io ss = Inr (rs, rq, io)" "NANORQ_SYM_ERR \<notin> set rs"
      "dec_inv p m f rq io R" "\<forall>(sbn, esi, d) \<in> set ss. esi < nanorq_block_symbols p sbn \<longrightarrow> (sbn, esi) \<in> R"
    using feed_symbols_inv [OF assms(1) m assms(4,3) f _ assms(5)] by blast
  have "rio.agrees (io_content io) (source_bytes p R) f" using r(3) by (simp add: dec_inv_def)
  moreover have "i \<in> source_bytes p R" if i: "i < length f" for i
  proof -
    obtain sbn esi where s: "sbn < nanorq_blocks p" "esi < nanorq_block_symbols p sbn" "i \<in> symbol_bytes p (sbn, esi)"
      using symbols_cover [OF assms(1)] i unfolding f by blast
    then have "(sbn, esi) \<in> R" using assms(6) r(4) by fastforce
    with s show ?thesis by (intro UN_I [of "(sbn, esi)"]) simp_all
  qed
  ultimately have "io_content io = f" by (intro rio.agrees_all) auto
  with r(1,2) show ?thesis by blast
qed

text \<open>All source symbols of the file, block after block.\<close>

definition all_symbols :: "nanorq_params \<Rightarrow> bytes \<Rightarrow> (nat \<times> nat \<times> bytes) list" where
  "all_symbols p f = concat (map (\<lambda>sbn. map (\<lambda>esi. (sbn, esi, file_symbol p f sbn esi))
     [0..<nanorq_block_symbols p sbn]) [0..<nanorq_blocks p])"

lemma all_symbols_set:
  "(sbn, esi, d) \<in> set (all_symbols p f) \<longleftrightarrow>
     sbn < nanorq_blocks p \<and> esi < nanorq_block_symbols p sbn \<and> d = file_symbol p f sbn esi"
  by (force simp: all_symbols_def)

lemma all_symbols_valid:
  assumes "rq_ok p" and "length f = oF (common p)" and "pKprime (rqP p) \<le> m"
  shows "list_all (symbol_valid p m f) (all_symbols p f)"
proof -
  have "symbol_valid p m f (sbn, esi, d)" if "(sbn, esi, d) \<in> set (all_symbols p f)" for sbn esi d
  proof -
    have e: "sbn < nanorq_blocks p" "esi < nanorq_block_symbols p sbn" "d = file_symbol p f sbn esi"
      using that by (auto simp: all_symbols_set)
    then have "length d = oT (common p)" using length_file_symbol [OF assms(1) e(1,2) assms(2)] by simp
    moreover have "esi \<le> m"
      using rq_ok_symbols(2) [OF assms(1), of sbn] assms(3) e(2) by (simp add: nanorq_block_symbols_def)
    ultimately show ?thesis using e by (simp add: symbol_valid_def)
  qed
  then show ?thesis by (auto simp: list_all_iff)
qed

lemma source_symbols_rebuild_file_witness:
  "\<exists>p rs rq io. rq_ok p \<and> oF (common p) = 1000
    \<and> feed_symbols (nanorq_init p 65535) (File \<lparr>f_bytes = [], f_pos = 0, f_writable = True\<rparr>)
        (all_symbols p (replicate 1000 7)) = Inr (rs, rq, io)
    \<and> io_content io = replicate 1000 7"
proof -
  obtain p where p: "rq_ok p" "oF (common p) = 1000" using sample_encoder by metis
  have k: "pKprime (rqP p) \<le> 65535" using rq_ok_symbols(3) [OF p(1)] by (simp add: params_ok_def K_max_def)
  have "\<exists>rs rq io. feed_symbols (nanorq_init p 65535) (File \<lparr>f_bytes = [], f_pos = 0, f_writable = True\<rparr>)
        (all_symbols p (replicate 1000 7)) = Inr (rs, rq, io)
    \<and> NANORQ_SYM_ERR \<notin> set rs \<and> io_content io = replicate 1000 7"
    by (rule source_symbols_rebuild_file [OF p(1) _ _ k all_symbols_valid [OF p(1) _ k]])
      (use p(2) in \<open>auto simp: all_symbols_set nanorq_transfer_length_def\<close>)
  with p show ?thesis by blast
qed

end
