(* ===== verification/Gf256.thy ===== *)
theory Gf256
  imports Oct_Tables Byte_Codec
begin

section \<open>The field the tables are for\<close>

text \<open>
  Arithmetic of the 256-element field modulo x^8 + x^4 + x^3 + x^2 + 1 (285), defined by repeated
  doubling and exclusive or, its ring and field laws, and the proof that every entry of the five
  tables is the product, power, logarithm or inverse it stands for. An octet is a polynomial over
  the two-element field; its sum is XOR.
\<close>

definition xtime :: "u8 \<Rightarrow> u8" where
  "xtime a = (if bit a 7 then push_bit 1 a XOR 0x1d else push_bit 1 a)"

definition sel :: "bool \<Rightarrow> u8 \<Rightarrow> u8" where
  "sel c a = (if c then a else 0)"

text \<open>The product: the sum of \<open>x^i * a\<close> over the bits \<open>i\<close> of \<open>b\<close>.\<close>

definition gf_mul :: "u8 \<Rightarrow> u8 \<Rightarrow> u8" where
  "gf_mul a b =
     sel (bit b 0) a XOR sel (bit b 1) ((xtime ^^ 1) a) XOR sel (bit b 2) ((xtime ^^ 2) a)
     XOR sel (bit b 3) ((xtime ^^ 3) a) XOR sel (bit b 4) ((xtime ^^ 4) a)
     XOR sel (bit b 5) ((xtime ^^ 5) a) XOR sel (bit b 6) ((xtime ^^ 6) a)
     XOR sel (bit b 7) ((xtime ^^ 7) a)"

subsection \<open>Exclusive or\<close>

lemma xor_self_cancel [simp]: "(a :: 'a::len word) XOR (a XOR b) = b"
  by (simp add: xor.assoc [symmetric])

lemma xor_eq_zero_iff: "(a :: 'a::len word) XOR b = 0 \<longleftrightarrow> a = b"
  by (metis xor_self_cancel xor.right_neutral xor_self_eq)

lemma sel_simps [simp]: "sel True a = a" "sel False a = 0" "sel c 0 = 0"
  by (simp_all add: sel_def)

lemma sel_xor: "sel c (a XOR b) = sel c a XOR sel c b"
  by (simp add: sel_def)

lemma sel_neq: "sel (p \<noteq> q) a = sel p a XOR sel q a"
  by (simp add: sel_def)

lemma xtime_0 [simp]: "xtime 0 = 0"
  by (simp add: xtime_def)

lemma xtime_xor: "xtime (a XOR b) = xtime a XOR xtime b"
  by (simp add: xtime_def push_bit_xor bit_xor_iff ac_simps)

lemma xtime_pow_xor: "(xtime ^^ n) (a XOR b) = (xtime ^^ n) a XOR (xtime ^^ n) b"
  by (induction n) (simp_all add: xtime_xor)

lemma xtime_pow_0 [simp]: "(xtime ^^ n) 0 = 0"
  by (induction n) simp_all

lemma xtime_sel: "xtime (sel c a) = sel c (xtime a)"
  by (simp add: sel_def)

lemma xtime_bit:
  "i < 8 \<Longrightarrow> bit (xtime a) i \<longleftrightarrow> ((0 < i \<and> bit a (i - 1)) \<noteq> (bit a 7 \<and> i \<in> {0, 2, 3, 4}))"
proof -
  assume i: "i < 8"
  have c: "bit (0x1d :: u8) i \<longleftrightarrow> i \<in> {0, 2, 3, 4}"
    using i by (auto simp: less_Suc_eq numeral_eq_Suc)
  have p: "bit (push_bit 1 a) i \<longleftrightarrow> 0 < i \<and> bit a (i - 1)"
    by (subst bit_push_bit_iff) (use i in auto)
  show ?thesis
    unfolding xtime_def by (cases "bit a 7") (simp_all only: if_True if_False bit_xor_iff c p, auto)
qed

text \<open>Reduction: \<open>x^8 = x^4 + x^3 + x^2 + 1\<close>.\<close>

lemma bit8_eqI: "(\<And>i. i < 8 \<Longrightarrow> bit a i = bit b i) \<Longrightarrow> a = (b :: u8)"
  by (rule bit_word_eqI) simp

subsection \<open>Induction over the field\<close>

text \<open>Every octet is made from 0 and 1 by doubling and adding.\<close>

lemma octet_split: "a = sel (bit a 0) 1 XOR xtime (drop_bit 1 a)" for a :: u8
proof (rule bit8_eqI)
  fix i :: nat assume i: "i < 8"
  have o: "bit (sel (bit a 0) 1) i \<longleftrightarrow> i = 0 \<and> bit a 0"
    by (simp add: sel_def bit_1_iff)
  have d: "bit (drop_bit 1 a) k \<longleftrightarrow> bit a (Suc k)" for k by (simp add: bit_drop_bit_eq)
  show "bit a i = bit (sel (bit a 0) 1 XOR xtime (drop_bit 1 a)) i"
    unfolding bit_xor_iff xtime_bit [OF i] o d using i bit_imp_le_length [of a 8] by (cases i) auto
qed

lemma octet_induct [case_names zero one double add]:
  fixes a :: u8
  assumes "P 0" and "P 1" and "\<And>a. P a \<Longrightarrow> P (xtime a)" and "\<And>a b. P a \<Longrightarrow> P b \<Longrightarrow> P (a XOR b)"
  shows "P a"
proof -
  have "unat a < 2 ^ n \<Longrightarrow> P a" for n and a :: u8
  proof (induction n arbitrary: a)
    case 0
    then show ?case using assms(1) by (simp add: unat_eq_zero)
  next
    case (Suc n)
    have "unat (drop_bit 1 a) = unat a div 2" by (simp add: drop_bit_eq_div unat_div_distrib)
    then have "unat (drop_bit 1 a) < 2 ^ n" using Suc.prems by simp
    then have "P (xtime (drop_bit 1 a))" using Suc.IH assms(3) by blast
    moreover have "P (sel (bit a 0) 1)" using assms(1,2) by (simp add: sel_def)
    ultimately show ?case using assms(4) octet_split [of a] by metis
  qed
  from this [of a 8] show ?thesis using unsigned_less [of a] by simp
qed

subsection \<open>Ring laws\<close>

lemma gf_mul_0 [simp]: "gf_mul a 0 = 0" "gf_mul 0 a = 0"
  by (simp_all add: gf_mul_def)

lemma gf_mul_1 [simp]: "gf_mul a 1 = a"
  by (simp add: gf_mul_def bit_simps)

lemma gf_mul_xor_right: "gf_mul a (b XOR c) = gf_mul a b XOR gf_mul a c"
  unfolding gf_mul_def bit_xor_iff sel_neq by (simp only: ac_simps)

lemma gf_mul_xor_left: "gf_mul (a XOR b) c = gf_mul a c XOR gf_mul b c"
  unfolding gf_mul_def xtime_pow_xor sel_xor by (simp only: ac_simps)

lemma gf_mul_xtime_left: "gf_mul (xtime a) b = xtime (gf_mul a b)"
  unfolding gf_mul_def xtime_xor xtime_sel by (simp add: funpow_swap1)

text \<open>\<open>x^8 * a\<close> reduces; by linearity it is enough to know it for 1 and its doubles.\<close>

lemma xtime_pow_8: "(xtime ^^ 8) a = a XOR (xtime ^^ 2) a XOR (xtime ^^ 3) a XOR (xtime ^^ 4) a"
proof (induction a rule: octet_induct)
  case one
  show ?case by code_simp
next
  case (double a)
  have "(xtime ^^ 8) (xtime a) = xtime ((xtime ^^ 8) a)" by (simp add: funpow_swap1)
  then show ?case unfolding double.IH by (simp add: xtime_xor funpow_swap1)
next
  case (add a b)
  then show ?case by (simp add: xtime_pow_xor ac_simps)
qed simp

lemma gf_mul_xtime_right: "gf_mul a (xtime b) = xtime (gf_mul a b)"
proof -
  define c where "c = bit b 7"
  have s: "xtime ((xtime ^^ 7) a) = a XOR (xtime ^^ 2) a XOR (xtime ^^ 3) a XOR (xtime ^^ 4) a"
    using xtime_pow_8 [of a] by (simp add: numeral_eq_Suc)
  have f: "sel False x = 0" for x by simp
  have b: "bit (xtime b) 0 = c" "bit (xtime b) 1 = bit b 0" "bit (xtime b) 2 = (bit b 1 \<noteq> c)"
    "bit (xtime b) 3 = (bit b 2 \<noteq> c)" "bit (xtime b) 4 = (bit b 3 \<noteq> c)" "bit (xtime b) 5 = bit b 4"
    "bit (xtime b) 6 = bit b 5" "bit (xtime b) 7 = bit b 6"
    by (simp_all add: xtime_bit c_def)
  have p: "xtime a = (xtime ^^ 1) a" "xtime ((xtime ^^ 1) a) = (xtime ^^ 2) a"
    "xtime ((xtime ^^ 2) a) = (xtime ^^ 3) a" "xtime ((xtime ^^ 3) a) = (xtime ^^ 4) a"
    "xtime ((xtime ^^ 4) a) = (xtime ^^ 5) a" "xtime ((xtime ^^ 5) a) = (xtime ^^ 6) a"
    "xtime ((xtime ^^ 6) a) = (xtime ^^ 7) a"
    by (simp_all add: numeral_eq_Suc)
  show ?thesis
    unfolding gf_mul_def b sel_neq xtime_xor xtime_sel s sel_xor
    unfolding p c_def by (simp only: ac_simps)
qed

lemma gf_mul_commute: "gf_mul a b = gf_mul b a"
proof (induction b rule: octet_induct)
  case one
  show ?case by (induction a rule: octet_induct) (simp_all add: gf_mul_xtime_right gf_mul_xor_right)
qed (simp_all add: gf_mul_xtime_left gf_mul_xtime_right gf_mul_xor_left gf_mul_xor_right)

lemma gf_mul_1_left [simp]: "gf_mul 1 a = a"
  by (simp add: gf_mul_commute [of 1])

lemma gf_mul_assoc: "gf_mul (gf_mul a b) c = gf_mul a (gf_mul b c)"
  by (induction c rule: octet_induct) (simp_all add: gf_mul_xtime_right gf_mul_xor_right)

subsection \<open>The product tables\<close>

text \<open>Row \<open>u\<close> of \<open>OCT_MUL_LO\<close> and of \<open>OCT_MUL_HI\<close>.\<close>

definition sums :: "u8 \<Rightarrow> u8 \<Rightarrow> u8 \<Rightarrow> u8 \<Rightarrow> u8 list" where
  "sums a b c d =
     [0, a, b, b XOR a, c, c XOR a, c XOR b, c XOR (b XOR a), d, d XOR a, d XOR b, d XOR (b XOR a),
      d XOR c, d XOR (c XOR a), d XOR (c XOR b), d XOR (c XOR (b XOR a))]"

definition lo_row :: "u8 \<Rightarrow> u8 list" where
  "lo_row a = sums a (xtime a) (xtime (xtime a)) (xtime (xtime (xtime a)))"

definition hi_row :: "u8 \<Rightarrow> u8 list" where
  "hi_row a = lo_row (xtime (xtime (xtime (xtime a))))"

fun rows_from :: "(u8 \<Rightarrow> 'a) \<Rightarrow> nat \<Rightarrow> 'a list \<Rightarrow> bool" where
  "rows_from f n [] = True"
| "rows_from f n (r # rs) = (r = f (of_nat n) \<and> rows_from f (n + 1) rs)"

lemmas row_eval = lo_row_def hi_row_def xtime_def sums_def

lemma lo_rows_0: "rows_from lo_row 0 (take 64 (drop 0 OCT_MUL_LO))"
  by (simp add: row_eval OCT_MUL_LO_def)

lemma lo_rows_1: "rows_from lo_row 64 (take 64 (drop 64 OCT_MUL_LO))"
  by (simp add: row_eval OCT_MUL_LO_def)

lemma lo_rows_2: "rows_from lo_row 128 (take 64 (drop 128 OCT_MUL_LO))"
  by (simp add: row_eval OCT_MUL_LO_def)

lemma lo_rows_3: "rows_from lo_row 192 (take 64 (drop 192 OCT_MUL_LO))"
  by (simp add: row_eval OCT_MUL_LO_def)

lemma hi_rows_0: "rows_from hi_row 0 (take 64 (drop 0 OCT_MUL_HI))"
  by (simp add: row_eval OCT_MUL_HI_def)

lemma hi_rows_1: "rows_from hi_row 64 (take 64 (drop 64 OCT_MUL_HI))"
  by (simp add: row_eval OCT_MUL_HI_def)

lemma hi_rows_2: "rows_from hi_row 128 (take 64 (drop 128 OCT_MUL_HI))"
  by (simp add: row_eval OCT_MUL_HI_def)

lemma hi_rows_3: "rows_from hi_row 192 (take 64 (drop 192 OCT_MUL_HI))"
  by (simp add: row_eval OCT_MUL_HI_def)

lemma length_mul_tables: "length OCT_MUL_LO = 256" "length OCT_MUL_HI = 256"
  by (simp_all add: OCT_MUL_LO_def OCT_MUL_HI_def)

lemma rows_from_nth: "rows_from f n rs \<Longrightarrow> i < length rs \<Longrightarrow> rs ! i = f (of_nat (n + i))"
proof (induction f n rs arbitrary: i rule: rows_from.induct)
  case (2 f n r rs)
  then show ?case by (cases i) (auto simp: ac_simps)
qed simp

text \<open>A table of 256 rows is right when its four quarters are.\<close>

lemma rows_from_quarters:
  assumes "length tbl = 256" and "rows_from f 0 (take 64 (drop 0 tbl))" and "rows_from f 64 (take 64 (drop 64 tbl))"
    and "rows_from f 128 (take 64 (drop 128 tbl))" and "rows_from f 192 (take 64 (drop 192 tbl))"
  shows "tbl ! unat u = f (u :: u8)"
proof -
  have q: "tbl ! (k + i) = f (of_nat (k + i))" if "rows_from f k (take 64 (drop k tbl))" and "i < 64" and "k \<le> 192" for k i
    using rows_from_nth [OF that(1), of i] that assms(1) by simp
  have u: "tbl ! unat u = f u" if "rows_from f k (take 64 (drop k tbl))" and "k \<le> unat u" and "unat u < k + 64"
    and "k \<le> 192" for k
    using q [of k "unat u - k"] that by simp
  have "unat u < 256" using unsigned_less [of u] by simp
  then consider "unat u < 64" | "64 \<le> unat u" "unat u < 128" | "128 \<le> unat u" "unat u < 192" | "192 \<le> unat u" "unat u < 256"
    by linarith
  then show ?thesis
    using u [of 0] u [of 64] u [of 128] u [of 192] assms(2-5) by cases simp_all
qed

lemma mul_lo_row: "OCT_MUL_LO ! unat u = lo_row u"
  by (rule rows_from_quarters [OF length_mul_tables(1) lo_rows_0 lo_rows_1 lo_rows_2 lo_rows_3])

lemma mul_hi_row: "OCT_MUL_HI ! unat u = hi_row u"
  by (rule rows_from_quarters [OF length_mul_tables(2) hi_rows_0 hi_rows_1 hi_rows_2 hi_rows_3])

text \<open>The row has the products with the numbers 0 to 15.\<close>

lemma less_16_cases: "n < 16 \<longleftrightarrow> n \<in> {0, 1, 2, 3, 4, 5, 6, 7, 8, 9, 10, 11, 12, 13, 14, 15 :: nat}"
  by (auto simp: less_Suc_eq numeral_eq_Suc)

lemma lo_row_nth: "n < 16 \<Longrightarrow> lo_row a ! n = gf_mul a (of_nat n)"
  unfolding less_16_cases by (auto simp: lo_row_def sums_def gf_mul_def numeral_eq_Suc ac_simps)

lemma xtime_small: "n < 128 \<Longrightarrow> xtime (of_nat n) = of_nat (2 * n)"
proof -
  assume n: "n < 128"
  then have "\<not> bit (of_nat n :: u8) 7"
    by (simp add: bit_of_nat_iff bit_nat_def)
  then show ?thesis by (simp add: xtime_def)
qed

lemma hi_row_nth: "n < 16 \<Longrightarrow> hi_row a ! n = gf_mul a (of_nat (16 * n))"
  using xtime_small [of n] xtime_small [of "2 * n"] xtime_small [of "4 * n"] xtime_small [of "8 * n"]
  by (simp add: hi_row_def lo_row_nth gf_mul_xtime_left gf_mul_xtime_right [symmetric] mult.assoc [symmetric] del: of_nat_mult)

text \<open>The two look-ups of an octet's halves, as the vector operations do them.\<close>

definition mul_halves :: "u8 \<Rightarrow> u8 \<Rightarrow> u8" where
  "mul_halves u x =
     OCT_MUL_HI ! unat u ! unat (drop_bit 4 (x AND 0xf0)) XOR OCT_MUL_LO ! unat u ! unat (x AND 0x0f)"

lemma of_nat_of_octet: "of_nat (unat u) = (u :: u8)"
  by simp

lemma length_octet: "LENGTH(8) = 8"
  by simp

lemma octet_halves:
  fixes x :: u8
  shows "x AND 0x0f = take_bit 4 x" "drop_bit 4 (x AND 0xf0) = drop_bit 4 x"
    "x = push_bit 4 (drop_bit 4 x) XOR take_bit 4 x"
proof -
  have "(0x0f :: u8) = mask 4" by (simp add: mask_eq_exp_minus_1)
  then show "x AND 0x0f = take_bit 4 x" by (simp add: take_bit_eq_mask)
  have "bit (0xf0 :: u8) i" if "4 \<le> i" "i < 8" for i
    using that by (auto simp: less_Suc_eq numeral_eq_Suc)
  then show "drop_bit 4 (x AND 0xf0) = drop_bit 4 x"
    using bit_imp_le_length [of x] by (intro bit_word_eqI) (fastforce simp only: bit_drop_bit_eq comp_def bit_and_iff length_octet)
  show "x = push_bit 4 (drop_bit 4 x) XOR take_bit 4 x"
    by (rule bit_word_eqI) (auto simp: bit_simps)
qed

lemma mul_halves_gf_mul: "mul_halves u x = gf_mul u x"
proof -
  have l: "unat (take_bit 4 x) < 16" by (simp add: unat_take_bit)
  have "unat x < 256" using unsigned_less [of x] by simp
  then have h: "unat (drop_bit 4 x) < 16" by (simp add: unat_drop_bit)
  have "of_nat (16 * unat (drop_bit 4 x)) = push_bit 4 (drop_bit 4 x)"
    by (simp add: push_bit_eq_mult ac_simps)
  then show ?thesis
    unfolding mul_halves_def octet_halves(1,2) mul_lo_row mul_hi_row lo_row_nth [OF l] hi_row_nth [OF h]
    by (simp only: of_nat_of_octet gf_mul_xor_right [symmetric] octet_halves(3) [symmetric])
qed

subsection \<open>Powers, logarithms and inverses\<close>

fun doubling :: "u8 list \<Rightarrow> bool" where
  "doubling (a # b # xs) \<longleftrightarrow> b = xtime a \<and> doubling (b # xs)"
| "doubling xs \<longleftrightarrow> True"

text \<open>Congruences that keep the simplifier out of the rest of a table while it checks an entry.\<close>

lemma doubling_cong: "doubling xs = doubling xs" ..

lemma exp_doubling: "doubling OCT_EXP"
  unfolding OCT_EXP_def by (simp add: xtime_def cong: doubling_cong)

lemma doubling_nth: "doubling (a # xs) \<Longrightarrow> i < length (a # xs) \<Longrightarrow> (a # xs) ! i = (xtime ^^ i) a"
proof (induction xs arbitrary: a i)
  case (Cons b xs)
  then show ?case by (cases i) (auto simp: funpow_swap1)
qed simp

lemma exp_shape: "OCT_EXP = 1 # tl OCT_EXP" "length OCT_EXP = 510"
  unfolding OCT_EXP_def by simp_all

lemma exp_nth: "i < 510 \<Longrightarrow> OCT_EXP ! i = (xtime ^^ i) 1"
  using doubling_nth [of 1 "tl OCT_EXP" i] exp_doubling exp_shape by simp

fun exp_inverts :: "nat \<Rightarrow> u8 list \<Rightarrow> bool" where
  "exp_inverts n [] \<longleftrightarrow> True"
| "exp_inverts n (l # ls) \<longleftrightarrow> unat l < 255 \<and> OCT_EXP ! unat l = of_nat n \<and> exp_inverts (n + 1) ls"

lemma exp_inverts_cong: "n = m \<Longrightarrow> exp_inverts n ls = exp_inverts m ls"
  by simp

lemma exp_log_table: "exp_inverts 1 (tl OCT_LOG)"
  unfolding OCT_LOG_def list.sel by (simp add: OCT_EXP_def cong: exp_inverts_cong)

fun inv_from :: "nat \<Rightarrow> u8 list \<Rightarrow> bool" where
  "inv_from n [] \<longleftrightarrow> True"
| "inv_from n (v # vs) \<longleftrightarrow> gf_mul (of_nat n) v = 1 \<and> inv_from (n + 1) vs"

definition weigh :: "u8 \<Rightarrow> u8 \<Rightarrow> u8 \<Rightarrow> u8 \<Rightarrow> u8 \<Rightarrow> u8 \<Rightarrow> u8 \<Rightarrow> u8 \<Rightarrow> u8 \<Rightarrow> u8" where
  "weigh b a0 a1 a2 a3 a4 a5 a6 a7 =
     sel (bit b 0) a0 XOR sel (bit b 1) a1 XOR sel (bit b 2) a2 XOR sel (bit b 3) a3
     XOR sel (bit b 4) a4 XOR sel (bit b 5) a5 XOR sel (bit b 6) a6 XOR sel (bit b 7) a7"

definition double_weigh :: "u8 \<Rightarrow> u8 \<Rightarrow> u8 \<Rightarrow> u8 \<Rightarrow> u8 \<Rightarrow> u8" where
  "double_weigh b a0 a1 a2 a3 =
     weigh b a0 a1 a2 a3 (xtime a3) (xtime (xtime a3)) (xtime (xtime (xtime a3))) (xtime (xtime (xtime (xtime a3))))"

lemma gf_mul_eval: "gf_mul a b = double_weigh b a (xtime a) (xtime (xtime a)) (xtime (xtime (xtime a)))"
  by (simp add: gf_mul_def double_weigh_def weigh_def numeral_eq_Suc)

lemma inv_from_cong: "n = m \<Longrightarrow> inv_from n vs = inv_from m vs"
  by simp

lemma inv_table: "inv_from 1 (tl OCT_INV)"
  unfolding OCT_INV_def list.sel
  by (simp add: gf_mul_eval double_weigh_def weigh_def xtime_def cong: inv_from_cong)

lemma length_oct_tables: "length OCT_LOG = 256" "length OCT_INV = 256"
  unfolding OCT_LOG_def OCT_INV_def by simp_all

lemma nth_Suc_tl: "i < length xs - 1 \<Longrightarrow> xs ! Suc i = tl xs ! i"
  by (cases xs) simp_all

lemma exp_inverts_nth: "exp_inverts n ls \<Longrightarrow> i < length ls \<Longrightarrow> unat (ls ! i) < 255 \<and> OCT_EXP ! unat (ls ! i) = of_nat (n + i)"
proof (induction n ls arbitrary: i rule: exp_inverts.induct)
  case (2 n l ls)
  then show ?case by (cases i) (auto simp: ac_simps)
qed simp

lemma octet_pos_cases: "u \<noteq> 0 \<Longrightarrow> \<exists>i < 255. unat (u :: u8) = Suc i"
proof -
  assume "u \<noteq> 0"
  then have "0 < unat u" by (simp add: unat_gt_0)
  moreover have "unat u < 256" using unsigned_less [of u] by simp
  ultimately show ?thesis by (intro exI [of _ "unat u - 1"]) auto
qed

lemma oct_log: "u \<noteq> 0 \<Longrightarrow> unat (OCT_LOG ! unat u) < 255 \<and> (xtime ^^ unat (OCT_LOG ! unat u)) 1 = u"
proof -
  assume "u \<noteq> 0"
  then obtain i where i: "i < 255" "unat u = Suc i" using octet_pos_cases by blast
  have "OCT_LOG ! unat u = tl OCT_LOG ! i" "length (tl OCT_LOG) = 255"
    using i nth_Suc_tl [of i OCT_LOG] by (simp_all add: length_oct_tables)
  then have l: "unat (OCT_LOG ! unat u) < 255" "OCT_EXP ! unat (OCT_LOG ! unat u) = of_nat (1 + i)"
    using exp_inverts_nth [OF exp_log_table, of i] i(1) by simp_all
  have "of_nat (1 + i) = u" using i(2) of_nat_of_octet [of u] by simp
  with l show ?thesis using exp_nth [of "unat (OCT_LOG ! unat u)"] by simp
qed

lemma xtime_pow_mul: "(xtime ^^ n) a = gf_mul a ((xtime ^^ n) 1)"
  by (induction n) (simp_all add: gf_mul_xtime_right)

lemma xtime_pow_255: "(xtime ^^ 255) 1 = 1"
proof -
  have "OCT_EXP ! 255 = 1" unfolding OCT_EXP_def by simp
  moreover have "OCT_EXP ! 255 = (xtime ^^ 255) 1" by (rule exp_nth) simp
  ultimately show ?thesis by (rule trans [OF sym, rotated])
qed

text \<open>\<open>OCTET_MUL\<close> of oblas.h: the product through the logarithms.\<close>

definition OCTET_MUL :: "u8 \<Rightarrow> u8 \<Rightarrow> u8" where
  "OCTET_MUL u v = OCT_EXP ! (unat (OCT_LOG ! unat u) + unat (OCT_LOG ! unat v))"

definition OCTET_DIV :: "u8 \<Rightarrow> u8 \<Rightarrow> u8" where
  "OCTET_DIV u v = OCT_EXP ! (unat (OCT_LOG ! unat u) + 255 - unat (OCT_LOG ! unat v))"

lemma octet_mul: "u \<noteq> 0 \<Longrightarrow> v \<noteq> 0 \<Longrightarrow> OCTET_MUL u v = gf_mul u v"
  using oct_log [of u] oct_log [of v] exp_nth [of "unat (OCT_LOG ! unat u) + unat (OCT_LOG ! unat v)"]
    xtime_pow_mul [of "unat (OCT_LOG ! unat u)" v] gf_mul_commute [of u v] by (simp add: OCTET_MUL_def funpow_add)

lemma inv_from_nth: "inv_from n vs \<Longrightarrow> i < length vs \<Longrightarrow> gf_mul (of_nat (n + i)) (vs ! i) = 1"
proof (induction n vs arbitrary: i rule: inv_from.induct)
  case (2 n v vs)
  then show ?case by (cases i) (auto simp: ac_simps)
qed simp

lemma oct_inv: "u \<noteq> 0 \<Longrightarrow> gf_mul u (OCT_INV ! unat u) = 1"
proof -
  assume "u \<noteq> 0"
  then obtain i where i: "i < 255" "unat u = Suc i" using octet_pos_cases by blast
  have "OCT_INV ! unat u = tl OCT_INV ! i" "length (tl OCT_INV) = 255"
    using i nth_Suc_tl [of i OCT_INV] by (simp_all add: length_oct_tables)
  moreover have "of_nat (1 + i) = u" using i(2) of_nat_of_octet [of u] by simp
  ultimately show ?thesis using inv_from_nth [OF inv_table, of i] i(1) by simp
qed

lemma gf_mul_cancel: "u \<noteq> 0 \<Longrightarrow> gf_mul (gf_mul b u) (OCT_INV ! unat u) = b"
  using oct_inv [of u] by (simp add: gf_mul_assoc)

lemma gf_mul_eq_0_iff: "gf_mul a b = 0 \<longleftrightarrow> a = 0 \<or> b = 0"
  using gf_mul_cancel [of b a] by (cases "b = 0") auto

lemma octet_div: "u \<noteq> 0 \<Longrightarrow> v \<noteq> 0 \<Longrightarrow> gf_mul (OCTET_DIV u v) v = u"
proof -
  assume uv: "u \<noteq> 0" "v \<noteq> 0"
  let ?l = "unat (OCT_LOG ! unat u)" and ?k = "unat (OCT_LOG ! unat v)"
  have l: "?l < 255" "(xtime ^^ ?l) 1 = u" "?k < 255" "(xtime ^^ ?k) 1 = v" using oct_log uv by blast+
  have "gf_mul (OCTET_DIV u v) v = (xtime ^^ ?k) ((xtime ^^ (?l + 255 - ?k)) 1)"
    using l exp_nth [of "?l + 255 - ?k"] xtime_pow_mul [of ?k "OCTET_DIV u v"] by (simp add: OCTET_DIV_def)
  also have "\<dots> = (xtime ^^ (?k + (?l + 255 - ?k))) 1" by (simp only: funpow_add comp_def)
  also have "?k + (?l + 255 - ?k) = ?l + 255" using l(3) by simp
  also have "(xtime ^^ (?l + 255)) 1 = (xtime ^^ ?l) ((xtime ^^ 255) 1)" by (simp only: funpow_add comp_def)
  finally show ?thesis unfolding xtime_pow_255 l(2) .
qed

subsection \<open>The tables are right\<close>

text \<open>C33: Every entry of the tables is right: the two half-octet look-ups give the product in the field modulo
  285 for all 65536 pairs, the logarithm and power tables give product and quotient of non-zero octets,
  and the inverse table gives inverses. With \<open>gf_mul\<close> commutative, associative, distributive over XOR
  and with unit 1, the octets are a field under the operations of the code.\<close>

theorem oct_tables_correct:
  "mul_halves u v = gf_mul u v
   \<and> (if u = 0 \<or> v = 0 then True else OCTET_MUL u v = gf_mul u v \<and> gf_mul (OCTET_DIV u v) v = u)
   \<and> (if u = 0 then True else gf_mul u (OCT_INV ! unat u) = 1)
   \<and> gf_mul u v = gf_mul v u \<and> gf_mul (gf_mul u v) w = gf_mul u (gf_mul v w)
   \<and> gf_mul u (v XOR w) = gf_mul u v XOR gf_mul u w \<and> gf_mul u 1 = u"
  by (auto simp: mul_halves_gf_mul octet_mul octet_div oct_inv gf_mul_assoc gf_mul_xor_right intro: gf_mul_commute)

end
