(* ===== verification/Octmat.thy ===== *)
theory Octmat
  imports Gf256
begin

section \<open>Octet matrices and their row operations (octmat.h, octmat.c, oblas_classic.c)\<close>

text \<open>
  A matrix is its dimensions and the list of its rows: \<open>om_R (v, x)\<close> is row \<open>x\<close>, \<open>om_A (v, x, y)\<close> octet
  \<open>y\<close> of it. The padding of a row to a multiple of \<open>OCTMAT_ALIGN\<close> is never read and is left out. The
  row operations take, as in the code, the rows of a matrix (\<open>om_P\<close>), row numbers and the number \<open>k\<close>
  of columns; each is characterised entry by entry with the field operations of Gf256.
\<close>

type_synonym rows = "bytes list"

record octmat =
  om_rows :: nat
  om_cols :: nat
  om_data :: rows

definition om_resize :: "nat \<Rightarrow> nat \<Rightarrow> octmat" where
  "om_resize r c = \<lparr>om_rows = r, om_cols = c, om_data = replicate r (replicate c 0)\<rparr>"

definition om_copy :: "octmat \<Rightarrow> octmat" where
  "om_copy v0 = \<lparr>om_rows = om_rows v0, om_cols = om_cols v0, om_data = take (om_rows v0) (om_data v0)\<rparr>"

definition om_destroy :: "octmat \<Rightarrow> octmat" where
  "om_destroy v = \<lparr>om_rows = 0, om_cols = 0, om_data = []\<rparr>"

definition om_A :: "octmat \<Rightarrow> nat \<Rightarrow> nat \<Rightarrow> u8" where
  "om_A v x y = om_data v ! x ! y"

definition om_set :: "octmat \<Rightarrow> nat \<Rightarrow> nat \<Rightarrow> u8 \<Rightarrow> octmat" where
  "om_set v x y b = v\<lparr>om_data := (om_data v)[x := (om_data v ! x)[y := b]]\<rparr>"

subsection \<open>Row operations\<close>

text \<open>The loops over \<open>idx < k\<close>: new values for the first \<open>k\<close> entries of a row, the others kept.\<close>

definition over_cols :: "nat \<Rightarrow> (nat \<Rightarrow> u8) \<Rightarrow> bytes \<Rightarrow> bytes" where
  "over_cols k f row = map f [0..<k] @ drop k row"

definition ocopy :: "rows \<Rightarrow> rows \<Rightarrow> nat \<Rightarrow> nat \<Rightarrow> nat \<Rightarrow> rows" where
  "ocopy a b i j k = a[i := over_cols k (\<lambda>idx. b ! j ! idx) (a ! i)]"

definition oswaprow :: "rows \<Rightarrow> nat \<Rightarrow> nat \<Rightarrow> nat \<Rightarrow> rows" where
  "oswaprow a i j k =
     (if i = j then a
      else a[i := over_cols k (\<lambda>idx. a ! j ! idx) (a ! i), j := over_cols k (\<lambda>idx. a ! i ! idx) (a ! j)])"

definition oswapcol :: "rows \<Rightarrow> nat \<Rightarrow> nat \<Rightarrow> nat \<Rightarrow> rows" where
  "oswapcol a i j k =
     (if i = j then a
      else map (\<lambda>row. row[i := row ! j, j := row ! i]) (take k a) @ drop k a)"

definition oaddrow :: "rows \<Rightarrow> rows \<Rightarrow> nat \<Rightarrow> nat \<Rightarrow> nat \<Rightarrow> rows" where
  "oaddrow a b i j k = a[i := over_cols k (\<lambda>idx. a ! i ! idx XOR b ! j ! idx) (a ! i)]"

definition oaxpy :: "rows \<Rightarrow> rows \<Rightarrow> nat \<Rightarrow> nat \<Rightarrow> nat \<Rightarrow> u8 \<Rightarrow> rows" where
  "oaxpy a b i j k u =
     (if u = 0 then a
      else if u = 1 then oaddrow a b i j k
      else a[i := over_cols k (\<lambda>idx. a ! i ! idx XOR mul_halves u (b ! j ! idx)) (a ! i)])"

definition oscal :: "rows \<Rightarrow> nat \<Rightarrow> nat \<Rightarrow> u8 \<Rightarrow> rows" where
  "oscal a i k u =
     (if u < 2 then a else a[i := over_cols k (\<lambda>idx. mul_halves u (a ! i ! idx)) (a ! i)])"

definition ozero :: "rows \<Rightarrow> nat \<Rightarrow> nat \<Rightarrow> rows" where
  "ozero a i k = a[i := over_cols k (\<lambda>idx. 0) (a ! i)]"

text \<open>\<open>c = a * b\<close> for \<open>n\<close> rows of \<open>a\<close> with \<open>k\<close> columns each and rows of \<open>m\<close> columns in \<open>b\<close> and \<open>c\<close>.\<close>

definition ogemm :: "rows \<Rightarrow> rows \<Rightarrow> rows \<Rightarrow> nat \<Rightarrow> nat \<Rightarrow> nat \<Rightarrow> rows" where
  "ogemm a b c n k m =
     foldl (\<lambda>c row. foldl (\<lambda>c idx. oaxpy c b row idx m (a ! row ! idx)) (ozero c row m) [0..<k]) c [0..<n]"

definition onnz :: "rows \<Rightarrow> nat \<Rightarrow> nat \<Rightarrow> nat \<Rightarrow> nat" where
  "onnz a i s e = length (filter (\<lambda>idx. a ! i ! idx \<noteq> 0) [s..<e])"

subsection \<open>Bits of a word, lowest first\<close>

text \<open>
  The loop \<open>while (tmp > 0) { tz = ctz (tmp); tmp &= tmp - 1; ... }\<close> visits the positions of the set
  bits. \<open>ctz\<close> is the number of trailing zeros of a non-zero word.
\<close>

definition ctz :: "u32 \<Rightarrow> nat" where
  "ctz t = length (takeWhile (\<lambda>i. \<not> bit t i) [0..<32])"

lemma and_pred_less: "t \<noteq> 0 \<Longrightarrow> unat (t AND (t - 1)) < unat (t :: 'a::len word)"
proof -
  assume t: "t \<noteq> 0"
  then have "unat (t - 1) < unat t" by (simp add: unat_minus_one unat_gt_0)
  moreover have "unat (t AND (t - 1)) \<le> unat (t - 1)"
    by (metis and.commute word_and_le1 word_le_nat_alt)
  ultimately show ?thesis by simp
qed

function set_bits :: "u32 \<Rightarrow> nat list" where
  "set_bits t = (if t = 0 then [] else ctz t # set_bits (t AND (t - 1)))"
  by pat_completeness auto
termination by (relation "measure unat") (auto intro: and_pred_less)

declare set_bits.simps [simp del]

text \<open>\<open>tmp & (tmp - 1)\<close> clears the lowest set bit.\<close>

lemma ctz_lowest:
  assumes "t \<noteq> 0"
  shows "ctz t < 32" "bit t (ctz t)" "i < ctz t \<Longrightarrow> \<not> bit t i"
proof -
  let ?xs = "takeWhile (\<lambda>i. \<not> bit t i) [0..<32]"
  have "\<exists>i < 32. bit t i"
    using assms bit_imp_le_length [of t] by (auto simp: bit_eq_iff)
  then have ne: "?xs \<noteq> [0..<32]" by (auto simp: takeWhile_eq_all_conv)
  show lt: "ctz t < 32"
    using ne takeWhile_eq_take [of "\<lambda>i. \<not> bit t i" "[0..<32]"] length_takeWhile_le [of "\<lambda>i. \<not> bit t i" "[0..<32]"]
    by (auto simp: ctz_def le_less)
  then show "bit t (ctz t)"
    using nth_length_takeWhile [of "\<lambda>i. \<not> bit t i" "[0..<32]"] by (simp add: ctz_def)
  show "i < ctz t \<Longrightarrow> \<not> bit t i"
    using lt takeWhile_nth [of i "\<lambda>i. \<not> bit t i" "[0..<32]"] nth_mem [of i ?xs]
    by (auto simp: ctz_def dest: set_takeWhileD)
qed

lemma clear_lowest:
  assumes "t \<noteq> 0"
  shows "t AND (t - 1) = unset_bit (ctz t) t"
proof -
  let ?n = "ctz t" and ?s = "unset_bit (ctz t) t"
  note z = ctz_lowest [OF assms]
  have m: "push_bit ?n 1 AND ?s = 0"
    by (rule bit_word_eqI) (auto simp: bit_simps)
  have "t = ?s OR push_bit ?n 1"
    using z by (intro bit_word_eqI) (auto simp: bit_simps)
  also have "\<dots> = ?s + push_bit ?n 1"
    using m by (simp add: disjunctive_add_eq_or and.commute)
  finally have "t - 1 = ?s + mask ?n"
    by (metis add_diff_eq mask_eq_exp_minus_1 push_bit_of_1)
  also have "\<dots> = ?s OR mask ?n"
    using z by (intro disjunctive_add_eq_or bit_word_eqI) (auto simp: bit_simps)
  finally have "t - 1 = ?s OR mask ?n" .
  then show ?thesis
    using z by (intro bit_word_eqI) (auto simp: bit_simps)
qed

lemma set_bits_eq: "set_bits t = filter (bit t) [0..<32]"
proof (induction t rule: set_bits.induct)
  case (1 t)
  show ?case
  proof (cases "t = 0")
    case False
    note z = ctz_lowest [OF False]
    have split: "[0..<32] = [0..<ctz t] @ ctz t # [Suc (ctz t)..<32]"
      using z(1) upt_add_eq_append [of 0 "ctz t" "32 - ctz t"] by (simp add: upt_conv_Cons)
    have "set_bits t = ctz t # filter (bit (unset_bit (ctz t) t)) [0..<32]"
      using 1 False clear_lowest [OF False] by (simp add: set_bits.simps [of t])
    also have "filter (bit (unset_bit (ctz t) t)) [0..<32] = filter (bit t) [Suc (ctz t)..<32]"
      unfolding split filter_append using z by (auto simp: bit_simps filter_empty_conv intro!: filter_cong)
    also have "ctz t # \<dots> = filter (bit t) [0..<32]"
      unfolding split filter_append using z by (auto simp: filter_empty_conv)
    finally show ?thesis .
  qed (simp add: set_bits.simps)
qed

text \<open>\<open>oaxpy_b32\<close>: octet \<open>u\<close> is added where the bit row \<open>b\<close> (32 columns to a word) has a one.\<close>

definition oaxpy_b32 :: "rows \<Rightarrow> u32 list \<Rightarrow> nat \<Rightarrow> nat \<Rightarrow> u8 \<Rightarrow> rows" where
  "oaxpy_b32 a b i k u =
     (let n = k div 32 + (if k mod 32 = 0 then 0 else 1);
          cols = concat (map (\<lambda>p. map (\<lambda>tz. tz + 32 * p) (set_bits (b ! p))) [0..<n])
      in a[i := foldl (\<lambda>row c. row[c := row ! c XOR u]) (a ! i) cols])"

subsection \<open>What the operations do, entry by entry\<close>

definition is_mat :: "nat \<Rightarrow> nat \<Rightarrow> rows \<Rightarrow> bool" where
  "is_mat n k a \<longleftrightarrow> length a = n \<and> (\<forall>r < n. length (a ! r) = k)"

lemma is_matD: "is_mat n k a \<Longrightarrow> length a = n" "is_mat n k a \<Longrightarrow> r < n \<Longrightarrow> length (a ! r) = k"
  by (simp_all add: is_mat_def)

lemma length_over_cols [simp]: "k \<le> length row \<Longrightarrow> length (over_cols k f row) = length row"
  by (simp add: over_cols_def)

lemma nth_over_cols [simp]:
  "k \<le> length row \<Longrightarrow> c < length row \<Longrightarrow> over_cols k f row ! c = (if c < k then f c else row ! c)"
  by (auto simp: over_cols_def nth_append)

lemma is_mat_upd: "is_mat n k a \<Longrightarrow> (i < n \<Longrightarrow> length row = k) \<Longrightarrow> is_mat n k (a[i := row])"
  by (simp add: is_mat_def) (metis nth_list_update_eq nth_list_update_neq)

lemma is_mat_ops:
  assumes "is_mat n k a"
  shows "is_mat n k (oaddrow a b i j k)" "is_mat n k (oaxpy a b i j k u)" "is_mat n k (oscal a i k u)"
    "is_mat n k (ozero a i k)" "is_mat n k (oswaprow a i j k)" "is_mat n k (ocopy a b i j k)"
proof -
  have l: "length (over_cols k f (a ! i)) = k" if "i < n" for i f using assms that by (simp add: is_matD)
  note up = is_mat_upd [OF assms l]
  show "is_mat n k (oaddrow a b i j k)" "is_mat n k (ozero a i k)" "is_mat n k (ocopy a b i j k)"
    by (simp_all add: oaddrow_def ozero_def ocopy_def up)
  then show "is_mat n k (oaxpy a b i j k u)" "is_mat n k (oscal a i k u)"
    using assms by (simp_all add: oaxpy_def oscal_def oaddrow_def up)
  show "is_mat n k (oswaprow a i j k)"
    using assms by (auto simp: oswaprow_def intro!: is_mat_upd up l)
qed

lemma oaxpy_nth:
  assumes "is_mat n k a" and "i < n" and "r < n" and "c < k"
  shows "oaxpy a b i j k u ! r ! c = (if r = i then a ! i ! c XOR gf_mul u (b ! j ! c) else a ! r ! c)"
  using assms is_matD(2) [OF assms(1), of i]
  by (auto simp: oaxpy_def oaddrow_def mul_halves_gf_mul is_matD nth_list_update)

lemma oscal_nth:
  assumes "is_mat n k a" and "i < n" and "r < n" and "c < k" and "u \<noteq> 0"
  shows "oscal a i k u ! r ! c = (if r = i then gf_mul u (a ! i ! c) else a ! r ! c)"
proof -
  have "u < 2 \<Longrightarrow> u = 1"
    using assms(5) by (auto simp: word_less_nat_alt word_unat_eq_iff)
  then show ?thesis
    using assms is_matD(2) [OF assms(1), of i]
    by (auto simp: oscal_def mul_halves_gf_mul is_matD nth_list_update)
qed

lemma oswaprow_nth:
  assumes "is_mat n k a" and "i < n" and "j < n" and "r < n"
  shows "oswaprow a i j k ! r = (if r = i then a ! j else if r = j then a ! i else a ! r)"
proof -
  have f: "over_cols k (\<lambda>idx. a ! x ! idx) (a ! y) = a ! x" if "x < n" "y < n" for x y
    using assms(1) that by (intro nth_equalityI) (simp_all add: is_matD)
  show ?thesis
    using assms by (auto simp: oswaprow_def f is_matD nth_list_update)
qed

text \<open>Products of matrices.\<close>

fun xsum :: "(nat \<Rightarrow> u8) \<Rightarrow> nat \<Rightarrow> u8" where
  "xsum f 0 = 0"
| "xsum f (Suc n) = xsum f n XOR f n"

lemma xsum_cong: "(\<And>i. i < n \<Longrightarrow> f i = g i) \<Longrightarrow> xsum f n = xsum g n"
  by (induction n) auto

lemma gemm_row:
  assumes "is_mat n m c" and "r < n" and "is_mat k m b"
  shows "is_mat n m (foldl (\<lambda>c idx. oaxpy c b r idx m (v idx)) c [0..<p]) \<and>
    (\<forall>q < n. \<forall>x < m. foldl (\<lambda>c idx. oaxpy c b r idx m (v idx)) c [0..<p] ! q ! x
       = (if q = r then c ! r ! x XOR xsum (\<lambda>i. gf_mul (v i) (b ! i ! x)) p else c ! q ! x))"
proof (induction p)
  case 0
  then show ?case using assms by simp
next
  case (Suc p)
  then show ?case using assms by (auto simp: is_mat_ops oaxpy_nth xor.assoc)
qed

lemma ogemm_rows:
  assumes "is_mat n m c" and "is_mat k m b" and "p \<le> n"
  shows "is_mat n m (ogemm a b c p k m) \<and>
    (\<forall>r < n. \<forall>x < m. ogemm a b c p k m ! r ! x
       = (if r < p then xsum (\<lambda>i. gf_mul (a ! r ! i) (b ! i ! x)) k else c ! r ! x))"
  using assms(3)
proof (induction p)
  case 0
  then show ?case using assms by (simp add: ogemm_def)
next
  case (Suc p)
  let ?c = "ozero (ogemm a b c p k m) p m"
  have c: "is_mat n m (ogemm a b c p k m)" using Suc by simp
  then have z: "is_mat n m ?c" by (rule is_mat_ops)
  have e: "?c ! q ! x = (if q = p then 0 else ogemm a b c p k m ! q ! x)" if "q < n" "x < m" for q x
    using c that Suc.prems by (auto simp: ozero_def is_matD nth_list_update)
  have s: "ogemm a b c (Suc p) k m = foldl (\<lambda>c idx. oaxpy c b p idx m (a ! p ! idx)) ?c [0..<k]"
    by (simp add: ogemm_def)
  have "p < n" using Suc.prems by simp
  from gemm_row [OF z this assms(2), of "\<lambda>idx. a ! p ! idx" k] Suc e show ?case
    unfolding s by (auto simp: less_Suc_eq)
qed

text \<open>Column \<open>c\<close> of a bit row.\<close>

definition bit_at :: "u32 list \<Rightarrow> nat \<Rightarrow> bool" where
  "bit_at b c = bit (b ! (c div 32)) (c mod 32)"

lemma set_bits_columns:
  "concat (map (\<lambda>p. map (\<lambda>tz. tz + 32 * p) (set_bits (b ! p))) [0..<n]) = filter (bit_at b) [0..<32 * n]"
proof (induction n)
  case (Suc n)
  have "map (\<lambda>tz. tz + 32 * n) (filter (bit (b ! n)) [0..<32]) = filter (bit_at b) (map (\<lambda>tz. tz + 32 * n) [0..<32])"
    unfolding filter_map by (rule arg_cong [of _ _ "map _"], rule filter_cong) (simp_all add: bit_at_def)
  also have "map (\<lambda>tz. tz + 32 * n) [0..<32] = [32 * n..<32 * n + 32]"
    by (simp add: map_add_upt add.commute)
  finally have "map (\<lambda>tz. tz + 32 * n) (set_bits (b ! n)) = filter (bit_at b) [32 * n..<32 * n + 32]"
    by (simp add: set_bits_eq)
  then show ?case
    using Suc upt_add_eq_append [of 0 "32 * n" 32] by (simp add: add.commute)
qed simp

lemma foldl_upd:
  "distinct cs \<Longrightarrow> length (foldl (\<lambda>row c. row[c := f c (row ! c)]) row cs) = length row
    \<and> (\<forall>x < length row. foldl (\<lambda>row c. row[c := f c (row ! c)]) row cs ! x = (if x \<in> set cs then f x (row ! x) else row ! x))"
proof (induction cs rule: rev_induct)
  case (snoc c cs)
  have "row'[c := v] ! x = (if x = c then v else row' ! x)" if "x < length row'" for row' :: "'a list" and v x
    using that by simp
  with snoc show ?case by simp
qed simp

lemma oaxpy_b32_nth:
  assumes "is_mat n k a" and "i < n" and "r < n" and "c < k"
  shows "oaxpy_b32 a b i k u ! r ! c = (if r = i \<and> bit_at b c then a ! r ! c XOR u else a ! r ! c)"
proof -
  let ?n = "k div 32 + (if k mod 32 = 0 then 0 else 1)"
  have "c < 32 * ?n"
    using assms(4) mult_div_mod_eq [of 32 k] mod_less_divisor [of 32 k] by (auto split: if_splits)
  then show ?thesis
    using assms foldl_upd [of "filter (bit_at b) [0..<32 * ?n]" "\<lambda>c x. x XOR u" "a ! i"]
    unfolding oaxpy_b32_def Let_def set_bits_columns
    by (auto simp: is_matD nth_list_update)
qed

lemma is_mat_oaxpy_b32: "is_mat n k a \<Longrightarrow> is_mat n k (oaxpy_b32 a b i k u)"
proof -
  assume a: "is_mat n k a"
  let ?n = "k div 32 + (if k mod 32 = 0 then 0 else 1)"
  have "length (foldl (\<lambda>row c. row[c := row ! c XOR u]) (a ! i) (filter (bit_at b) [0..<32 * ?n])) = length (a ! i)"
    using foldl_upd [of "filter (bit_at b) [0..<32 * ?n]" "\<lambda>c x. x XOR u" "a ! i"] by simp
  then show ?thesis
    unfolding oaxpy_b32_def Let_def set_bits_columns by (intro is_mat_upd [OF a]) (use a in \<open>simp add: is_matD\<close>)
qed

subsection \<open>The row operations are linear algebra\<close>



end
