(* ===== verification/Gf2.thy ===== *)
theory Gf2
  imports Octmat
begin

section \<open>Bit matrices (gf2.h, gf2.c)\<close>

text \<open>
  A matrix over the two-element field, 32 columns to a word: \<open>gf2row\<close> \<open>i\<close> is the \<open>i\<close>-th list of
  \<open>stride\<close> words. Row and column numbers are non-negative, as at every call.
\<close>

record gf2mat =
  g_rows :: nat
  g_cols :: nat
  g_stride :: nat
  g_bits :: "u32 list list"

definition gf2mat_new :: "nat \<Rightarrow> nat \<Rightarrow> gf2mat" where
  "gf2mat_new r c =
     (let s = c div 32 + (if c mod 32 \<noteq> 0 then 1 else 0)
      in \<lparr>g_rows = r, g_cols = c, g_stride = s, g_bits = replicate r (replicate s 0)\<rparr>)"

text \<open>\<open>memcpy\<close> copies \<open>stride * cols\<close> words into fresh memory, whose contents are \<open>fresh\<close>.\<close>

definition gf2mat_copy :: "gf2mat \<Rightarrow> u32 list list \<Rightarrow> gf2mat result" where
  "gf2mat_copy g fresh =
     (if g_rows g < g_cols g \<and> 0 < g_stride g then Inl Out_Of_Bounds
      else Inr (g\<lparr>g_bits := take (g_cols g) (g_bits g) @ drop (g_cols g) fresh\<rparr>))"

definition gf2mat_get :: "gf2mat \<Rightarrow> nat \<Rightarrow> nat \<Rightarrow> nat" where
  "gf2mat_get g i j =
     (if g_rows g \<le> i \<or> g_cols g \<le> j then 0
      else if (g_bits g ! i ! (j div 32)) AND push_bit (j mod 32) 1 \<noteq> 0 then 1 else 0)"

definition gf2mat_set :: "gf2mat \<Rightarrow> nat \<Rightarrow> nat \<Rightarrow> u8 \<Rightarrow> gf2mat" where
  "gf2mat_set g i j b =
     (if g_rows g \<le> i \<or> g_cols g \<le> j then g
      else let row = g_bits g ! i; q = j div 32; mask = push_bit (j mod 32) 1
           in g\<lparr>g_bits := (g_bits g)[i := row[q := (if b \<noteq> 0 then row ! q OR mask else row ! q AND NOT mask)]]\<rparr>)"

text \<open>\<open>a\<close> and \<open>b\<close> may be the same matrix; the loops run over the words of the row.\<close>

definition gf2mat_xor :: "gf2mat \<Rightarrow> gf2mat \<Rightarrow> nat \<Rightarrow> nat \<Rightarrow> gf2mat" where
  "gf2mat_xor a b i j =
     a\<lparr>g_bits := (g_bits a)[i := map (\<lambda>x. g_bits a ! i ! x XOR g_bits b ! j ! x) [0..<g_stride a]]\<rparr>"

definition gf2mat_and :: "gf2mat \<Rightarrow> gf2mat \<Rightarrow> nat \<Rightarrow> nat \<Rightarrow> gf2mat" where
  "gf2mat_and a b i j =
     a\<lparr>g_bits := (g_bits a)[i := map (\<lambda>x. g_bits a ! i ! x AND g_bits b ! j ! x) [0..<g_stride a]]\<rparr>"

text \<open>The word at \<open>a[p]\<close> from row \<open>i\<close>: a \<open>p\<close> past the stride is in the next row, if there is one.\<close>

definition gf2_word :: "gf2mat \<Rightarrow> nat \<Rightarrow> nat \<Rightarrow> u32 result" where
  "gf2_word g i p =
     (let r = i + p div g_stride g
      in if g_stride g = 0 \<or> g_rows g \<le> r then Inl Out_Of_Bounds else Inr (g_bits g ! r ! (p mod g_stride g)))"

fun count_words :: "gf2mat \<Rightarrow> nat \<Rightarrow> nat \<Rightarrow> nat \<Rightarrow> nat result" where
  "count_words g i p 0 = Inr 0"
| "count_words g i p (Suc n) =
     (case gf2_word g i p of
        Inl f \<Rightarrow> Inl f
      | Inr w \<Rightarrow> (case count_words g i (p + 1) n of Inl f \<Rightarrow> Inl f | Inr m \<Rightarrow> Inr (length (set_bits w) + m)))"

definition gf2mat_nnz :: "gf2mat \<Rightarrow> nat \<Rightarrow> nat \<Rightarrow> nat \<Rightarrow> nat result" where
  "gf2mat_nnz g i s e =
     (if g_rows g \<le> i \<or> e < s \<or> g_cols g + 1 < e then Inr 0
      else let sq = s div 32; sr = s mod 32; eq = e div 32; er = e mod 32;
               m0 = NOT (push_bit sr 1 - 1 :: u32); m1 = (push_bit er 1 - 1 :: u32)
           in case (if sr \<noteq> 0 then (case gf2_word g i sq of Inl f \<Rightarrow> Inl f | Inr w \<Rightarrow> Inr (length (set_bits (w AND m0)), sq + 1))
                    else Inr (0, sq)) of
                Inl f \<Rightarrow> Inl f
              | Inr (n0, p) \<Rightarrow>
                  (case count_words g i p (eq - p) of
                     Inl f \<Rightarrow> Inl f
                   | Inr n1 \<Rightarrow>
                       if eq < e
                       then (case gf2_word g i (max p eq) of Inl f \<Rightarrow> Inl f | Inr w \<Rightarrow> Inr (n0 + n1 + length (set_bits (w AND m1))))
                       else Inr (n0 + n1)))"

text \<open>\<open>dst\<close> is the row the ones are written to.\<close>

definition gf2mat_fill :: "gf2mat \<Rightarrow> nat \<Rightarrow> bytes \<Rightarrow> bytes" where
  "gf2mat_fill g i dst =
     (let cols = concat (map (\<lambda>p. map (\<lambda>tz. tz + 32 * p) (set_bits (g_bits g ! i ! p))) [0..<g_stride g])
      in foldl (\<lambda>row c. row[c := 1]) dst cols)"

definition gf2mat_swaprow :: "gf2mat \<Rightarrow> nat \<Rightarrow> nat \<Rightarrow> gf2mat" where
  "gf2mat_swaprow g i j =
     (if i = j then g else g\<lparr>g_bits := (g_bits g)[i := g_bits g ! j, j := g_bits g ! i]\<rparr>)"

definition gf2mat_swapcol :: "gf2mat \<Rightarrow> nat \<Rightarrow> nat \<Rightarrow> gf2mat" where
  "gf2mat_swapcol g i j =
     (if i = j then g
      else let p = i div 32; q = j div 32; im = push_bit (i mod 32) 1; jm = push_bit (j mod 32) 1
           in g\<lparr>g_bits := map (\<lambda>a.
                let ibit = a ! p AND im; jbit = a ! q AND jm;
                    a1 = a[p := if ibit \<noteq> 0 then a ! p OR jm else a ! p AND NOT jm]
                in a1[q := if jbit \<noteq> 0 then a1 ! q OR im else a1 ! q AND NOT im]) (g_bits g)\<rparr>)"

subsection \<open>Entries\<close>

text \<open>The invariant: the words are there, and columns past the last are zero.\<close>

definition gf2_ok :: "nat \<Rightarrow> nat \<Rightarrow> gf2mat \<Rightarrow> bool" where
  "gf2_ok n k g \<longleftrightarrow> g_rows g = n \<and> g_cols g = k \<and> g_stride g = k div 32 + (if k mod 32 \<noteq> 0 then 1 else 0)
     \<and> length (g_bits g) = n \<and> (\<forall>i < n. length (g_bits g ! i) = g_stride g)
     \<and> (\<forall>i < n. \<forall>c. k \<le> c \<and> c < 32 * g_stride g \<longrightarrow> \<not> bit_at (g_bits g ! i) c)"

abbreviation gf2_bit :: "gf2mat \<Rightarrow> nat \<Rightarrow> nat \<Rightarrow> bool" where
  "gf2_bit g i j \<equiv> bit_at (g_bits g ! i) j"

lemma and_bit_nonzero: "w AND 2 ^ j \<noteq> 0 \<longleftrightarrow> bit (w :: 'a::len word) j"
  using bit_iff_and_push_bit_not_eq_0 [of w j] by (simp add: push_bit_of_1)

lemma gf2_stride: "gf2_ok n k g \<Longrightarrow> c < k \<Longrightarrow> c div 32 < g_stride g"
  using mult_div_mod_eq [of 32 k] mod_less_divisor [of 32 k] by (auto simp: gf2_ok_def div_less_iff_less_mult split: if_splits)

lemma gf2_get: "gf2_ok n k g \<Longrightarrow> i < n \<Longrightarrow> j < k \<Longrightarrow> gf2mat_get g i j = (if gf2_bit g i j then 1 else 0)"
  by (simp add: gf2mat_get_def gf2_ok_def and_bit_nonzero bit_at_def)

lemma gf2_new: "gf2_ok n k (gf2mat_new n k)" "i < n \<Longrightarrow> j < k \<Longrightarrow> \<not> gf2_bit (gf2mat_new n k) i j"
proof -
  have z: "\<not> bit_at (replicate s 0) c" if "c < 32 * s" for s c
    using that by (simp add: bit_at_def div_less_iff_less_mult mult.commute)
  show ok: "gf2_ok n k (gf2mat_new n k)" by (auto simp: gf2_ok_def gf2mat_new_def Let_def z)
  show "i < n \<Longrightarrow> j < k \<Longrightarrow> \<not> gf2_bit (gf2mat_new n k) i j"
    using gf2_stride [OF ok, of j] by (simp add: gf2mat_new_def Let_def bit_at_def)
qed

lemma bit_at_upd:
  assumes "c div 32 < length row" and "j div 32 < length row"
  shows "bit_at (row[j div 32 := row ! (j div 32) OR push_bit (j mod 32) 1]) c \<longleftrightarrow> c = j \<or> bit_at row c"
    "bit_at (row[j div 32 := row ! (j div 32) AND NOT (push_bit (j mod 32) 1)]) c \<longleftrightarrow> c \<noteq> j \<and> bit_at row c"
proof -
  have "c = j \<longleftrightarrow> c div 32 = j div 32 \<and> c mod 32 = j mod 32"
    by (metis mult_div_mod_eq)
  moreover have "c mod 32 < 32" by simp
  ultimately show "bit_at (row[j div 32 := row ! (j div 32) OR push_bit (j mod 32) 1]) c \<longleftrightarrow> c = j \<or> bit_at row c"
    "bit_at (row[j div 32 := row ! (j div 32) AND NOT (push_bit (j mod 32) 1)]) c \<longleftrightarrow> c \<noteq> j \<and> bit_at row c"
    using assms by (auto simp: bit_at_def nth_list_update bit_or_iff bit_and_iff bit_not_iff bit_push_bit_iff bit_1_iff
        simp del: push_bit_of_1)
qed

lemma gf2_col_in: "c < 32 * s \<Longrightarrow> c div 32 < s" for c s :: nat
  by (simp add: less_mult_imp_div_less mult.commute)

lemma gf2_cols_in: "gf2_ok n k g \<Longrightarrow> c < k \<Longrightarrow> c < 32 * g_stride g"
  using gf2_stride [of n k g c] mult_div_mod_eq [of 32 c] mod_less_divisor [of 32 c] by linarith

text \<open>Replacing row \<open>i\<close> by words that leave the padding zero.\<close>

lemma gf2_ok_upd:
  assumes "gf2_ok n k g" and "i < n" and "length row = g_stride g"
    and "\<And>c. k \<le> c \<Longrightarrow> c < 32 * g_stride g \<Longrightarrow> \<not> bit_at row c"
  shows "gf2_ok n k (g\<lparr>g_bits := (g_bits g)[i := row]\<rparr>)"
  using assms by (simp add: gf2_ok_def nth_list_update)

lemma gf2_set:
  assumes "gf2_ok n k g" and "i < n" and "j < k"
  shows "gf2_ok n k (gf2mat_set g i j b)"
    "r < n \<Longrightarrow> c < k \<Longrightarrow> gf2_bit (gf2mat_set g i j b) r c = (if r = i \<and> c = j then b \<noteq> 0 else gf2_bit g r c)"
proof -
  let ?row = "g_bits g ! i" and ?m = "push_bit (j mod 32) 1 :: u32"
  define new where "new = ?row[j div 32 := (if b \<noteq> 0 then ?row ! (j div 32) OR ?m else ?row ! (j div 32) AND NOT ?m)]"
  have g: "gf2mat_set g i j b = g\<lparr>g_bits := (g_bits g)[i := new]\<rparr>"
    using assms by (simp add: gf2mat_set_def gf2_ok_def Let_def new_def del: push_bit_of_1)
  have l: "length ?row = g_stride g" "length (g_bits g) = n" using assms by (simp_all add: gf2_ok_def)
  have n: "bit_at new c = (if c = j then b \<noteq> 0 else bit_at ?row c)" if "c < 32 * g_stride g" for c
    using bit_at_upd [of c ?row j] gf2_col_in [OF that] gf2_stride [OF assms(1,3)] l by (auto simp: new_def simp del: push_bit_of_1)
  have "length new = g_stride g" using l by (simp add: new_def)
  then show "gf2_ok n k (gf2mat_set g i j b)"
    unfolding g by (rule gf2_ok_upd [OF assms(1,2)]) (use n assms l in \<open>auto simp: gf2_ok_def\<close>)
  show "r < n \<Longrightarrow> c < k \<Longrightarrow> gf2_bit (gf2mat_set g i j b) r c = (if r = i \<and> c = j then b \<noteq> 0 else gf2_bit g r c)"
    unfolding g using n [of c] gf2_cols_in [OF assms(1), of c] l assms(2)
    by (cases "c = j") (simp_all add: nth_list_update)
qed

lemma gf2_xor:
  assumes "gf2_ok n k a" and "i < n" and "j < n"
  shows "gf2_ok n k (gf2mat_xor a a i j)"
    "r < n \<Longrightarrow> c < k \<Longrightarrow> gf2_bit (gf2mat_xor a a i j) r c = (if r = i then gf2_bit a i c \<noteq> gf2_bit a j c else gf2_bit a r c)"
proof -
  let ?new = "map (\<lambda>x. g_bits a ! i ! x XOR g_bits a ! j ! x) [0..<g_stride a]"
  have n: "bit_at ?new c \<longleftrightarrow> gf2_bit a i c \<noteq> gf2_bit a j c" if "c < 32 * g_stride a" for c
    using gf2_col_in [OF that] by (simp add: bit_at_def bit_xor_iff)
  show "gf2_ok n k (gf2mat_xor a a i j)"
    unfolding gf2mat_xor_def by (rule gf2_ok_upd [OF assms(1,2)]) (use n assms in \<open>auto simp: gf2_ok_def\<close>)
  show "r < n \<Longrightarrow> c < k \<Longrightarrow> gf2_bit (gf2mat_xor a a i j) r c = (if r = i then gf2_bit a i c \<noteq> gf2_bit a j c else gf2_bit a r c)"
    using n [of c] gf2_cols_in [OF assms(1), of c] assms by (simp add: gf2mat_xor_def gf2_ok_def nth_list_update)
qed

lemma gf2_fill:
  assumes "gf2_ok n k g" and "i < n" and "length dst = k" and "c < k"
  shows "gf2mat_fill g i dst ! c = (if gf2_bit g i c then 1 else dst ! c)" "length (gf2mat_fill g i dst) = k"
  using foldl_upd [of "filter (bit_at (g_bits g ! i)) [0..<32 * g_stride g]" "\<lambda>c x. 1" dst]
    gf2_cols_in [OF assms(1,4)] assms(3,4)
  unfolding gf2mat_fill_def Let_def set_bits_columns by simp_all

end
