(* ===== verification/Wrkmat.thy ===== *)
theory Wrkmat
  imports Gf2
begin

section \<open>The working matrix of the solver (wrkmat.h, wrkmat.c)\<close>

text \<open>
  A matrix whose rows are bit rows until they need octets: \<open>type\<close> says which, and an octet row is row
  \<open>rowmap\<close> of a dense block with spare rows, handed out in order by \<open>blkidx\<close>. A call of \<open>abort\<close> is the
  fault \<open>Aborted\<close>. Through \<open>wrkmat_at\<close> the two representations are one matrix over the 256-element
  field, and \<open>wrkmat_axpy\<close> is one row operation on it.
\<close>

record wrkmat =
  w_GF2 :: gf2mat
  w_GF256 :: octmat
  w_rows :: nat
  w_cols :: nat
  w_blkidx :: nat
  w_rowmap :: "nat list"
  w_type :: "bool list"

definition wrkmat_new :: "nat \<Rightarrow> nat \<Rightarrow> wrkmat" where
  "wrkmat_new r c =
     \<lparr>w_GF2 = gf2mat_new r c, w_GF256 = \<lparr>om_rows = 0, om_cols = 0, om_data = []\<rparr>, w_rows = r, w_cols = c,
      w_blkidx = 0, w_rowmap = replicate r 0, w_type = replicate r False\<rparr>"

definition wrkmat_assign_block :: "wrkmat \<Rightarrow> octmat \<Rightarrow> nat \<Rightarrow> nat \<Rightarrow> wrkmat" where
  "wrkmat_assign_block w B i m =
     foldl (\<lambda>w row. w\<lparr>w_type := (w_type w)[row := True], w_rowmap := (w_rowmap w)[row := row - i]\<rparr>)
       (w\<lparr>w_GF256 := B\<rparr>) [i..<i + m] \<lparr>w_blkidx := m\<rparr>"

definition wrkmat_get :: "wrkmat \<Rightarrow> nat \<Rightarrow> nat \<Rightarrow> u8" where
  "wrkmat_get w i j =
     (if w_type w ! i then om_A (w_GF256 w) (w_rowmap w ! i) j else of_nat (gf2mat_get (w_GF2 w) i j))"

text \<open>The macro \<open>wrkmat_at\<close> reads the bit without the bounds test of \<open>gf2mat_get\<close>.\<close>

definition wrkmat_at :: "wrkmat \<Rightarrow> nat \<Rightarrow> nat \<Rightarrow> u8" where
  "wrkmat_at w i j =
     (if w_type w ! i then om_A (w_GF256 w) (w_rowmap w ! i) j
      else ucast (drop_bit (j mod 32) (g_bits (w_GF2 w) ! i ! (j div 32)) AND 1))"

definition wrkmat_set :: "wrkmat \<Rightarrow> nat \<Rightarrow> nat \<Rightarrow> u8 \<Rightarrow> wrkmat result" where
  "wrkmat_set w i j b =
     (if w_type w ! i then Inr (w\<lparr>w_GF256 := om_set (w_GF256 w) (w_rowmap w ! i) j b\<rparr>)
      else if b \<le> 1 then Inr (w\<lparr>w_GF2 := gf2mat_set (w_GF2 w) i j b\<rparr>)
      else Inl Aborted)"

definition wrkmat_axpy :: "wrkmat \<Rightarrow> nat \<Rightarrow> nat \<Rightarrow> u8 \<Rightarrow> wrkmat result" where
  "wrkmat_axpy w i j beta =
     (let D = w_GF256 w; d = om_data D in
      if w_type w ! i = w_type w ! j
      then (if w_type w ! i
            then Inr (w\<lparr>w_GF256 := D\<lparr>om_data := oaxpy d d (w_rowmap w ! i) (w_rowmap w ! j) (w_cols w) beta\<rparr>,
                        w_GF2 := gf2mat_xor (w_GF2 w) (w_GF2 w) i j\<rparr>)
            else Inr (w\<lparr>w_GF2 := gf2mat_xor (w_GF2 w) (w_GF2 w) i j\<rparr>))
      else if w_type w ! i
      then Inr (w\<lparr>w_GF256 := D\<lparr>om_data := oaxpy_b32 d (g_bits (w_GF2 w) ! j) (w_rowmap w ! i) (w_cols w) beta\<rparr>\<rparr>)
      else if om_rows D \<le> w_blkidx w then Inl Aborted
      else let b = w_blkidx w; d1 = d[b := gf2mat_fill (w_GF2 w) i (d ! b)]
           in Inr (w\<lparr>w_type := (w_type w)[i := True], w_rowmap := (w_rowmap w)[i := b], w_blkidx := b + 1,
                     w_GF256 := D\<lparr>om_data := oaxpy d1 d1 b (w_rowmap w ! j) (w_cols w) beta\<rparr>\<rparr>))"

definition wrkmat_scal :: "wrkmat \<Rightarrow> nat \<Rightarrow> u8 \<Rightarrow> wrkmat result" where
  "wrkmat_scal w i beta =
     (if w_type w ! i
      then Inr (w\<lparr>w_GF256 := (w_GF256 w)\<lparr>om_data := oscal (om_data (w_GF256 w)) (w_rowmap w ! i) (w_cols w) beta\<rparr>\<rparr>)
      else Inl Aborted)"

subsection \<open>One matrix\<close>

text \<open>The octet rows in use have distinct places below \<open>blkidx\<close>; the spare rows are zero.\<close>

definition wrk_ok :: "nat \<Rightarrow> nat \<Rightarrow> wrkmat \<Rightarrow> bool" where
  "wrk_ok n k w \<longleftrightarrow> gf2_ok n k (w_GF2 w) \<and> is_mat (om_rows (w_GF256 w)) k (om_data (w_GF256 w))
     \<and> w_rows w = n \<and> w_cols w = k \<and> length (w_rowmap w) = n \<and> length (w_type w) = n
     \<and> w_blkidx w \<le> om_rows (w_GF256 w)
     \<and> (\<forall>i < n. w_type w ! i \<longrightarrow> w_rowmap w ! i < w_blkidx w)
     \<and> (\<forall>i < n. \<forall>j < n. w_type w ! i \<and> w_type w ! j \<and> w_rowmap w ! i = w_rowmap w ! j \<longrightarrow> i = j)
     \<and> (\<forall>x < om_rows (w_GF256 w). w_blkidx w \<le> x \<longrightarrow> om_data (w_GF256 w) ! x = replicate k 0)"

lemma wrk_okD:
  assumes "wrk_ok n k w"
  shows "gf2_ok n k (w_GF2 w)" "is_mat (om_rows (w_GF256 w)) k (om_data (w_GF256 w))"
    "w_rows w = n" "w_cols w = k" "length (w_rowmap w) = n" "length (w_type w) = n"
    "i < n \<Longrightarrow> w_type w ! i \<Longrightarrow> w_rowmap w ! i < w_blkidx w"
    "i < n \<Longrightarrow> w_type w ! i \<Longrightarrow> w_rowmap w ! i < om_rows (w_GF256 w)"
    "i < n \<Longrightarrow> j < n \<Longrightarrow> w_type w ! i \<Longrightarrow> w_type w ! j \<Longrightarrow> w_rowmap w ! i = w_rowmap w ! j \<Longrightarrow> i = j"
    "x < om_rows (w_GF256 w) \<Longrightarrow> w_blkidx w \<le> x \<Longrightarrow> om_data (w_GF256 w) ! x = replicate k 0"
  using assms by (auto simp: wrk_ok_def intro: less_le_trans)

lemma wrk_at_eq:
  "wrk_ok n k w \<Longrightarrow> i < n \<Longrightarrow> c < k \<Longrightarrow>
    wrkmat_at w i c = (if w_type w ! i then om_data (w_GF256 w) ! (w_rowmap w ! i) ! c
                       else if gf2_bit (w_GF2 w) i c then 1 else 0)"
proof -
  have "ucast (drop_bit m x AND 1) = (if bit x m then 1 else 0 :: u8)" for x :: u32 and m
    by (simp add: and_one_eq bit_iff_odd_drop_bit odd_iff_mod_2_eq_one)
  then show ?thesis by (simp add: wrkmat_at_def om_A_def bit_at_def)
qed

lemma wrk_get_at: "wrk_ok n k w \<Longrightarrow> i < n \<Longrightarrow> c < k \<Longrightarrow> wrkmat_get w i c = wrkmat_at w i c"
  using gf2_get [OF wrk_okD(1), of n k w i c] by (simp add: wrk_at_eq wrkmat_get_def om_A_def)

lemma wrk_new: "wrk_ok n k (wrkmat_new n k)" "i < n \<Longrightarrow> c < k \<Longrightarrow> wrkmat_at (wrkmat_new n k) i c = 0"
proof -
  show ok: "wrk_ok n k (wrkmat_new n k)"
    by (simp add: wrk_ok_def wrkmat_new_def gf2_new(1) is_mat_def)
  show "i < n \<Longrightarrow> c < k \<Longrightarrow> wrkmat_at (wrkmat_new n k) i c = 0"
    using gf2_new(2) [of i n c k] wrk_at_eq [OF ok, of i c] by (simp add: wrkmat_new_def)
qed

lemma wrk_set:
  assumes w: "wrk_ok n k w" and "i < n" and "j < k" and "\<not> w_type w ! i" and "b \<le> 1"
  shows "\<exists>w'. wrkmat_set w i j b = Inr w' \<and> wrk_ok n k w' \<and> w_type w' = w_type w
    \<and> (\<forall>r < n. \<forall>c < k. wrkmat_at w' r c = (if r = i \<and> c = j then b else wrkmat_at w r c))"
proof -
  let ?w = "w\<lparr>w_GF2 := gf2mat_set (w_GF2 w) i j b\<rparr>"
  note g = gf2_set [OF wrk_okD(1) [OF w] assms(2,3)]
  have b: "(if b = 0 then 0 else 1) = b" using assms(5) by (auto simp: word_le_nat_alt word_unat_eq_iff le_Suc_eq)
  have ok: "wrk_ok n k ?w" using w g(1) by (simp add: wrk_ok_def)
  have "wrkmat_at ?w r c = (if r = i \<and> c = j then b else wrkmat_at w r c)" if "r < n" "c < k" for r c
    using g(2) [OF that, of b] wrk_at_eq [OF ok that] wrk_at_eq [OF w that] assms(4) b by auto
  then show ?thesis using assms(4,5) ok by (simp add: wrkmat_set_def)
qed

text \<open>The four cases of \<open>wrkmat_axpy\<close>. A bit row takes another bit row whole, so \<open>beta\<close> has to be 1 there.\<close>

lemma axpy_octet_octet:
  assumes w: "wrk_ok n k w" and ij: "i < n" "j < n" "i \<noteq> j" and t: "w_type w ! i" "w_type w ! j"
  shows "\<exists>w'. wrkmat_axpy w i j beta = Inr w' \<and> wrk_ok n k w' \<and> w_type w' = w_type w
    \<and> (\<forall>r < n. \<forall>c < k. wrkmat_at w' r c
         = (if r = i then wrkmat_at w i c XOR gf_mul beta (wrkmat_at w j c) else wrkmat_at w r c))"
proof -
  let ?d = "om_data (w_GF256 w)" and ?p = "w_rowmap w ! i" and ?q = "w_rowmap w ! j"
  let ?w = "w\<lparr>w_GF256 := w_GF256 w\<lparr>om_data := oaxpy ?d ?d ?p ?q k beta\<rparr>, w_GF2 := gf2mat_xor (w_GF2 w) (w_GF2 w) i j\<rparr>"
  note D = wrk_okD [OF w]
  note p = D(8) [OF ij(1) t(1)]
  have keep: "oaxpy ?d ?d ?p ?q k beta ! x = ?d ! x" if "x \<noteq> ?p" for x
    using that by (simp add: oaxpy_def oaddrow_def)
  have ok: "wrk_ok n k ?w"
    using w gf2_xor(1) [OF D(1) ij(1,2)] is_mat_ops(2) [OF D(2)] D(7) [OF ij(1) t(1)] keep unfolding wrk_ok_def by auto
  have "wrkmat_at ?w r c = (if r = i then wrkmat_at w i c XOR gf_mul beta (wrkmat_at w j c) else wrkmat_at w r c)"
    if rc: "r < n" "c < k" for r c
  proof (cases "w_type w ! r")
    case True
    then have "w_rowmap w ! r = ?p \<longleftrightarrow> r = i" using D(9) [OF rc(1) ij(1)] t(1) by auto
    then show ?thesis
      using oaxpy_nth [OF D(2) p D(8) [OF rc(1) True] rc(2)] wrk_at_eq [OF ok rc] wrk_at_eq [OF w rc] True t
        wrk_at_eq [OF w ij(1) rc(2)] wrk_at_eq [OF w ij(2) rc(2)] by auto
  next
    case False
    then show ?thesis
      using gf2_xor(2) [OF D(1) ij(1,2) rc] wrk_at_eq [OF ok rc] wrk_at_eq [OF w rc] t(1) by auto
  qed
  then show ?thesis using t ok D(4) by (simp add: wrkmat_axpy_def Let_def)
qed

lemma axpy_bit_bit:
  assumes w: "wrk_ok n k w" and ij: "i < n" "j < n" and t: "\<not> w_type w ! i" "\<not> w_type w ! j"
  shows "\<exists>w'. wrkmat_axpy w i j 1 = Inr w' \<and> wrk_ok n k w' \<and> w_type w' = w_type w
    \<and> (\<forall>r < n. \<forall>c < k. wrkmat_at w' r c
         = (if r = i then wrkmat_at w i c XOR gf_mul 1 (wrkmat_at w j c) else wrkmat_at w r c))"
proof -
  let ?w = "w\<lparr>w_GF2 := gf2mat_xor (w_GF2 w) (w_GF2 w) i j\<rparr>"
  note D = wrk_okD [OF w]
  have ok: "wrk_ok n k ?w" using w gf2_xor(1) [OF D(1) ij] unfolding wrk_ok_def by auto
  have "wrkmat_at ?w r c = (if r = i then wrkmat_at w i c XOR gf_mul 1 (wrkmat_at w j c) else wrkmat_at w r c)"
    if rc: "r < n" "c < k" for r c
    using gf2_xor(2) [OF D(1) ij rc] wrk_at_eq [OF ok rc] wrk_at_eq [OF w rc] t
      wrk_at_eq [OF w ij(1) rc(2)] wrk_at_eq [OF w ij(2) rc(2)] by auto
  then show ?thesis using t ok by (simp add: wrkmat_axpy_def Let_def)
qed

lemma axpy_octet_bit:
  assumes w: "wrk_ok n k w" and ij: "i < n" "j < n" and t: "w_type w ! i" "\<not> w_type w ! j"
  shows "\<exists>w'. wrkmat_axpy w i j beta = Inr w' \<and> wrk_ok n k w' \<and> w_type w' = w_type w
    \<and> (\<forall>r < n. \<forall>c < k. wrkmat_at w' r c
         = (if r = i then wrkmat_at w i c XOR gf_mul beta (wrkmat_at w j c) else wrkmat_at w r c))"
proof -
  let ?d = "om_data (w_GF256 w)" and ?p = "w_rowmap w ! i" and ?b = "g_bits (w_GF2 w) ! j"
  let ?w = "w\<lparr>w_GF256 := w_GF256 w\<lparr>om_data := oaxpy_b32 ?d ?b ?p k beta\<rparr>\<rparr>"
  note D = wrk_okD [OF w]
  note p = D(8) [OF ij(1) t(1)]
  have keep: "oaxpy_b32 ?d ?b ?p k beta ! x = ?d ! x" if "x \<noteq> ?p" for x
    using that by (simp add: oaxpy_b32_def Let_def)
  have ok: "wrk_ok n k ?w"
    using w is_mat_oaxpy_b32 [OF D(2)] D(7) [OF ij(1) t(1)] keep unfolding wrk_ok_def by auto
  have "wrkmat_at ?w r c = (if r = i then wrkmat_at w i c XOR gf_mul beta (wrkmat_at w j c) else wrkmat_at w r c)"
    if rc: "r < n" "c < k" for r c
  proof (cases "w_type w ! r")
    case True
    then have "w_rowmap w ! r = ?p \<longleftrightarrow> r = i" using D(9) [OF rc(1) ij(1)] t(1) by auto
    then show ?thesis
      using oaxpy_b32_nth [OF D(2) p D(8) [OF rc(1) True] rc(2)] wrk_at_eq [OF ok rc] wrk_at_eq [OF w rc] True t
        wrk_at_eq [OF w ij(1) rc(2)] wrk_at_eq [OF w ij(2) rc(2)] by auto
  next
    case False
    then show ?thesis using wrk_at_eq [OF ok rc] wrk_at_eq [OF w rc] t(1) by auto
  qed
  then show ?thesis using t ok D(4) by (simp add: wrkmat_axpy_def Let_def)
qed

text \<open>A bit row that takes an octet row moves to a spare row of the block first.\<close>

lemma axpy_bit_octet:
  assumes w: "wrk_ok n k w" and ij: "i < n" "j < n" and t: "\<not> w_type w ! i" "w_type w ! j"
    and b: "w_blkidx w < om_rows (w_GF256 w)"
  shows "\<exists>w'. wrkmat_axpy w i j beta = Inr w' \<and> wrk_ok n k w' \<and> w_type w' = (w_type w)[i := True]
    \<and> (\<forall>r < n. \<forall>c < k. wrkmat_at w' r c
         = (if r = i then wrkmat_at w i c XOR gf_mul beta (wrkmat_at w j c) else wrkmat_at w r c))"
proof -
  let ?d = "om_data (w_GF256 w)" and ?b = "w_blkidx w" and ?q = "w_rowmap w ! j" and ?m = "om_rows (w_GF256 w)"
  define f where "f = gf2mat_fill (w_GF2 w) i (?d ! ?b)"
  define d1 where "d1 = ?d[?b := f]"
  let ?e = "oaxpy d1 d1 ?b ?q k beta"
  let ?w = "w\<lparr>w_type := (w_type w)[i := True], w_rowmap := (w_rowmap w)[i := ?b], w_blkidx := ?b + 1,
    w_GF256 := w_GF256 w\<lparr>om_data := ?e\<rparr>\<rparr>"
  note D = wrk_okD [OF w]
  have z: "?d ! ?b = replicate k 0" using D(10) b by simp
  have f: "f ! c = (if gf2_bit (w_GF2 w) i c then 1 else 0)" if "c < k" for c
    using gf2_fill(1) [OF D(1) ij(1) _ that, of "replicate k 0"] that by (simp add: f_def z)
  have lf: "length f = k"
  proof (cases "k = 0")
    case True
    then have "g_stride (w_GF2 w) = 0" using D(1) by (simp add: gf2_ok_def)
    then show ?thesis using True by (simp add: f_def z gf2mat_fill_def)
  qed (use gf2_fill(2) [OF D(1) ij(1), of "replicate k 0" 0] in \<open>simp add: f_def z\<close>)
  have d1: "is_mat ?m k d1" unfolding d1_def using is_mat_upd [OF D(2)] lf by blast
  have ld: "length ?d = ?m" using D(2) by (simp add: is_matD)
  have q: "?q < ?b" using D(7) [OF ij(2) t(2)] .
  have keep: "?e ! x = ?d ! x" if "x \<noteq> ?b" for x
    using that by (simp add: oaxpy_def oaddrow_def d1_def)
  have place: "(w_rowmap w)[i := ?b] ! r = (if r = i then ?b else w_rowmap w ! r)" if "r < n" for r
    using that D(5) by (simp add: nth_list_update)
  have kind: "(w_type w)[i := True] ! r \<longleftrightarrow> r = i \<or> w_type w ! r" if "r < n" for r
    using that D(6) by (cases "r = i") simp_all
  have ok: "wrk_ok n k ?w"
    unfolding wrk_ok_def
  proof (intro conjI allI impI)
    fix r s assume rs: "r < n" "s < n" and h: "w_type ?w ! r \<and> w_type ?w ! s \<and> w_rowmap ?w ! r = w_rowmap ?w ! s"
    have "w_rowmap w ! x < ?b" if "x < n" "x \<noteq> i" "w_type ?w ! x" for x
      using that D(7) [of x] kind [of x] by auto
    from this [of r] this [of s] have "r \<noteq> i \<Longrightarrow> w_rowmap w ! r < ?b" "s \<noteq> i \<Longrightarrow> w_rowmap w ! s < ?b"
      using h rs by blast+
    then show "r = s"
      using h rs D(9) [of r s] kind [OF rs(1)] kind [OF rs(2)] place [OF rs(1)] place [OF rs(2)]
      by (cases "r = i"; cases "s = i") auto
  next
    fix r assume r: "r < n" and h: "w_type ?w ! r"
    then show "w_rowmap ?w ! r < w_blkidx ?w"
      using D(7) [OF r] kind [OF r] place [OF r] by (auto intro: less_SucI)
  next
    fix x assume x: "x < om_rows (w_GF256 ?w)" "w_blkidx ?w \<le> x"
    then show "om_data (w_GF256 ?w) ! x = replicate k 0" using keep [of x] D(10) [of x] by simp
  qed (use D b is_mat_ops(2) [OF d1] in simp_all)
  have val: "?e ! ?b ! c = wrkmat_at w i c XOR gf_mul beta (wrkmat_at w j c)" if c: "c < k" for c
  proof -
    have "d1 ! ?q = ?d ! ?q" "d1 ! ?b = f" using q ld b by (auto simp: d1_def)
    then show ?thesis
      using oaxpy_nth [OF d1 b b c, of d1 ?q beta] f [OF c] wrk_at_eq [OF w ij(1) c] wrk_at_eq [OF w ij(2) c] t by simp
  qed
  have "wrkmat_at ?w r c = (if r = i then wrkmat_at w i c XOR gf_mul beta (wrkmat_at w j c) else wrkmat_at w r c)"
    if rc: "r < n" "c < k" for r c
    using val [OF rc(2)] wrk_at_eq [OF ok rc] wrk_at_eq [OF w rc] place [OF rc(1)] kind [OF rc(1)] keep D(7) [OF rc(1)]
    by (cases "r = i") auto
  then show ?thesis using t b ok D(4) by (simp add: wrkmat_axpy_def Let_def f_def d1_def)
qed

lemma wrk_scal:
  assumes w: "wrk_ok n k w" and i: "i < n" and t: "w_type w ! i" and beta: "beta \<noteq> 0"
  shows "\<exists>w'. wrkmat_scal w i beta = Inr w' \<and> wrk_ok n k w' \<and> w_type w' = w_type w
    \<and> (\<forall>r < n. \<forall>c < k. wrkmat_at w' r c = (if r = i then gf_mul beta (wrkmat_at w i c) else wrkmat_at w r c))"
proof -
  let ?d = "om_data (w_GF256 w)" and ?p = "w_rowmap w ! i"
  let ?w = "w\<lparr>w_GF256 := w_GF256 w\<lparr>om_data := oscal ?d ?p k beta\<rparr>\<rparr>"
  note D = wrk_okD [OF w]
  have keep: "oscal ?d ?p k beta ! x = ?d ! x" if "x \<noteq> ?p" for x using that by (simp add: oscal_def)
  have ok: "wrk_ok n k ?w"
    using w is_mat_ops(3) [OF D(2)] D(7) [OF i t] keep unfolding wrk_ok_def by auto
  have "wrkmat_at ?w r c = (if r = i then gf_mul beta (wrkmat_at w i c) else wrkmat_at w r c)"
    if rc: "r < n" "c < k" for r c
  proof (cases "w_type w ! r")
    case True
    then have "w_rowmap w ! r = ?p \<longleftrightarrow> r = i" using D(9) [OF rc(1) i] t by auto
    then show ?thesis
      using oscal_nth [OF D(2) D(8) [OF i t] D(8) [OF rc(1) True] rc(2) beta] wrk_at_eq [OF ok rc] wrk_at_eq [OF w rc] True t
        wrk_at_eq [OF w i rc(2)] by auto
  next
    case False
    then show ?thesis using wrk_at_eq [OF ok rc] wrk_at_eq [OF w rc] t by auto
  qed
  then show ?thesis using t ok D(4) by (simp add: wrkmat_scal_def)
qed

text \<open>Laying the octet block over rows \<open>i\<close> to \<open>i + m - 1\<close>.\<close>

lemma assign_fold:
  "length (w_type w) = n \<Longrightarrow> length (w_rowmap w) = n \<Longrightarrow> i + m \<le> n \<Longrightarrow>
    (let w' = foldl (\<lambda>w row. w\<lparr>w_type := (w_type w)[row := True], w_rowmap := (w_rowmap w)[row := row - i]\<rparr>) w [i..<i + m]
     in w_GF2 w' = w_GF2 w \<and> w_GF256 w' = w_GF256 w \<and> w_rows w' = w_rows w \<and> w_cols w' = w_cols w
        \<and> length (w_type w') = n \<and> length (w_rowmap w') = n
        \<and> (\<forall>r < n. w_type w' ! r = (i \<le> r \<and> r < i + m \<or> w_type w ! r))
        \<and> (\<forall>r < n. w_rowmap w' ! r = (if i \<le> r \<and> r < i + m then r - i else w_rowmap w ! r)))"
proof (induction m)
  case (Suc m)
  then show ?case by (auto simp: Let_def nth_list_update)
qed (auto simp: Let_def)

lemma wrk_assign_block:
  assumes w: "wrk_ok n k w" and t: "\<forall>r < n. \<not> w_type w ! r" and im: "i + m \<le> n" "m \<le> om_rows B"
    and B: "is_mat (om_rows B) k (om_data B)" "\<forall>x < om_rows B. m \<le> x \<longrightarrow> om_data B ! x = replicate k 0"
  shows "wrk_ok n k (wrkmat_assign_block w B i m)
    \<and> (\<forall>r < n. w_type (wrkmat_assign_block w B i m) ! r = (i \<le> r \<and> r < i + m))
    \<and> (\<forall>r < n. \<forall>c < k. wrkmat_at (wrkmat_assign_block w B i m) r c
         = (if i \<le> r \<and> r < i + m then om_data B ! (r - i) ! c else wrkmat_at w r c))"
proof -
  let ?w = "wrkmat_assign_block w B i m"
  note D = wrk_okD [OF w]
  have p: "w_GF2 ?w = w_GF2 w" "w_GF256 ?w = B" "w_rows ?w = n" "w_cols ?w = k" "w_blkidx ?w = m"
    "length (w_type ?w) = n" "length (w_rowmap ?w) = n"
    "\<forall>r < n. w_type ?w ! r = (i \<le> r \<and> r < i + m)"
    "\<forall>r < n. w_rowmap ?w ! r = (if i \<le> r \<and> r < i + m then r - i else w_rowmap w ! r)"
    using assign_fold [of "w\<lparr>w_GF256 := B\<rparr>" n i m] D(3-6) im t by (auto simp: wrkmat_assign_block_def Let_def)
  have ok: "wrk_ok n k ?w"
    unfolding wrk_ok_def using p D(1) B im by auto
  have "wrkmat_at ?w r c = (if i \<le> r \<and> r < i + m then om_data B ! (r - i) ! c else wrkmat_at w r c)"
    if rc: "r < n" "c < k" for r c
    using wrk_at_eq [OF ok rc] wrk_at_eq [OF w rc] p rc t by auto
  with ok p show ?thesis by blast
qed

subsection \<open>A row operation, whatever the representation\<close>

lemma wrk_axpy:
  assumes "wrk_ok n k w" and "i < n" and "j < n" and "i \<noteq> j" and "w_type w ! i \<or> w_type w ! j \<or> beta = 1"
  shows "case wrkmat_axpy w i j beta of
      Inl f \<Rightarrow> f = Aborted \<and> \<not> w_type w ! i \<and> w_type w ! j \<and> om_rows (w_GF256 w) \<le> w_blkidx w
    | Inr w' \<Rightarrow> wrk_ok n k w' \<and> (\<forall>r < n. \<forall>c < k. wrkmat_at w' r c
        = (if r = i then wrkmat_at w i c XOR gf_mul beta (wrkmat_at w j c) else wrkmat_at w r c))"
proof -
  consider (oo) "w_type w ! i" "w_type w ! j" | (bb) "\<not> w_type w ! i" "\<not> w_type w ! j"
    | (ob) "w_type w ! i" "\<not> w_type w ! j" | (bo) "\<not> w_type w ! i" "w_type w ! j" by blast
  then show ?thesis
  proof cases
    case oo
    from axpy_octet_octet [OF assms(1-4) this, of beta] show ?thesis by fastforce
  next
    case bb
    then have "beta = 1" using assms(5) by simp
    with axpy_bit_bit [OF assms(1-3) bb] show ?thesis by fastforce
  next
    case ob
    from axpy_octet_bit [OF assms(1-3) this, of beta] show ?thesis by fastforce
  next
    case bo
    show ?thesis
    proof (cases "w_blkidx w < om_rows (w_GF256 w)")
      case True
      from axpy_bit_octet [OF assms(1-3) bo True, of beta] show ?thesis by fastforce
    next
      case False
      then show ?thesis using bo by (simp add: wrkmat_axpy_def Let_def)
    qed
  qed
qed

lemma wrk_axpy_types:
  "wrkmat_axpy w i j beta = Inr w' \<Longrightarrow> w_type w' = (if w_type w ! j \<and> \<not> w_type w ! i then (w_type w)[i := True] else w_type w)"
  by (auto simp: wrkmat_axpy_def Let_def split: if_splits)

text \<open>C35: Adding \<open>beta\<close> times row \<open>j\<close> to row \<open>i\<close> of a working matrix does just that on the matrix the two
  representations stand for, keeps the representation valid, and aborts only when a bit row takes an
  octet row and the block has no spare row left. Between two bit rows \<open>beta\<close> must be 1.\<close>

theorem wrkmat_axpy_adds_row:
  assumes "wrk_ok n k w" and "i < n" and "j < n" and "i \<noteq> j" and "w_type w ! i \<or> w_type w ! j \<or> beta = 1"
  shows "case wrkmat_axpy w i j beta of
      Inl f \<Rightarrow> f = Aborted \<and> \<not> w_type w ! i \<and> w_type w ! j \<and> om_rows (w_GF256 w) \<le> w_blkidx w
    | Inr w' \<Rightarrow> wrk_ok n k w' \<and> (\<forall>r < n. \<forall>c < k. wrkmat_at w' r c
        = (if r = i then wrkmat_at w i c XOR gf_mul beta (wrkmat_at w j c) else wrkmat_at w r c))"
  using assms by (rule wrk_axpy)

lemma wrkmat_axpy_adds_row_witness:
  "\<exists>w. wrkmat_axpy (wrkmat_new 2 40) 0 1 1 = Inr w"
proof -
  have "case wrkmat_axpy (wrkmat_new 2 40) 0 1 1 of
      Inl f \<Rightarrow> f = Aborted \<and> \<not> w_type (wrkmat_new 2 40) ! 0 \<and> w_type (wrkmat_new 2 40) ! 1
        \<and> om_rows (w_GF256 (wrkmat_new 2 40)) \<le> w_blkidx (wrkmat_new 2 40)
    | Inr w' \<Rightarrow> wrk_ok 2 40 w' \<and> (\<forall>r < 2. \<forall>c < 40. wrkmat_at w' r c
        = (if r = 0 then wrkmat_at (wrkmat_new 2 40) 0 c XOR gf_mul 1 (wrkmat_at (wrkmat_new 2 40) 1 c)
           else wrkmat_at (wrkmat_new 2 40) r c))"
    by (rule wrkmat_axpy_adds_row [OF wrk_new(1)]) simp_all
  then show ?thesis by (simp add: wrkmat_new_def split: sum.splits)
qed

end
