(* ===== verification/Results.thy ===== *)
theory Results
  imports Prelude
begin

section \<open>Computations that may fail\<close>

text \<open>
  Sequencing for the \<open>result\<close> type: \<open>rbind\<close> runs a step after another unless the first has failed,
  \<open>rfold\<close> is a C loop over the elements of a list whose body may fail, and \<open>of_opt\<close> turns a loop that
  does not end into a fault. \<open>rfold_inv\<close> is the loop rule, for a body whose failures are not excluded.
\<close>

definition rbind :: "'a result \<Rightarrow> ('a \<Rightarrow> 'b result) \<Rightarrow> 'b result" where
  "rbind m f = (case m of Inl e \<Rightarrow> Inl e | Inr x \<Rightarrow> f x)"

lemma rbind_simps [simp]: "rbind (Inl e) f = Inl e" "rbind (Inr x) f = f x"
  by (simp_all add: rbind_def)

lemma rbind_Inr [simp]: "rbind m f = Inr y \<longleftrightarrow> (\<exists>x. m = Inr x \<and> f x = Inr y)"
  by (cases m) simp_all

lemma rbind_InrE:
  assumes "rbind m f = Inr y"
  obtains x where "m = Inr x" "f x = Inr y"
  using assms by auto

lemma rbind_cong [cong]: "m = n \<Longrightarrow> rbind m f = rbind n f"
  by simp

fun rfold :: "('s \<Rightarrow> 'a \<Rightarrow> 's result) \<Rightarrow> 's \<Rightarrow> 'a list \<Rightarrow> 's result" where
  "rfold f s [] = Inr s"
| "rfold f s (x # xs) = rbind (f s x) (\<lambda>s'. rfold f s' xs)"

definition of_opt :: "fault \<Rightarrow> 'a option \<Rightarrow> 'a result" where
  "of_opt e x = (case x of None \<Rightarrow> Inl e | Some y \<Rightarrow> Inr y)"

lemma of_opt_simps [simp]: "of_opt e None = Inl e" "of_opt e (Some y) = Inr y"
  by (simp_all add: of_opt_def)

lemma of_opt_Inr [simp]: "of_opt e x = Inr y \<longleftrightarrow> x = Some y"
  by (cases x) simp_all

lemma rfold_append: "rfold f s (xs @ ys) = rbind (rfold f s xs) (\<lambda>s'. rfold f s' ys)"
proof (induction xs arbitrary: s)
  case (Cons x xs)
  then show ?case by (cases "f s x") simp_all
qed simp

lemma rfold_inv:
  assumes "rfold f s xs = Inr s'" and "I 0 s"
    and "\<And>k s s'. k < length xs \<Longrightarrow> I k s \<Longrightarrow> f s (xs ! k) = Inr s' \<Longrightarrow> I (Suc k) s'"
  shows "I (length xs) s'"
  using assms
proof (induction xs arbitrary: s I)
  case (Cons x xs)
  from Cons.prems(1) obtain t where t: "f s x = Inr t" "rfold f t xs = Inr s'" by auto
  have "I (Suc 0) t" using Cons.prems(3) [of 0 s t] Cons.prems(2) t(1) by simp
  from Cons.IH [of t "\<lambda>k. I (Suc k)", OF t(2) this] Cons.prems(3) [of "Suc _"]
  show ?case by simp
qed simp

text \<open>The same without a position: an invariant of every pass.\<close>

lemma rfold_invariant:
  assumes "rfold f s xs = Inr s'" and "I s"
    and "\<And>x s s'. x \<in> set xs \<Longrightarrow> I s \<Longrightarrow> f s x = Inr s' \<Longrightarrow> I s'"
  shows "I s'"
  using rfold_inv [of f s xs s' "\<lambda>_. I"] assms by (meson nth_mem)

text \<open>A loop none of whose passes can fail.\<close>

lemma rfold_total:
  assumes "I 0 s" and "\<And>k s. k < length xs \<Longrightarrow> I k s \<Longrightarrow> \<exists>s'. f s (xs ! k) = Inr s' \<and> I (Suc k) s'"
  shows "\<exists>s'. rfold f s xs = Inr s' \<and> I (length xs) s'"
  using assms
proof (induction xs arbitrary: s I)
  case (Cons x xs)
  from Cons.prems(2) [of 0 s] Cons.prems(1) obtain t where t: "f s x = Inr t" "I (Suc 0) t" by auto
  from Cons.IH [of "\<lambda>k. I (Suc k)" t] t Cons.prems(2) [of "Suc _"] show ?case by auto
qed simp

subsection \<open>Results up to an abort\<close>

text \<open>
  \<open>yields Q m\<close>: the computation returns a value with \<open>Q\<close>, or the code calls \<open>abort\<close>; no other failure is
  possible. The rules are those of a Hoare logic for \<open>rbind\<close> and \<open>rfold\<close>.
\<close>

definition yields :: "('a \<Rightarrow> bool) \<Rightarrow> 'a result \<Rightarrow> bool" where
  "yields Q m \<longleftrightarrow> (case m of Inl e \<Rightarrow> e = Aborted | Inr x \<Rightarrow> Q x)"

lemma yields_simps [simp]: "yields Q (Inl e) \<longleftrightarrow> e = Aborted" "yields Q (Inr x) \<longleftrightarrow> Q x"
  by (simp_all add: yields_def)

lemma yields_weaken: "yields Q m \<Longrightarrow> (\<And>x. Q x \<Longrightarrow> R x) \<Longrightarrow> yields R m"
  by (auto simp: yields_def split: sum.splits)

lemma yields_rbind: "yields Q m \<Longrightarrow> (\<And>x. Q x \<Longrightarrow> yields R (f x)) \<Longrightarrow> yields R (rbind m f)"
  by (cases m) simp_all

lemma yields_rfold:
  assumes "I 0 s" and "\<And>k s. k < length xs \<Longrightarrow> I k s \<Longrightarrow> yields (I (Suc k)) (f s (xs ! k))"
  shows "yields (I (length xs)) (rfold f s xs)"
  using assms
proof (induction xs arbitrary: s I)
  case (Cons x xs)
  have "yields (\<lambda>t. yields (I (length (x # xs))) (rfold f t xs)) (f s x)"
  proof (rule yields_weaken)
    show "yields (I (Suc 0)) (f s x)" using Cons.prems(2) [of 0 s] Cons.prems(1) by simp
    fix t assume "I (Suc 0) t"
    then show "yields (I (length (x # xs))) (rfold f t xs)"
      using Cons.IH [of "\<lambda>k. I (Suc k)" t] Cons.prems(2) [of "Suc _"] by simp
  qed
  then show ?case by (cases "f s x") simp_all
qed simp

end
