(* ===== verification/Precode.thy ===== *)
theory Precode
  imports Spmat Wrkmat Tuple Results
begin

section \<open>The precode matrix and its solver (precode.c)\<close>

text \<open>
  Definitions of \<open>precode.c\<close>, function by function. Row and column numbers are natural numbers; the
  unsigned counters \<open>nz\<close> and the two checkpoints keep their width, because the code compares them
  after a wrap-around. What the solver computes is proved in the theories \<open>Precode_Ops\<close> and following.
\<close>

definition swap_at :: "'a list \<Rightarrow> nat \<Rightarrow> nat \<Rightarrow> 'a list" where
  "swap_at xs i j = xs[i := xs ! j, j := xs ! i]"

text \<open>An exchange of two entries of a permutation and the matching one in its inverse.\<close>

definition swap_pair :: "nat list \<times> nat list \<Rightarrow> nat \<Rightarrow> nat \<Rightarrow> nat list \<times> nat list" where
  "swap_pair = (\<lambda>(xs, ys) i j. let xs = swap_at xs i j in (xs, swap_at ys (xs ! i) (xs ! j)))"

subsection \<open>Permuting rows\<close>

text \<open>One cycle of \<open>precode_matrix_permute\<close>: \<open>P[at]\<close> is read and marked until a mark is met.\<close>

function permute_cycle :: "rows \<Rightarrow> int list \<Rightarrow> nat \<Rightarrow> nat \<Rightarrow> nat \<Rightarrow> (rows \<times> int list) result" where
  "permute_cycle D P i k pos =
     (if length P \<le> pos then Inl Out_Of_Bounds
      else if P ! pos < 0 then Inr (D, P)
      else permute_cycle (oswaprow D i (nat (P ! pos)) k) (P[pos := - 1]) i k (nat (P ! pos)))"
  by pat_completeness auto
termination
proof (relation "measure (\<lambda>(D, P, i, k, pos). length (filter (\<lambda>x. 0 \<le> x) P))", goal_cases)
  case (2 D P i k pos)
  then have pos: "pos < length P" "0 \<le> P ! pos" by simp_all
  have "length (filter (\<lambda>x. 0 \<le> x) (P[pos := - 1])) < length (filter (\<lambda>x. 0 \<le> x) P)"
    using pos by (simp add: upd_conv_take_nth_drop id_take_nth_drop [of pos P, THEN arg_cong, of "\<lambda>P. length (filter _ P)"])
  then show ?case by simp
qed simp

declare permute_cycle.simps [simp del]

definition precode_matrix_permute :: "rows \<Rightarrow> int list \<Rightarrow> nat \<Rightarrow> nat \<Rightarrow> rows result" where
  "precode_matrix_permute D P n k =
     rbind (rfold (\<lambda>(D, P) i. permute_cycle D P i k i) (D, P) [0..<n]) (\<lambda>(D, P). Inr D)"

subsection \<open>Running a schedule\<close>

definition precode_matrix_apply_op :: "nat \<Rightarrow> sched_op list \<Rightarrow> rows \<Rightarrow> nat \<Rightarrow> rows result" where
  "precode_matrix_apply_op k ops D i =
     (if length ops \<le> i then Inl Out_Of_Bounds
      else let op = ops ! i
           in Inr (if op_beta op \<noteq> 0 then oaxpy D D (op_i op) (op_j op) k (op_beta op)
                   else oscal D (op_i op) k (of_nat (op_j op))))"

text \<open>
  The four loops: forward to the second checkpoint, back from the first to the start, on from the
  second to the end, and forward again to the first. The second counts an \<open>int\<close> down from the
  unsigned checkpoint; the fourth compares with the unsigned one.
\<close>

definition precode_matrix_apply_sched :: "nat \<Rightarrow> rows \<Rightarrow> schedule \<Rightarrow> rows result" where
  "precode_matrix_apply_sched k D S =
     (let ops = s_ops S; m0 = s_mark0 S; m1 = s_mark1 S
      in rfold (precode_matrix_apply_op k ops) D
           ([0..<unat m1] @ rev [0..<nat (sint m0 + 1)] @ [unat m1..<length ops] @ [0..<unat m0 + 1]))"

subsection \<open>The sparse part of the matrix\<close>

definition precode_matrix_make_identity :: "spmat \<Rightarrow> nat \<Rightarrow> nat \<Rightarrow> nat \<Rightarrow> spmat" where
  "precode_matrix_make_identity A dim m n = foldl (\<lambda>A diag. spmat_push A (m + diag) (n + diag)) A [0..<dim]"

definition precode_matrix_make_LDPC1 :: "spmat \<Rightarrow> nat \<Rightarrow> nat \<Rightarrow> spmat" where
  "precode_matrix_make_LDPC1 A S B =
     foldl (\<lambda>A col.
       let submtx = col div S;
           b1 = col mod S;
           b2 = (col + submtx + 1) mod S;
           b3 = (col + 2 * (submtx + 1)) mod S
       in spmat_push (spmat_push (spmat_push A b1 col) b2 col) b3 col) A [0..<B]"

definition precode_matrix_make_LDPC2 :: "spmat \<Rightarrow> nat \<Rightarrow> nat \<Rightarrow> nat \<Rightarrow> spmat" where
  "precode_matrix_make_LDPC2 A W S P =
     foldl (\<lambda>A idx.
       let b1 = idx mod P;
           b2 = (idx + 1) mod P
       in spmat_push (spmat_push A idx (W + b1)) idx (W + b2)) A [0..<S]"

definition precode_matrix_make_G_ENC :: "spmat \<Rightarrow> params \<Rightarrow> spmat result" where
  "precode_matrix_make_G_ENC A P =
     rfold (\<lambda>A row. rbind (of_opt Diverges (params_set_idxs (of_nat (row - pS P - pH P)) P))
                      (\<lambda>cs. Inr (foldl (\<lambda>A c. spmat_push A row c) A cs))) A [pS P + pH P..<pL P]"

definition precode_matrix_gen :: "params \<Rightarrow> nat \<Rightarrow> spmat result" where
  "precode_matrix_gen P overhead =
     (let A = spmat_new (pL P + overhead) (pL P);
          A = precode_matrix_make_LDPC1 A (pS P) (pB P);
          A = precode_matrix_make_identity A (pS P) 0 (pB P);
          A = precode_matrix_make_LDPC2 A (pW P) (pS P) (pP P)
      in precode_matrix_make_G_ENC A P)"

subsection \<open>The dense rows\<close>

text \<open>A column from the one to its right: each entry times the generator, then two ones flipped.\<close>

definition hdpc_column :: "nat \<Rightarrow> octmat \<Rightarrow> nat \<Rightarrow> octmat" where
  "hdpc_column m M col =
     (let M = foldl (\<lambda>M row. om_set M row col
                  (if om_A M row (col + 1) = 0 then 0
                   else OCT_EXP ! (unat (OCT_LOG ! unat (om_A M row (col + 1))) + 1))) M [0..<m];
          b1 = unat (rnd_get (of_nat (col + 1)) 6 (of_nat m));
          b2 = (b1 + unat (rnd_get (of_nat (col + 1)) 7 (of_nat (m - 1))) + 1) mod m;
          M = om_set M b1 col (om_A M b1 col XOR 1)
      in om_set M b2 col (om_A M b2 col XOR 1))"

definition precode_matrix_make_HDPC :: "params \<Rightarrow> octmat result" where
  "precode_matrix_make_HDPC P =
     (let m = pH P; n = pKprime P + pS P
      in if m = 0 \<or> n = 0 then Inl Assert_Failed
         else if m = 1 \<and> 1 < n then Inl Div_By_Zero
         else Inr (foldl (hdpc_column m)
                (foldl (\<lambda>M row. om_set M row (n - 1) (OCT_EXP ! row)) (om_resize m n) [0..<m]) (rev [0..<n - 1])))"

subsection \<open>Ordering rows and columns\<close>

definition precode_matrix_sort :: "params \<Rightarrow> spmat \<Rightarrow> schedule \<Rightarrow> schedule" where
  "precode_matrix_sort P A S =
     (let rows = sp_rows A;
          d = map (\<lambda>row. (row + pS P + pH P) mod rows) [0..<rows];
          di = foldl (\<lambda>di i. di[d ! i := i]) (s_di S) [0..<rows];
          nz = foldl (\<lambda>nz row. let n = spmat_nnz A (d ! row) 0 (sp_cols A - pP P)
                                in nz[d ! row := of_nat (if n = 0 then sp_cols A else n)]) (s_nz S) [0..<rows]
      in S\<lparr>s_d := d, s_di := di, s_nz := nz\<rparr>)"

text \<open>The inner loop of \<open>precode_matrix_choose\<close>: rows are popped until one is still in \<open>V\<close> with degree \<open>b\<close>.\<close>

function pop_row :: "nat \<Rightarrow> schedule \<Rightarrow> nat \<Rightarrow> nat list \<Rightarrow> nat option \<times> nat list" where
  "pop_row v0 S b xs =
     (if xs = [] then (None, [])
      else let chosen = last xs
           in if v0 \<le> s_di S ! chosen \<and> s_nz S ! chosen = of_nat b then (Some (s_di S ! chosen), butlast xs)
              else pop_row v0 S b (butlast xs))"
  by pat_completeness auto
termination by (relation "measure (\<lambda>(v0, S, b, xs). length xs)") auto

declare pop_row.simps [simp del]

lemma pop_row_Some: "pop_row v0 S b xs = (Some p, ys) \<Longrightarrow>
  v0 \<le> p \<and> (\<exists>x \<in> set xs. p = s_di S ! x \<and> s_nz S ! x = of_nat b) \<and> set ys \<subseteq> set xs"
proof (induction v0 S b xs rule: pop_row.induct)
  case (1 v0 S b xs)
  show ?case
  proof (cases "xs = []")
    case True
    then show ?thesis using "1.prems" by (simp add: pop_row.simps)
  next
    case False
    show ?thesis
    proof (cases "v0 \<le> s_di S ! last xs \<and> s_nz S ! last xs = of_nat b")
      case True
      with False "1.prems" show ?thesis
        by (auto simp: pop_row.simps [of v0 S b xs] Let_def dest: in_set_butlastD intro: bexI [of _ "last xs"])
    next
      case h: False
      with False "1.prems" have "pop_row v0 S b (butlast xs) = (Some p, ys)"
        by (auto simp: pop_row.simps [of v0 S b xs] Let_def)
      from "1.IH" [OF False refl h this] show ?thesis by (auto dest: in_set_butlastD)
    qed
  qed
qed

definition precode_matrix_choose :: "nat \<Rightarrow> nat \<Rightarrow> schedule \<Rightarrow> spmat \<Rightarrow> nat \<times> spmat" where
  "precode_matrix_choose v0 Srows S NZT =
     (case pop_row v0 S 1 (idxs NZT ! 1) of
        (Some p, xs) \<Rightarrow> (p, NZT\<lparr>idxs := (idxs NZT)[1 := xs]\<rparr>)
      | (None, xs) \<Rightarrow>
          (let NZT = NZT\<lparr>idxs := (idxs NZT)[1 := xs]\<rparr>
           in case pop_row v0 S 2 (idxs NZT ! 2) of
                (Some p, xs) \<Rightarrow> (p, NZT\<lparr>idxs := (idxs NZT)[2 := xs]\<rparr>)
              | (None, xs) \<Rightarrow> (Srows, NZT\<lparr>idxs := (idxs NZT)[2 := xs]\<rparr>)))"

text \<open>
  The columns of a row found in the range from \<open>s\<close> to \<open>e\<close>, at most \<open>nz\<close> of them; \<open>at\<close> has room for two.
\<close>

fun nz_scan :: "schedule \<Rightarrow> nat \<Rightarrow> nat \<Rightarrow> nat \<Rightarrow> nat list \<Rightarrow> nat list \<Rightarrow> nat list result" where
  "nz_scan S s e lim [] found = Inr found"
| "nz_scan S s e lim (x # xs) found =
     (if lim \<le> length found then Inr found
      else let col = s_ci S ! x
           in if s \<le> col \<and> col < e
              then (if 2 \<le> length found then Inl Out_Of_Bounds else nz_scan S s e lim xs (found @ [col]))
              else nz_scan S s e lim xs found)"

definition precode_row_nz_at :: "spmat \<Rightarrow> nat \<Rightarrow> nat \<Rightarrow> nat \<Rightarrow> schedule \<Rightarrow> (nat \<times> nat \<times> nat) result" where
  "precode_row_nz_at A row s e S =
     rbind (nz_scan S s e (unat (s_nz S ! (s_d S ! row))) (idxs A ! (s_d S ! row)) [])
       (\<lambda>found. let a0 = (if 0 < length found then found ! 0 else e);
                    a1 = (if 1 < length found then found ! 1 else e)
                in Inr (length found, min a0 a1, max a0 a1))"

definition precode_matrix_swap_cols :: "spmat \<Rightarrow> nat \<Rightarrow> nat \<Rightarrow> schedule \<Rightarrow> (nat \<times> schedule) result" where
  "precode_matrix_swap_cols A v0 Vcols S =
     rbind (precode_row_nz_at A v0 v0 (v0 + Vcols) S) (\<lambda>(r, ones0, ones1).
       let Vlast = v0 + Vcols - 1;
           st = (s_c S, s_ci S);
           st = (if ones0 \<noteq> v0 then swap_pair st v0 ones0 else st);
           st = (if r = 2 \<and> ones1 \<noteq> Vlast then swap_pair st Vlast ones1 else st)
       in Inr (r, S\<lparr>s_c := fst st, s_ci := snd st\<rparr>))"

text \<open>Bringing row \<open>nzrow\<close> to place \<open>row\<close>.\<close>

definition swap_rows :: "schedule \<Rightarrow> nat \<Rightarrow> nat \<Rightarrow> schedule" where
  "swap_rows S row nzrow =
     (if row \<noteq> nzrow
      then let st = swap_pair (s_d S, s_di S) row nzrow in S\<lparr>s_d := fst st, s_di := snd st\<rparr>
      else S)"

definition count_down :: "schedule \<times> spmat \<Rightarrow> nat \<Rightarrow> schedule \<times> spmat" where
  "count_down = (\<lambda>(S, NZT) row.
     let nz = s_nz S ! row - 1;
         S = S\<lparr>s_nz := (s_nz S)[row := nz]\<rparr>
     in (S, if 0 < sint nz \<and> sint nz < 3 then spmat_push NZT (unat nz) row else NZT))"

definition precode_matrix_update_nnz :: "spmat \<Rightarrow> nat \<Rightarrow> nat \<Rightarrow> nat \<Rightarrow> schedule \<Rightarrow> spmat \<Rightarrow> schedule \<times> spmat" where
  "precode_matrix_update_nnz AT v0 Vcols r S NZT =
     foldl (\<lambda>st col. foldl count_down st (idxs AT ! (s_c (fst st) ! (v0 + Vcols - col - 1))))
       (foldl count_down (S, NZT) (idxs AT ! (s_c S ! v0))) [0..<r - 1]"

text \<open>
  The loop \<open>while (i + u < P->L)\<close>; it ends because each pass places one more row below \<open>Srows\<close>.
\<close>

lemma choose_ge: "precode_matrix_choose v0 Srows S NZT = (chosen, NZT') \<Longrightarrow> chosen < Srows \<Longrightarrow> v0 \<le> chosen"
  by (auto simp: precode_matrix_choose_def Let_def dest: pop_row_Some split: prod.splits option.splits)

function precond_loop :: "params \<Rightarrow> spmat \<Rightarrow> spmat \<Rightarrow> nat \<Rightarrow> nat \<Rightarrow> schedule \<Rightarrow> spmat \<Rightarrow> (nat \<times> schedule) result" where
  "precond_loop P A AT i u S NZT =
     (if i + u < pL P
      then (let Srows = sp_rows A - pH P; Vcols = sp_cols A - i - u
            in case precode_matrix_choose i Srows S NZT of (chosen, NZT) \<Rightarrow>
                 if Srows \<le> chosen then Inr (i, S)
                 else (case precode_matrix_swap_cols A i Vcols (swap_rows S i chosen) of
                         Inl e \<Rightarrow> Inl e
                       | Inr (r, S) \<Rightarrow>
                           (case precode_matrix_update_nnz AT i Vcols r S NZT of (S, NZT) \<Rightarrow>
                              precond_loop P A AT (i + 1) (u + r - 1) S NZT)))
      else Inr (i, S))"
  by pat_completeness auto
termination
  by (relation "measure (\<lambda>(P, A, AT, i, u, S, NZT). sp_rows A - pH P - i)")
     (auto dest!: sym [of "(_, _)" "precode_matrix_choose _ _ _ _"] choose_ge)

declare precond_loop.simps [simp del]

definition precode_matrix_precond :: "params \<Rightarrow> spmat \<Rightarrow> spmat \<Rightarrow> schedule \<Rightarrow> schedule result" where
  "precode_matrix_precond P A AT S =
     (let rows = sp_rows A; Srows = rows - pH P;
          NZT = foldl (\<lambda>NZT row. let nz = s_nz S ! (s_d S ! row)
                                  in if nz < 3 then spmat_push NZT (unat nz) (s_d S ! row) else NZT)
                  (spmat_new 3 rows) [0..<Srows]
      in rbind (precond_loop P A AT 0 (pP P) S NZT) (\<lambda>(i, S). Inr (S\<lparr>s_i := i, s_u := pL P - i\<rparr>)))"

subsection \<open>Elimination\<close>

text \<open>A row operation on \<open>U\<close> and its record in the schedule.\<close>

definition axpy_push :: "wrkmat \<times> schedule \<Rightarrow> nat \<Rightarrow> nat \<Rightarrow> u8 \<Rightarrow> (wrkmat \<times> schedule) result" where
  "axpy_push US i j beta = rbind (wrkmat_axpy (fst US) i j beta) (\<lambda>U. Inr (U, sched_push (snd US) i j beta))"

definition precode_matrix_fwd_GE ::
    "spmat \<Rightarrow> int \<Rightarrow> nat \<Rightarrow> wrkmat \<times> schedule \<Rightarrow> (wrkmat \<times> schedule) result" where
  "precode_matrix_fwd_GE AT s e US =
     rfold (\<lambda>(U, S) row.
       let mv = (if s < int row then int row else s)
       in rfold (\<lambda>(U, S) tmp.
            let h = s_di S ! tmp
            in if mv < int h \<and> h < e
               then axpy_push (U, S) tmp (s_d S ! row) 1
               else Inr (U, S)) (U, S) (idxs AT ! (s_c S ! row)))
       US [0..<s_i (snd US)]"

definition precode_matrix_fill_U :: "wrkmat \<Rightarrow> spmat \<Rightarrow> schedule \<Rightarrow> wrkmat result" where
  "precode_matrix_fill_U U A S =
     rfold (\<lambda>U i. rfold (\<lambda>U x.
        let col = s_ci S ! x
        in if s_i S \<le> col then wrkmat_set U i (col - s_i S) 1 else Inr U) U (idxs A ! i)) U [0..<sp_rows A]"

definition fill_UL :: "params \<Rightarrow> schedule \<Rightarrow> octmat \<Rightarrow> octmat" where
  "fill_UL P S HDPC =
     foldl (\<lambda>UL row. om_set
        (foldl (\<lambda>UL col. om_set UL row col (om_A HDPC row (s_c S ! (om_cols HDPC - (s_u S - pH P) + col)))) UL [0..<s_u S - pH P])
        row (row + (s_u S - pH P)) 1) (om_resize (2 * pH P) (s_u S)) [0..<pH P]"

definition precode_matrix_fill_HDPC :: "params \<Rightarrow> wrkmat \<times> schedule \<Rightarrow> (wrkmat \<times> schedule) result" where
  "precode_matrix_fill_HDPC P US =
     rbind (precode_matrix_make_HDPC P) (\<lambda>HDPC.
       let S = snd US; U = wrkmat_assign_block (fst US) (fill_UL P S HDPC) (pS P) (pH P)
       in rfold (\<lambda>US row. rfold (\<lambda>(U, S) h.
            let beta = om_A HDPC h (s_c S ! row); t = s_d S ! (w_rows U - pH P + h)
            in if beta \<noteq> 0
               then axpy_push (U, S) t (s_d S ! row) beta
               else Inr (U, S)) US [0..<pH P]) (U, S) [0..<s_i S])"

definition precode_matrix_make_U :: "params \<Rightarrow> spmat \<Rightarrow> spmat \<Rightarrow> schedule \<Rightarrow> (wrkmat \<times> schedule) result" where
  "precode_matrix_make_U P A AT S =
     rbind (precode_matrix_fill_U (wrkmat_new (sp_rows A) (s_u S)) A S) (\<lambda>U.
     rbind (precode_matrix_fwd_GE AT 0 (s_i S) (U, S)) (\<lambda>(U, S).
       let S = S\<lparr>s_mark0 := of_nat (length (s_ops S)) - 1\<rparr>
       in precode_matrix_fwd_GE AT (int (s_i S) - 1) (sp_rows A - pH P) (U, S)))"

text \<open>The elimination loops count the rows that are left, \<open>row\<close> being \<open>P->L\<close> less that number.\<close>

fun solve_gf2_loop :: "params \<Rightarrow> nat \<Rightarrow> wrkmat \<times> schedule \<Rightarrow> (nat \<times> wrkmat \<times> schedule) result" where
  "solve_gf2_loop P 0 (U, S) = Inr (pL P, U, S)"
| "solve_gf2_loop P (Suc n) (U, S) =
     (let row = pL P - Suc n; col = row - s_i S; rows = w_rows U - pH P
      in case List.find (\<lambda>nzrow. wrkmat_at U (s_d S ! nzrow) col \<noteq> 0) [row..<rows] of
           None \<Rightarrow> Inr (row, U, S)
         | Some nzrow \<Rightarrow>
             rbind (rfold (\<lambda>(U, S) del_row.
                if wrkmat_at U (s_d S ! del_row) col = 0 then Inr (U, S)
                else axpy_push (U, S) (s_d S ! del_row) (s_d S ! row) 1)
                (U, swap_rows S row nzrow) [row + 1..<rows])
              (\<lambda>US. solve_gf2_loop P n US))"

definition precode_matrix_solve_gf2 :: "params \<Rightarrow> wrkmat \<times> schedule \<Rightarrow> (nat \<times> wrkmat \<times> schedule) result" where
  "precode_matrix_solve_gf2 P US = solve_gf2_loop P (pL P - s_i (snd US)) US"

fun solve_gf256_loop :: "params \<Rightarrow> nat \<Rightarrow> wrkmat \<times> schedule \<Rightarrow> (nat \<times> wrkmat \<times> schedule) result" where
  "solve_gf256_loop P 0 (U, S) = Inr (pL P, U, S)"
| "solve_gf256_loop P (Suc n) (U, S) =
     (let row = pL P - Suc n; col = row - s_i S; rows = w_rows U
      in case List.find (\<lambda>nzrow. wrkmat_at U (s_d S ! nzrow) col \<noteq> 0) [row..<rows] of
           None \<Rightarrow> Inr (row, U, S)
         | Some nzrow \<Rightarrow>
             let beta = wrkmat_at U (s_d S ! nzrow) col;
                 S = swap_rows S row nzrow; inv = OCT_INV ! unat beta
             in rbind (if 1 < beta
                       then rbind (wrkmat_scal U (s_d S ! row) inv)
                              (\<lambda>U. Inr (U, sched_push S (s_d S ! row) (unat inv) 0))
                       else Inr (U, S)) (\<lambda>US.
                rbind (rfold (\<lambda>(U, S) del_row.
                  let beta = wrkmat_at U (s_d S ! del_row) col
                  in if beta = 0 then Inr (U, S)
                     else axpy_push (U, S) (s_d S ! del_row) (s_d S ! row) beta)
                  US [row + 1..<rows])
                (\<lambda>US. solve_gf256_loop P n US)))"

definition precode_matrix_solve_gf256 :: "params \<Rightarrow> wrkmat \<times> schedule \<Rightarrow> (nat \<times> wrkmat \<times> schedule) result" where
  "precode_matrix_solve_gf256 P US = solve_gf256_loop P (pL P - s_i (snd US)) US"

definition precode_matrix_backsolve :: "params \<Rightarrow> spmat \<Rightarrow> wrkmat \<Rightarrow> schedule \<Rightarrow> schedule" where
  "precode_matrix_backsolve P AT U S =
     foldl (\<lambda>S row.
       foldl (\<lambda>S del_row.
           let beta = wrkmat_at U (s_d S ! del_row) (row - s_i S)
           in if beta = 0 then S else sched_push S (s_d S ! del_row) (s_d S ! row) beta)
         (foldl (\<lambda>S x. let del_row = s_di S ! x
                        in if del_row < s_i S then sched_push S (s_d S ! del_row) (s_d S ! row) 1 else S)
            S (idxs AT ! (s_c S ! row)))
         [s_i S..<row]) S (rev [s_i S..<pL P])"

subsection \<open>The whole solver\<close>

text \<open>\<open>None\<close> is the null pointer: the matrix has not full rank.\<close>

definition precode_matrix_invert :: "params \<Rightarrow> spmat \<Rightarrow> schedule option result" where
  "precode_matrix_invert P A =
     (let S = precode_matrix_sort P A (sched_new (sp_rows A) (sp_cols A)); AT = spmat_transpose A
      in rbind (precode_matrix_precond P A AT S) (\<lambda>S.
         rbind (precode_matrix_make_U P A AT S) (\<lambda>US.
         rbind (if pL P \<le> sp_rows A - pH P then precode_matrix_solve_gf2 P US else Inr (0, US)) (\<lambda>(rank, US).
         rbind (if rank < pL P
                then rbind (precode_matrix_fill_HDPC P US) (precode_matrix_solve_gf256 P)
                else Inr (rank, US)) (\<lambda>(rank, U, S).
         Inr (if rank < pL P then None
              else Some (precode_matrix_backsolve P AT U (S\<lparr>s_mark1 := of_nat (length (s_ops S)) - 1\<rparr>))))))))"

definition precode_matrix_intermediate :: "octmat \<Rightarrow> schedule \<Rightarrow> octmat result" where
  "precode_matrix_intermediate D S =
     rbind (precode_matrix_apply_sched (om_cols D) (om_data D) S) (\<lambda>X.
     rbind (precode_matrix_permute X (map int (s_di S)) (s_rows S) (om_cols D)) (\<lambda>X.
     rbind (precode_matrix_permute X (map int (s_c S)) (s_cols S) (om_cols D)) (\<lambda>X.
       Inr (D\<lparr>om_data := X\<rparr>))))"

end
