(* ===== verification/Row_Ops.thy ===== *)
theory Row_Ops
  imports Precode
begin

section \<open>Row operations as linear algebra\<close>

text \<open>
  The operations of a schedule on a matrix given as a function of row and column, whatever its shape:
  \<open>run\<close> executes a list of them. They act on the matrix of a linear system and on its right-hand side
  alike, so a solution stays a solution (\<open>solves_run\<close>), operations on disjoint rows commute
  (\<open>run_swap\<close>), additions are undone by the same additions in reverse order (\<open>run_undo\<close>), and the
  schedule runner of the code is \<open>run\<close> on the rows of its octet matrix (\<open>apply_ops_run\<close>).
\<close>

type_synonym mat = "nat \<Rightarrow> nat \<Rightarrow> u8"

definition row_op :: "mat \<Rightarrow> sched_op \<Rightarrow> mat" where
  "row_op M op = M(op_i op := (\<lambda>c. if op_beta op \<noteq> 0 then M (op_i op) c XOR gf_mul (op_beta op) (M (op_j op) c)
                                     else gf_mul (of_nat (op_j op)) (M (op_i op) c)))"

definition run :: "sched_op list \<Rightarrow> mat \<Rightarrow> mat" where
  "run ops M = foldl row_op M ops"

definition op_rows :: "sched_op \<Rightarrow> nat set" where
  "op_rows op = {op_i op} \<union> (if op_beta op \<noteq> 0 then {op_j op} else {})"

text \<open>An operation the schedules contain: in range, and invertible.\<close>

definition op_ok :: "nat \<Rightarrow> sched_op \<Rightarrow> bool" where
  "op_ok n op \<longleftrightarrow> op_i op < n
     \<and> (if op_beta op \<noteq> 0 then op_j op < n \<and> op_i op \<noteq> op_j op else of_nat (op_j op) \<noteq> (0 :: u8))"

lemma run_simps [simp]:
  "run [] M = M" "run (op # ops) M = run ops (row_op M op)" "run (xs @ ys) M = run ys (run xs M)"
  by (simp_all add: run_def)

lemma row_op_other: "r \<noteq> op_i op \<Longrightarrow> row_op M op r = M r"
  by (simp add: row_op_def)

lemma run_other: "r \<notin> op_i ` set ops \<Longrightarrow> run ops M r = M r"
  by (induction ops arbitrary: M) (auto simp: row_op_other)

lemma row_op_local: "op_rows op \<subseteq> R \<Longrightarrow> (\<And>r. r \<in> R \<Longrightarrow> M r = N r) \<Longrightarrow> r \<in> R \<Longrightarrow> row_op M op r = row_op N op r"
proof -
  assume R: "op_rows op \<subseteq> R" and eq: "\<And>r. r \<in> R \<Longrightarrow> M r = N r" and r: "r \<in> R"
  have "M (op_i op) = N (op_i op)" "op_beta op \<noteq> 0 \<Longrightarrow> M (op_j op) = N (op_j op)"
    using R by (auto simp: op_rows_def intro: eq)
  then have "row_op M op (op_i op) = row_op N op (op_i op)"
    by (cases "op_beta op = 0") (simp_all add: row_op_def)
  then show ?thesis using eq [OF r] by (cases "r = op_i op") (simp_all add: row_op_other)
qed

lemma run_local:
  "(\<And>op. op \<in> set ops \<Longrightarrow> op_rows op \<subseteq> R) \<Longrightarrow> (\<And>r. r \<in> R \<Longrightarrow> M r = N r) \<Longrightarrow> r \<in> R \<Longrightarrow> run ops M r = run ops N r"
proof (induction ops arbitrary: M N)
  case (Cons op ops)
  have "op_rows op \<subseteq> R" using Cons.prems(1) by simp
  then have "row_op M op r = row_op N op r" if "r \<in> R" for r
    by (rule row_op_local) (rule Cons.prems, assumption, rule that)
  then have "run ops (row_op M op) r = run ops (row_op N op) r"
    using Cons.prems(1) by (intro Cons.IH [OF _ _ Cons.prems(3)]) auto
  then show ?case by simp
qed simp

text \<open>A row depends on the column it is in only.\<close>

lemma row_op_column: "(\<And>r. M r c = N r d) \<Longrightarrow> row_op M op r c = row_op N op r d"
  by (simp add: row_op_def)

lemma run_column: "(\<And>r. M r c = N r d) \<Longrightarrow> run ops M r c = run ops N r d"
proof (induction ops arbitrary: M N)
  case (Cons op ops)
  have "row_op M op r c = row_op N op r d" for r by (rule row_op_column) (rule Cons.prems)
  then have "run ops (row_op M op) r c = run ops (row_op N op) r d" by (rule Cons.IH)
  then show ?case by simp
qed simp

lemma run_swap:
  assumes "\<And>op. op \<in> set xs \<Longrightarrow> op_rows op \<subseteq> X" and "\<And>op. op \<in> set ys \<Longrightarrow> op_rows op \<subseteq> Y" and "X \<inter> Y = {}"
  shows "run (xs @ ys) M = run (ys @ xs) M"
proof
  fix r
  have x: "op_i ` set xs \<subseteq> X" and y: "op_i ` set ys \<subseteq> Y" using assms(1,2) by (fastforce simp: op_rows_def)+
  show "run (xs @ ys) M r = run (ys @ xs) M r"
  proof (cases "r \<in> X")
    case True
    have "run xs (run ys M) r = run xs M r"
      using assms y by (intro run_local [of xs X, OF _ _ True]) (auto intro!: run_other)
    moreover have "run ys (run xs M) r = run xs M r" using True assms(3) y by (intro run_other) auto
    ultimately show ?thesis by simp
  next
    case False
    then have r: "r \<notin> op_i ` set xs" using x by blast
    show ?thesis
    proof (cases "r \<in> Y")
      case True
      have "run ys (run xs M) r = run ys M r"
        using assms x by (intro run_local [of ys Y, OF _ _ True]) (auto intro!: run_other)
      then show ?thesis using r by (simp add: run_other)
    next
      case False
      then have "r \<notin> op_i ` set ys" using y by blast
      with r show ?thesis by (simp add: run_other)
    qed
  qed
qed

text \<open>An addition of a row is its own inverse.\<close>

lemma row_op_undo: "op_beta op \<noteq> 0 \<Longrightarrow> op_i op \<noteq> op_j op \<Longrightarrow> row_op (row_op M op) op = M"
  by (rule ext, rule ext) (simp add: row_op_def xor.assoc)

lemma run_undo: "(\<And>op. op \<in> set ops \<Longrightarrow> op_beta op \<noteq> 0 \<and> op_i op \<noteq> op_j op) \<Longrightarrow> run (rev ops) (run ops M) = M"
proof (induction ops arbitrary: M)
  case (Cons op ops)
  then show ?case by (simp add: row_op_undo)
qed simp

subsection \<open>Linear systems\<close>

definition solves :: "nat \<Rightarrow> nat \<Rightarrow> nat \<Rightarrow> mat \<Rightarrow> mat \<Rightarrow> mat \<Rightarrow> bool" where
  "solves n l k M C D \<longleftrightarrow> (\<forall>r < n. \<forall>x < k. D r x = xsum (\<lambda>c. gf_mul (M r c) (C c x)) l)"

lemma xsum_xor: "xsum (\<lambda>i. f i XOR g i) n = xsum f n XOR xsum g n"
  by (induction n) (simp_all add: ac_simps)

lemma xsum_mul: "xsum (\<lambda>i. gf_mul b (f i)) n = gf_mul b (xsum f n)"
  by (induction n) (simp_all add: gf_mul_xor_right)

lemma xsum_0: "(\<And>i. i < n \<Longrightarrow> f i = 0) \<Longrightarrow> xsum f n = 0"
  by (induction n) auto

lemma xsum_single: "j < n \<Longrightarrow> (\<And>i. i < n \<Longrightarrow> i \<noteq> j \<Longrightarrow> f i = 0) \<Longrightarrow> xsum f n = f j"
proof (induction n)
  case (Suc n)
  then show ?case by (cases "j = n") (auto simp: xsum_0)
qed simp

lemma solves_row_op:
  assumes "solves n l k M C D" and "op_ok n op"
  shows "solves n l k (row_op M op) C (row_op D op)"
  unfolding solves_def
proof (intro allI impI)
  fix r x assume r: "r < n" and x: "x < k"
  have D: "D r x = xsum (\<lambda>c. gf_mul (M r c) (C c x)) l" if "r < n" for r
    using assms(1) that x by (simp add: solves_def)
  show "row_op D op r x = xsum (\<lambda>c. gf_mul (row_op M op r c) (C c x)) l"
  proof (cases "r = op_i op")
    case True
    then show ?thesis
      using assms(2) D [OF r] D [of "op_j op"]
      by (simp add: row_op_def op_ok_def gf_mul_xor_left gf_mul_assoc xsum_xor xsum_mul split: if_splits)
  next
    case False
    then show ?thesis using D [OF r] by (simp add: row_op_other)
  qed
qed

lemma solves_run:
  "solves n l k M C D \<Longrightarrow> (\<And>op. op \<in> set ops \<Longrightarrow> op_ok n op) \<Longrightarrow> solves n l k (run ops M) C (run ops D)"
  by (induction ops arbitrary: M D) (simp_all add: solves_row_op)

subsection \<open>The code runs them on octet rows\<close>

definition mat_of :: "rows \<Rightarrow> mat" where
  "mat_of D = (\<lambda>r c. D ! r ! c)"

text \<open>Two matrices with the same entries in the first \<open>n\<close> rows and \<open>k\<close> columns.\<close>

definition agree :: "nat \<Rightarrow> nat \<Rightarrow> mat \<Rightarrow> mat \<Rightarrow> bool" where
  "agree n k M N \<longleftrightarrow> (\<forall>r < n. \<forall>c < k. M r c = N r c)"

lemma apply_op_agree:
  assumes "is_mat n k D" and "agree n k (mat_of D) M" and "i < length ops" and "op_ok n (ops ! i)"
  shows "\<exists>D'. precode_matrix_apply_op k ops D i = Inr D' \<and> is_mat n k D' \<and> agree n k (mat_of D') (row_op M (ops ! i))"
proof -
  let ?op = "ops ! i"
  let ?D = "if op_beta ?op \<noteq> 0 then oaxpy D D (op_i ?op) (op_j ?op) k (op_beta ?op) else oscal D (op_i ?op) k (of_nat (op_j ?op))"
  have eq: "precode_matrix_apply_op k ops D i = Inr ?D" and m: "is_mat n k ?D"
    using assms(1,3) by (simp_all add: precode_matrix_apply_op_def Let_def is_mat_ops)
  have "?D ! r ! c = row_op M ?op r c" if rc: "r < n" "c < k" for r c
  proof -
    have M: "D ! r ! c = M r c" if "r < n" for r using assms(2) that rc(2) by (simp add: agree_def mat_of_def)
    have i: "op_i ?op < n" using assms(4) by (simp add: op_ok_def)
    show ?thesis
      using assms(4) oaxpy_nth [OF assms(1) i rc, of D "op_j ?op" "op_beta ?op"]
        oscal_nth [OF assms(1) i rc, of "of_nat (op_j ?op)"] M [OF rc(1)] M [OF i] M [of "op_j ?op"]
      by (auto simp: row_op_def op_ok_def split: if_splits)
  qed
  then have "agree n k (mat_of ?D) (row_op M ?op)" by (simp add: agree_def mat_of_def)
  with eq m show ?thesis by blast
qed

lemma apply_ops_run:
  assumes "is_mat n k D" and "\<And>i. i \<in> set is \<Longrightarrow> i < length ops \<and> op_ok n (ops ! i)"
  shows "\<exists>D'. rfold (precode_matrix_apply_op k ops) D is = Inr D' \<and> is_mat n k D'
    \<and> agree n k (mat_of D') (run (map ((!) ops) is) (mat_of D))"
proof -
  have "agree n k (mat_of D) M \<Longrightarrow> \<exists>D'. rfold (precode_matrix_apply_op k ops) D is = Inr D' \<and> is_mat n k D'
    \<and> agree n k (mat_of D') (run (map ((!) ops) is) M)" for M
    using assms
  proof (induction "is" arbitrary: D M)
    case (Cons i "is")
    from apply_op_agree [OF Cons.prems(2,1), of i ops] Cons.prems(3) [of i] obtain D1 where
      D1: "precode_matrix_apply_op k ops D i = Inr D1" "is_mat n k D1" "agree n k (mat_of D1) (row_op M (ops ! i))" by auto
    from Cons.IH [OF D1(3,2)] Cons.prems(3) D1(1) show ?case by simp
  qed simp
  then show ?thesis by (simp add: agree_def)
qed

text \<open>The operations \<open>precode_matrix_apply_sched\<close> executes, when the checkpoints are in the schedule.\<close>

lemma map_nth_upt: "b \<le> length xs \<Longrightarrow> map ((!) xs) [a..<b] = drop a (take b xs)"
  by (rule nth_equalityI) (auto simp: nth_append)

lemma apply_sched_run:
  assumes "is_mat n k D" and "\<And>op. op \<in> set (s_ops S) \<Longrightarrow> op_ok n op" and "length (s_ops S) < 2147483648"
    and "unat (s_mark0 S) < length (s_ops S)" and "unat (s_mark1 S) < length (s_ops S)"
  defines "m0 \<equiv> Suc (unat (s_mark0 S))" and "m1 \<equiv> unat (s_mark1 S)"
  shows "\<exists>D'. precode_matrix_apply_sched k D S = Inr D' \<and> is_mat n k D'
    \<and> agree n k (mat_of D') (run (take m1 (s_ops S) @ rev (take m0 (s_ops S)) @ drop m1 (s_ops S) @ take m0 (s_ops S)) (mat_of D))"
proof -
  let ?ops = "s_ops S"
  have "uint (s_mark0 S) < 2147483648"
  proof -
    have "unat (s_mark0 S) < 2147483648" using assms(3,4) by (rule less_trans [rotated])
    then have "int (unat (s_mark0 S)) < 2147483648" by linarith
    then show ?thesis by simp
  qed
  then have "sint (s_mark0 S) = uint (s_mark0 S)"
    using signed_take_bit_int_eq_self [of 31 "uint (s_mark0 S)"] uint_ge_0 [of "s_mark0 S"] by (simp add: sint_uint)
  then have s: "nat (sint (s_mark0 S) + 1) = m0"
    by (simp add: m0_def nat_add_distrib flip: unat_eq_nat_uint)
  let ?is = "[0..<m1] @ rev [0..<m0] @ [m1..<length ?ops] @ [0..<m0]"
  have r: "i < length ?ops \<and> op_ok n (?ops ! i)" if "i \<in> set ?is" for i
    using that assms(2) [OF nth_mem] assms(4,5) by (auto simp: m0_def m1_def)
  have le: "m1 \<le> length ?ops" "m0 \<le> length ?ops" using assms(4,5) by (simp_all add: m0_def m1_def)
  have "map ((!) ?ops) ?is = map ((!) ?ops) [0..<m1] @ rev (map ((!) ?ops) [0..<m0])
      @ map ((!) ?ops) [m1..<length ?ops] @ map ((!) ?ops) [0..<m0]"
    by (simp only: map_append rev_map)
  also have "\<dots> = take m1 ?ops @ rev (take m0 ?ops) @ drop m1 ?ops @ take m0 ?ops"
    by (simp only: map_nth_upt [OF le(1)] map_nth_upt [OF le(2)] map_nth_upt [OF le_refl] drop_0 take_all)
  finally have ops: "map ((!) ?ops) ?is = take m1 ?ops @ rev (take m0 ?ops) @ drop m1 ?ops @ take m0 ?ops" .
  have "precode_matrix_apply_sched k D S = rfold (precode_matrix_apply_op k ?ops) D ?is"
    unfolding precode_matrix_apply_sched_def Let_def s m1_def by (simp only: m0_def Suc_eq_plus1)
  then show ?thesis using apply_ops_run [OF assms(1), of ?is ?ops, OF r] unfolding ops by simp
qed

end
