(* ===== verification/Permute.thy ===== *)
theory Permute
  imports Row_Ops
begin

section \<open>Permutations and their inverses\<close>

text \<open>
  The schedule keeps each permutation together with its inverse. \<open>perm_pair n xs ys\<close> says so of two
  lists of length \<open>n\<close>; an exchange of two entries of the first with the matching exchange of the second
  keeps it (\<open>perm_swap\<close>). \<open>permute_spec\<close> is what the in-place cycle-chasing permutation computes: the row
  at \<open>x\<close> goes to \<open>P ! x\<close>.
\<close>

definition perm_pair :: "nat \<Rightarrow> nat list \<Rightarrow> nat list \<Rightarrow> bool" where
  "perm_pair n xs ys \<longleftrightarrow> length xs = n \<and> length ys = n
     \<and> (\<forall>i < n. xs ! i < n \<and> ys ! i < n \<and> ys ! (xs ! i) = i \<and> xs ! (ys ! i) = i)"

lemma perm_pairD:
  assumes "perm_pair n xs ys"
  shows "length xs = n" "length ys = n" "i < n \<Longrightarrow> xs ! i < n" "i < n \<Longrightarrow> ys ! i < n"
    "i < n \<Longrightarrow> ys ! (xs ! i) = i" "i < n \<Longrightarrow> xs ! (ys ! i) = i"
  using assms by (auto simp: perm_pair_def)

lemma perm_pair_sym: "perm_pair n xs ys \<Longrightarrow> perm_pair n ys xs"
  by (auto simp: perm_pair_def)

lemma perm_pair_inj: "perm_pair n xs ys \<Longrightarrow> i < n \<Longrightarrow> j < n \<Longrightarrow> xs ! i = xs ! j \<longleftrightarrow> i = j"
  by (metis perm_pairD(5))

lemma perm_pair_inv_iff: "perm_pair n xs ys \<Longrightarrow> i < n \<Longrightarrow> r < n \<Longrightarrow> xs ! i = r \<longleftrightarrow> i = ys ! r"
  by (metis perm_pairD(5,6))

lemma perm_pair_id: "perm_pair n [0..<n] [0..<n]"
  by (simp add: perm_pair_def)

lemma length_swap_at [simp]: "length (swap_at xs i j) = length xs"
  by (simp add: swap_at_def)

lemma nth_swap_at:
  "i < length xs \<Longrightarrow> j < length xs \<Longrightarrow> swap_at xs i j ! k = (if k = i then xs ! j else if k = j then xs ! i else xs ! k)"
  by (auto simp: swap_at_def nth_list_update)

lemma perm_swap:
  assumes p: "perm_pair n d di" and i: "i < n" and j: "j < n"
  shows "perm_pair n (swap_at d i j) (swap_at di (swap_at d i j ! i) (swap_at d i j ! j))"
proof -
  note D = perm_pairD [OF p]
  have s: "swap_at d i j ! k = (if k = i then d ! j else if k = j then d ! i else d ! k)" for k
    using i j D(1) by (intro nth_swap_at) simp_all
  have t: "swap_at di (d ! j) (d ! i) ! r = (if r = d ! j then i else if r = d ! i then j else di ! r)" for r
    using i j D by (subst nth_swap_at) simp_all
  show ?thesis
    unfolding perm_pair_def
  proof (intro conjI allI impI)
    fix k assume k: "k < n"
    show "swap_at d i j ! k < n" using D(3) [OF k] D(3) [OF i] D(3) [OF j] by (simp add: s)
    have ij: "swap_at d i j ! i = d ! j" "swap_at d i j ! j = d ! i" by (simp_all add: s)
    show "swap_at di (swap_at d i j ! i) (swap_at d i j ! j) ! k < n"
      unfolding ij using D(4) [OF k] i j by (simp add: t)
    show "swap_at di (swap_at d i j ! i) (swap_at d i j ! j) ! (swap_at d i j ! k) = k"
    proof -
      consider "k = i" | "k \<noteq> i" "k = j" | "k \<noteq> i" "k \<noteq> j" by blast
      then show ?thesis
      proof cases
        case 3
        then have "d ! k \<noteq> d ! i" "d ! k \<noteq> d ! j"
          using perm_pair_inj [OF p k i] perm_pair_inj [OF p k j] by simp_all
        then show ?thesis unfolding ij using 3 D(5) [OF k] by (simp add: s t)
      qed (unfold ij, use perm_pair_inj [OF p i j] in \<open>simp_all add: s t\<close>)
    qed
    show "swap_at d i j ! (swap_at di (swap_at d i j ! i) (swap_at d i j ! j) ! k) = k"
    proof -
      have "k = d ! j \<or> k = d ! i \<or> di ! k \<noteq> i \<and> di ! k \<noteq> j" using D(6) [OF k] by auto
      then show ?thesis unfolding ij
      proof (elim disjE conjE)
        assume "di ! k \<noteq> i" "di ! k \<noteq> j"
        moreover from this have "k \<noteq> d ! i" "k \<noteq> d ! j" using D(5) [OF i] D(5) [OF j] by auto
        ultimately have "swap_at di (d ! j) (d ! i) ! k = di ! k" "swap_at d i j ! (di ! k) = d ! (di ! k)"
          by (simp_all only: s t if_False)
        then show "swap_at d i j ! (swap_at di (d ! j) (d ! i) ! k) = k" using D(6) [OF k] by (simp only:)
      qed (simp_all add: s t)
    qed
  qed (simp_all add: D)
qed

text \<open>With the guard of the code: exchanging a place with itself changes nothing.\<close>

lemma swap_at_same [simp]: "i < length xs \<Longrightarrow> swap_at xs i i = xs"
  by (simp add: swap_at_def)

lemma swap_pair_guard:
  assumes "perm_pair n d di" and "i < n" and "j < n"
  shows "(if i \<noteq> j then swap_pair (d, di) i j else (d, di)) = swap_pair (d, di) i j"
  using assms perm_pairD(3) [OF assms(1,2)] by (auto simp: swap_pair_def Let_def perm_pairD)

lemma swap_pair_spec:
  assumes "perm_pair n d di" and "i < n" and "j < n"
  shows "perm_pair n (fst (swap_pair (d, di) i j)) (snd (swap_pair (d, di) i j))"
    "fst (swap_pair (d, di) i j) ! k = (if k = i then d ! j else if k = j then d ! i else d ! k)"
  using perm_swap [OF assms] assms by (simp_all add: swap_pair_def Let_def nth_swap_at perm_pairD)

subsection \<open>Permuting the rows of a matrix\<close>

text \<open>The state of a cycle: \<open>V\<close> holds the marked positions, \<open>pos\<close> is the next to be marked.\<close>

definition marked :: "nat list \<Rightarrow> nat set \<Rightarrow> int list" where
  "marked P V = map (\<lambda>x. if x \<in> V then - 1 else int (P ! x)) [0..<length P]"

lemma marked_upd: "pos < length P \<Longrightarrow> (marked P V)[pos := - 1] = marked P (insert pos V)"
  by (rule nth_equalityI) (auto simp: marked_def nth_list_update)

lemma cycle_spec:
  assumes p: "perm_pair n P Q" and m: "n \<le> m" and i: "i < n"
  shows "pos < n \<Longrightarrow> is_mat m k D \<Longrightarrow> V \<subseteq> {..<n} \<Longrightarrow> pos \<notin> V \<Longrightarrow> pos = i \<or> i \<in> V
    \<Longrightarrow> pos = i \<or> pos \<in> (!) P ` V
    \<Longrightarrow> (\<And>x. x \<in> V \<Longrightarrow> (P ! x \<in> V \<or> P ! x = pos) \<and> (x = i \<or> x \<in> (!) P ` V) \<and> P ! x \<noteq> i \<and> D ! (P ! x) = D0 ! x)
    \<Longrightarrow> (\<And>y. y < m \<Longrightarrow> y \<noteq> i \<Longrightarrow> y \<notin> (!) P ` V \<Longrightarrow> D ! y = D0 ! y) \<Longrightarrow> D ! i = D0 ! pos
    \<Longrightarrow> \<exists>D' V'. permute_cycle D (marked P V) i k pos = Inr (D', marked P V') \<and> is_mat m k D' \<and> insert i V \<subseteq> V' \<and> V' \<subseteq> {..<n}
      \<and> (\<forall>x \<in> V'. P ! x \<in> V' \<and> x \<in> (!) P ` V' \<and> D' ! (P ! x) = D0 ! x)
      \<and> (\<forall>y < m. y \<notin> (!) P ` V' \<longrightarrow> D' ! y = D0 ! y)"
proof (induction "n - card V" arbitrary: D V pos rule: less_induct)
  case less
  note pre = less.prems and D = perm_pairD [OF p]
  define t where "t = P ! pos"
  have t: "t < n" using D(3) pre(1) by (simp add: t_def)
  have fin: "finite V" using pre(3) finite_subset by blast
  have "V \<noteq> {..<n}" using pre(1,4) by auto
  then have "card V < n" using pre(3) psubset_card_mono [of "{..<n}" V] by auto
  then have dec: "n - card (insert pos V) < n - card V" using fin pre(4) by simp
  have tV: "t \<notin> (!) P ` V"
    using pre(1,3,4) perm_pair_inj [OF p, of pos] by (force simp: t_def)
  have step: "permute_cycle D (marked P V) i k pos = permute_cycle (oswaprow D i t k) (marked P (insert pos V)) i k t"
    using pre(1,4) D(1) by (subst permute_cycle.simps) (simp add: marked_upd, simp add: marked_def t_def)
  show ?case
  proof (cases "t = i")
    case True
    have "i \<in> insert pos V" using pre(5) by auto
    then have e: "permute_cycle D (marked P V) i k pos = Inr (D, marked P (insert pos V))"
      unfolding step using i D(1) True by (subst permute_cycle.simps) (simp add: marked_def oswaprow_def)
    have "\<forall>x \<in> insert pos V. P ! x \<in> insert pos V \<and> x \<in> (!) P ` insert pos V \<and> D ! (P ! x) = D0 ! x"
    proof
      fix x assume "x \<in> insert pos V"
      then show "P ! x \<in> insert pos V \<and> x \<in> (!) P ` insert pos V \<and> D ! (P ! x) = D0 ! x"
        using pre(5,6,7,9) True by (cases "x = pos") (auto simp: t_def)
    qed
    moreover have "D ! y = D0 ! y" if "y < m" "y \<notin> (!) P ` insert pos V" for y
      using that pre(8) True by (auto simp: t_def)
    ultimately show ?thesis
      using e pre(1-3,5) by (intro exI [of _ D] exI [of _ "insert pos V"]) auto
  next
    case False
    have tn: "t \<notin> insert pos V"
    proof
      assume "t \<in> insert pos V"
      then have "t = pos \<or> t \<in> V" by simp
      then show False
      proof
        assume "t = pos"
        then show False using pre(6) tV False by auto
      next
        assume "t \<in> V"
        then show False using pre(7) [of t] False tV by auto
      qed
    qed
    let ?D = "oswaprow D i t k"
    have s: "?D ! r = (if r = i then D ! t else if r = t then D ! i else D ! r)" if "r < m" for r
      using oswaprow_nth [OF pre(2) _ _ that, of i t] i t m by simp
    have "\<exists>D' V'. permute_cycle ?D (marked P (insert pos V)) i k t = Inr (D', marked P V') \<and> is_mat m k D'
      \<and> insert i (insert pos V) \<subseteq> V' \<and> V' \<subseteq> {..<n}
      \<and> (\<forall>x \<in> V'. P ! x \<in> V' \<and> x \<in> (!) P ` V' \<and> D' ! (P ! x) = D0 ! x)
      \<and> (\<forall>y < m. y \<notin> (!) P ` V' \<longrightarrow> D' ! y = D0 ! y)"
    proof (rule less.hyps [OF dec t])
      show "is_mat m k ?D" using is_mat_ops(5) [OF pre(2)] .
      show "insert pos V \<subseteq> {..<n}" using pre(1,3) by simp
      show "t \<notin> insert pos V" by (rule tn)
      show "t = i \<or> i \<in> insert pos V" using pre(5) by auto
      show "t = i \<or> t \<in> (!) P ` insert pos V" by (simp add: t_def)
      show "?D ! i = D0 ! t" using s [of i] pre(8) [of t] tV False i t m by simp
      show "?D ! y = D0 ! y" if "y < m" "y \<noteq> i" "y \<notin> (!) P ` insert pos V" for y
        using s [OF that(1)] that pre(8) [of y] by (auto simp: t_def)
      show "(P ! x \<in> insert pos V \<or> P ! x = t) \<and> (x = i \<or> x \<in> (!) P ` insert pos V) \<and> P ! x \<noteq> i \<and> ?D ! (P ! x) = D0 ! x"
        if "x \<in> insert pos V" for x
      proof (cases "x = pos")
        case True
        then show ?thesis using pre(6,9) False s [of t] t m by (auto simp: t_def)
      next
        case x: False
        then have "x \<in> V" "x < n" using that pre(3) by auto
        then have "P ! x \<noteq> t" "P ! x < m" using tV D(3) [of x] m by auto
        then show ?thesis using pre(7) [OF \<open>x \<in> V\<close>] s [of "P ! x"] by auto
      qed
    qed
    then show ?thesis
      unfolding step by (elim exE conjE) (intro exI conjI, assumption, assumption, blast, assumption+)
  qed
qed

lemma permute_spec:
  assumes p: "perm_pair n P Q" and m: "n \<le> m" and D: "is_mat m k D"
  shows "\<exists>D'. precode_matrix_permute D (map int P) n k = Inr D' \<and> is_mat m k D' \<and> (\<forall>x < n. D' ! (P ! x) = D ! x)"
proof -
  define I where "I = (\<lambda>c (D', R). \<exists>V. R = marked P V \<and> {..<c} \<subseteq> V \<and> V \<subseteq> {..<n} \<and> is_mat m k D'
      \<and> (\<forall>x \<in> V. P ! x \<in> V \<and> x \<in> (!) P ` V \<and> D' ! (P ! x) = D ! x)
      \<and> (\<forall>y < m. y \<notin> (!) P ` V \<longrightarrow> D' ! y = D ! y))"
  have len: "length P = n" using p by (simp add: perm_pairD)
  have "map int P = marked P {}" by (rule nth_equalityI) (simp_all add: marked_def)
  then have "I 0 (D, map int P)" using D by (auto simp: I_def)
  moreover have "\<exists>s'. (\<lambda>(D, P) i. permute_cycle D P i k i) s ([0..<n] ! c) = Inr s' \<and> I (Suc c) s'"
    if c: "c < length [0..<n]" and I: "I c s" for c s
  proof -
    obtain D' R where s: "s = (D', R)" by fastforce
    from I obtain V where V: "R = marked P V" "{..<c} \<subseteq> V" "V \<subseteq> {..<n}" "is_mat m k D'"
      and x: "\<And>x. x \<in> V \<Longrightarrow> P ! x \<in> V \<and> x \<in> (!) P ` V \<and> D' ! (P ! x) = D ! x"
      and y: "\<And>y. y < m \<Longrightarrow> y \<notin> (!) P ` V \<Longrightarrow> D' ! y = D ! y" by (auto simp: I_def s)
    have cn: "c < n" using c by simp
    show ?thesis
    proof (cases "c \<in> V")
      case True
      then have "permute_cycle D' R c k c = Inr (D', R)"
        using cn len by (subst permute_cycle.simps) (simp add: V(1) marked_def)
      moreover have "{..<Suc c} \<subseteq> V" using True V(2) lessThan_Suc by auto
      ultimately show ?thesis using V x y cn by (auto simp: I_def s intro!: exI [of _ V])
    next
      case False
      have nc: "P ! z \<noteq> c" if "z \<in> V" for z using x [OF that] False by metis
      then have "D' ! c = D ! c" using y [of c] cn m by auto
      from cycle_spec [OF p m cn cn V(4,3) False _ _ _ _ this] x y nc
      obtain D2 V2 where "permute_cycle D' (marked P V) c k c = Inr (D2, marked P V2)" "is_mat m k D2" "insert c V \<subseteq> V2" "V2 \<subseteq> {..<n}"
        "\<forall>x \<in> V2. P ! x \<in> V2 \<and> x \<in> (!) P ` V2 \<and> D2 ! (P ! x) = D ! x" "\<forall>y < m. y \<notin> (!) P ` V2 \<longrightarrow> D2 ! y = D ! y"
        by blast
      moreover from this have "{..<Suc c} \<subseteq> V2" using V(2) by (auto simp: less_Suc_eq)
      ultimately show ?thesis using cn by (auto simp: I_def s V(1) intro!: exI [of _ V2])
    qed
  qed
  ultimately have "\<exists>s'. rfold (\<lambda>(D, P) i. permute_cycle D P i k i) (D, map int P) [0..<n] = Inr s' \<and> I (length [0..<n]) s'"
    by (rule rfold_total)
  then obtain D' R where "rfold (\<lambda>(D, P) i. permute_cycle D P i k i) (D, map int P) [0..<n] = Inr (D', R)" "I n (D', R)"
    by auto
  then show ?thesis by (auto simp: precode_matrix_permute_def I_def)
qed

end
