(* ===== verification/Precode_Order.thy ===== *)
theory Precode_Order
  imports Permute
begin

section \<open>Ordering rows and columns: the first phase of the solver\<close>

text \<open>
  \<open>precode_matrix_sort\<close> puts the dense rows last and counts the ones of every row; \<open>precond_loop\<close> then
  brings rows with one or two ones in the remaining columns \<open>V\<close> to the front. The counters stay equal
  to the number of ones of a row in \<open>V\<close> (\<open>order_inv\<close>), so the two-place array of the code suffices and
  the chosen rows form a lower triangle with ones on the diagonal: \<open>precond_spec\<close>.
\<close>

subsection \<open>What is asked of the matrix\<close>

definition matrix_ok :: "params \<Rightarrow> spmat \<Rightarrow> bool" where
  "matrix_ok P A \<longleftrightarrow> params_ok P \<and> sp_ok A \<and> sp_cols A = pL P \<and> pL P \<le> sp_rows A
     \<and> (\<forall>r < sp_rows A. distinct (idxs A ! r))
     \<and> (\<forall>r. pS P \<le> r \<and> r < pS P + pH P \<longrightarrow> idxs A ! r = [])"

abbreviation ones :: "spmat \<Rightarrow> nat \<Rightarrow> nat set" where
  "ones A r \<equiv> set (idxs A ! r)"

lemma matrix_okD:
  assumes "matrix_ok P A"
  shows "params_ok P" "sp_cols A = pL P" "length (idxs A) = sp_rows A" "pL P \<le> sp_rows A"
    "r < sp_rows A \<Longrightarrow> distinct (idxs A ! r)" "r < sp_rows A \<Longrightarrow> x \<in> ones A r \<Longrightarrow> x < pL P"
    "pS P \<le> r \<Longrightarrow> r < pS P + pH P \<Longrightarrow> idxs A ! r = []"
    "pL P < 65536" "3 < pP P" "pW P + pP P = pL P" "pH P \<le> pP P" "pL P = pKprime P + pS P + pH P" "3 < pL P"
  using assms by (auto simp: matrix_ok_def sp_ok_def params_ok_def)

lemma count_distinct: "distinct xs \<Longrightarrow> count_list xs c = (if c \<in> set xs then 1 else 0)"
  by (induction xs) auto

lemma column_rows:
  assumes "matrix_ok P A" and "c < pL P"
  shows "distinct (idxs (spmat_transpose A) ! c)"
    "set (idxs (spmat_transpose A) ! c) = {y. y < sp_rows A \<and> c \<in> ones A y}"
proof -
  have ok: "sp_ok A" using assms(1) by (simp add: matrix_ok_def)
  let ?f = "\<lambda>i. replicate (count_list (idxs A ! i) c) i"
  have e: "idxs (spmat_transpose A) ! c = concat (map ?f [0..<sp_rows A])"
    using transpose_spec(4) [OF ok, of c] assms by (simp add: matrix_okD)
  have one: "count_list (idxs A ! i) c = (if c \<in> ones A i then 1 else 0)" if "i < sp_rows A" for i
    using matrix_okD(5) [OF assms(1) that] by (rule count_distinct)
  have "distinct (concat (map ?f [0..<m]))" if "m \<le> sp_rows A" for m
    using that by (induction m) (auto simp: one)
  then show "distinct (idxs (spmat_transpose A) ! c)" by (simp add: e)
  show "set (idxs (spmat_transpose A) ! c) = {y. y < sp_rows A \<and> c \<in> ones A y}"
    by (auto simp: e one count_list_0_iff split: if_splits)
qed

subsection \<open>Counting ones in a window of columns\<close>

definition in_window :: "spmat \<Rightarrow> schedule \<Rightarrow> nat \<Rightarrow> nat \<Rightarrow> nat \<Rightarrow> nat list" where
  "in_window A S a b x = filter (\<lambda>col. a \<le> s_ci S ! col \<and> s_ci S ! col < b) (idxs A ! x)"

lemma nz_scan_all:
  "length found + length (filter (\<lambda>x. s \<le> s_ci S ! x \<and> s_ci S ! x < e) xs) \<le> lim \<Longrightarrow> lim \<le> 2 \<Longrightarrow>
    nz_scan S s e lim xs found = Inr (found @ map ((!) (s_ci S)) (filter (\<lambda>x. s \<le> s_ci S ! x \<and> s_ci S ! x < e) xs))"
proof (induction xs arbitrary: found)
  case (Cons x xs)
  show ?case
  proof (cases "s \<le> s_ci S ! x \<and> s_ci S ! x < e")
    case True
    then have "length found < lim" "length found < 2" using Cons.prems by simp_all
    with True Cons.IH [of "found @ [s_ci S ! x]"] Cons.prems show ?thesis by (simp add: Let_def not_le)
  next
    case False
    then have f: "filter (\<lambda>x. s \<le> s_ci S ! x \<and> s_ci S ! x < e) (x # xs) = filter (\<lambda>x. s \<le> s_ci S ! x \<and> s_ci S ! x < e) xs" by auto
    show ?thesis
    proof (cases "lim \<le> length found")
      case True
      moreover have "length found + length (filter (\<lambda>x. s \<le> s_ci S ! x \<and> s_ci S ! x < e) xs) \<le> lim"
        using Cons.prems(1) unfolding f .
      ultimately have "length (filter (\<lambda>x. s \<le> s_ci S ! x \<and> s_ci S ! x < e) xs) = 0" by linarith
      with True show ?thesis unfolding f by simp
    next
      case h: False
      show ?thesis using Cons.IH [of found] Cons.prems unfolding f using h False by (auto simp: Let_def)
    qed
  qed
qed simp

text \<open>Exchanging two positions of a window, with the inverse.\<close>

definition same_window :: "nat \<Rightarrow> nat \<Rightarrow> nat \<Rightarrow> nat list \<Rightarrow> nat list \<Rightarrow> bool" where
  "same_window n a b c c' \<longleftrightarrow> (\<forall>q < n. (q < a \<or> b \<le> q) \<longrightarrow> c' ! q = c ! q)"

lemma same_window_swap:
  "perm_pair n c ci \<Longrightarrow> a \<le> i \<Longrightarrow> i < b \<Longrightarrow> a \<le> j \<Longrightarrow> j < b \<Longrightarrow> b \<le> n \<Longrightarrow> same_window n a b c (fst (swap_pair (c, ci) i j))"
  by (auto simp: same_window_def swap_pair_spec(2))

lemma same_window_trans: "same_window n a b c c' \<Longrightarrow> same_window n a b c' c'' \<Longrightarrow> same_window n a b c c''"
  by (auto simp: same_window_def)

lemma same_window_position:
  assumes p: "perm_pair n c ci" "perm_pair n c' ci'" and w: "same_window n a b c c'" and r: "r < n"
  shows "(a \<le> ci' ! r \<and> ci' ! r < b) = (a \<le> ci ! r \<and> ci ! r < b)"
    and "ci ! r < a \<or> b \<le> ci ! r \<Longrightarrow> ci' ! r = ci ! r"
proof -
  have out: "ci' ! r = ci ! r" if "ci ! r < a \<or> b \<le> ci ! r"
    using that w perm_pairD(4,6) [OF p(1) r] perm_pairD(5) [OF p(2), of "ci ! r"] unfolding same_window_def by metis
  then show "ci ! r < a \<or> b \<le> ci ! r \<Longrightarrow> ci' ! r = ci ! r" .
  have "ci' ! r = ci ! r" if "ci' ! r < a \<or> b \<le> ci' ! r"
    using that w perm_pairD(4,6) [OF p(2) r] perm_pairD(5) [OF p(1), of "ci' ! r"] unfolding same_window_def by metis
  with out show "(a \<le> ci' ! r \<and> ci' ! r < b) = (a \<le> ci ! r \<and> ci ! r < b)" by linarith
qed

subsection \<open>Counting down\<close>

lemma count_down_fold:
  assumes "distinct ys" and "\<forall>y \<in> set ys. y < length (s_nz S)"
    and "length (idxs N) = 3" and "\<forall>b < 3. \<forall>y \<in> set (idxs N ! b). y < n" and "\<forall>y \<in> set ys. y < n"
  shows "\<exists>nz N'. foldl count_down (S, N) ys = (S\<lparr>s_nz := nz\<rparr>, N') \<and> length nz = length (s_nz S)
    \<and> (\<forall>x < length nz. nz ! x = (if x \<in> set ys then s_nz S ! x - 1 else s_nz S ! x))
    \<and> length (idxs N') = 3 \<and> (\<forall>b < 3. \<forall>y \<in> set (idxs N' ! b). y < n)"
  using assms
proof (induction ys rule: rev_induct)
  case Nil
  then show ?case by (auto intro!: exI [of _ "s_nz S"])
next
  case (snoc y ys)
  then obtain nz N' where f: "foldl count_down (S, N) ys = (S\<lparr>s_nz := nz\<rparr>, N')" "length nz = length (s_nz S)"
    "\<forall>x < length nz. nz ! x = (if x \<in> set ys then s_nz S ! x - 1 else s_nz S ! x)"
    "length (idxs N') = 3" "\<forall>b < 3. \<forall>y \<in> set (idxs N' ! b). y < n" by auto
  let ?v = "nz ! y - 1"
  let ?N = "if 0 < sint ?v \<and> sint ?v < 3 then spmat_push N' (unat ?v) y else N'"
  have small: "unat v < 3" if "0 < sint v" "sint v < 3" for v :: u32
  proof -
    have "sint v = 1 \<or> sint v = 2" using that by linarith
    moreover have "v = of_int (sint v)" by simp
    ultimately have "v = 1 \<or> v = 2" by (metis of_int_1 of_int_numeral)
    then show ?thesis by auto
  qed
  have N: "length (idxs ?N) = 3 \<and> (\<forall>b < 3. \<forall>y \<in> set (idxs ?N ! b). y < n)"
    using small f(4,5) snoc.prems(5) by (auto simp: sp_push_nth)
  have "foldl count_down (S, N) (ys @ [y]) = count_down (S\<lparr>s_nz := nz\<rparr>, N') y" by (simp add: f(1))
  also have "\<dots> = (S\<lparr>s_nz := nz[y := ?v]\<rparr>, ?N)" by (simp add: count_down_def Let_def)
  finally have "foldl count_down (S, N) (ys @ [y]) = (S\<lparr>s_nz := nz[y := ?v]\<rparr>, ?N)" .
  moreover have "nz[y := ?v] ! x = (if x \<in> set (ys @ [y]) then s_nz S ! x - 1 else s_nz S ! x)" if "x < length nz" for x
    using that f(2,3) snoc.prems(1,2) by (cases "x = y") auto
  ultimately show ?case using N f(2) by (intro exI [of _ "nz[y := ?v]"] exI [of _ ?N]) simp
qed

subsection \<open>The invariant\<close>

text \<open>The rows placed at the positions below \<open>i\<close>, seen through the row order \<open>d\<close> and column order \<open>c\<close>.\<close>

definition triangle :: "spmat \<Rightarrow> nat list \<Rightarrow> nat list \<Rightarrow> nat \<Rightarrow> nat \<Rightarrow> bool" where
  "triangle A d c i w \<longleftrightarrow> (\<forall>p < i. c ! p \<in> ones A (d ! p) \<and> (\<forall>q. p < q \<and> q < w \<longrightarrow> c ! q \<notin> ones A (d ! p)))"

definition first_ones :: "params \<Rightarrow> spmat \<Rightarrow> nat \<Rightarrow> nat list" where
  "first_ones P A x = filter (\<lambda>col. col < pW P) (idxs A ! x)"

definition perms_ok :: "params \<Rightarrow> spmat \<Rightarrow> schedule \<Rightarrow> bool" where
  "perms_ok P A S \<longleftrightarrow> perm_pair (sp_rows A) (s_d S) (s_di S) \<and> perm_pair (pL P) (s_c S) (s_ci S)
     \<and> (\<forall>q. pW P \<le> q \<and> q < pL P \<longrightarrow> s_c S ! q = q) \<and> s_rows S = sp_rows A \<and> s_cols S = pL P"

definition orders_ok :: "params \<Rightarrow> spmat \<Rightarrow> schedule \<Rightarrow> bool" where
  "orders_ok P A S \<longleftrightarrow> perms_ok P A S \<and> (\<forall>h < pH P. s_d S ! (sp_rows A - pH P + h) = pS P + h)"

definition order_inv :: "params \<Rightarrow> spmat \<Rightarrow> nat \<Rightarrow> nat \<Rightarrow> schedule \<Rightarrow> spmat \<Rightarrow> bool" where
  "order_inv P A i u S N \<longleftrightarrow> orders_ok P A S \<and> s_ops S = []
     \<and> pP P \<le> u \<and> i + u \<le> pL P \<and> i \<le> sp_rows A - pH P
     \<and> triangle A (s_d S) (s_c S) i (pL P - u)
     \<and> length (s_nz S) = sp_rows A
     \<and> (\<forall>x < sp_rows A. i \<le> s_di S ! x \<longrightarrow>
          s_nz S ! x = of_nat (if first_ones P A x = [] then pL P else length (in_window A S i (pL P - u) x)))
     \<and> length (idxs N) = 3 \<and> (\<forall>b < 3. \<forall>y \<in> set (idxs N ! b). y < sp_rows A)"

lemma order_invD:
  assumes "order_inv P A i u S N"
  shows "orders_ok P A S" "s_ops S = []" "pP P \<le> u" "i + u \<le> pL P" "i \<le> sp_rows A - pH P"
    "triangle A (s_d S) (s_c S) i (pL P - u)" "length (s_nz S) = sp_rows A"
    "x < sp_rows A \<Longrightarrow> i \<le> s_di S ! x \<Longrightarrow>
          s_nz S ! x = of_nat (if first_ones P A x = [] then pL P else length (in_window A S i (pL P - u) x))"
    "length (idxs N) = 3" "\<forall>b < 3. \<forall>y \<in> set (idxs N ! b). y < sp_rows A"
  using assms by (auto simp: order_inv_def)

lemma perms_okD:
  assumes "perms_ok P A S"
  shows "perm_pair (sp_rows A) (s_d S) (s_di S)" "perm_pair (pL P) (s_c S) (s_ci S)"
    "pW P \<le> q \<Longrightarrow> q < pL P \<Longrightarrow> s_c S ! q = q" "s_rows S = sp_rows A" "s_cols S = pL P"
  using assms by (auto simp: perms_ok_def)

lemma orders_okD:
  assumes "orders_ok P A S"
  shows "perm_pair (sp_rows A) (s_d S) (s_di S)" "perm_pair (pL P) (s_c S) (s_ci S)"
    "pW P \<le> q \<Longrightarrow> q < pL P \<Longrightarrow> s_c S ! q = q" "h < pH P \<Longrightarrow> s_d S ! (sp_rows A - pH P + h) = pS P + h"
    "s_rows S = sp_rows A" "s_cols S = pL P" "perms_ok P A S"
  using assms by (auto simp: orders_ok_def perms_ok_def)

lemma length_in_window:
  assumes "matrix_ok P A" and "x < sp_rows A"
  shows "length (in_window A S a b x) \<le> pL P" "distinct (in_window A S a b x)"
proof -
  have d: "distinct (idxs A ! x)" using assms by (simp add: matrix_okD)
  then show "distinct (in_window A S a b x)" by (simp add: in_window_def)
  have "set (in_window A S a b x) \<subseteq> {..<pL P}" using matrix_okD(6) [OF assms(1,2)] by (auto simp: in_window_def)
  then show "length (in_window A S a b x) \<le> pL P"
    using d by (metis card_lessThan card_mono distinct_card distinct_filter finite_lessThan in_window_def)
qed

lemma of_nat_small_eq: "of_nat a = (of_nat b :: u32) \<Longrightarrow> a < 4294967296 \<Longrightarrow> b < 4294967296 \<Longrightarrow> a = b"
  by (simp add: word_of_nat_eq_iff take_bit_nat_eq_self)

text \<open>A row whose counter is 1 or 2 has that many ones in the window.\<close>

lemma counter_is_count:
  assumes "matrix_ok P A" and "order_inv P A i u S N" and "x < sp_rows A" and "i \<le> s_di S ! x"
    and "s_nz S ! x = of_nat b" and "b = 1 \<or> b = 2"
  shows "length (in_window A S i (pL P - u) x) = b" "first_ones P A x \<noteq> []"
proof -
  let ?v = "if first_ones P A x = [] then pL P else length (in_window A S i (pL P - u) x)"
  have "?v < 4294967296"
    using matrix_okD(8) [OF assms(1)] length_in_window(1) [OF assms(1,3), of S i "pL P - u"] by auto
  then have "?v = b"
    using order_invD(8) [OF assms(2-4)] assms(5,6) by (intro of_nat_small_eq) auto
  then show "first_ones P A x \<noteq> []" using assms(6) matrix_okD(13) [OF assms(1)] by auto
  then show "length (in_window A S i (pL P - u) x) = b" using \<open>?v = b\<close> by simp
qed

subsection \<open>Moving the columns of the chosen row\<close>

lemma window_positions:
  assumes A: "matrix_ok P A" and c: "perm_pair (pL P) (s_c S) (s_ci S)" and x: "x < sp_rows A" and b: "b \<le> pL P"
  shows "set (map ((!) (s_ci S)) (in_window A S a b x)) = {q. a \<le> q \<and> q < b \<and> s_c S ! q \<in> ones A x}"
    and "distinct (map ((!) (s_ci S)) (in_window A S a b x))"
proof -
  note D = perm_pairD [OF c] and lt = matrix_okD(6) [OF A x]
  show "set (map ((!) (s_ci S)) (in_window A S a b x)) = {q. a \<le> q \<and> q < b \<and> s_c S ! q \<in> ones A x}" (is "?l = ?r")
  proof
    show "?l \<subseteq> ?r" using D(6) lt by (auto simp: in_window_def)
    show "?r \<subseteq> ?l"
    proof
      fix q assume q: "q \<in> ?r"
      then have "q < pL P" using b by simp
      then have "s_ci S ! (s_c S ! q) = q" by (rule D(5))
      with q show "q \<in> ?l" by (auto simp: in_window_def image_iff intro!: bexI [of _ "s_c S ! q"])
    qed
  qed
  have "inj_on ((!) (s_ci S)) (set (in_window A S a b x))"
  proof (rule inj_onI)
    fix r s assume "r \<in> set (in_window A S a b x)" "s \<in> set (in_window A S a b x)" "s_ci S ! r = s_ci S ! s"
    moreover from this have "r < pL P" "s < pL P" using lt by (auto simp: in_window_def)
    ultimately show "r = s" by (metis D(6))
  qed
  then show "distinct (map ((!) (s_ci S)) (in_window A S a b x))"
    using length_in_window(2) [OF A x] by (simp add: distinct_map)
qed

lemma list_1_2: "length xs = 1 \<Longrightarrow> \<exists>q. xs = [q]" "length xs = 2 \<Longrightarrow> \<exists>q s. xs = [q, s]"
  by (auto simp: numeral_2_eq_2 length_Suc_conv)

lemma row_nz_at_spec:
  assumes A: "matrix_ok P A" and c: "perm_pair (pL P) (s_c S) (s_ci S)" and x: "s_d S ! i < sp_rows A"
    and w: "i < w" "w \<le> pL P" and n: "length (in_window A S i w (s_d S ! i)) = b" "s_nz S ! (s_d S ! i) = of_nat b" "b = 1 \<or> b = 2"
  shows "\<exists>a0 a1. precode_row_nz_at A i i w S = Inr (b, a0, a1) \<and> a0 < w
    \<and> {q. i \<le> q \<and> q < w \<and> s_c S ! q \<in> ones A (s_d S ! i)} = (if b = 1 then {a0} else {a0, a1})
    \<and> (b = 2 \<longrightarrow> a0 < a1)"
proof -
  let ?x = "s_d S ! i"
  let ?f = "map ((!) (s_ci S)) (in_window A S i w ?x)"
  have lim: "unat (s_nz S ! ?x) = b" using n(2,3) by auto
  have "nz_scan S i w b (idxs A ! ?x) [] = Inr ?f"
    using nz_scan_all [of "[]" i S w "idxs A ! ?x" b] n(1,3) by (auto simp: in_window_def)
  then have r: "precode_row_nz_at A i i w S = Inr (length ?f, min (if 0 < length ?f then ?f ! 0 else w) (if 1 < length ?f then ?f ! 1 else w),
      max (if 0 < length ?f then ?f ! 0 else w) (if 1 < length ?f then ?f ! 1 else w))"
    by (simp add: precode_row_nz_at_def lim Let_def del: length_map)
  note pos = window_positions [OF A c x w(2), of i]
  have ex: "b = 1 \<Longrightarrow> \<exists>q. ?f = [q]" "b = 2 \<Longrightarrow> \<exists>q s. ?f = [q, s]"
    using n(1) by (intro list_1_2; simp)+
  from n(3) show ?thesis
  proof
    assume b: "b = 1"
    from ex(1) [OF this] obtain q where q: "?f = [q]" ..
    then have "{q. i \<le> q \<and> q < w \<and> s_c S ! q \<in> ones A ?x} = {q}" unfolding pos(1) [symmetric] q by simp
    moreover from this have "q < w" by blast
    ultimately show ?thesis using r b unfolding q by simp
  next
    assume b: "b = 2"
    from ex(2) [OF this] obtain q s where q: "?f = [q, s]" by (elim exE)
    then have e: "{q. i \<le> q \<and> q < w \<and> s_c S ! q \<in> ones A ?x} = {q, s}" unfolding pos(1) [symmetric] q by simp
    moreover from this have "q < w" "s < w" by blast+
    moreover have "q \<noteq> s" using pos(2) unfolding q by simp
    moreover have "{min q s, max q s} = {q, s}" by (auto simp: min_def max_def)
    ultimately show ?thesis using r b unfolding q by (auto simp: min_def max_def)
  qed
qed

lemma swap_cols_spec:
  assumes A: "matrix_ok P A" and c: "perm_pair (pL P) (s_c S) (s_ci S)" and x: "s_d S ! i < sp_rows A"
    and w: "i < w" "w \<le> pL P" and n: "length (in_window A S i w (s_d S ! i)) = b" "s_nz S ! (s_d S ! i) = of_nat b" "b = 1 \<or> b = 2"
  shows "\<exists>c' ci'. precode_matrix_swap_cols A i (w - i) S = Inr (b, S\<lparr>s_c := c', s_ci := ci'\<rparr>)
    \<and> perm_pair (pL P) c' ci' \<and> same_window (pL P) i w (s_c S) c' \<and> c' ! i \<in> ones A (s_d S ! i)
    \<and> (\<forall>q. i < q \<and> q < w - (b - 1) \<longrightarrow> c' ! q \<notin> ones A (s_d S ! i)) \<and> (b = 2 \<longrightarrow> i < w - 1 \<and> c' ! (w - 1) \<in> ones A (s_d S ! i))"
proof -
  let ?x = "s_d S ! i" and ?last = "w - 1"
  from row_nz_at_spec [OF assms] obtain a0 a1 where r: "precode_row_nz_at A i i w S = Inr (b, a0, a1)" and a0: "a0 < w"
    and set: "{q. i \<le> q \<and> q < w \<and> s_c S ! q \<in> ones A ?x} = (if b = 1 then {a0} else {a0, a1})" and a1: "b = 2 \<Longrightarrow> a0 < a1"
    by blast
  have a0i: "i \<le> a0" "s_c S ! a0 \<in> ones A ?x" using set n(3) by (auto split: if_splits)
  have a1i: "a1 < w" "s_c S ! a1 \<in> ones A ?x" if "b = 2" using set that by auto
  have only: "q = a0 \<or> b = 2 \<and> q = a1" if "i \<le> q" "q < w" "s_c S ! q \<in> ones A ?x" for q
    using set that n(3) by (auto split: if_splits)
  have len: "length (s_c S) = pL P" using perm_pairD(1) [OF c] .
  define s1 where "s1 = swap_pair (s_c S, s_ci S) i a0"
  define s2 where "s2 = (if b = 2 then swap_pair s1 ?last a1 else s1)"
  note sw1 = swap_pair_spec [OF c, of i a0, folded s1_def]
  have p1: "perm_pair (pL P) (fst s1) (snd s1)" and n1: "fst s1 ! q = (if q = i then s_c S ! a0 else if q = a0 then s_c S ! i else s_c S ! q)" for q
    using sw1 w a0 by simp_all
  have w1: "same_window (pL P) i w (s_c S) (fst s1)"
    unfolding s1_def using a0 a0i w by (intro same_window_swap [OF c]) simp_all
  have g1: "(if a0 \<noteq> i then swap_pair (s_c S, s_ci S) i a0 else (s_c S, s_ci S)) = s1"
    using swap_pair_guard [OF c, of i a0] w a0 by (auto simp: s1_def)
  have g2: "(if b = 2 \<and> a1 \<noteq> ?last then swap_pair s1 ?last a1 else s1) = s2"
    using swap_pair_guard [OF p1, of ?last a1] w a1i by (auto simp: s2_def split: if_splits)
  have "precode_matrix_swap_cols A i (w - i) S = Inr (b, S\<lparr>s_c := fst s2, s_ci := snd s2\<rparr>)"
  proof -
    have "i + (w - i) = w" using w by simp
    then show ?thesis unfolding precode_matrix_swap_cols_def by (simp only: r rbind_simps prod.case Let_def g1 g2)
  qed
  moreover have "perm_pair (pL P) (fst s2) (snd s2)"
    using p1 swap_pair_spec(1) [OF p1, of ?last a1] w a1i by (auto simp: s2_def)
  moreover have "same_window (pL P) i w (s_c S) (fst s2)"
    using w1 same_window_trans [OF w1 same_window_swap [OF p1, of i ?last w a1]] a1 a1i a0i w by (auto simp: s2_def)
  moreover have n2: "fst s2 ! q = (if b = 2 \<and> q = ?last then fst s1 ! a1 else if b = 2 \<and> q = a1 then fst s1 ! ?last else fst s1 ! q)" for q
    using swap_pair_spec(2) [OF p1, of ?last a1] w a1i by (auto simp: s2_def)
  have "fst s2 ! i \<in> ones A ?x"
    using n2 [of i] n1 [of i] a1 a0i a1i w by (cases "b = 2") auto
  moreover have "fst s2 ! q \<notin> ones A ?x" if q: "i < q" "q < w - (b - 1)" for q
  proof
    assume in_row: "fst s2 ! q \<in> ones A ?x"
    define q' where "q' = (if b = 2 \<and> q = a1 then ?last else q)"
    have q': "fst s2 ! q = fst s1 ! q'" "i < q'" "q' < w" "b = 2 \<Longrightarrow> q' \<noteq> a1"
      using q n2 [of q] n(3) by (auto simp: q'_def)
    define q'' where "q'' = (if q' = a0 then i else q')"
    have q'': "fst s1 ! q' = s_c S ! q''" "i \<le> q''" "q'' < w" using n1 [of q'] q' by (auto simp: q''_def)
    then have "q'' = a0 \<or> b = 2 \<and> q'' = a1" using only in_row q'(1) by simp
    then show False using q' q a1 a0i by (auto simp: q''_def split: if_splits)
  qed
  moreover have "i < ?last \<and> fst s2 ! ?last \<in> ones A ?x" if "b = 2"
    using n2 [of ?last] n1 [of a1] a1 a1i a0i that w by auto
  ultimately show ?thesis by blast
qed

subsection \<open>One pass of the loop\<close>

lemma pop_row_None: "pop_row i S b zs = (None, ys) \<Longrightarrow> ys = []"
proof (induction i S b zs rule: pop_row.induct)
  case (1 i S b zs)
  show ?case
  proof (cases "zs = []")
    case True
    then show ?thesis using 1(2) by (simp add: pop_row.simps [of i S b "[]"])
  next
    case False
    then show ?thesis using 1 by (auto simp: pop_row.simps [of i S b zs] Let_def split: if_splits)
  qed
qed

lemma choose_spec:
  assumes "precode_matrix_choose i m S N = (chosen, N')" and "chosen < m"
    and "length (idxs N) = 3" and "\<forall>b < 3. \<forall>y \<in> set (idxs N ! b). y < n"
  shows "\<exists>x < n. \<exists>b. chosen = s_di S ! x \<and> i \<le> chosen \<and> s_nz S ! x = of_nat b \<and> (b = 1 \<or> b = 2)"
    and "length (idxs N') = 3" "\<forall>b < 3. \<forall>y \<in> set (idxs N' ! b). y < n"
proof -
  obtain p1 xs where 1: "pop_row i S 1 (idxs N ! 1) = (p1, xs)" by fastforce
  have sub: "set ys \<subseteq> set zs" if "pop_row i S b zs = (None, ys)" for b zs ys
    using pop_row_None [OF that] by simp
  have len: "length ((idxs N)[b := ys]) = 3" for b ys using assms(3) by simp
  have N: "\<forall>c < 3. \<forall>y \<in> set (ns[b := ys] ! c). y < n"
    if "length ns = 3" "\<forall>b < 3. \<forall>y \<in> set (ns ! b). y < n" "set ys \<subseteq> set (ns ! b)" "b < 3" for ns b ys
    using that by (auto simp: nth_list_update)
  have "(\<exists>x < n. \<exists>b. chosen = s_di S ! x \<and> i \<le> chosen \<and> s_nz S ! x = of_nat b \<and> (b = 1 \<or> b = 2))
    \<and> length (idxs N') = 3 \<and> (\<forall>b < 3. \<forall>y \<in> set (idxs N' ! b). y < n)"
  proof (cases p1)
    case (Some p)
    note s = pop_row_Some [OF 1 [unfolded Some]]
    have e: "chosen = p" "N' = N\<lparr>idxs := (idxs N)[1 := xs]\<rparr>"
      using assms(1) 1 Some by (auto simp: precode_matrix_choose_def)
    from s obtain x where x: "x \<in> set (idxs N ! 1)" "p = s_di S ! x" "s_nz S ! x = of_nat 1" by blast
    then have "x < n" using assms(4) [rule_format, of 1 x] by simp
    moreover have "chosen = s_di S ! x \<and> i \<le> chosen \<and> s_nz S ! x = of_nat 1 \<and> ((1::nat) = 1 \<or> (1::nat) = 2)"
      using x s e by simp
    moreover have "length (idxs N') = 3 \<and> (\<forall>b < 3. \<forall>y \<in> set (idxs N' ! b). y < n)"
      using N [OF assms(3,4), of xs 1] s len e by simp
    ultimately show ?thesis by blast
  next
    case None
    let ?N = "N\<lparr>idxs := (idxs N)[1 := xs]\<rparr>"
    have N1: "\<forall>b < 3. \<forall>y \<in> set (idxs ?N ! b). y < n" using N [OF assms(3,4), of xs 1] sub [OF 1 [unfolded None]] by simp
    obtain p2 ys where 2: "pop_row i S 2 (idxs ?N ! 2) = (p2, ys)" by fastforce
    then obtain p where p: "p2 = Some p"
      using assms(1,2) 1 None by (cases p2) (auto simp: precode_matrix_choose_def Let_def)
    note s = pop_row_Some [OF 2 [unfolded p]]
    have e: "chosen = p" "N' = ?N\<lparr>idxs := (idxs ?N)[2 := ys]\<rparr>"
      using assms(1) 1 2 None p by (auto simp: precode_matrix_choose_def Let_def)
    from s obtain x where x: "x \<in> set (idxs ?N ! 2)" "p = s_di S ! x" "s_nz S ! x = of_nat 2" by blast
    have "x < n" using N1 [rule_format, of 2 x] x(1) by simp
    have "\<forall>c < 3. \<forall>y \<in> set ((idxs ?N)[2 := ys] ! c). y < n"
      using N [OF _ N1, of ys 2] s assms(3) by simp
    then have "length (idxs N') = 3 \<and> (\<forall>b < 3. \<forall>y \<in> set (idxs N' ! b). y < n)" using e assms(3) by simp
    moreover have "chosen = s_di S ! x \<and> i \<le> chosen \<and> s_nz S ! x = of_nat 2 \<and> ((2::nat) = 1 \<or> (2::nat) = 2)"
      using x s e by simp
    ultimately show ?thesis using \<open>x < n\<close> by blast
  qed
  then show "\<exists>x < n. \<exists>b. chosen = s_di S ! x \<and> i \<le> chosen \<and> s_nz S ! x = of_nat b \<and> (b = 1 \<or> b = 2)"
    "length (idxs N') = 3" "\<forall>b < 3. \<forall>y \<in> set (idxs N' ! b). y < n" by blast+
qed

lemma update_nnz_spec:
  assumes A: "matrix_ok P A" and c: "perm_pair (pL P) (s_c S) (s_ci S)" and w: "i < w" "w \<le> pL P"
    and nz: "length (s_nz S) = sp_rows A" and N: "length (idxs N) = 3" "\<forall>b < 3. \<forall>y \<in> set (idxs N ! b). y < sp_rows A"
    and b: "b = 1 \<or> b = 2"
  shows "\<exists>nz N'. precode_matrix_update_nnz (spmat_transpose A) i (w - i) b S N = (S\<lparr>s_nz := nz\<rparr>, N') \<and> length nz = sp_rows A
    \<and> (\<forall>x < sp_rows A. nz ! x = s_nz S ! x - (if s_c S ! i \<in> ones A x then 1 else 0)
          - (if b = 2 \<and> s_c S ! (w - 1) \<in> ones A x then 1 else 0))
    \<and> length (idxs N') = 3 \<and> (\<forall>b < 3. \<forall>y \<in> set (idxs N' ! b). y < sp_rows A)"
proof -
  note R = column_rows [OF A perm_pairD(3) [OF c]]
  have i: "i < pL P" "w - 1 < pL P" using w by simp_all
  let ?AT = "spmat_transpose A"
  have "\<exists>nz1 N1. foldl count_down (S, N) (idxs ?AT ! (s_c S ! i)) = (S\<lparr>s_nz := nz1\<rparr>, N1) \<and> length nz1 = length (s_nz S)
    \<and> (\<forall>x < length nz1. nz1 ! x = (if x \<in> set (idxs ?AT ! (s_c S ! i)) then s_nz S ! x - 1 else s_nz S ! x))
    \<and> length (idxs N1) = 3 \<and> (\<forall>b < 3. \<forall>y \<in> set (idxs N1 ! b). y < sp_rows A)"
    by (rule count_down_fold) (use R [OF i(1)] nz N in auto)
  then obtain nz1 N1 where f1: "foldl count_down (S, N) (idxs ?AT ! (s_c S ! i)) = (S\<lparr>s_nz := nz1\<rparr>, N1)" "length nz1 = sp_rows A"
    "length (idxs N1) = 3" "\<forall>b < 3. \<forall>y \<in> set (idxs N1 ! b). y < sp_rows A"
    and v1: "\<And>x. x < sp_rows A \<Longrightarrow> nz1 ! x = s_nz S ! x - (if s_c S ! i \<in> ones A x then 1 else 0)"
    using R(2) [OF i(1)] nz by auto
  have pos: "i + (w - i) = w" using w by simp
  from b show ?thesis
  proof
    assume b: "b = 1"
    then show ?thesis
      using f1 v1 by (intro exI [of _ nz1] exI [of _ N1]) (simp add: precode_matrix_update_nnz_def)
  next
    assume b: "b = 2"
    let ?S = "S\<lparr>s_nz := nz1\<rparr>"
    have "\<exists>nz2 N2. foldl count_down (?S, N1) (idxs ?AT ! (s_c S ! (w - 1))) = (?S\<lparr>s_nz := nz2\<rparr>, N2) \<and> length nz2 = length (s_nz ?S)
      \<and> (\<forall>x < length nz2. nz2 ! x = (if x \<in> set (idxs ?AT ! (s_c S ! (w - 1))) then s_nz ?S ! x - 1 else s_nz ?S ! x))
      \<and> length (idxs N2) = 3 \<and> (\<forall>b < 3. \<forall>y \<in> set (idxs N2 ! b). y < sp_rows A)"
      by (rule count_down_fold) (use R [OF i(2)] f1 in auto)
    then obtain nz2 N2 where f2: "foldl count_down (?S, N1) (idxs ?AT ! (s_c S ! (w - 1))) = (S\<lparr>s_nz := nz2\<rparr>, N2)" "length nz2 = sp_rows A"
      "length (idxs N2) = 3" "\<forall>b < 3. \<forall>y \<in> set (idxs N2 ! b). y < sp_rows A"
      and v2: "\<And>x. x < sp_rows A \<Longrightarrow> nz2 ! x = nz1 ! x - (if s_c S ! (w - 1) \<in> ones A x then 1 else 0)"
      using R(2) [OF i(2)] f1(2) by auto
    have "precode_matrix_update_nnz ?AT i (w - i) b S N = (S\<lparr>s_nz := nz2\<rparr>, N2)"
      using f1(1) f2(1) by (simp add: precode_matrix_update_nnz_def b pos)
    then show ?thesis
      using f2 v1 v2 b by (intro exI [of _ nz2] exI [of _ N2]) simp
  qed
qed

lemma in_window_card:
  assumes "matrix_ok P A" and "perm_pair (pL P) (s_c S) (s_ci S)" and "x < sp_rows A" and "b \<le> pL P"
  shows "length (in_window A S a b x) = card {q. a \<le> q \<and> q < b \<and> s_c S ! q \<in> ones A x}"
  using window_positions [OF assms, of a] by (metis distinct_card length_map)

lemma window_shrink:
  assumes "matrix_ok P A" and "perm_pair (pL P) (s_c S) (s_ci S)" and "x < sp_rows A" and w: "i < w" "w \<le> pL P"
    and b: "b = 1 \<or> b = 2 \<and> i < w - 1"
  shows "length (in_window A S i w x) = length (in_window A S (i + 1) (w - (b - 1)) x)
    + (if s_c S ! i \<in> ones A x then 1 else 0) + (if b = 2 \<and> s_c S ! (w - 1) \<in> ones A x then 1 else 0)"
proof -
  let ?Q = "\<lambda>a b. {q. a \<le> q \<and> q < b \<and> s_c S ! q \<in> ones A x}"
  have fin: "finite (?Q a b)" for a b by simp
  have c: "length (in_window A S a b x) = card (?Q a b)" if "b \<le> pL P" for a b
    by (rule in_window_card [OF assms(1-3) that])
  have "?Q i w = ?Q (i + 1) w \<union> (if s_c S ! i \<in> ones A x then {i} else {})"
    using w by (auto simp: Suc_le_eq le_eq_less_or_eq)
  then have 1: "card (?Q i w) = card (?Q (i + 1) w) + (if s_c S ! i \<in> ones A x then 1 else 0)"
    by simp
  have 2: "card (?Q (i + 1) w) = card (?Q (i + 1) (w - 1)) + (if s_c S ! (w - 1) \<in> ones A x then 1 else 0)" if "i < w - 1"
  proof -
    have "?Q (i + 1) w = ?Q (i + 1) (w - 1) \<union> (if s_c S ! (w - 1) \<in> ones A x then {w - 1} else {})"
    proof (rule set_eqI)
      fix q
      show "q \<in> ?Q (i + 1) w \<longleftrightarrow> q \<in> ?Q (i + 1) (w - 1) \<union> (if s_c S ! (w - 1) \<in> ones A x then {w - 1} else {})"
      proof (cases "q = w - 1")
        case True
        then show ?thesis using that by simp
      next
        case False
        then have "q < w \<longleftrightarrow> q < w - 1" using that by linarith
        then show ?thesis using False by simp
      qed
    qed
    then show ?thesis by simp
  qed
  show ?thesis using b 1 2 c w by auto
qed

text \<open>Positions at or after \<open>b\<close> keep their columns, so columns below \<open>b\<close> sit below \<open>b\<close>.\<close>

lemma low_position:
  assumes "perm_pair n c ci" and "\<forall>q. b \<le> q \<and> q < n \<longrightarrow> c ! q = q" and "i < b" and "b \<le> n"
  shows "c ! i < b"
proof (rule ccontr)
  assume "\<not> c ! i < b"
  moreover have "c ! i < n" using assms by (simp add: perm_pairD)
  ultimately have "c ! (c ! i) = c ! i" using assms(2) by simp
  then have "c ! i = i" using perm_pair_inj [OF assms(1), of "c ! i" i] \<open>c ! i < n\<close> assms(3,4) by simp
  then show False using \<open>\<not> c ! i < b\<close> assms(3) by simp
qed

lemma swap_rows_spec:
  assumes o: "perms_ok P A S" and i: "i \<le> p" "p < sp_rows A"
  shows "perms_ok P A (swap_rows S i p)" "s_d (swap_rows S i p) ! i = s_d S ! p"
    "s_d (swap_rows S i p) ! q = (if q = i then s_d S ! p else if q = p then s_d S ! i else s_d S ! q)"
    "x < sp_rows A \<Longrightarrow> i \<le> s_di (swap_rows S i p) ! x \<longleftrightarrow> i \<le> s_di S ! x"
    "s_c (swap_rows S i p) = s_c S" "s_ci (swap_rows S i p) = s_ci S" "s_nz (swap_rows S i p) = s_nz S"
    "s_ops (swap_rows S i p) = s_ops S"
    "s_i (swap_rows S i p) = s_i S" "s_u (swap_rows S i p) = s_u S" "s_mark0 (swap_rows S i p) = s_mark0 S"
proof -
  note O = perms_okD [OF o]
  have lt: "i < sp_rows A" "p < sp_rows A" using i by simp_all
  let ?st = "swap_pair (s_d S, s_di S) i p"
  have e: "swap_rows S i p = S\<lparr>s_d := fst ?st, s_di := snd ?st\<rparr>"
    using swap_pair_guard [OF O(1) lt] by (cases "i = p") (auto simp: swap_rows_def Let_def)
  note sp = swap_pair_spec [OF O(1) lt]
  show "s_d (swap_rows S i p) ! i = s_d S ! p" "s_c (swap_rows S i p) = s_c S" "s_ci (swap_rows S i p) = s_ci S"
    "s_nz (swap_rows S i p) = s_nz S" "s_ops (swap_rows S i p) = s_ops S"
    "s_i (swap_rows S i p) = s_i S" "s_u (swap_rows S i p) = s_u S" "s_mark0 (swap_rows S i p) = s_mark0 S"
    "s_d (swap_rows S i p) ! q = (if q = i then s_d S ! p else if q = p then s_d S ! i else s_d S ! q)"
    by (simp_all add: e sp(2))
  show "perms_ok P A (swap_rows S i p)"
    using o sp by (auto simp: e perms_ok_def)
  have "same_window (sp_rows A) i (sp_rows A) (s_d S) (fst ?st)"
    using same_window_swap [OF O(1), of i i "sp_rows A" p] lt i by simp
  from same_window_position(1) [OF O(1) sp(1) this] show "i \<le> s_di (swap_rows S i p) ! x \<longleftrightarrow> i \<le> s_di S ! x" if "x < sp_rows A"
    using that perm_pairD(4) [OF O(1)] perm_pairD(4) [OF sp(1)] by (simp add: e)
qed

lemma swap_rows_orders:
  assumes "orders_ok P A S" and "i \<le> p" "p < sp_rows A - pH P"
  shows "orders_ok P A (swap_rows S i p)"
  using assms swap_rows_spec(1,3) [OF orders_okD(7) [OF assms(1)] assms(2)] by (auto simp: orders_ok_def)

lemma order_pass:
  assumes A: "matrix_ok P A" and inv: "order_inv P A i u S N" and lt: "i + u < pL P"
    and ch: "precode_matrix_choose i (sp_rows A - pH P) S N = (p, N1)" "p < sp_rows A - pH P"
  shows "\<exists>b S1 S2 N2. precode_matrix_swap_cols A i (sp_cols A - i - u) (swap_rows S i p) = Inr (b, S1)
    \<and> precode_matrix_update_nnz (spmat_transpose A) i (sp_cols A - i - u) b S1 N1 = (S2, N2)
    \<and> order_inv P A (i + 1) (u + b - 1) S2 N2"
proof -
  note I = order_invD [OF inv] and AD = matrix_okD [OF A]
  note O = orders_okD [OF I(1)]
  define w where "w = pL P - u"
  have w: "i < w" "w \<le> pL P" "w \<le> pW P" "sp_cols A - i - u = w - i" using lt I(3) AD(2,10) by (auto simp: w_def)
  from choose_spec [OF ch I(9,10)] obtain x b where x: "x < sp_rows A" "p = s_di S ! x" "i \<le> p" "s_nz S ! x = of_nat b"
    and b: "b = 1 \<or> b = 2" and N1: "length (idxs N1) = 3" "\<forall>b < 3. \<forall>y \<in> set (idxs N1 ! b). y < sp_rows A"
    by blast
  have cnt: "length (in_window A S i w x) = b"
    using counter_is_count(1) [OF A inv x(1) _ x(4) b] x(2,3) by (simp add: w_def)
  let ?S = "swap_rows S i p"
  have "p < sp_rows A" using ch(2) by simp
  note R = swap_rows_spec [OF O(7) x(3) this]
  note R1 = swap_rows_orders [OF I(1) x(3) ch(2)]
  note O1 = orders_okD [OF R1]
  have dx: "s_d ?S ! i = x" using R(2) perm_pairD(6) [OF O(1) x(1)] x(2) by simp
  have win: "in_window A ?S a c y = in_window A S a c y" for a c y by (simp add: in_window_def R(6))
  from swap_cols_spec [OF A O1(2), of i w b] x(1,4) w cnt b dx obtain c' ci' where
    sc: "precode_matrix_swap_cols A i (w - i) ?S = Inr (b, ?S\<lparr>s_c := c', s_ci := ci'\<rparr>)" and pc: "perm_pair (pL P) c' ci'"
    and sw: "same_window (pL P) i w (s_c S) c'" and diag: "c' ! i \<in> ones A x"
    and off: "\<forall>q. i < q \<and> q < w - (b - 1) \<longrightarrow> c' ! q \<notin> ones A x" and last: "b = 2 \<longrightarrow> i < w - 1 \<and> c' ! (w - 1) \<in> ones A x"
    by (auto simp: win R(5,7))
  define S1 where "S1 = ?S\<lparr>s_c := c', s_ci := ci'\<rparr>"
  have S1: "s_c S1 = c'" "s_ci S1 = ci'" "s_nz S1 = s_nz S" by (simp_all add: S1_def R)
  from update_nnz_spec [OF A, of S1 i w N1 b] obtain nz N2 where
    un: "precode_matrix_update_nnz (spmat_transpose A) i (w - i) b S1 N1 = (S1\<lparr>s_nz := nz\<rparr>, N2)" and nz: "length nz = sp_rows A"
    and val: "\<forall>x < sp_rows A. nz ! x = s_nz S ! x - (if c' ! i \<in> ones A x then 1 else 0)
          - (if b = 2 \<and> c' ! (w - 1) \<in> ones A x then 1 else 0)"
    and N2: "length (idxs N2) = 3" "\<forall>b < 3. \<forall>y \<in> set (idxs N2 ! b). y < sp_rows A"
    using pc w I(7) N1 b by (auto simp: S1)
  let ?S2 = "S1\<lparr>s_nz := nz\<rparr>"
  have w': "pL P - (u + b - 1) = w - (b - 1)" using b by (auto simp: w_def)
  have ident: "\<forall>q. pW P \<le> q \<and> q < pL P \<longrightarrow> c' ! q = q"
    using sw O(3) w by (auto simp: same_window_def)
  have o2: "orders_ok P A ?S2"
    using R1 pc ident by (simp add: orders_ok_def perms_ok_def S1_def)
  have tri: "triangle A (s_d ?S2) c' (i + 1) (w - (b - 1))"
    unfolding triangle_def
  proof (intro allI impI)
    fix r assume r: "r < i + 1"
    show "c' ! r \<in> ones A (s_d ?S2 ! r) \<and> (\<forall>q. r < q \<and> q < w - (b - 1) \<longrightarrow> c' ! q \<notin> ones A (s_d ?S2 ! r))"
    proof (cases "r = i")
      case True
      then show ?thesis using diag off dx by (simp add: S1_def)
    next
      case False
      then have r: "r < i" using r by simp
      have dr: "s_d ?S2 ! r = s_d S ! r" using R(3) [of r] r x(3) by (simp add: S1_def)
      have cr: "c' ! q = s_c S ! q" if "q < i" for q using sw that w by (simp add: same_window_def)
      have old: "s_c S ! r \<in> ones A (s_d S ! r)" "\<And>q. r < q \<Longrightarrow> q < w \<Longrightarrow> s_c S ! q \<notin> ones A (s_d S ! r)"
        using I(6) r by (auto simp: triangle_def w_def)
      have "c' ! q \<notin> ones A (s_d S ! r)" if q: "r < q" "q < w - (b - 1)" for q
      proof (cases "q < i")
        case True
        then show ?thesis using cr old(2) q(1) w(1) by simp
      next
        case False
        have qw: "q < w" "q < pL P" using q(2) w by simp_all
        let ?q = "s_ci S ! (c' ! q)"
        have "i \<le> ?q \<and> ?q < w"
          using same_window_position(1) [OF O(2) pc sw, of "c' ! q"] perm_pairD(3,5) [OF pc qw(2)] False qw by simp
        moreover have "s_c S ! ?q = c' ! q" using perm_pairD(6) [OF O(2) perm_pairD(3) [OF pc qw(2)]] .
        ultimately show ?thesis using old(2) [of ?q] r by simp
      qed
      then show ?thesis using old(1) cr [OF r] dr by simp
    qed
  qed
  have cnt2: "nz ! y = of_nat (if first_ones P A y = [] then pL P else length (in_window A ?S2 (i + 1) (w - (b - 1)) y))"
    if y: "y < sp_rows A" "i + 1 \<le> s_di ?S2 ! y" for y
  proof -
    have "i \<le> s_di S ! y" using R(4) [OF y(1)] y(2) by (simp add: S1_def)
    note v = I(8) [OF y(1) this, folded w_def]
    have low: "c' ! i < pW P" "b = 2 \<Longrightarrow> c' ! (w - 1) < pW P"
      using low_position [OF pc ident] w AD(10) by auto
    have same: "length (in_window A S i w y) = length (in_window A S1 i w y)"
      using same_window_position(1) [OF O(2) pc sw] AD(6) [OF y(1)] by (simp add: in_window_def S1 cong: filter_cong)
    have shrink: "length (in_window A S1 i w y) = length (in_window A ?S2 (i + 1) (w - (b - 1)) y)
      + (if c' ! i \<in> ones A y then 1 else 0) + (if b = 2 \<and> c' ! (w - 1) \<in> ones A y then 1 else 0)"
      using window_shrink [OF A, of S1 y i w b] pc y(1) w b last by (auto simp: S1 in_window_def)
    show ?thesis
    proof (cases "first_ones P A y = []")
      case True
      then have "c' ! i \<notin> ones A y" "b = 2 \<Longrightarrow> c' ! (w - 1) \<notin> ones A y"
        using low by (auto simp: first_ones_def filter_empty_conv)
      then show ?thesis using True v val y(1) by auto
    next
      case False
      then show ?thesis using v val y(1) same shrink by auto
    qed
  qed
  have i': "i + 1 \<le> sp_rows A - pH P" "pP P \<le> u + b - 1" "i + 1 + (u + b - 1) \<le> pL P"
    using ch(2) x(3) I(3) b last w by (auto simp: w_def)
  have "order_inv P A (i + 1) (u + b - 1) ?S2 N2"
    unfolding order_inv_def w' using o2 i' tri nz cnt2 N2 I(2) by (simp add: S1_def R)
  then show ?thesis using sc un unfolding w(4) S1_def by blast
qed

subsection \<open>The whole phase\<close>

lemma precond_loop_spec:
  assumes "matrix_ok P A"
  shows "order_inv P A i u S N \<Longrightarrow> \<exists>i' S'. precond_loop P A (spmat_transpose A) i u S N = Inr (i', S')
    \<and> orders_ok P A S' \<and> s_ops S' = [] \<and> i' \<le> pW P \<and> i' \<le> sp_rows A - pH P \<and> triangle A (s_d S') (s_c S') i' i'"
proof (induction "sp_rows A - pH P - i" arbitrary: i u S N rule: less_induct)
  case less
  note I = order_invD [OF less.prems]
  have leaf: "orders_ok P A S \<and> s_ops S = [] \<and> i \<le> pW P \<and> i \<le> sp_rows A - pH P \<and> triangle A (s_d S) (s_c S) i i"
  proof -
    have "i \<le> pL P - u" "i \<le> pW P" using I(3,4) matrix_okD(10) [OF assms] by simp_all
    then show ?thesis using I(1,2,5,6) by (auto simp: triangle_def)
  qed
  show ?case
  proof (cases "i + u < pL P")
    case True
    obtain p N1 where ch: "precode_matrix_choose i (sp_rows A - pH P) S N = (p, N1)" by fastforce
    show ?thesis
    proof (cases "p < sp_rows A - pH P")
      case p: True
      from order_pass [OF assms less.prems True ch p] obtain b S1 S2 N2 where
        pass: "precode_matrix_swap_cols A i (sp_cols A - i - u) (swap_rows S i p) = Inr (b, S1)"
          "precode_matrix_update_nnz (spmat_transpose A) i (sp_cols A - i - u) b S1 N1 = (S2, N2)"
          "order_inv P A (i + 1) (u + b - 1) S2 N2" by blast
      have "i \<le> p" using choose_ge [OF ch p] .
      then have "sp_rows A - pH P - (i + 1) < sp_rows A - pH P - i" using p by simp
      from less.hyps [OF this pass(3)] show ?thesis
        using True p ch pass(1,2) by (simp add: precond_loop.simps [of P A "spmat_transpose A" i u S N] Let_def)
    next
      case False
      then show ?thesis using True ch leaf by (simp add: precond_loop.simps [of P A "spmat_transpose A" i u S N] Let_def)
    qed
  next
    case False
    then show ?thesis using leaf by (simp add: precond_loop.simps [of P A "spmat_transpose A" i u S N])
  qed
qed

lemma fold_upd:
  assumes "inj_on ((!) d) {..<m}" and "\<forall>i < m. d ! i < length xs"
  shows "length (foldl (\<lambda>xs i. xs[d ! i := f i]) xs [0..<m]) = length xs
    \<and> (\<forall>j < m. foldl (\<lambda>xs i. xs[d ! i := f i]) xs [0..<m] ! (d ! j) = f j)"
  using assms
proof (induction m)
  case (Suc m)
  let ?ys = "foldl (\<lambda>xs i. xs[d ! i := f i]) xs [0..<m]"
  have IH: "length ?ys = length xs" "\<forall>j < m. ?ys ! (d ! j) = f j"
    using Suc.IH inj_on_subset [OF Suc.prems(1), of "{..<m}"] Suc.prems(2) by auto
  have "?ys[d ! m := f m] ! (d ! j) = f j" if "j < Suc m" for j
  proof (cases "j = m")
    case True
    then show ?thesis using IH(1) Suc.prems(2) by simp
  next
    case False
    then have "d ! j \<noteq> d ! m" using Suc.prems(1) that by (auto dest: inj_onD)
    then show ?thesis using IH(2) False that by simp
  qed
  then show ?case using IH(1) by simp
qed simp

lemma sort_spec:
  assumes A: "matrix_ok P A"
  defines "S \<equiv> precode_matrix_sort P A (sched_new (sp_rows A) (sp_cols A))"
  shows "orders_ok P A S" "s_ops S = []" "length (s_nz S) = sp_rows A" "s_ci S = [0..<pL P]"
    "x < sp_rows A \<Longrightarrow> s_nz S ! x = of_nat (if first_ones P A x = [] then pL P else length (first_ones P A x))"
proof -
  note D = matrix_okD [OF A]
  let ?n = "sp_rows A" and ?s = "pS P + pH P"
  define d where "d = map (\<lambda>row. (row + pS P + pH P) mod ?n) [0..<?n]"
  define nzv where "nzv = (\<lambda>row. of_nat (if spmat_nnz A (d ! row) 0 (sp_cols A - pP P) = 0 then sp_cols A
    else spmat_nnz A (d ! row) 0 (sp_cols A - pP P)) :: u32)"
  have n: "0 < ?n" using D(4,13) by simp
  have dn: "d ! j = (?s + j) mod ?n" "d ! j < ?n" if "j < ?n" for j using that n by (simp_all add: d_def ac_simps)
  have inj: "inj_on ((!) d) {..<?n}"
    by (rule inj_onI) (auto simp: dn dest: mod_add_inj)
  have "(!) d ` {..<?n} = {..<?n}"
    using inj dn(2) by (intro endo_inj_surj) auto
  then have surj: "\<exists>j < ?n. d ! j = r" if "r < ?n" for r using that by (metis imageE lessThan_iff)
  let ?di = "foldl (\<lambda>di i. di[d ! i := i]) [0..<?n] [0..<?n]" and ?nz = "foldl (\<lambda>nz i. nz[d ! i := nzv i]) (replicate ?n 0) [0..<?n]"
  have S: "S = (sched_new ?n (sp_cols A))\<lparr>s_d := d, s_di := ?di, s_nz := ?nz\<rparr>"
    unfolding S_def precode_matrix_sort_def Let_def d_def [symmetric] nzv_def by (simp add: sched_new_def)
  have di: "length ?di = ?n" "\<And>j. j < ?n \<Longrightarrow> ?di ! (d ! j) = j"
    using fold_upd [OF inj, of "[0..<?n]" "\<lambda>i. i"] dn(2) by auto
  have nz: "length ?nz = ?n" "\<And>j. j < ?n \<Longrightarrow> ?nz ! (d ! j) = nzv j"
    using fold_upd [OF inj, of "replicate ?n 0" nzv] dn(2) by auto
  have perm: "perm_pair ?n d ?di"
    unfolding perm_pair_def
  proof (intro conjI allI impI)
    fix i assume i: "i < ?n"
    obtain j where j: "j < ?n" "d ! j = i" using surj [OF i] by blast
    show "?di ! i < ?n" "d ! (?di ! i) = i" using di(2) [OF j(1)] j by simp_all
  qed (simp_all add: di dn(2), simp add: d_def)
  have "d ! (?n - pH P + h) = pS P + h" if "h < pH P" for h
  proof -
    have "?n - pH P + h < ?n" "pS P + h < ?n" using that D(4,11,12,13) D(1) by (auto simp: params_ok_def)
    moreover from this have "?s + (?n - pH P + h) = ?n + (pS P + h)" using that D(4,12) by simp
    ultimately have "d ! (?n - pH P + h) = (?n + (pS P + h)) mod ?n" using dn(1) by metis
    then show ?thesis using \<open>pS P + h < ?n\<close> by simp
  qed
  then show "orders_ok P A S"
    using perm D(2) by (simp add: orders_ok_def perms_ok_def S sched_new_def perm_pair_id)
  show "s_ops S = []" "length (s_nz S) = ?n" "s_ci S = [0..<pL P]" using nz D(2) by (simp_all add: S sched_new_def)
  show "s_nz S ! x = of_nat (if first_ones P A x = [] then pL P else length (first_ones P A x))" if x: "x < ?n"
  proof -
    obtain j where j: "j < ?n" "d ! j = x" using surj [OF x] by blast
    have "spmat_nnz A x 0 (sp_cols A - pP P) = length (first_ones P A x)"
      using D(2) arg_cong [OF D(10), of "\<lambda>n. n - pP P"] by (simp add: spmat_nnz_def first_ones_def)
    then show ?thesis using nz(2) [OF j(1)] j(2) D(2) by (simp add: S nzv_def)
  qed
qed

theorem precond_spec:
  assumes A: "matrix_ok P A"
  shows "\<exists>S. precode_matrix_precond P A (spmat_transpose A) (precode_matrix_sort P A (sched_new (sp_rows A) (sp_cols A))) = Inr S
    \<and> orders_ok P A S \<and> s_ops S = [] \<and> s_i S \<le> pW P \<and> s_i S \<le> sp_rows A - pH P \<and> s_u S = pL P - s_i S
    \<and> triangle A (s_d S) (s_c S) (s_i S) (s_i S)"
proof -
  note D = matrix_okD [OF A]
  define S where "S = precode_matrix_sort P A (sched_new (sp_rows A) (sp_cols A))"
  note s = sort_spec [OF A, folded S_def]
  let ?g = "\<lambda>N row. let nz = s_nz S ! (s_d S ! row) in if nz < 3 then spmat_push N (unat nz) (s_d S ! row) else N"
  have N: "length (idxs (foldl ?g (spmat_new 3 (sp_rows A)) [0..<m])) = 3
    \<and> (\<forall>b < 3. \<forall>y \<in> set (idxs (foldl ?g (spmat_new 3 (sp_rows A)) [0..<m]) ! b). y < sp_rows A)" if "m \<le> sp_rows A" for m
    using that
  proof (induction m)
    case 0
    then show ?case by (auto simp: spmat_new_def)
  next
    case (Suc m)
    let ?N = "foldl ?g (spmat_new 3 (sp_rows A)) [0..<m]" and ?v = "s_nz S ! (s_d S ! m)"
    have "s_d S ! m < sp_rows A" using perm_pairD(3) [OF orders_okD(1) [OF s(1)]] Suc.prems by simp
    moreover have "?v < 3 \<Longrightarrow> unat ?v < 3" by (simp add: word_less_nat_alt)
    ultimately show ?case using Suc by (auto simp: Let_def sp_push_nth)
  qed
  have "in_window A S 0 (pL P - pP P) x = first_ones P A x" if "x < sp_rows A" for x
  proof -
    have "pL P - pP P = pW P" using D(10) by simp
    then show ?thesis using D(6) [OF that] by (auto simp: in_window_def first_ones_def s(4) cong: filter_cong)
  qed
  then have nz: "s_nz S ! x = of_nat (if first_ones P A x = [] then pL P else length (in_window A S 0 (pL P - pP P) x))"
    if "x < sp_rows A" for x using s(5) [OF that] that by simp
  have "order_inv P A 0 (pP P) S (foldl ?g (spmat_new 3 (sp_rows A)) [0..<sp_rows A - pH P])"
    unfolding order_inv_def
  proof (intro conjI)
    show "\<forall>x < sp_rows A. 0 \<le> s_di S ! x \<longrightarrow> s_nz S ! x
        = of_nat (if first_ones P A x = [] then pL P else length (in_window A S 0 (pL P - pP P) x))"
      using nz by blast
    show "triangle A (s_d S) (s_c S) 0 (pL P - pP P)" by (simp add: triangle_def)
    show "0 + pP P \<le> pL P" using D(10) by linarith
  qed (use s(1-3) N [of "sp_rows A - pH P"] in simp_all)
  from precond_loop_spec [OF A this] obtain i' S' where
    loop: "precond_loop P A (spmat_transpose A) 0 (pP P) S (foldl ?g (spmat_new 3 (sp_rows A)) [0..<sp_rows A - pH P]) = Inr (i', S')"
    and S': "orders_ok P A S'" "s_ops S' = []" "i' \<le> pW P" "i' \<le> sp_rows A - pH P" "triangle A (s_d S') (s_c S') i' i'"
    by blast
  have "precode_matrix_precond P A (spmat_transpose A) S = Inr (S'\<lparr>s_i := i', s_u := pL P - i'\<rparr>)"
    unfolding precode_matrix_precond_def using loop by (simp add: Let_def)
  moreover have "orders_ok P A (S'\<lparr>s_i := i', s_u := pL P - i'\<rparr>)" using S'(1) unfolding orders_ok_def perms_ok_def by simp
  ultimately show ?thesis
    using S'(2-5) unfolding S_def by (intro exI [of _ "S'\<lparr>s_i := i', s_u := pL P - i'\<rparr>"]) simp
qed

end
