(* ===== verification/Precode_Elim.thy ===== *)
theory Precode_Elim
  imports Precode_Order
begin

section \<open>Batches of row additions\<close>

text \<open>
  The solver adds one row to many: \<open>batch s b ts\<close> lists the operations that add \<open>b t\<close> times row \<open>s\<close> to
  each row \<open>t\<close> of \<open>ts\<close>. The lemmas say what a sequence of batches does to a matrix whose source rows
  are unit vectors on the columns in question: it clears those columns (\<open>clear_batches\<close>), and on a
  triangle it leaves the identity (\<open>triangle_batches\<close>).
\<close>

definition batch :: "nat \<Rightarrow> (nat \<Rightarrow> u8) \<Rightarrow> nat list \<Rightarrow> sched_op list" where
  "batch s b ts = map (\<lambda>t. \<lparr>op_beta = b t, op_i = t, op_j = s\<rparr>) ts"

definition batches :: "(nat \<Rightarrow> nat) \<Rightarrow> (nat \<Rightarrow> nat \<Rightarrow> u8) \<Rightarrow> (nat \<Rightarrow> nat list) \<Rightarrow> nat list \<Rightarrow> sched_op list" where
  "batches s b ts ps = concat (map (\<lambda>p. batch (s p) (b p) (ts p)) ps)"

lemma batches_simps [simp]: "batches s b ts [] = []" "batches s b ts (ps @ qs) = batches s b ts ps @ batches s b ts qs"
  "batches s b ts (p # ps) = batch (s p) (b p) (ts p) @ batches s b ts ps"
  by (simp_all add: batches_def)

lemma run_batch:
  assumes "distinct ts" and "s \<notin> set ts" and "\<forall>t \<in> set ts. b t \<noteq> 0"
  shows "run (batch s b ts) N r x = (if r \<in> set ts then N r x XOR gf_mul (b r) (N s x) else N r x)"
  using assms
proof (induction ts arbitrary: N)
  case (Cons t ts)
  let ?op = "\<lparr>op_beta = b t, op_i = t, op_j = s\<rparr>"
  have "row_op N ?op s = N s" "\<And>r. r \<noteq> t \<Longrightarrow> row_op N ?op r = N r"
    using Cons.prems(2) by (simp_all add: row_op_other)
  moreover have "row_op N ?op t x = N t x XOR gf_mul (b t) (N s x)" using Cons.prems(3) by (simp add: row_op_def)
  ultimately show ?case using Cons by (cases "r = t") (auto simp: batch_def)
qed (simp add: batch_def)

lemma clear_batches:
  assumes src: "\<And>p q. p < n \<Longrightarrow> q < n \<Longrightarrow> N (s p) (c q) = (if p = q then 1 else 0)"
    and ts: "\<And>p. p < n \<Longrightarrow> distinct (ts p) \<and> (\<forall>t \<in> set (ts p). b p t \<noteq> 0)"
    and apart: "\<And>p q. p < n \<Longrightarrow> q < n \<Longrightarrow> s p \<notin> set (ts q)"
    and val: "\<And>p. p < n \<Longrightarrow> N r (c p) = (if r \<in> set (ts p) then b p r else 0)"
    and k: "k \<le> n" and q: "q < n"
  shows "run (batches s b ts [0..<k]) N r (c q) = (if q < k then 0 else N r (c q))"
  using k
proof (induction k)
  case (Suc k)
  let ?N = "run (batches s b ts [0..<k]) N"
  have "s k \<notin> op_i ` set (batches s b ts [0..<k])"
    using apart [of k] Suc.prems by (force simp: batches_def batch_def)
  then have "?N (s k) = N (s k)" by (rule run_other)
  then have "run (batches s b ts [0..<Suc k]) N r (c q)
    = (if r \<in> set (ts k) then ?N r (c q) XOR gf_mul (b k r) (if k = q then 1 else 0) else ?N r (c q))"
    using run_batch [of "ts k" "s k" "b k" ?N r "c q"] ts [of k] apart [of k k] src [of k q] Suc.prems q by simp
  then show ?case using Suc val [of k] by (auto simp: less_Suc_eq)
qed simp

lemma zero_batches:
  assumes "\<And>p. p < n \<Longrightarrow> N (s p) x = 0" and "\<And>p. p < n \<Longrightarrow> distinct (ts p) \<and> s p \<notin> set (ts p) \<and> (\<forall>t \<in> set (ts p). b p t \<noteq> 0)"
    and "k \<le> n"
  shows "run (batches s b ts [0..<k]) N r x = N r x"
  using assms(3)
proof (induction k arbitrary: r)
  case (Suc k)
  let ?N = "run (batches s b ts [0..<k]) N"
  have "run (batch (s k) (b k) (ts k)) ?N r x = (if r \<in> set (ts k) then ?N r x XOR gf_mul (b k r) (?N (s k) x) else ?N r x)"
    using assms(2) [of k] Suc.prems by (intro run_batch) auto
  then show ?case using Suc assms(1) [of k] by simp
qed simp

text \<open>Clearing below the diagonal of a triangle, a column at a time; the source rows are among the targets.\<close>

lemma triangle_batches:
  assumes tri: "\<And>p. p < n \<Longrightarrow> N (s p) (c p) = 1" "\<And>p q. p < q \<Longrightarrow> q < n \<Longrightarrow> N (s p) (c q) = 0"
    and ts: "\<And>p. p < n \<Longrightarrow> distinct (ts p)"
    and mem: "\<And>p h. p < n \<Longrightarrow> h < n \<Longrightarrow> s h \<in> set (ts p) \<longleftrightarrow> p < h \<and> N (s h) (c p) \<noteq> 0"
    and one: "\<And>p h. p < h \<Longrightarrow> h < n \<Longrightarrow> N (s h) (c p) = 0 \<or> N (s h) (c p) = 1"
    and k: "k \<le> n" and h: "h < n" and q: "q < n"
  shows "run (batches s (\<lambda>_ _. 1) ts [0..<k]) N (s h) (c q) = (if q < k then (if h = q then 1 else 0) else N (s h) (c q))"
  using k h q
proof (induction k arbitrary: h q)
  case (Suc k)
  let ?N = "run (batches s (\<lambda>_ _. 1) ts [0..<k]) N"
  have k: "k < n" using Suc.prems(1) by simp
  have b: "run (batch (s k) (\<lambda>_. 1) (ts k)) ?N (s h) (c q)
    = (if s h \<in> set (ts k) then ?N (s h) (c q) XOR gf_mul 1 (?N (s k) (c q)) else ?N (s h) (c q))"
    using ts [OF k] mem [OF k k] by (intro run_batch) auto
  have IH: "?N (s h) (c q) = (if q < k then (if h = q then 1 else 0) else N (s h) (c q))"
    "?N (s k) (c q) = (if q < k then 0 else N (s k) (c q))"
    using Suc k by simp_all
  have run: "run (batches s (\<lambda>_ _. 1) ts [0..<Suc k]) N = run (batch (s k) (\<lambda>_. 1) (ts k)) ?N" by simp
  consider "q < k" | "q = k" | "k < q" by linarith
  then show ?case
  proof cases
    case 1
    then show ?thesis unfolding run b IH by simp
  next
    case 2
    consider "h < k" | "h = k" | "k < h" by linarith
    then show ?thesis
      using b IH tri(1) [OF k] tri(2) [of h k] mem [OF k Suc.prems(2)] one [of k h] Suc.prems(2) k 2 by cases auto
  next
    case 3
    then show ?thesis using b IH tri(2) [of k q] Suc.prems(3) by simp
  qed
qed simp

text \<open>
  Back substitution: column \<open>p\<close> is cleared in all rows that have something there, from the last
  column down to column \<open>a\<close>. The rows from \<open>a\<close> on are in echelon form.
\<close>

lemma back_batches:
  assumes ech: "\<And>p. a \<le> p \<Longrightarrow> p < n \<Longrightarrow> N (s p) (c p) = 1" "\<And>p q. a \<le> p \<Longrightarrow> p < n \<Longrightarrow> q < p \<Longrightarrow> N (s p) (c q) = 0"
    and ts: "\<And>p. a \<le> p \<Longrightarrow> p < n \<Longrightarrow> distinct (ts p) \<and> s p \<notin> set (ts p) \<and> (\<forall>t \<in> set (ts p). b p t \<noteq> 0)"
    and val: "\<And>p h. a \<le> p \<Longrightarrow> p < n \<Longrightarrow> h < n \<Longrightarrow> h \<noteq> p \<Longrightarrow> N (s h) (c p) = (if s h \<in> set (ts p) then b p (s h) else 0)"
    and k: "k \<le> n - a" and an: "a \<le> n" and h: "h < n" and q: "q < n"
  shows "run (batches s b ts (rev [n - k..<n])) N (s h) (c q) = (if n - k \<le> q then (if h = q then 1 else 0) else N (s h) (c q))"
  using k h q
proof (induction k arbitrary: h q)
  case (Suc k)
  define p where "p = n - Suc k"
  have p: "a \<le> p" "p < n" "n - k = Suc p" using Suc.prems(1) an by (simp_all add: p_def)
  let ?N = "run (batches s b ts (rev [n - k..<n])) N"
  have IH: "?N (s h) (c q) = (if p < q then (if h = q then 1 else 0) else N (s h) (c q))" if "h < n" "q < n" for h q
    using Suc.IH [OF _ that] Suc.prems(1) p(3) by (simp add: Suc_le_eq)
  have b: "run (batch (s p) (b p) (ts p)) ?N (s h) (c q)
    = (if s h \<in> set (ts p) then ?N (s h) (c q) XOR gf_mul (b p (s h)) (?N (s p) (c q)) else ?N (s h) (c q))"
    using ts [OF p(1,2)] by (intro run_batch) auto
  have src: "?N (s p) (c q) = (if q = p then 1 else 0)"
    using IH [OF p(2) Suc.prems(3)] ech(1) [OF p(1,2)] ech(2) [OF p(1,2), of q] by auto
  have "[n - Suc k..<n] = p # [n - k..<n]" using p by (simp add: p_def upt_conv_Cons)
  then have run: "run (batches s b ts (rev [n - Suc k..<n])) N = run (batch (s p) (b p) (ts p)) ?N" by simp
  have le: "n - Suc k \<le> q \<longleftrightarrow> p < q \<or> q = p" by (auto simp: p_def)
  show ?case
  proof (cases "q = p")
    case True
    show ?thesis
    proof (cases "h = p")
      case h: True
      then show ?thesis
        using ts [OF p(1,2)] b src ech(1) [OF p(1,2)] True IH [OF p(2) p(2)] unfolding run le by simp
    next
      case False
      then show ?thesis
        using val [OF p(1,2) Suc.prems(2) False] b src True IH [OF Suc.prems(2,3)] unfolding run le by simp
    qed
  next
    case False
    then show ?thesis using b src IH [OF Suc.prems(2,3)] unfolding run le by simp
  qed
qed simp

end
