(* ===== verification/Precode_Solve.thy ===== *)
theory Precode_Solve
  imports Precode_Elim
begin

section \<open>The elimination phases of the solver\<close>

text \<open>
  The linear system a matrix \<open>A\<close> stands for is \<open>sysmat\<close>: its sparse rows, and the dense rows that the
  solver adds only when it needs them. \<open>elim_inv\<close> ties the working matrix to it: for the rows \<open>R\<close> filled
  in so far, \<open>U\<close> holds the columns from \<open>i\<close> on of the system after the recorded operations. The phases
  are then described by the operations they record.
\<close>

definition hdpc_entry :: "params \<Rightarrow> nat \<Rightarrow> nat \<Rightarrow> u8" where
  "hdpc_entry P h c =
     (case precode_matrix_make_HDPC P of
        Inl e \<Rightarrow> 0
      | Inr M \<Rightarrow> if c < pKprime P + pS P then om_A M h c else if c = pKprime P + pS P + h then 1 else 0)"

definition sysmat :: "params \<Rightarrow> spmat \<Rightarrow> mat" where
  "sysmat P A r c =
     (if pS P \<le> r \<and> r < pS P + pH P then hdpc_entry P (r - pS P) c
      else if c \<in> ones A r then 1 else 0)"

text \<open>The rows of the sparse part.\<close>

definition sparse_rows :: "params \<Rightarrow> spmat \<Rightarrow> nat set" where
  "sparse_rows P A = {r. r < sp_rows A \<and> \<not> (pS P \<le> r \<and> r < pS P + pH P)}"

definition elim_inv :: "params \<Rightarrow> spmat \<Rightarrow> schedule \<Rightarrow> nat set \<Rightarrow> wrkmat \<times> schedule \<Rightarrow> bool" where
  "elim_inv P A S0 R = (\<lambda>(U, S).
     wrk_ok (sp_rows A) (pL P - s_i S0) U
     \<and> s_c S = s_c S0 \<and> s_ci S = s_ci S0 \<and> s_i S = s_i S0 \<and> s_u S = s_u S0
     \<and> perms_ok P A S \<and> (\<forall>p < s_i S0. s_d S ! p = s_d S0 ! p)
     \<and> (\<forall>op \<in> set (s_ops S). op_ok (sp_rows A) op \<and> op_rows op \<subseteq> R)
     \<and> (\<forall>r \<in> R. \<forall>q. s_i S0 \<le> q \<and> q < pL P \<longrightarrow>
          wrkmat_at U r (q - s_i S0) = run (s_ops S) (sysmat P A) r (s_c S0 ! q)))"

lemma elim_invD:
  assumes "elim_inv P A S0 R (U, S)"
  shows "wrk_ok (sp_rows A) (pL P - s_i S0) U" "s_c S = s_c S0" "s_ci S = s_ci S0" "s_i S = s_i S0" "s_u S = s_u S0"
    "perms_ok P A S" "p < s_i S0 \<Longrightarrow> s_d S ! p = s_d S0 ! p"
    "op \<in> set (s_ops S) \<Longrightarrow> op_ok (sp_rows A) op" "op \<in> set (s_ops S) \<Longrightarrow> op_rows op \<subseteq> R"
    "r \<in> R \<Longrightarrow> s_i S0 \<le> q \<Longrightarrow> q < pL P \<Longrightarrow> wrkmat_at U r (q - s_i S0) = run (s_ops S) (sysmat P A) r (s_c S0 ! q)"
  using assms by (auto simp: elim_inv_def)

lemma sched_push_simps [simp]:
  "s_d (sched_push S i j b) = s_d S" "s_di (sched_push S i j b) = s_di S" "s_c (sched_push S i j b) = s_c S"
  "s_ci (sched_push S i j b) = s_ci S" "s_i (sched_push S i j b) = s_i S" "s_u (sched_push S i j b) = s_u S"
  "s_rows (sched_push S i j b) = s_rows S" "s_cols (sched_push S i j b) = s_cols S" "s_mark0 (sched_push S i j b) = s_mark0 S"
  "s_ops (sched_push S i j b) = s_ops S @ [\<lparr>op_beta = b, op_i = i, op_j = j\<rparr>]"
  by (simp_all add: sched_push_def)

lemma orders_ok_push [simp]: "orders_ok P A (sched_push S i j b) = orders_ok P A S"
  by (simp add: orders_ok_def perms_ok_def)

subsection \<open>One operation\<close>

lemma elim_step:
  assumes inv: "elim_inv P A S0 R (U, S)" and R: "R \<subseteq> {..<sp_rows A}" and op: "op_ok (sp_rows A) op" "op_rows op \<subseteq> R"
    and U': "wrk_ok (sp_rows A) (pL P - s_i S0) U'"
    and val: "\<And>r c. r < sp_rows A \<Longrightarrow> c < pL P - s_i S0 \<Longrightarrow>
       wrkmat_at U' r c = row_op (\<lambda>r c. wrkmat_at U r c) op r c"
  shows "elim_inv P A S0 R (U', S\<lparr>s_ops := s_ops S @ [op]\<rparr>)"
proof -
  note I = elim_invD [OF inv]
  have "wrkmat_at U' r (q - s_i S0) = run (s_ops S @ [op]) (sysmat P A) r (s_c S0 ! q)"
    if r: "r \<in> R" and q: "s_i S0 \<le> q" "q < pL P" for r q
  proof -
    have "row_op (\<lambda>r c. wrkmat_at U r c) op r (q - s_i S0) = row_op (run (s_ops S) (sysmat P A)) op r (s_c S0 ! q)"
    proof (cases "r = op_i op")
      case True
      then show ?thesis using I(10) [OF _ q] op(2) by (auto simp: row_op_def op_rows_def split: if_splits)
    next
      case False
      then show ?thesis using I(10) [OF r q] by (simp add: row_op_other)
    qed
    then show ?thesis using val [of r "q - s_i S0"] r R q by auto
  qed
  then show ?thesis
    using I op U' by (simp add: elim_inv_def perms_ok_def)
qed

lemma axpy_push_spec:
  assumes inv: "elim_inv P A S0 R (U, S)" and R: "R \<subseteq> {..<sp_rows A}" and ij: "i \<in> R" "j \<in> R" "i \<noteq> j" and b: "beta \<noteq> 0"
    and t: "w_type U ! i \<or> w_type U ! j \<or> beta = 1"
  shows "case axpy_push (U, S) i j beta of
      Inl f \<Rightarrow> f = Aborted \<and> \<not> w_type U ! i \<and> w_type U ! j
    | Inr (U', S') \<Rightarrow> S' = sched_push S i j beta \<and> elim_inv P A S0 R (U', S')
        \<and> w_type U' = (if w_type U ! j \<and> \<not> w_type U ! i then (w_type U)[i := True] else w_type U)"
proof -
  note I = elim_invD [OF inv]
  have lt: "i < sp_rows A" "j < sp_rows A" using ij R by auto
  note ax = wrk_axpy [OF I(1) lt ij(3) t]
  show ?thesis
  proof (cases "wrkmat_axpy U i j beta")
    case (Inl f)
    then show ?thesis using ax by (simp add: axpy_push_def)
  next
    case (Inr U')
    let ?op = "\<lparr>op_beta = beta, op_i = i, op_j = j\<rparr>"
    have "elim_inv P A S0 R (U', S\<lparr>s_ops := s_ops S @ [?op]\<rparr>)"
    proof (rule elim_step [OF inv R])
      show "op_ok (sp_rows A) ?op" "op_rows ?op \<subseteq> R" using lt ij b by (simp_all add: op_ok_def op_rows_def)
      show "wrk_ok (sp_rows A) (pL P - s_i S0) U'" using ax Inr by simp
      show "wrkmat_at U' r c = row_op (\<lambda>r c. wrkmat_at U r c) ?op r c" if "r < sp_rows A" "c < pL P - s_i S0" for r c
        using ax Inr that b by (simp add: row_op_def)
    qed
    then show ?thesis
      using Inr wrk_axpy_types [OF Inr] by (simp add: axpy_push_def sched_push_def)
  qed
qed

subsection \<open>Loops that record a batch\<close>

text \<open>A pass touches only rows whose representation it does not change.\<close>

lemma push_loop:
  assumes f: "\<And>U S x. x \<in> set xs \<Longrightarrow> w_rows U = sp_rows A \<Longrightarrow> s_d S = d \<Longrightarrow> s_di S = di \<Longrightarrow> s_c S = s_c S0
      \<Longrightarrow> f (U, S) x = (if C x then axpy_push (U, S) (t x) s (b (t x)) else Inr (U, S))"
    and R: "R \<subseteq> {..<sp_rows A}" and s: "s \<in> R"
    and ts: "\<And>x. x \<in> set xs \<Longrightarrow> C x \<Longrightarrow> t x \<in> R \<and> t x \<noteq> s \<and> b (t x) \<noteq> 0 \<and> (T ! (t x) \<or> \<not> T ! s \<and> b (t x) = 1)"
  shows "elim_inv P A S0 R (U, S) \<Longrightarrow> w_type U = T \<Longrightarrow> s_d S = d \<Longrightarrow> s_di S = di \<Longrightarrow>
    \<exists>U'. rfold f (U, S) xs = Inr (U', S\<lparr>s_ops := s_ops S @ batch s b (map t (filter C xs))\<rparr>)
      \<and> elim_inv P A S0 R (U', S\<lparr>s_ops := s_ops S @ batch s b (map t (filter C xs))\<rparr>) \<and> w_type U' = T"
  using f ts
proof (induction xs arbitrary: U S)
  case Nil
  then show ?case by (simp add: batch_def)
next
  case (Cons x xs)
  note prem = Cons.prems
  have fx: "f (U, S) x = (if C x then axpy_push (U, S) (t x) s (b (t x)) else Inr (U, S))"
    using prem(5) [of x U S] prem(3,4) elim_invD(2) [OF prem(1)] wrk_okD(3) [OF elim_invD(1) [OF prem(1)]] by simp
  show ?case
  proof (cases "C x")
    case False
    then show ?thesis using fx Cons.IH [OF prem(1-4)] prem(5,6) by simp
  next
    case True
    have ok: "t x \<in> R" "t x \<noteq> s" "b (t x) \<noteq> 0" "w_type U ! (t x) \<or> \<not> w_type U ! s \<and> b (t x) = 1"
      using prem(6) [of x] True prem(2) by simp_all
    have "w_type U ! t x \<or> w_type U ! s \<or> b (t x) = 1" using ok(4) by blast
    from axpy_push_spec [OF prem(1) R ok(1) s ok(2,3) this] obtain U1 where
      1: "f (U, S) x = Inr (U1, sched_push S (t x) s (b (t x)))" "elim_inv P A S0 R (U1, sched_push S (t x) s (b (t x)))" "w_type U1 = T"
      using fx True ok(4) prem(2) by (auto split: sum.splits if_splits)
    from Cons.IH [OF 1(2,3)] prem(3-6) show ?thesis
      using 1(1) True by (simp add: batch_def sched_push_def)
  qed
qed

lemma push_loops:
  assumes f: "\<And>U S p x. p \<in> set ps \<Longrightarrow> x \<in> set (xs p) \<Longrightarrow> w_rows U = sp_rows A \<Longrightarrow> s_d S = d \<Longrightarrow> s_di S = di \<Longrightarrow> s_c S = s_c S0
      \<Longrightarrow> f p (U, S) x = (if C p x then axpy_push (U, S) (t x) (s p) (b p (t x)) else Inr (U, S))"
    and g: "\<And>U S p. p \<in> set ps \<Longrightarrow> s_d S = d \<Longrightarrow> s_di S = di \<Longrightarrow> s_c S = s_c S0 \<Longrightarrow> g (U, S) p = rfold (f p) (U, S) (xs p)"
    and R: "R \<subseteq> {..<sp_rows A}" and s: "\<And>p. p \<in> set ps \<Longrightarrow> s p \<in> R"
    and ts: "\<And>p x. p \<in> set ps \<Longrightarrow> x \<in> set (xs p) \<Longrightarrow> C p x \<Longrightarrow>
      t x \<in> R \<and> t x \<noteq> s p \<and> b p (t x) \<noteq> 0 \<and> (T ! (t x) \<or> \<not> T ! s p \<and> b p (t x) = 1)"
  shows "elim_inv P A S0 R (U, S) \<Longrightarrow> w_type U = T \<Longrightarrow> s_d S = d \<Longrightarrow> s_di S = di \<Longrightarrow>
    \<exists>U'. rfold g (U, S) ps = Inr (U', S\<lparr>s_ops := s_ops S @ batches s b (\<lambda>p. map t (filter (C p) (xs p))) ps\<rparr>)
      \<and> elim_inv P A S0 R (U', S\<lparr>s_ops := s_ops S @ batches s b (\<lambda>p. map t (filter (C p) (xs p))) ps\<rparr>) \<and> w_type U' = T"
  using f g s ts
proof (induction ps arbitrary: U S)
  case Nil
  then show ?case by simp
next
  case (Cons p ps)
  note prem = Cons.prems
  have gp: "g (U, S) p = rfold (f p) (U, S) (xs p)"
    using prem(6) [of p S U] prem(3,4) elim_invD(2) [OF prem(1)] by simp
  have "\<exists>U'. rfold (f p) (U, S) (xs p) = Inr (U', S\<lparr>s_ops := s_ops S @ batch (s p) (b p) (map t (filter (C p) (xs p)))\<rparr>)
      \<and> elim_inv P A S0 R (U', S\<lparr>s_ops := s_ops S @ batch (s p) (b p) (map t (filter (C p) (xs p)))\<rparr>) \<and> w_type U' = T"
    by (rule push_loop [where f = "f p" and d = d and di = di and C = "C p" and t = t and s = "s p" and b = "b p", OF _ R _ _ prem(1-4)])
      (rule prem(5) [of p] prem(7) [of p] prem(8) [of p]; simp)+
  then obtain U1 where 1: "g (U, S) p = Inr (U1, S\<lparr>s_ops := s_ops S @ batch (s p) (b p) (map t (filter (C p) (xs p)))\<rparr>)"
    "elim_inv P A S0 R (U1, S\<lparr>s_ops := s_ops S @ batch (s p) (b p) (map t (filter (C p) (xs p)))\<rparr>)" "w_type U1 = T"
    unfolding gp by blast
  let ?S1 = "S\<lparr>s_ops := s_ops S @ batch (s p) (b p) (map t (filter (C p) (xs p)))\<rparr>"
  have "\<exists>U'. rfold g (U1, ?S1) ps = Inr (U', ?S1\<lparr>s_ops := s_ops ?S1 @ batches s b (\<lambda>p. map t (filter (C p) (xs p))) ps\<rparr>)
      \<and> elim_inv P A S0 R (U', ?S1\<lparr>s_ops := s_ops ?S1 @ batches s b (\<lambda>p. map t (filter (C p) (xs p))) ps\<rparr>) \<and> w_type U' = T"
    by (rule Cons.IH [OF 1(2,3)]; (rule prem(5) prem(6) prem(7) prem(8))?) (use prem(3,4) in simp_all)
  then show ?case using 1(1) by simp
qed


subsection \<open>Positions of sparse rows\<close>

lemma sparse_position:
  assumes "matrix_ok P A" and "orders_ok P A S" and "r < sp_rows A"
  shows "r \<in> sparse_rows P A \<longleftrightarrow> s_di S ! r < sp_rows A - pH P"
proof -
  note O = orders_okD [OF assms(2)]
  note D = perm_pairD [OF O(1)]
  show ?thesis
  proof
    assume r: "r \<in> sparse_rows P A"
    show "s_di S ! r < sp_rows A - pH P"
    proof (rule ccontr)
      assume "\<not> s_di S ! r < sp_rows A - pH P"
      then have h: "s_di S ! r - (sp_rows A - pH P) < pH P" "sp_rows A - pH P + (s_di S ! r - (sp_rows A - pH P)) = s_di S ! r"
        using D(4) [OF assms(3)] by simp_all
      from O(4) [OF h(1)] have "r = pS P + (s_di S ! r - (sp_rows A - pH P))" unfolding h(2) using D(6) [OF assms(3)] by simp
      then show False using r h(1) by (auto simp: sparse_rows_def)
    qed
  next
    assume less: "s_di S ! r < sp_rows A - pH P"
    show "r \<in> sparse_rows P A"
    proof (rule ccontr)
      assume "r \<notin> sparse_rows P A"
      then have h: "pS P \<le> r" "r < pS P + pH P" using assms(3) by (auto simp: sparse_rows_def)
      then have "s_d S ! (sp_rows A - pH P + (r - pS P)) = r" using O(4) [of "r - pS P"] by simp
      moreover have "sp_rows A - pH P + (r - pS P) < sp_rows A" using h less by simp
      ultimately show False using D(5) [of "sp_rows A - pH P + (r - pS P)"] less by simp
    qed
  qed
qed

lemma sparse_at:
  assumes "matrix_ok P A" and "orders_ok P A S" and "p < sp_rows A - pH P"
  shows "s_d S ! p \<in> sparse_rows P A"
proof -
  have "p < sp_rows A" using assms(3) by simp
  then show ?thesis
    using sparse_position [OF assms(1,2), of "s_d S ! p"] perm_pairD(3,5) [OF orders_okD(1) [OF assms(2)]] assms(3) by simp
qed

lemma sparse_subset: "sparse_rows P A \<subseteq> {..<sp_rows A}"
  by (auto simp: sparse_rows_def)

lemma sysmat_sparse: "r \<in> sparse_rows P A \<Longrightarrow> sysmat P A r c = (if c \<in> ones A r then 1 else 0)"
  by (auto simp: sysmat_def sparse_rows_def)

subsection \<open>Filling the working matrix\<close>

lemma fill_U_row:
  assumes w: "wrk_ok n k U" and t: "\<not> w_type U ! i" and i: "i < n" and ci: "\<forall>x \<in> set xs. s_ci S ! x < s_i S + k"
  shows "\<exists>U'. rfold (\<lambda>U x. let col = s_ci S ! x in if s_i S \<le> col then wrkmat_set U i (col - s_i S) 1 else Inr U) U xs = Inr U'
    \<and> wrk_ok n k U' \<and> w_type U' = w_type U
    \<and> (\<forall>r < n. \<forall>c < k. wrkmat_at U' r c = (if r = i \<and> s_i S + c \<in> (!) (s_ci S) ` set xs then 1 else wrkmat_at U r c))"
  using w t ci
proof (induction xs arbitrary: U)
  case (Cons x xs)
  show ?case
  proof (cases "s_i S \<le> s_ci S ! x")
    case True
    have lt: "s_ci S ! x - s_i S < k" using Cons.prems(3) True by auto
    from wrk_set [OF Cons.prems(1) i lt Cons.prems(2), of 1] obtain U1 where U1: "wrkmat_set U i (s_ci S ! x - s_i S) 1 = Inr U1"
      "wrk_ok n k U1" "w_type U1 = w_type U"
      "\<forall>r < n. \<forall>c < k. wrkmat_at U1 r c = (if r = i \<and> c = s_ci S ! x - s_i S then 1 else wrkmat_at U r c)" by auto
    have c: "c = s_ci S ! x - s_i S \<longleftrightarrow> s_i S + c = s_ci S ! x" for c using True by auto
    from Cons.IH [OF U1(2)] Cons.prems U1 True show ?thesis by (auto simp: Let_def c)
  next
    case False
    then have "s_i S + c \<noteq> s_ci S ! x" for c by auto
    with Cons.IH [OF Cons.prems(1,2)] Cons.prems(3) False show ?thesis by (auto simp: Let_def)
  qed
qed simp

lemma fill_U_spec:
  assumes A: "matrix_ok P A" and o: "orders_ok P A S" and i: "s_i S \<le> pL P" "s_u S = pL P - s_i S"
  shows "\<exists>U. precode_matrix_fill_U (wrkmat_new (sp_rows A) (s_u S)) A S = Inr U \<and> wrk_ok (sp_rows A) (pL P - s_i S) U
    \<and> w_type U = replicate (sp_rows A) False
    \<and> (\<forall>r < sp_rows A. \<forall>q. s_i S \<le> q \<and> q < pL P \<longrightarrow> wrkmat_at U r (q - s_i S) = (if s_c S ! q \<in> ones A r then 1 else 0))"
proof -
  let ?n = "sp_rows A" and ?k = "pL P - s_i S"
  note c = perm_pairD [OF orders_okD(2) [OF o]]
  define g where "g = (\<lambda>U i. rfold (\<lambda>U x. let col = s_ci S ! x in if s_i S \<le> col then wrkmat_set U i (col - s_i S) 1 else Inr U) U (idxs A ! i))"
  define I where "I = (\<lambda>m U. wrk_ok ?n ?k U \<and> w_type U = replicate ?n False
    \<and> (\<forall>r < ?n. \<forall>x < ?k. wrkmat_at U r x = (if r < m \<and> s_c S ! (s_i S + x) \<in> ones A r then 1 else 0)))"
  have img: "s_i S + x \<in> (!) (s_ci S) ` ones A r \<longleftrightarrow> s_c S ! (s_i S + x) \<in> ones A r" if "r < ?n" "x < ?k" for r x
  proof
    assume "s_i S + x \<in> (!) (s_ci S) ` ones A r"
    then obtain col where "col \<in> ones A r" "s_i S + x = s_ci S ! col" by blast
    then show "s_c S ! (s_i S + x) \<in> ones A r" using c(6) [OF matrix_okD(6) [OF A that(1)], of col] by simp
  next
    assume "s_c S ! (s_i S + x) \<in> ones A r"
    moreover have "s_ci S ! (s_c S ! (s_i S + x)) = s_i S + x" using c(5) that(2) by simp
    ultimately show "s_i S + x \<in> (!) (s_ci S) ` ones A r" by (metis imageI)
  qed
  have "\<exists>U. rfold g (wrkmat_new ?n ?k) [0..<?n] = Inr U \<and> I (length [0..<?n]) U"
  proof (rule rfold_total)
    show "I 0 (wrkmat_new ?n ?k)" using wrk_new by (simp add: I_def) (simp add: wrkmat_new_def)
    fix m U assume m: "m < length [0..<?n]" and I: "I m U"
    have "\<forall>x \<in> ones A m. s_ci S ! x < s_i S + ?k"
      using c(4) matrix_okD(6) [OF A, of m] m i(1) by auto
    from fill_U_row [OF _ _ _ this, of ?n U m] I m obtain U' where U': "g U m = Inr U'" "wrk_ok ?n ?k U'" "w_type U' = w_type U"
      "\<forall>r < ?n. \<forall>x < ?k. wrkmat_at U' r x = (if r = m \<and> s_i S + x \<in> (!) (s_ci S) ` ones A m then 1 else wrkmat_at U r x)"
      by (auto simp: I_def g_def)
    have "I (Suc m) U'" using I U' m img [of m] by (auto simp: I_def less_Suc_eq)
    then show "\<exists>U'. g U ([0..<?n] ! m) = Inr U' \<and> I (Suc m) U'" using U'(1) m by auto
  qed
  then obtain U where "rfold g (wrkmat_new ?n ?k) [0..<?n] = Inr U" "I ?n U" by auto
  then show ?thesis
    using i(2) by (auto simp: precode_matrix_fill_U_def I_def g_def)
qed


subsection \<open>Eliminating below the triangle\<close>

definition ge_targets :: "schedule \<Rightarrow> spmat \<Rightarrow> int \<Rightarrow> nat \<Rightarrow> nat \<Rightarrow> nat list" where
  "ge_targets S AT s e p = filter (\<lambda>t. max s (int p) < int (s_di S ! t) \<and> s_di S ! t < e) (idxs AT ! (s_c S ! p))"

definition ge_ops :: "schedule \<Rightarrow> spmat \<Rightarrow> int \<Rightarrow> nat \<Rightarrow> sched_op list" where
  "ge_ops S AT s e = batches ((!) (s_d S)) (\<lambda>_ _. 1) (ge_targets S AT s e) [0..<s_i S]"

lemma ge_targets_set:
  assumes "matrix_ok P A" and "orders_ok P A S" and "p < pL P"
  shows "t \<in> set (ge_targets S (spmat_transpose A) s e p) \<longleftrightarrow>
      t < sp_rows A \<and> s_c S ! p \<in> ones A t \<and> max s (int p) < int (s_di S ! t) \<and> s_di S ! t < e"
    and "distinct (ge_targets S (spmat_transpose A) s e p)"
proof -
  note c = perm_pairD(3) [OF orders_okD(2) [OF assms(2)] assms(3)]
  show "t \<in> set (ge_targets S (spmat_transpose A) s e p) \<longleftrightarrow>
      t < sp_rows A \<and> s_c S ! p \<in> ones A t \<and> max s (int p) < int (s_di S ! t) \<and> s_di S ! t < e"
    using column_rows(2) [OF assms(1) c] by (auto simp: ge_targets_def)
  show "distinct (ge_targets S (spmat_transpose A) s e p)"
    using column_rows(1) [OF assms(1) c] by (simp add: ge_targets_def)
qed

lemma fwd_GE_spec:
  assumes A: "matrix_ok P A" and inv: "elim_inv P A S0 (sparse_rows P A) (U, S)" and o: "orders_ok P A S" and i: "s_i S0 \<le> sp_rows A - pH P" "s_i S0 \<le> pL P"
    and e: "e \<le> sp_rows A - pH P" and T: "w_type U = replicate (sp_rows A) False"
  shows "\<exists>U'. precode_matrix_fwd_GE (spmat_transpose A) s e (U, S) = Inr (U', S\<lparr>s_ops := s_ops S @ ge_ops S (spmat_transpose A) s e\<rparr>)
    \<and> elim_inv P A S0 (sparse_rows P A) (U', S\<lparr>s_ops := s_ops S @ ge_ops S (spmat_transpose A) s e\<rparr>)
    \<and> w_type U' = replicate (sp_rows A) False"
proof -
  note I = elim_invD [OF inv]
  let ?R = "sparse_rows P A" and ?AT = "spmat_transpose A"
  let ?C = "\<lambda>p t. max s (int p) < int (s_di S ! t) \<and> s_di S ! t < e"
  let ?f = "\<lambda>row (U, S) tmp. let h = s_di S ! tmp in if (if s < int row then int row else s) < int h \<and> h < e
               then axpy_push (U, S) tmp (s_d S ! row) 1 else Inr (U, S)"
  let ?g = "\<lambda>(U, S) row. rfold (?f row) (U, S) (idxs ?AT ! (s_c S ! row))"
  have "\<exists>U'. rfold ?g (U, S) [0..<s_i S] = Inr (U', S\<lparr>s_ops := s_ops S @ batches ((!) (s_d S)) (\<lambda>_ _. 1)
          (\<lambda>p. map (\<lambda>x. x) (filter (?C p) (idxs ?AT ! (s_c S0 ! p)))) [0..<s_i S]\<rparr>)
      \<and> elim_inv P A S0 ?R (U', S\<lparr>s_ops := s_ops S @ batches ((!) (s_d S)) (\<lambda>_ _. 1)
          (\<lambda>p. map (\<lambda>x. x) (filter (?C p) (idxs ?AT ! (s_c S0 ! p)))) [0..<s_i S]\<rparr>) \<and> w_type U' = replicate (sp_rows A) False"
  proof (rule push_loops [where f = ?f and d = "s_d S" and di = "s_di S", OF _ _ sparse_subset _ _ inv T refl refl])
    fix U2 :: wrkmat and S2 :: schedule and p x assume "s_d S2 = s_d S" "s_di S2 = s_di S"
    then show "?f p (U2, S2) x = (if ?C p x then axpy_push (U2, S2) x (s_d S ! p) 1 else Inr (U2, S2))"
      by (auto simp: Let_def max_def)
  next
    fix p assume "p \<in> set [0..<s_i S]"
    then have p: "p < sp_rows A - pH P" "p < pL P" using i I(4) by simp_all
    show d: "s_d S ! p \<in> ?R" by (rule sparse_at [OF A o p(1)])
    fix x assume x: "x \<in> set (idxs ?AT ! (s_c S0 ! p))" and C: "?C p x"
    have "x < sp_rows A" using x column_rows(2) [OF A perm_pairD(3) [OF orders_okD(2) [OF o] p(2)]] I(2) by auto
    moreover from this have "x \<in> ?R" using sparse_position [OF A o] C e by simp
    moreover have "s_di S ! x \<noteq> p" using C by auto
    moreover have "s_di S ! (s_d S ! p) = p" using perm_pairD(5) [OF orders_okD(1) [OF o], of p] p by simp
    ultimately show "x \<in> ?R \<and> x \<noteq> s_d S ! p \<and> (1::u8) \<noteq> 0 \<and> (replicate (sp_rows A) False ! x \<or> \<not> replicate (sp_rows A) False ! (s_d S ! p) \<and> (1::u8) = 1)"
      using d by (auto simp: sparse_rows_def)
  qed simp
  then show ?thesis
    unfolding precode_matrix_fwd_GE_def ge_ops_def ge_targets_def [abs_def] using I(2) by (simp add: Let_def)
qed

lemma make_U_spec:
  assumes A: "matrix_ok P A" and o: "orders_ok P A S" and i: "s_i S \<le> pL P" "s_i S \<le> sp_rows A - pH P" "s_u S = pL P - s_i S"
    and ops: "s_ops S = []"
  defines "ops1 \<equiv> ge_ops S (spmat_transpose A) 0 (s_i S)"
    and "ops2 \<equiv> ge_ops S (spmat_transpose A) (int (s_i S) - 1) (sp_rows A - pH P)"
  shows "\<exists>U. precode_matrix_make_U P A (spmat_transpose A) S = Inr (U, S\<lparr>s_mark0 := of_nat (length ops1) - 1, s_ops := ops1 @ ops2\<rparr>)
    \<and> elim_inv P A S (sparse_rows P A) (U, S\<lparr>s_mark0 := of_nat (length ops1) - 1, s_ops := ops1 @ ops2\<rparr>)
    \<and> w_type U = replicate (sp_rows A) False"
proof -
  let ?R = "sparse_rows P A"
  from fill_U_spec [OF A o i(1,3)] obtain U0 where U0: "precode_matrix_fill_U (wrkmat_new (sp_rows A) (s_u S)) A S = Inr U0"
    "wrk_ok (sp_rows A) (pL P - s_i S) U0" "w_type U0 = replicate (sp_rows A) False"
    "\<forall>r < sp_rows A. \<forall>q. s_i S \<le> q \<and> q < pL P \<longrightarrow> wrkmat_at U0 r (q - s_i S) = (if s_c S ! q \<in> ones A r then 1 else 0)" by blast
  have 0: "elim_inv P A S ?R (U0, S)"
    using U0(2,4) orders_okD(7) [OF o] ops sparse_subset [of P A] by (auto simp: elim_inv_def sysmat_sparse)
  from fwd_GE_spec [OF A 0 o i(2,1,2) U0(3), of 0] obtain U1 where
    1: "precode_matrix_fwd_GE (spmat_transpose A) 0 (s_i S) (U0, S) = Inr (U1, S\<lparr>s_ops := ops1\<rparr>)"
      "elim_inv P A S ?R (U1, S\<lparr>s_ops := ops1\<rparr>)" "w_type U1 = replicate (sp_rows A) False"
    unfolding ops1_def [symmetric] ops by auto
  let ?S1 = "S\<lparr>s_ops := ops1, s_mark0 := of_nat (length ops1) - 1\<rparr>"
  have e1: "elim_inv P A S ?R (U1, ?S1)" using 1(2) by (simp add: elim_inv_def perms_ok_def)
  have o1: "orders_ok P A ?S1" using o by (simp add: orders_ok_def perms_ok_def)
  from fwd_GE_spec [OF A e1 o1 _ _ order_refl 1(3), of "int (s_i S) - 1"] i obtain U2 where
    2: "precode_matrix_fwd_GE (spmat_transpose A) (int (s_i S) - 1) (sp_rows A - pH P) (U1, ?S1) = Inr (U2, ?S1\<lparr>s_ops := ops1 @ ops2\<rparr>)"
      "elim_inv P A S ?R (U2, ?S1\<lparr>s_ops := ops1 @ ops2\<rparr>)" "w_type U2 = replicate (sp_rows A) False"
    by (auto simp: ops2_def ge_ops_def ge_targets_def [abs_def])
  have "precode_matrix_make_U P A (spmat_transpose A) S = Inr (U2, ?S1\<lparr>s_ops := ops1 @ ops2\<rparr>)"
    using U0(1) 1(1) 2(1) by (simp add: precode_matrix_make_U_def Let_def)
  then show ?thesis using 2(2,3) by (intro exI [of _ U2]) simp
qed

end
