(* ===== verification/Precode_Gauss.thy ===== *)
theory Precode_Gauss
  imports Precode_Solve
begin

section \<open>Gaussian elimination of the dense part\<close>

text \<open>
  Both elimination loops bring the rows from position \<open>i\<close> on into echelon form, a column at a time:
  \<open>gf_inv\<close> is their common invariant, \<open>del_loop\<close> the clearing of one column, and the two specifications
  follow by induction on the rows that are left. The only failure possible is the \<open>abort\<close> of
  \<open>wrkmat_axpy\<close> when the spare octet rows run out.
\<close>

definition ech :: "mat \<Rightarrow> nat list \<Rightarrow> nat list \<Rightarrow> nat \<Rightarrow> nat \<Rightarrow> nat \<Rightarrow> bool" where
  "ech N d c i row m \<longleftrightarrow> (\<forall>h q. i \<le> h \<and> h < m \<and> q < row \<and> q < h \<longrightarrow> N (d ! h) (c ! q) = 0)
     \<and> (\<forall>p. i \<le> p \<and> p < row \<longrightarrow> N (d ! p) (c ! p) = 1)"

lemma echD:
  assumes "ech N d c i row m"
  shows "i \<le> h \<Longrightarrow> h < m \<Longrightarrow> q < row \<Longrightarrow> q < h \<Longrightarrow> N (d ! h) (c ! q) = 0"
    "i \<le> p \<Longrightarrow> p < row \<Longrightarrow> N (d ! p) (c ! p) = 1"
  using assms by (auto simp: ech_def)

definition all_bits :: "spmat \<Rightarrow> wrkmat \<Rightarrow> bool" where
  "all_bits A U \<longleftrightarrow> w_type U = replicate (sp_rows A) False"

text \<open>\<open>tail\<close>: what has been recorded since the operations \<open>ops0\<close> touches the rows \<open>L\<close> only.\<close>

definition records :: "nat set \<Rightarrow> sched_op list \<Rightarrow> schedule \<Rightarrow> bool" where
  "records L ops0 S \<longleftrightarrow> (\<exists>ops. s_ops S = ops0 @ ops \<and> (\<forall>op \<in> set ops. op_rows op \<subseteq> L))"

definition gf_inv :: "params \<Rightarrow> spmat \<Rightarrow> schedule \<Rightarrow> nat set \<Rightarrow> nat \<Rightarrow> nat set \<Rightarrow> sched_op list \<Rightarrow> u32 \<Rightarrow> nat \<Rightarrow> wrkmat \<times> schedule \<Rightarrow> bool" where
  "gf_inv P A S0 R m L ops0 m0 row = (\<lambda>(U, S).
     elim_inv P A S0 R (U, S) \<and> ech (run (s_ops S) (sysmat P A)) (s_d S) (s_c S0) (s_i S0) row m
     \<and> (!) (s_d S) ` {s_i S0..<m} = L \<and> L \<subseteq> R \<and> records L ops0 S \<and> s_mark0 S = m0
     \<and> (\<forall>h. m \<le> h \<and> h < sp_rows A \<longrightarrow> s_d S ! h = s_d S0 ! h))"

lemma gf_invD:
  assumes "gf_inv P A S0 R m L ops0 m0 row (U, S)"
  shows "elim_inv P A S0 R (U, S)" "ech (run (s_ops S) (sysmat P A)) (s_d S) (s_c S0) (s_i S0) row m"
    "(!) (s_d S) ` {s_i S0..<m} = L" "L \<subseteq> R" "records L ops0 S" "s_mark0 S = m0"
    "m \<le> h \<Longrightarrow> h < sp_rows A \<Longrightarrow> s_d S ! h = s_d S0 ! h"
    "s_i S0 \<le> h \<Longrightarrow> h < m \<Longrightarrow> s_d S ! h \<in> L"
  using assms by (auto simp: gf_inv_def)

lemma records_push: "records L ops0 S \<Longrightarrow> op_rows op \<subseteq> L \<Longrightarrow> s_ops S' = s_ops S @ [op] \<Longrightarrow> records L ops0 S'"
  unfolding records_def by (elim exE, rule_tac x = "ops @ [op]" in exI) auto

lemma axpy_push_yields:
  assumes "elim_inv P A S0 R (U, S)" and "R \<subseteq> {..<sp_rows A}" and "i \<in> R" "j \<in> R" "i \<noteq> j" and "beta \<noteq> 0"
    and "w_type U ! i \<or> w_type U ! j \<or> beta = 1"
  shows "yields (\<lambda>(U', S'). S' = sched_push S i j beta \<and> elim_inv P A S0 R (U', S')
      \<and> (all_bits A U \<longrightarrow> all_bits A U')) (axpy_push (U, S) i j beta)"
  using axpy_push_spec [OF assms] assms(2-4)
  by (cases "axpy_push (U, S) i j beta") (auto simp: all_bits_def subset_iff)

lemma bit_row_value:
  assumes "elim_inv P A S0 R (U, S)" and "r < sp_rows A" and "c < pL P - s_i S0" and "\<not> w_type U ! r"
  shows "wrkmat_at U r c = 0 \<or> wrkmat_at U r c = 1"
  using wrk_at_eq [OF elim_invD(1) [OF assms(1)] assms(2,3)] assms(4) by auto

subsection \<open>Clearing a column\<close>

lemma del_loop:
  assumes A: "matrix_ok P A" and R: "R \<subseteq> {..<sp_rows A}" and row: "s_i S0 \<le> row" "row < pL P" "row < m" "m \<le> sp_rows A"
    and inv: "gf_inv P A S0 R m L ops0 m0 row (U, S)"
    and pivot: "run (s_ops S) (sysmat P A) (s_d S ! row) (s_c S0 ! row) = 1"
    and B: "B = (\<lambda>b. b) \<or> B = (\<lambda>_. 1) \<and> all_bits A U"
    and f: "\<And>U S x. f (U, S) x = (if wrkmat_at U (s_d S ! x) (row - s_i S0) = 0 then Inr (U, S)
      else axpy_push (U, S) (s_d S ! x) (s_d S ! row) (B (wrkmat_at U (s_d S ! x) (row - s_i S0))))"
  shows "yields (\<lambda>US'. gf_inv P A S0 R m L ops0 m0 (row + 1) US' \<and> (all_bits A U \<longrightarrow> all_bits A (fst US')))
    (rfold f (U, S) [row + 1..<m])"
proof -
  note G = gf_invD [OF inv]
  note E = elim_invD [OF G(1)]
  note D = perm_pairD [OF perms_okD(1) [OF E(6)]]
  let ?M = "sysmat P A" and ?d = "s_d S" and ?c = "s_c S0" and ?i = "s_i S0"
  let ?N = "run (s_ops S) ?M"
  have inj: "?d ! h = ?d ! h' \<longleftrightarrow> h = h'" if "h < m" "h' < m" for h h'
    using perm_pair_inj [OF perms_okD(1) [OF E(6)]] that row(4) by simp
  define I where "I = (\<lambda>k (U', S'). elim_inv P A S0 R (U', S') \<and> s_d S' = ?d \<and> records L ops0 S' \<and> s_mark0 S' = m0
    \<and> (all_bits A U \<longrightarrow> all_bits A U')
    \<and> (\<forall>h. h < m \<and> (h \<le> row \<or> row + k < h) \<longrightarrow> run (s_ops S') ?M (?d ! h) = ?N (?d ! h))
    \<and> (\<forall>h q. row < h \<and> h \<le> row + k \<and> h < m \<and> q \<le> row \<longrightarrow> run (s_ops S') ?M (?d ! h) (?c ! q) = 0))"
  have "yields (I (length [row + 1..<m])) (rfold f (U, S) [row + 1..<m])"
  proof (rule yields_rfold)
    show "I 0 (U, S)" using G by (auto simp: I_def)
  next
    fix k US assume k: "k < length [row + 1..<m]" and "I k US"
    moreover obtain U' S' where US: "US = (U', S')" by fastforce
    ultimately have I: "elim_inv P A S0 R (U', S')" "s_d S' = ?d" "records L ops0 S'" "s_mark0 S' = m0"
      "all_bits A U \<Longrightarrow> all_bits A U'"
      "\<And>h. h < m \<Longrightarrow> h \<le> row \<or> row + k < h \<Longrightarrow> run (s_ops S') ?M (?d ! h) = ?N (?d ! h)"
      "\<And>h q. row < h \<Longrightarrow> h \<le> row + k \<Longrightarrow> h < m \<Longrightarrow> q \<le> row \<Longrightarrow> run (s_ops S') ?M (?d ! h) (?c ! q) = 0"
      by (auto simp: I_def)
    let ?N' = "run (s_ops S') ?M"
    define h0 where "h0 = row + 1 + k"
    have h0: "row < h0" "h0 < m" "[row + 1..<m] ! k = h0" using k by (simp_all add: h0_def)
    have L: "?d ! h0 \<in> L" "?d ! row \<in> L" using G(8) h0 row by simp_all
    then have RR: "?d ! h0 \<in> R" "?d ! row \<in> R" "?d ! h0 < sp_rows A" "?d ! row < sp_rows A" using G(4) R by auto
    have ne: "?d ! h0 \<noteq> ?d ! row" using inj h0 row(3) by simp
    let ?v = "wrkmat_at U' (?d ! h0) (row - ?i)"
    have v: "?v = ?N (?d ! h0) (?c ! row)" using elim_invD(10) [OF I(1) RR(1) row(1,2)] I(6) [OF h0(2)] by (simp add: h0_def)
    have old: "?N' (?d ! h0) = ?N (?d ! h0)" "?N' (?d ! row) = ?N (?d ! row)" using I(6) h0 row by (auto simp: h0_def)
    have zero: "?N (?d ! h0) (?c ! q) = 0" "?N (?d ! row) (?c ! q) = 0" if "q < row" for q
      using echD(1) [OF G(2)] that h0 row by auto
    show "yields (I (Suc k)) (f US ([row + 1..<m] ! k))"
    proof (cases "?v = 0")
      case True
      have "I (Suc k) (U', S')"
        using I True v old zero by (auto simp: I_def h0_def less_Suc_eq le_Suc_eq) (metis le_neq_implies_less)+
      then show ?thesis unfolding US h0(3) using True I(2) by (simp add: f)
    next
      case False
      let ?b = "B ?v" and ?op = "\<lparr>op_beta = B ?v, op_i = ?d ! h0, op_j = ?d ! row\<rparr>"
      have col: "row - ?i < pL P - ?i" using row by simp
      have bits: "?v = 1" if "\<not> w_type U' ! (?d ! h0)" using bit_row_value [OF I(1) RR(3) col that] False by simp
      have b1: "?b = ?v"
        using B
      proof
        assume "B = (\<lambda>_. 1) \<and> all_bits A U"
        then show ?thesis using bits I(5) RR(3) by (simp add: all_bits_def)
      qed simp
      then have "w_type U' ! (?d ! h0) \<or> w_type U' ! (?d ! row) \<or> ?b = 1" using bits by metis
      then have "yields (\<lambda>(U2, S2). S2 = sched_push S' (?d ! h0) (?d ! row) ?b \<and> elim_inv P A S0 R (U2, S2)
          \<and> (all_bits A U' \<longrightarrow> all_bits A U2)) (axpy_push (U', S') (?d ! h0) (?d ! row) ?b)"
        using axpy_push_yields [OF I(1) R RR(1,2) ne] b1 False by simp
      moreover have "I (Suc k) (U2, S2)"
        if S2: "S2 = sched_push S' (?d ! h0) (?d ! row) ?b" and U2: "elim_inv P A S0 R (U2, S2)" "all_bits A U' \<longrightarrow> all_bits A U2" for U2 S2
      proof -
        have run: "run (s_ops S2) ?M = row_op ?N' ?op" using S2 by simp
        have at_h0: "row_op ?N' ?op (?d ! h0) (?c ! q) = 0" if "q \<le> row" for q
        proof (cases "q = row")
          case True
          then show ?thesis using b1 False old v pivot by (simp add: row_op_def)
        next
          case False
          then have "q < row" using that by simp
          then show ?thesis using old zero by (simp add: row_op_def)
        qed
        have other: "row_op ?N' ?op (?d ! h) = ?N' (?d ! h)" if "h < m" "h \<noteq> h0" for h
          using inj [OF that(1) h0(2)] that(2) by (simp add: row_op_other)
        have "records L ops0 S2"
          by (rule records_push [OF I(3), of ?op]) (use L S2 in \<open>auto simp: op_rows_def\<close>)
        moreover have "run (s_ops S2) ?M (?d ! h) = ?N (?d ! h)" if "h < m" "h \<le> row \<or> row + Suc k < h" for h
          using other [OF that(1)] I(6) [OF that(1)] that(2) unfolding run by (auto simp: h0_def)
        moreover have "run (s_ops S2) ?M (?d ! h) (?c ! q) = 0" if "row < h" "h \<le> row + Suc k" "h < m" "q \<le> row" for h q
          using at_h0 [OF that(4)] other [OF that(3)] I(7) [OF that(1) _ that(3,4)] that(2)
          unfolding run by (cases "h = h0") (auto simp: h0_def)
        ultimately show ?thesis using I(2,4,5) U2 S2 by (auto simp: I_def)
      qed
      ultimately have "yields (I (Suc k)) (axpy_push (U', S') (?d ! h0) (?d ! row) ?b)"
        by (elim yields_weaken) auto
      then show ?thesis unfolding US h0(3) using False I(2) by (simp add: f)
    qed
  qed
  then show ?thesis
  proof (rule yields_weaken)
    fix US assume "I (length [row + 1..<m]) US"
    moreover obtain U' S' where US: "US = (U', S')" by fastforce
    ultimately have I: "elim_inv P A S0 R (U', S')" "s_d S' = ?d" "records L ops0 S'" "s_mark0 S' = m0"
      "all_bits A U \<Longrightarrow> all_bits A U'"
      "\<And>h. h \<le> row \<Longrightarrow> run (s_ops S') ?M (?d ! h) = ?N (?d ! h)"
      "\<And>h q. row < h \<Longrightarrow> h < m \<Longrightarrow> q \<le> row \<Longrightarrow> run (s_ops S') ?M (?d ! h) (?c ! q) = 0"
      using row(3) by (auto simp: I_def)
    have "ech (run (s_ops S') ?M) ?d ?c ?i (row + 1) m"
      unfolding ech_def
    proof (intro conjI allI impI)
      fix h q assume "?i \<le> h \<and> h < m \<and> q < row + 1 \<and> q < h"
      then show "run (s_ops S') ?M (?d ! h) (?c ! q) = 0"
        using I(6) [of h] I(7) [of h q] echD(1) [OF G(2), of h q] by (cases "h \<le> row") auto
    next
      fix p assume "?i \<le> p \<and> p < row + 1"
      then show "run (s_ops S') ?M (?d ! p) (?c ! p) = 1"
        using I(6) [of p] echD(2) [OF G(2), of p] pivot by (cases "p = row") auto
    qed
    then show "gf_inv P A S0 R m L ops0 m0 (row + 1) US \<and> (all_bits A U \<longrightarrow> all_bits A (fst US))"
      using I G by (auto simp: gf_inv_def US)
  qed
qed


subsection \<open>Finding the pivot\<close>

lemma find_row:
  assumes "List.find Q [row..<m] = Some nz"
  shows "row \<le> nz" "nz < m" "Q nz"
  using assms by (auto simp: find_Some_iff)

lemma swap_gf:
  assumes inv: "gf_inv P A S0 R m L ops0 m0 row (U, S)" and r: "s_i S0 \<le> row" "row \<le> nz" "nz < m" "m \<le> sp_rows A"
  shows "gf_inv P A S0 R m L ops0 m0 row (U, swap_rows S row nz)"
    and "s_d (swap_rows S row nz) ! row = s_d S ! nz" "s_ops (swap_rows S row nz) = s_ops S"
proof -
  note G = gf_invD [OF inv]
  note E = elim_invD [OF G(1)]
  have lt: "nz < sp_rows A" using r by simp
  note W = swap_rows_spec [OF E(6) r(2) lt]
  let ?d = "s_d (swap_rows S row nz)"
  show "?d ! row = s_d S ! nz" "s_ops (swap_rows S row nz) = s_ops S" by (rule W)+
  have d: "\<exists>h'. (if row \<le> h then row \<le> h' else h' = h) \<and> h' < m \<and> ?d ! h = s_d S ! h'" if "h < m" for h
    using W(3) [of h] that r by (intro exI [of _ "if h = row then nz else if h = nz then row else h"]) auto
  have "ech (run (s_ops S) (sysmat P A)) ?d (s_c S0) (s_i S0) row m"
    unfolding ech_def
  proof (intro conjI allI impI)
    fix h q assume h: "s_i S0 \<le> h \<and> h < m \<and> q < row \<and> q < h"
    with d [of h] obtain h' where "if row \<le> h then row \<le> h' else h' = h" "h' < m" "?d ! h = s_d S ! h'" by auto
    then show "run (s_ops S) (sysmat P A) (?d ! h) (s_c S0 ! q) = 0"
      using echD(1) [OF G(2), of h' q] h r(1) by (auto split: if_splits)
  next
    fix p assume "s_i S0 \<le> p \<and> p < row"
    then show "run (s_ops S) (sysmat P A) (?d ! p) (s_c S0 ! p) = 1"
      using W(3) [of p] echD(2) [OF G(2), of p] r by simp
  qed
  moreover have "(!) ?d ` {s_i S0..<m} = L"
  proof -
    define s where "s = (\<lambda>h. if h = row then nz else if h = nz then row else h)"
    have "s ` {s_i S0..<m} = {s_i S0..<m}"
      using r by (auto simp: s_def image_def intro: bexI [of _ row] bexI [of _ nz])
    then have "(!) ?d ` {s_i S0..<m} = (!) ?d ` (s ` {s_i S0..<m})" by simp
    also have "\<dots> = (!) (s_d S) ` {s_i S0..<m}"
      unfolding image_image using W(3) r by (intro image_cong) (auto simp: s_def)
    finally show ?thesis using G(3) by simp
  qed
  ultimately show "gf_inv P A S0 R m L ops0 m0 row (U, swap_rows S row nz)"
    using G E W r by (auto simp: gf_inv_def elim_inv_def records_def)
qed

lemma gf_inv_start: "gf_inv P A S0 R m L ops0 m0 row US \<Longrightarrow> s_i S0 \<le> row \<Longrightarrow> gf_inv P A S0 R m L ops0 m0 (s_i S0) US"
  by (cases US) (auto simp: gf_inv_def ech_def)

lemma pivot_value:
  assumes inv: "gf_inv P A S0 R m L ops0 m0 row (U, S)" and r: "s_i S0 \<le> row" "row < pL P" "row \<le> nz" "nz < m" "m \<le> sp_rows A"
  shows "wrkmat_at U (s_d S ! nz) (row - s_i S0)
    = run (s_ops (swap_rows S row nz)) (sysmat P A) (s_d (swap_rows S row nz) ! row) (s_c S0 ! row)"
proof -
  note G = gf_invD [OF inv]
  have "s_d S ! nz \<in> R" using G(4,8) r by auto
  from elim_invD(10) [OF G(1) this r(1,2)] show ?thesis
    using swap_gf(2,3) [OF inv r(1,3,4,5)] by simp
qed

lemma one_octet: "v \<noteq> 0 \<Longrightarrow> \<not> 1 < v \<Longrightarrow> v = (1 :: u8)"
  by (auto simp: word_less_nat_alt word_unat_eq_iff)

subsection \<open>The two loops\<close>

lemma solve_gf2_spec:
  assumes A: "matrix_ok P A" and R: "R \<subseteq> {..<sp_rows A}" and m: "pL P \<le> m" "m \<le> sp_rows A" "m = sp_rows A - pH P"
  shows "n \<le> pL P - s_i S0 \<Longrightarrow> s_i S0 \<le> pL P \<Longrightarrow> gf_inv P A S0 R m L ops0 m0 (pL P - n) (U, S) \<Longrightarrow> all_bits A U \<Longrightarrow>
    yields (\<lambda>(rank, U', S'). gf_inv P A S0 R m L ops0 m0 (s_i S0) (U', S') \<and> all_bits A U'
      \<and> rank \<le> pL P \<and> (rank = pL P \<longrightarrow> gf_inv P A S0 R m L ops0 m0 (pL P) (U', S'))) (solve_gf2_loop P n (U, S))"
proof (induction n arbitrary: U S)
  case 0
  then show ?case using gf_inv_start by simp
next
  case (Suc n)
  let ?row = "pL P - Suc n"
  have row: "s_i S0 \<le> ?row" "?row < pL P" "?row < m" "Suc ?row = pL P - n" using Suc.prems(1,2) m by simp_all
  note inv = Suc.prems(3)
  note G = gf_invD [OF inv]
  note E = elim_invD [OF G(1)]
  have rows: "w_rows U - pH P = m" using wrk_okD(3) [OF E(1)] m(3) by simp
  let ?Q = "\<lambda>nz. wrkmat_at U (s_d S ! nz) (?row - s_i S0) \<noteq> 0"
  show ?case
  proof (cases "List.find ?Q [?row..<m]")
    case None
    then have "solve_gf2_loop P (Suc n) (U, S) = Inr (?row, U, S)" using E(4) rows by (simp add: Let_def)
    moreover have "gf_inv P A S0 R m L ops0 m0 (s_i S0) (U, S)" by (rule gf_inv_start [OF inv row(1)])
    ultimately show ?thesis using Suc.prems(4) row(2) by auto
  next
    case (Some nz)
    note nz = find_row [OF Some]
    let ?S = "swap_rows S ?row nz"
    let ?f = "\<lambda>(U, S) del_row. if wrkmat_at U (s_d S ! del_row) (?row - s_i S0) = 0 then Inr (U, S)
                else axpy_push (U, S) (s_d S ! del_row) (s_d S ! ?row) 1"
    note inv1 = swap_gf(1) [OF inv row(1) nz(1,2) m(2)]
    have nzR: "s_d S ! nz < sp_rows A" using G(4) G(8) [of nz] nz row(1) R by auto
    have "wrkmat_at U (s_d S ! nz) (?row - s_i S0) = 1"
      using bit_row_value [OF G(1) nzR, of "?row - s_i S0"] nz(3) row Suc.prems(4) nzR by (auto simp: all_bits_def)
    then have pivot: "run (s_ops ?S) (sysmat P A) (s_d ?S ! ?row) (s_c S0 ! ?row) = 1"
      using pivot_value [OF inv row(1,2) nz(1,2) m(2)] by simp
    have eq: "solve_gf2_loop P (Suc n) (U, S) = rbind (rfold ?f (U, ?S) [?row + 1..<m]) (\<lambda>US. solve_gf2_loop P n US)"
      by (simp only: solve_gf2_loop.simps solve_gf256_loop.simps Let_def E(4) rows Some option.case)
    show ?thesis
      unfolding eq
    proof (rule yields_rbind [OF del_loop [OF A R row(1-3) m(2) inv1 pivot, of "\<lambda>_. 1"]])
      fix US assume US: "gf_inv P A S0 R m L ops0 m0 (?row + 1) US \<and> (all_bits A U \<longrightarrow> all_bits A (fst US))"
      obtain U' S' where e: "US = (U', S')" by fastforce
      show "yields (\<lambda>(rank, U', S'). gf_inv P A S0 R m L ops0 m0 (s_i S0) (U', S') \<and> all_bits A U'
        \<and> rank \<le> pL P \<and> (rank = pL P \<longrightarrow> gf_inv P A S0 R m L ops0 m0 (pL P) (U', S'))) (solve_gf2_loop P n US)"
        unfolding e using US Suc.prems(1,2,4) row(4) by (intro Suc.IH) (simp_all add: e)
    qed (use Suc.prems(4) in auto)
  qed
qed

lemma scale_gf:
  assumes A: "matrix_ok P A" and R: "R \<subseteq> {..<sp_rows A}" and row: "s_i S0 \<le> row" "row < pL P" "row < m" "m \<le> sp_rows A"
    and inv: "gf_inv P A S0 R m L ops0 m0 row (U, S)"
    and v: "run (s_ops S) (sysmat P A) (s_d S ! row) (s_c S0 ! row) = beta" "beta \<noteq> 0"
  shows "yields (\<lambda>(U', S'). gf_inv P A S0 R m L ops0 m0 row (U', S')
      \<and> run (s_ops S') (sysmat P A) (s_d S' ! row) (s_c S0 ! row) = 1)
    (if 1 < beta
     then rbind (wrkmat_scal U (s_d S ! row) (OCT_INV ! unat beta))
            (\<lambda>U. Inr (U, sched_push S (s_d S ! row) (unat (OCT_INV ! unat beta)) 0))
     else Inr (U, S))"
proof (cases "1 < beta")
  case False
  then show ?thesis using inv v one_octet [OF v(2)] by simp
next
  case True
  note G = gf_invD [OF inv]
  note E = elim_invD [OF G(1)]
  let ?r = "s_d S ! row" and ?u = "OCT_INV ! unat beta"
  have r: "?r \<in> L" "?r \<in> R" "?r < sp_rows A" using G(4) G(8) [OF row(1,3)] R by auto
  have at_row: "wrkmat_at U ?r (row - s_i S0) = beta" using elim_invD(10) [OF G(1) r(2) row(1,2)] v by simp
  have t: "w_type U ! ?r"
  proof (rule ccontr)
    assume "\<not> w_type U ! ?r"
    then have "beta = 0 \<or> beta = 1" using bit_row_value [OF G(1) r(3), of "row - s_i S0"] at_row row by simp
    then show False using True v(2) by auto
  qed
  have u: "gf_mul ?u beta = 1" using oct_inv [OF v(2)] by (simp add: gf_mul_commute)
  then have u0: "?u \<noteq> 0" by auto
  from wrk_scal [OF E(1) r(3) t u0] obtain U' where U': "wrkmat_scal U ?r ?u = Inr U'" "wrk_ok (sp_rows A) (pL P - s_i S0) U'"
    "w_type U' = w_type U" "\<forall>r < sp_rows A. \<forall>c < pL P - s_i S0. wrkmat_at U' r c = (if r = ?r then gf_mul ?u (wrkmat_at U ?r c) else wrkmat_at U r c)"
    by blast
  let ?op = "\<lparr>op_beta = 0, op_i = ?r, op_j = unat ?u\<rparr>" and ?S = "sched_push S ?r (unat ?u) 0"
  have inv1: "elim_inv P A S0 R (U', S\<lparr>s_ops := s_ops S @ [?op]\<rparr>)"
  proof (rule elim_step [OF G(1) R])
    show "op_ok (sp_rows A) ?op" "op_rows ?op \<subseteq> R" using r u0 by (simp_all add: op_ok_def op_rows_def of_nat_of_octet)
    show "wrkmat_at U' r c = row_op (\<lambda>r c. wrkmat_at U r c) ?op r c" if "r < sp_rows A" "c < pL P - s_i S0" for r c
      using U'(4) that by (simp add: row_op_def of_nat_of_octet)
  qed (rule U'(2))
  let ?N = "run (s_ops S) (sysmat P A)"
  have run: "run (s_ops ?S) (sysmat P A) r c = (if r = ?r then gf_mul ?u (?N r c) else ?N r c)" for r c
    by (simp add: row_op_def of_nat_of_octet)
  have "ech (run (s_ops ?S) (sysmat P A)) (s_d S) (s_c S0) (s_i S0) row m"
    unfolding ech_def
  proof (intro conjI allI impI)
    fix h q assume "s_i S0 \<le> h \<and> h < m \<and> q < row \<and> q < h"
    then show "run (s_ops ?S) (sysmat P A) (s_d S ! h) (s_c S0 ! q) = 0" using echD(1) [OF G(2), of h q] by (simp only: run) simp
  next
    fix p assume p: "s_i S0 \<le> p \<and> p < row"
    then have "s_d S ! p \<noteq> ?r" using perm_pair_inj [OF perms_okD(1) [OF E(6)], of p row] row by simp
    then show "run (s_ops ?S) (sysmat P A) (s_d S ! p) (s_c S0 ! p) = 1" using echD(2) [OF G(2), of p] p by (simp only: run) simp
  qed
  moreover have "records L ops0 ?S" by (rule records_push [OF G(5), of ?op]) (use r in \<open>auto simp: op_rows_def\<close>)
  moreover have "run (s_ops ?S) (sysmat P A) ?r (s_c S0 ! row) = 1" using v(1) u by (simp only: run) simp
  ultimately show ?thesis
    using True U'(1) inv1 G by (simp add: gf_inv_def sched_push_def)
qed

lemma solve_gf256_spec:
  assumes A: "matrix_ok P A" and R: "R \<subseteq> {..<sp_rows A}" and m: "pL P \<le> m" "m = sp_rows A"
  shows "n \<le> pL P - s_i S0 \<Longrightarrow> s_i S0 \<le> pL P \<Longrightarrow> gf_inv P A S0 R m L ops0 m0 (pL P - n) (U, S) \<Longrightarrow>
    yields (\<lambda>(rank, U', S'). rank \<le> pL P \<and> (rank = pL P \<longrightarrow> gf_inv P A S0 R m L ops0 m0 (pL P) (U', S'))) (solve_gf256_loop P n (U, S))"
proof (induction n arbitrary: U S)
  case 0
  then show ?case by simp
next
  case (Suc n)
  let ?row = "pL P - Suc n"
  have row: "s_i S0 \<le> ?row" "?row < pL P" "?row < m" "Suc ?row = pL P - n" using Suc.prems(1,2) m by simp_all
  note inv = Suc.prems(3)
  note G = gf_invD [OF inv]
  note E = elim_invD [OF G(1)]
  have mle: "m \<le> sp_rows A" using m by simp
  have rows: "w_rows U = m" using wrk_okD(3) [OF E(1)] m(2) by simp
  let ?Q = "\<lambda>nz. wrkmat_at U (s_d S ! nz) (?row - s_i S0) \<noteq> 0"
  show ?case
  proof (cases "List.find ?Q [?row..<m]")
    case None
    then have "solve_gf256_loop P (Suc n) (U, S) = Inr (?row, U, S)" using E(4) rows by (simp add: Let_def)
    then show ?thesis using row(2) by auto
  next
    case (Some nz)
    note nz = find_row [OF Some]
    let ?S = "swap_rows S ?row nz" and ?beta = "wrkmat_at U (s_d S ! nz) (?row - s_i S0)"
    let ?f = "\<lambda>(U, S) del_row. let beta = wrkmat_at U (s_d S ! del_row) (?row - s_i S0)
                in if beta = 0 then Inr (U, S) else axpy_push (U, S) (s_d S ! del_row) (s_d S ! ?row) beta"
    let ?scale = "if 1 < ?beta then rbind (wrkmat_scal U (s_d ?S ! ?row) (OCT_INV ! unat ?beta))
            (\<lambda>U. Inr (U, sched_push ?S (s_d ?S ! ?row) (unat (OCT_INV ! unat ?beta)) 0)) else Inr (U, ?S)"
    note inv1 = swap_gf(1) [OF inv row(1) nz(1,2) mle]
    note v = pivot_value [OF inv row(1,2) nz(1,2) mle, symmetric]
    have eq: "solve_gf256_loop P (Suc n) (U, S)
        = rbind ?scale (\<lambda>US. rbind (rfold ?f US [?row + 1..<m]) (\<lambda>US. solve_gf256_loop P n US))"
      by (simp only: solve_gf2_loop.simps solve_gf256_loop.simps Let_def E(4) rows Some option.case)
    show ?thesis
      unfolding eq
    proof (rule yields_rbind [OF scale_gf [OF A R row(1-3) mle inv1 v nz(3)]])
      fix US assume US: "case US of (U', S') \<Rightarrow> gf_inv P A S0 R m L ops0 m0 ?row (U', S')
          \<and> run (s_ops S') (sysmat P A) (s_d S' ! ?row) (s_c S0 ! ?row) = 1"
      obtain U1 S1 where e: "US = (U1, S1)" by fastforce
      have inv2: "gf_inv P A S0 R m L ops0 m0 ?row (U1, S1)" "run (s_ops S1) (sysmat P A) (s_d S1 ! ?row) (s_c S0 ! ?row) = 1"
        using US by (simp_all add: e)
      show "yields (\<lambda>(rank, U', S'). rank \<le> pL P \<and> (rank = pL P \<longrightarrow> gf_inv P A S0 R m L ops0 m0 (pL P) (U', S')))
          (rbind (rfold ?f US [?row + 1..<m]) (\<lambda>US. solve_gf256_loop P n US))"
        unfolding e
      proof (rule yields_rbind [OF del_loop [OF A R row(1-3) mle inv2, of "\<lambda>b. b"]])
        fix US2 assume US2: "gf_inv P A S0 R m L ops0 m0 (?row + 1) US2 \<and> (all_bits A U1 \<longrightarrow> all_bits A (fst US2))"
        obtain U2 S2 where e2: "US2 = (U2, S2)" by fastforce
        show "yields (\<lambda>(rank, U', S'). rank \<le> pL P \<and> (rank = pL P \<longrightarrow> gf_inv P A S0 R m L ops0 m0 (pL P) (U', S'))) (solve_gf256_loop P n US2)"
          unfolding e2 using US2 Suc.prems(1,2) row(4) by (intro Suc.IH) (simp_all add: e2)
      qed (auto simp: Let_def)
    qed
  qed
qed

end
