(* ===== verification/Precode_Hdpc.thy ===== *)
theory Precode_Hdpc
  imports Precode_Gauss
begin

section \<open>The dense rows join the elimination\<close>

text \<open>
  \<open>fill_HDPC\<close> lays the dense rows over the working matrix and clears their columns below \<open>i\<close> with the
  rows of the triangle. Before it the operations have not touched the dense rows; after it all rows of
  the system are in the working matrix (\<open>fill_HDPC_spec\<close>).
\<close>

subsection \<open>The block of dense rows\<close>

lemma om_set_simps [simp]: "om_cols (om_set M x y b) = om_cols M" "om_rows (om_set M x y b) = om_rows M"
  "om_data (om_set M x y b) = (om_data M)[x := (om_data M ! x)[y := b]]"
  by (simp_all add: om_set_def)

lemma foldl_om_cols: "(\<And>M x. om_cols (f M x) = om_cols M) \<Longrightarrow> om_cols (foldl f M xs) = om_cols M"
  by (induction xs arbitrary: M) simp_all

lemma make_HDPC_cols:
  assumes "precode_matrix_make_HDPC P = Inr M"
  shows "om_cols M = pKprime P + pS P"
proof -
  have "om_cols (hdpc_column m M col) = om_cols M" for m M col
    by (simp add: hdpc_column_def Let_def foldl_om_cols)
  then show ?thesis
    using assms by (auto simp: precode_matrix_make_HDPC_def Let_def foldl_om_cols om_resize_def split: if_splits)
qed

lemma set_row_fold:
  assumes "row < length (om_data M)" and "m \<le> length (om_data M ! row)"
  shows "om_data (foldl (\<lambda>M col. om_set M row col (g col)) M [0..<m])
      = (om_data M)[row := map g [0..<m] @ drop m (om_data M ! row)]
    \<and> om_rows (foldl (\<lambda>M col. om_set M row col (g col)) M [0..<m]) = om_rows M
    \<and> om_cols (foldl (\<lambda>M col. om_set M row col (g col)) M [0..<m]) = om_cols M"
  using assms(2)
proof (induction m)
  case (Suc m)
  have "(map g [0..<m] @ drop m (om_data M ! row))[m := g m] = map g [0..<Suc m] @ drop (Suc m) (om_data M ! row)"
    using Suc.prems by (simp add: list_update_append Cons_nth_drop_Suc [symmetric])
  then show ?case using Suc assms(1) by simp
qed simp

definition ul_row :: "params \<Rightarrow> schedule \<Rightarrow> octmat \<Rightarrow> nat \<Rightarrow> bytes" where
  "ul_row P S M row = map (\<lambda>col. if col < s_u S - pH P then om_A M row (s_c S ! (om_cols M - (s_u S - pH P) + col))
     else if col = row + (s_u S - pH P) then 1 else 0) [0..<s_u S]"

lemma fill_UL_spec:
  assumes u: "pH P \<le> s_u S"
  shows "om_rows (fill_UL P S M) = 2 * pH P" "is_mat (2 * pH P) (s_u S) (om_data (fill_UL P S M))"
    "row < pH P \<Longrightarrow> om_data (fill_UL P S M) ! row = ul_row P S M row"
    "pH P \<le> row \<Longrightarrow> row < 2 * pH P \<Longrightarrow> om_data (fill_UL P S M) ! row = replicate (s_u S) 0"
proof -
  let ?H = "pH P" and ?u = "s_u S"
  define g where "g = (\<lambda>UL row. om_set
        (foldl (\<lambda>UL col. om_set UL row col (om_A M row (s_c S ! (om_cols M - (s_u S - pH P) + col)))) UL [0..<s_u S - pH P])
        row (row + (s_u S - pH P)) 1)"
  have data: "om_data (foldl g (om_resize (2 * ?H) ?u) [0..<m]) = map (ul_row P S M) [0..<m] @ replicate (2 * ?H - m) (replicate ?u 0)
      \<and> om_rows (foldl g (om_resize (2 * ?H) ?u) [0..<m]) = 2 * ?H" if "m \<le> ?H" for m
    using that
  proof (induction m)
    case 0
    then show ?case by (simp add: om_resize_def)
  next
    case (Suc m)
    let ?UL = "foldl g (om_resize (2 * ?H) ?u) [0..<m]"
    have at_m: "om_data ?UL ! m = replicate ?u 0" "length (om_data ?UL) = 2 * ?H"
      using Suc by (simp_all add: nth_append)
    have "m < length (om_data ?UL)" "?u - ?H \<le> length (om_data ?UL ! m)" using at_m Suc.prems by simp_all
    from set_row_fold [OF this, of "\<lambda>col. om_A M m (s_c S ! (om_cols M - (?u - ?H) + col))"]
    have d: "om_data (g ?UL m) = (om_data ?UL)[m := (map (\<lambda>col. om_A M m (s_c S ! (om_cols M - (?u - ?H) + col))) [0..<?u - ?H]
        @ replicate ?H 0)[m + (?u - ?H) := 1]]" "om_rows (g ?UL m) = om_rows ?UL"
      using at_m u Suc.prems by (simp_all add: g_def)
    have "(map (\<lambda>col. om_A M m (s_c S ! (om_cols M - (?u - ?H) + col))) [0..<?u - ?H] @ replicate ?H 0)[m + (?u - ?H) := 1]
      = ul_row P S M m"
      by (rule nth_equalityI) (use u Suc.prems in \<open>auto simp: ul_row_def nth_append nth_list_update\<close>)
    moreover have "(map (ul_row P S M) [0..<m] @ replicate (2 * ?H - m) (replicate ?u 0))[m := x]
      = map (ul_row P S M) [0..<m] @ x # replicate (2 * ?H - Suc m) (replicate ?u 0)" for x
    proof -
      have "2 * ?H - m = Suc (2 * ?H - Suc m)" using Suc.prems by simp
      then show ?thesis by (simp only: replicate_Suc) (simp add: list_update_append)
    qed
    ultimately show ?case using d Suc by simp
  qed
  from data [OF order_refl] have d: "om_data (fill_UL P S M) = map (ul_row P S M) [0..<?H] @ replicate ?H (replicate ?u 0)"
      "om_rows (fill_UL P S M) = 2 * ?H"
    by (simp_all add: fill_UL_def g_def [abs_def])
  show "om_rows (fill_UL P S M) = 2 * pH P" by (rule d)
  show "is_mat (2 * pH P) (s_u S) (om_data (fill_UL P S M))"
    unfolding d is_mat_def by (auto simp: nth_append ul_row_def)
  show "row < pH P \<Longrightarrow> om_data (fill_UL P S M) ! row = ul_row P S M row" by (simp add: d nth_append)
  show "pH P \<le> row \<Longrightarrow> row < 2 * pH P \<Longrightarrow> om_data (fill_UL P S M) ! row = replicate (s_u S) 0" by (simp add: d nth_append)
qed


subsection \<open>Filling and clearing\<close>

lemma hdpc_entry_Inr:
  "precode_matrix_make_HDPC P = Inr M \<Longrightarrow>
    hdpc_entry P h c = (if c < pKprime P + pS P then om_A M h c else if c = pKprime P + pS P + h then 1 else 0)"
  by (simp add: hdpc_entry_def)

text \<open>The rows of the triangle on the first \<open>i\<close> columns, after the first operations.\<close>

definition unit_rows :: "mat \<Rightarrow> nat list \<Rightarrow> nat list \<Rightarrow> nat \<Rightarrow> bool" where
  "unit_rows N d c i \<longleftrightarrow> (\<forall>p < i. \<forall>q < i. N (d ! p) (c ! q) = (if p = q then 1 else 0))"

lemma fill_HDPC_spec:
  assumes A: "matrix_ok P A" and HD: "precode_matrix_make_HDPC P = Inr M"
    and i: "s_i S0 \<le> pW P" "s_i S0 \<le> sp_rows A - pH P" "s_u S0 = pL P - s_i S0"
    and last: "\<forall>h < pH P. s_d S0 ! (sp_rows A - pH P + h) = pS P + h"
    and inv: "gf_inv P A S0 (sparse_rows P A) (sp_rows A - pH P) L ops0 m0 (s_i S0) (U, S)" and bits: "all_bits A U"
    and unit: "unit_rows (run (s_ops S) (sysmat P A)) (s_d S0) (s_c S0) (s_i S0)"
  shows "\<exists>U' S' ops. precode_matrix_fill_HDPC P (U, S) = Inr (U', S') \<and> s_ops S' = s_ops S @ ops
    \<and> (\<forall>op \<in> set ops. op_i op \<in> {pS P..<pS P + pH P})
    \<and> gf_inv P A S0 {..<sp_rows A} (sp_rows A) ((!) (s_d S) ` {s_i S0..<sp_rows A}) (s_ops S @ ops) m0 (s_i S0) (U', S')"
proof -
  let ?n = "sp_rows A" and ?H = "pH P" and ?i = "s_i S0" and ?R = "sparse_rows P A" and ?M = "sysmat P A"
  note AD = matrix_okD [OF A]
  note G = gf_invD [OF inv]
  note E = elim_invD [OF G(1)]
  note PP = perms_okD [OF E(6)]
  have W: "?i \<le> pL P" "pW P \<le> pKprime P + pS P" "pKprime P + pS P = pL P - ?H" "?H \<le> pL P - ?i" "pS P + ?H \<le> ?n"
    using i AD(4,10,11,12) by simp_all
  have lastS: "s_d S ! (?n - ?H + h) = pS P + h" if "h < ?H" for h
    using G(7) [of "?n - ?H + h"] last that W(5) by simp
  have ordS: "orders_ok P A S" using E(6) lastS by (simp add: orders_ok_def)
  let ?UL = "fill_UL P S M"
  have u: "?H \<le> s_u S" "s_u S = pL P - ?i" using E(5) i(3) W(4) by simp_all
  note UL = fill_UL_spec [where M = M, OF u(1), unfolded u(2)]
  have cols: "om_cols M = pL P - ?H" using make_HDPC_cols [OF HD] W(3) by simp
  have entry: "ul_row P S M h ! (q - ?i) = ?M (pS P + h) (s_c S0 ! q)" if h: "h < ?H" and q: "?i \<le> q" "q < pL P" for h q
  proof -
    have c0: "s_c S = s_c S0" by (rule E(2))
    have v: "ul_row P S M h ! (q - ?i) = (if q - ?i < pL P - ?i - ?H then om_A M h (s_c S0 ! (om_cols M - (pL P - ?i - ?H) + (q - ?i)))
        else if q - ?i = h + (pL P - ?i - ?H) then 1 else 0)"
      using q by (simp add: ul_row_def u(2) c0)
    have s: "?M (pS P + h) c = hdpc_entry P h c" for c using h by (simp add: sysmat_def)
    show ?thesis
    proof (cases "q < pL P - ?H")
      case True
      have "s_c S0 ! q < pL P - ?H"
      proof (rule low_position [OF PP(2) [unfolded c0]])
        show "\<forall>q. pL P - ?H \<le> q \<and> q < pL P \<longrightarrow> s_c S0 ! q = q" using PP(3) c0 W(2,3) by simp
      qed (use True in simp_all)
      moreover have "om_cols M - (pL P - ?i - ?H) + (q - ?i) = q" "q - ?i < pL P - ?i - ?H" using True q cols W(4) by simp_all
      ultimately show ?thesis unfolding v s hdpc_entry_Inr [OF HD] using W(3) by simp
    next
      case False
      then have "s_c S0 ! q = q" using PP(3) [of q] c0 W(2,3) q by simp
      moreover have "\<not> q - ?i < pL P - ?i - ?H" "q - ?i = h + (pL P - ?i - ?H) \<longleftrightarrow> q = pL P - ?H + h" using False q W(4) by auto
      ultimately show ?thesis unfolding v s hdpc_entry_Inr [OF HD] using False W(3) by simp
    qed
  qed
  have nobits: "\<forall>r < ?n. \<not> w_type U ! r" using bits by (simp add: all_bits_def)
  have le: "?H \<le> om_rows ?UL" "pS P + ?H \<le> ?n" using UL(1) W(5) by simp_all
  let ?U = "wrkmat_assign_block U ?UL (pS P) ?H"
  have ab: "wrk_ok ?n (pL P - ?i) ?U" "\<forall>r < ?n. w_type ?U ! r = (pS P \<le> r \<and> r < pS P + ?H)"
    "\<forall>r < ?n. \<forall>c < pL P - ?i. wrkmat_at ?U r c
         = (if pS P \<le> r \<and> r < pS P + ?H then om_data ?UL ! (r - pS P) ! c else wrkmat_at U r c)"
    using wrk_assign_block [OF E(1) nobits le(2,1), unfolded UL(1)] UL(2,4) by auto
  have untouched: "run (s_ops S) ?M r = ?M r" if "pS P \<le> r" "r < pS P + ?H" for r
    using E(9) that by (intro run_other) (fastforce simp: op_rows_def sparse_rows_def)
  have inv1: "elim_inv P A S0 {..<?n} (?U, S)"
    unfolding elim_inv_def prod.case
  proof (intro conjI ballI allI impI)
    fix r q assume r: "r \<in> {..<?n}" and q: "?i \<le> q \<and> q < pL P"
    have lt: "q - ?i < pL P - ?i" using q by auto
    show "wrkmat_at ?U r (q - ?i) = run (s_ops S) ?M r (s_c S0 ! q)"
    proof (cases "pS P \<le> r \<and> r < pS P + ?H")
      case True
      have "wrkmat_at ?U r (q - ?i) = ul_row P S M (r - pS P) ! (q - ?i)"
        using ab(3) [rule_format, OF _ lt, of r] r True UL(3) [of "r - pS P"] by auto
      also have "\<dots> = ?M r (s_c S0 ! q)" using entry [of "r - pS P" q] True q by auto
      finally show ?thesis using untouched [of r] True by simp
    next
      case False
      then have "r \<in> ?R" using r by (simp add: sparse_rows_def)
      from E(10) [OF this] show ?thesis using ab(3) [rule_format, OF _ lt, of r] r q False by auto
    qed
  next
    fix op assume op: "op \<in> set (s_ops S)"
    show "op_ok ?n op" by (rule E(8) [OF op])
    show "op_rows op \<subseteq> {..<?n}" using E(9) [OF op] sparse_subset by blast
  qed (use ab(1) E(2-7) in simp_all)
  let ?b = "\<lambda>p t. om_A M (t - pS P) (s_c S0 ! p)" and ?t = "\<lambda>h. pS P + h"
  let ?C = "\<lambda>p h. om_A M h (s_c S0 ! p) \<noteq> 0"
  let ?ts = "\<lambda>p. map ?t (filter (?C p) [0..<?H])"
  let ?ops = "batches ((!) (s_d S)) ?b ?ts [0..<?i]"
  let ?f = "\<lambda>row (U, S) h. let beta = om_A M h (s_c S ! row); t = s_d S ! (w_rows U - pH P + h)
            in if beta \<noteq> 0 then axpy_push (U, S) t (s_d S ! row) beta else Inr (U, S)"
  let ?g = "\<lambda>US row. rfold (?f row) US [0..<?H]"
  have src: "s_d S ! p \<in> ?R" if "p < ?i" for p using sparse_at [OF A ordS] that i(2) by simp
  have apart: "s_d S ! p \<notin> {pS P..<pS P + ?H}" if "p < ?i" for p using src [OF that] by (auto simp: sparse_rows_def)
  have "\<exists>U'. rfold ?g (?U, S) [0..<?i] = Inr (U', S\<lparr>s_ops := s_ops S @ ?ops\<rparr>)
      \<and> elim_inv P A S0 {..<?n} (U', S\<lparr>s_ops := s_ops S @ ?ops\<rparr>) \<and> w_type U' = w_type ?U"
  proof (rule push_loops [where f = ?f and d = "s_d S" and di = "s_di S", OF _ _ order_refl _ _ inv1 refl refl refl])
    fix U2 :: wrkmat and S2 :: schedule and p h
    assume "h \<in> set [0..<?H]" "w_rows U2 = ?n" "s_d S2 = s_d S" "s_c S2 = s_c S0"
    then show "?f p (U2, S2) h = (if ?C p h then axpy_push (U2, S2) (?t h) (s_d S ! p) (?b p (?t h)) else Inr (U2, S2))"
      using lastS [of h] by (simp add: Let_def)
  next
    fix p assume "p \<in> set [0..<?i]"
    then have p: "p < ?i" by simp
    show "s_d S ! p \<in> {..<?n}" using src [OF p] sparse_subset by blast
    fix h assume h: "h \<in> set [0..<?H]" and C: "?C p h"
    then show "?t h \<in> {..<?n} \<and> ?t h \<noteq> s_d S ! p \<and> ?b p (?t h) \<noteq> 0
        \<and> (w_type ?U ! (?t h) \<or> \<not> w_type ?U ! (s_d S ! p) \<and> ?b p (?t h) = 1)"
      using apart [OF p] ab(2) W(5) by auto
  qed simp
  then obtain U' where U': "rfold ?g (?U, S) [0..<?i] = Inr (U', S\<lparr>s_ops := s_ops S @ ?ops\<rparr>)"
    "elim_inv P A S0 {..<?n} (U', S\<lparr>s_ops := s_ops S @ ?ops\<rparr>)" by blast
  have fill: "precode_matrix_fill_HDPC P (U, S) = Inr (U', S\<lparr>s_ops := s_ops S @ ?ops\<rparr>)"
    using U'(1) E(4) by (simp only: precode_matrix_fill_HDPC_def HD rbind_simps Let_def fst_conv snd_conv)
  have tgt: "op_i op \<in> {pS P..<pS P + ?H}" if "op \<in> set ?ops" for op using that by (auto simp: batches_def batch_def)
  have zero: "run (s_ops S @ ?ops) ?M (s_d S ! h) (s_c S0 ! q) = 0" if h: "?i \<le> h" "h < ?n" and q: "q < ?i" for h q
  proof (cases "s_d S ! h \<in> {pS P..<pS P + ?H}")
    case True
    let ?r = "s_d S ! h"
    have "run (batches ((!) (s_d S)) ?b ?ts [0..<?i]) (run (s_ops S) ?M) ?r (s_c S0 ! q) = (if q < ?i then 0 else run (s_ops S) ?M ?r (s_c S0 ! q))"
    proof (rule clear_batches [where n = ?i and c = "(!) (s_c S0)"])
      fix p q assume pq: "p < ?i" "q < ?i"
      show "run (s_ops S) ?M (s_d S ! p) (s_c S0 ! q) = (if p = q then 1 else 0)"
        using unit pq E(7) by (simp add: unit_rows_def)
      show "s_d S ! p \<notin> set (?ts q)" using apart [OF pq(1)] by auto
    next
      fix p assume p: "p < ?i"
      show "distinct (?ts p) \<and> (\<forall>t \<in> set (?ts p). ?b p t \<noteq> 0)" by (auto simp: distinct_map)
      have "s_c S0 ! p < pW P"
        using low_position [OF PP(2)] PP(3) E(2) p i(1) AD(10) by simp
      then have "s_c S0 ! p < pKprime P + pS P" using W(2) by simp
      moreover have "?M ?r (s_c S0 ! p) = hdpc_entry P (?r - pS P) (s_c S0 ! p)" using True by (simp add: sysmat_def)
      ultimately have "run (s_ops S) ?M ?r (s_c S0 ! p) = om_A M (?r - pS P) (s_c S0 ! p)"
        using untouched [of ?r] True by (simp add: hdpc_entry_Inr [OF HD])
      moreover have "?r \<in> set (?ts p) \<longleftrightarrow> om_A M (?r - pS P) (s_c S0 ! p) \<noteq> 0"
        using True by (force simp: image_iff)
      ultimately show "run (s_ops S) ?M ?r (s_c S0 ! p) = (if ?r \<in> set (?ts p) then ?b p ?r else 0)" by auto
    qed (use q in simp_all)
    then show ?thesis using q by simp
  next
    case False
    then have "s_d S ! h \<notin> op_i ` set ?ops" using tgt by (metis (no_types, lifting) imageE)
    then have e: "run (s_ops S @ ?ops) ?M (s_d S ! h) = run (s_ops S) ?M (s_d S ! h)" by (simp add: run_other)
    have "h < ?n - ?H"
    proof (rule ccontr)
      assume "\<not> h < ?n - ?H"
      then have "s_d S ! h = pS P + (h - (?n - ?H))" "h - (?n - ?H) < ?H" using lastS [of "h - (?n - ?H)"] h by simp_all
      then show False using False by simp
    qed
    then show ?thesis unfolding e using echD(1) [OF G(2), of h q] h q by simp
  qed
  have "gf_inv P A S0 {..<?n} ?n ((!) (s_d S) ` {?i..<?n}) (s_ops S @ ?ops) m0 ?i (U', S\<lparr>s_ops := s_ops S @ ?ops\<rparr>)"
    unfolding gf_inv_def prod.case
  proof (intro conjI)
    show "ech (run (s_ops (S\<lparr>s_ops := s_ops S @ ?ops\<rparr>)) ?M) (s_d (S\<lparr>s_ops := s_ops S @ ?ops\<rparr>)) (s_c S0) ?i ?i ?n"
      using zero by (auto simp: ech_def)
    show "records ((!) (s_d S) ` {?i..<?n}) (s_ops S @ ?ops) (S\<lparr>s_ops := s_ops S @ ?ops\<rparr>)" by (auto simp: records_def)
    show "(!) (s_d S) ` {?i..<?n} \<subseteq> {..<?n}" using perm_pairD(3) [OF PP(1)] by auto
  qed (use U'(2) G(6) in simp_all)
  with fill tgt show ?thesis by (intro exI [of _ U'] exI [of _ "S\<lparr>s_ops := s_ops S @ ?ops\<rparr>"] exI [of _ ?ops]) auto
qed

end
