(* ===== verification/Precode_Correct.thy ===== *)
theory Precode_Correct
  imports Precode_Hdpc
begin

section \<open>The solver solves the system\<close>

text \<open>
  The phases put together. \<open>solution_schedule\<close> is what \<open>precode_matrix_invert\<close> returns: operations that
  take the system matrix to the identity, up to the row and column orders, when the first phase is
  undone before back substitution and done again after it. \<open>intermediate_correct\<close> is the consequence for
  the data: on the symbols of a solution, the code computes that solution.
\<close>

subsection \<open>The first operations\<close>

definition upper_rows :: "spmat \<Rightarrow> schedule \<Rightarrow> nat set" where
  "upper_rows A S = {r. r < sp_rows A \<and> s_di S ! r < s_i S}"

lemma upper_at: "perms_ok P A S \<Longrightarrow> p < sp_rows A \<Longrightarrow> s_d S ! p \<in> upper_rows A S \<longleftrightarrow> p < s_i S"
  using perm_pairD(3,5) [OF perms_okD(1)] by (auto simp: upper_rows_def)

lemma upper_rows_eq:
  assumes "perms_ok P A S" "perms_ok P A S'" and "s_i S' = s_i S" and "\<forall>p < s_i S. s_d S' ! p = s_d S ! p" and "s_i S \<le> sp_rows A"
  shows "upper_rows A S' = upper_rows A S"
proof -
  have "upper_rows A T = (!) (s_d T) ` {..<s_i T}" if T: "perms_ok P A T" "s_i T \<le> sp_rows A" for T
  proof
    show "upper_rows A T \<subseteq> (!) (s_d T) ` {..<s_i T}"
      using perm_pairD(6) [OF perms_okD(1) [OF T(1)]] by (force simp: upper_rows_def image_iff)
    show "(!) (s_d T) ` {..<s_i T} \<subseteq> upper_rows A T" using upper_at [OF T(1)] T(2) by auto
  qed
  then show ?thesis using assms by auto
qed

lemma ops1_rows:
  assumes A: "matrix_ok P A" and o: "orders_ok P A S" and i: "s_i S \<le> pL P" "s_i S \<le> sp_rows A - pH P"
    and op: "op \<in> set (ge_ops S (spmat_transpose A) 0 (s_i S))"
  shows "op_rows op \<subseteq> upper_rows A S" "op_beta op = 1" "op_i op \<noteq> op_j op"
proof -
  from op obtain p t where p: "p < s_i S" and t: "t \<in> set (ge_targets S (spmat_transpose A) 0 (s_i S) p)"
    and e: "op = \<lparr>op_beta = 1, op_i = t, op_j = s_d S ! p\<rparr>"
    by (auto simp: ge_ops_def batches_def batch_def)
  have pn: "p < sp_rows A" "p < pL P" using p i by simp_all
  note T = ge_targets_set(1) [OF A o pn(2), of t 0 "s_i S"]
  have up: "s_d S ! p \<in> upper_rows A S" using upper_at [OF orders_okD(7) [OF o] pn(1)] p by simp
  have "t \<in> upper_rows A S" using T t by (simp add: upper_rows_def)
  then show "op_rows op \<subseteq> upper_rows A S" "op_beta op = 1" using up by (simp_all add: e op_rows_def)
  have "s_di S ! t \<noteq> p" using T t by auto
  then show "op_i op \<noteq> op_j op" using perm_pairD(5) [OF orders_okD(1) [OF o] pn(1)] by (auto simp: e)
qed

lemma sysmat_upper:
  assumes A: "matrix_ok P A" and o: "orders_ok P A S" and i: "s_i S \<le> sp_rows A - pH P" and p: "p < s_i S"
  shows "sysmat P A (s_d S ! p) c = (if c \<in> ones A (s_d S ! p) then 1 else 0)"
  using sparse_at [OF A o] p i by (intro sysmat_sparse) simp

text \<open>On the triangle the first operations give the identity, now and when they are done again at the end.\<close>

lemma ops1_identity:
  assumes A: "matrix_ok P A" and o: "orders_ok P A S" and i: "s_i S \<le> pL P" "s_i S \<le> sp_rows A - pH P"
    and tri: "triangle A (s_d S) (s_c S) (s_i S) (s_i S)"
    and N: "\<And>p q. p < s_i S \<Longrightarrow> q < s_i S \<Longrightarrow> N (s_d S ! p) (s_c S ! q) = sysmat P A (s_d S ! p) (s_c S ! q)"
  shows "unit_rows (run (ge_ops S (spmat_transpose A) 0 (s_i S)) N) (s_d S) (s_c S) (s_i S)"
    and "(\<And>p. p < s_i S \<Longrightarrow> N (s_d S ! p) x = 0) \<Longrightarrow> run (ge_ops S (spmat_transpose A) 0 (s_i S)) N r x = N r x"
proof -
  let ?i = "s_i S" and ?ts = "ge_targets S (spmat_transpose A) 0 (s_i S)"
  note P = perm_pairD [OF orders_okD(1) [OF o]]
  have v: "N (s_d S ! p) (s_c S ! q) = (if s_c S ! q \<in> ones A (s_d S ! p) then 1 else 0)" if "p < ?i" "q < ?i" for p q
    using N [OF that] sysmat_upper [OF A o i(2) that(1)] by simp
  have mem: "s_d S ! h \<in> set (?ts p) \<longleftrightarrow> p < h \<and> N (s_d S ! h) (s_c S ! p) \<noteq> 0" if "p < ?i" "h < ?i" for p h
  proof -
    have "h < sp_rows A" "p < pL P" using that i by simp_all
    then show ?thesis using ge_targets_set(1) [OF A o, of p "s_d S ! h" 0 ?i] v [OF that(2,1)] P(3,5) [of h] that by auto
  qed
  have dist: "distinct (?ts p)" if "p < ?i" for p using ge_targets_set(2) [OF A o] that i(1) by simp
  show "unit_rows (run (ge_ops S (spmat_transpose A) 0 ?i) N) (s_d S) (s_c S) ?i"
    unfolding unit_rows_def
  proof (intro allI impI)
    fix h q assume hq: "h < ?i" "q < ?i"
    have "run (batches ((!) (s_d S)) (\<lambda>_ _. 1) ?ts [0..<?i]) N (s_d S ! h) (s_c S ! q)
        = (if q < ?i then (if h = q then 1 else 0) else N (s_d S ! h) (s_c S ! q))"
    proof (rule triangle_batches [where n = ?i and c = "(!) (s_c S)"])
      fix p q assume "p < q" "q < ?i"
      then show "N (s_d S ! p) (s_c S ! q) = 0" using v [of p q] tri by (auto simp: triangle_def)
    qed (use v tri dist mem hq in \<open>auto simp: triangle_def\<close>)
    then show "run (ge_ops S (spmat_transpose A) 0 ?i) N (s_d S ! h) (s_c S ! q) = (if h = q then 1 else 0)"
      using hq by (simp add: ge_ops_def)
  qed
  show "run (ge_ops S (spmat_transpose A) 0 ?i) N r x = N r x" if "\<And>p. p < ?i \<Longrightarrow> N (s_d S ! p) x = 0"
    unfolding ge_ops_def
    by (rule zero_batches [where n = ?i]) (use that dist mem in auto)
qed

lemma ops2_clears:
  assumes A: "matrix_ok P A" and o: "orders_ok P A S" and i: "s_i S \<le> pL P" "s_i S \<le> sp_rows A - pH P"
    and unit: "unit_rows N (s_d S) (s_c S) (s_i S)"
    and h: "s_i S \<le> h" "h < sp_rows A - pH P" and q: "q < s_i S"
    and N: "\<And>c. N (s_d S ! h) c = sysmat P A (s_d S ! h) c"
  shows "run (ge_ops S (spmat_transpose A) (int (s_i S) - 1) (sp_rows A - pH P)) N (s_d S ! h) (s_c S ! q) = 0"
proof -
  let ?i = "s_i S" and ?ts = "ge_targets S (spmat_transpose A) (int (s_i S) - 1) (sp_rows A - pH P)"
  note P = perm_pairD [OF orders_okD(1) [OF o]]
  note T = ge_targets_set [where s = "int ?i - 1" and e = "sp_rows A - pH P", OF A o]
  have hn: "h < sp_rows A" using h by simp
  have "run (batches ((!) (s_d S)) (\<lambda>_ _. 1) ?ts [0..<?i]) N (s_d S ! h) (s_c S ! q)
      = (if q < ?i then 0 else N (s_d S ! h) (s_c S ! q))"
  proof (rule clear_batches [where n = ?i and c = "(!) (s_c S)"])
    fix p q assume pq: "p < ?i" "q < ?i"
    show "N (s_d S ! p) (s_c S ! q) = (if p = q then 1 else 0)" using unit pq by (simp add: unit_rows_def)
    have "s_di S ! (s_d S ! p) = p" using P(5) [of p] pq i by simp
    then show "s_d S ! p \<notin> set (?ts q)" using T(1) [of q "s_d S ! p"] pq i by auto
  next
    fix p assume p: "p < ?i"
    show "distinct (?ts p) \<and> (\<forall>t \<in> set (?ts p). (1 :: u8) \<noteq> 0)" using T(2) [of p] p i by simp
    have "N (s_d S ! h) (s_c S ! p) = (if s_c S ! p \<in> ones A (s_d S ! h) then 1 else 0)"
      using N sysmat_sparse [OF sparse_at [OF A o h(2)]] by simp
    moreover have "s_d S ! h \<in> set (?ts p) \<longleftrightarrow> s_c S ! p \<in> ones A (s_d S ! h)"
      using T(1) [of p "s_d S ! h"] p i P(3,5) [OF hn] h by auto
    ultimately show "N (s_d S ! h) (s_c S ! p) = (if s_d S ! h \<in> set (?ts p) then 1 else 0)" by simp
  qed (use q in simp_all)
  then show ?thesis using q by (simp add: ge_ops_def)
qed

lemma ops2_targets:
  assumes A: "matrix_ok P A" and o: "orders_ok P A S" and i: "s_i S \<le> pL P"
    and op: "op \<in> set (ge_ops S (spmat_transpose A) (int (s_i S) - 1) (sp_rows A - pH P))"
  shows "op_i op \<notin> upper_rows A S"
proof -
  from op obtain p t where p: "p < s_i S" and t: "t \<in> set (ge_targets S (spmat_transpose A) (int (s_i S) - 1) (sp_rows A - pH P) p)"
    and e: "op_i op = t"
    by (auto simp: ge_ops_def batches_def batch_def)
  then show ?thesis using ge_targets_set(1) [OF A o, of p t] i by (auto simp: upper_rows_def)
qed


subsection \<open>The forward phases\<close>

text \<open>After the forward phases: \<open>rest\<close> is what came after the first operations.\<close>

definition forward_done :: "params \<Rightarrow> spmat \<Rightarrow> schedule \<Rightarrow> wrkmat \<times> schedule \<Rightarrow> bool" where
  "forward_done P A S0 = (\<lambda>(U, S). \<exists>R rest.
     elim_inv P A S0 R (U, S) \<and> (\<forall>p < pL P. s_d S ! p \<in> R)
     \<and> s_ops S = ge_ops S0 (spmat_transpose A) 0 (s_i S0) @ rest
     \<and> s_mark0 S = of_nat (length (ge_ops S0 (spmat_transpose A) 0 (s_i S0))) - 1
     \<and> (\<forall>op \<in> set rest. op_i op \<notin> upper_rows A S0)
     \<and> (\<forall>op \<in> set (s_ops S). op_ok (sp_rows A) op)
     \<and> ech (run (s_ops S) (sysmat P A)) (s_d S) (s_c S0) (s_i S0) (pL P) (pL P))"

lemma forward_doneI:
  assumes inv: "gf_inv P A S0 R m L (ge_ops S0 (spmat_transpose A) 0 (s_i S0) @ rest) (of_nat (length (ge_ops S0 (spmat_transpose A) 0 (s_i S0))) - 1) (pL P) (U, S)"
    and m: "pL P \<le> m" and i: "s_i S0 \<le> pL P"
    and L: "L \<inter> upper_rows A S0 = {}" and rest: "\<forall>op \<in> set rest. op_i op \<notin> upper_rows A S0"
    and R: "\<forall>p < s_i S0. s_d S0 ! p \<in> R"
  shows "forward_done P A S0 (U, S)"
proof -
  note G = gf_invD [OF inv]
  note E = elim_invD [OF G(1)]
  from G(5) obtain tl where tl: "s_ops S = (ge_ops S0 (spmat_transpose A) 0 (s_i S0) @ rest) @ tl" "\<forall>op \<in> set tl. op_rows op \<subseteq> L"
    by (auto simp: records_def)
  have "s_d S ! p \<in> R" if "p < pL P" for p
    using that E(7) [of p] R G(4) G(8) [of p] m by (cases "p < s_i S0") auto
  moreover have "op_i op \<notin> upper_rows A S0" if "op \<in> set (rest @ tl)" for op
    using that rest tl(2) L by (auto simp: op_rows_def)
  moreover have "ech (run (s_ops S) (sysmat P A)) (s_d S) (s_c S0) (s_i S0) (pL P) (pL P)"
    using G(2) m by (auto simp: ech_def)
  ultimately show ?thesis
    unfolding forward_done_def using G(1,6) tl(1) E(8) by (auto intro!: exI [of _ R] exI [of _ "rest @ tl"])
qed

text \<open>After the working matrix is made: the rows below the triangle are zero on its columns.\<close>

lemma make_U_gf:
  assumes A: "matrix_ok P A" and o: "orders_ok P A S0" and i: "s_i S0 \<le> pW P" "s_i S0 \<le> sp_rows A - pH P" "s_u S0 = pL P - s_i S0"
    and ops: "s_ops S0 = []" and tri: "triangle A (s_d S0) (s_c S0) (s_i S0) (s_i S0)"
  defines "ops1 \<equiv> ge_ops S0 (spmat_transpose A) 0 (s_i S0)" and "ops2 \<equiv> ge_ops S0 (spmat_transpose A) (int (s_i S0) - 1) (sp_rows A - pH P)"
    and "m \<equiv> sp_rows A - pH P"
  shows "\<exists>U. precode_matrix_make_U P A (spmat_transpose A) S0 = Inr (U, S0\<lparr>s_mark0 := of_nat (length ops1) - 1, s_ops := ops1 @ ops2\<rparr>)
      \<and> gf_inv P A S0 (sparse_rows P A) m ((!) (s_d S0) ` {s_i S0..<m}) (ops1 @ ops2) (of_nat (length ops1) - 1) (s_i S0)
          (U, S0\<lparr>s_mark0 := of_nat (length ops1) - 1, s_ops := ops1 @ ops2\<rparr>) \<and> all_bits A U"
    and "\<forall>op \<in> set ops2. op_i op \<notin> upper_rows A S0"
    and "\<forall>op \<in> set xs. op_i op \<notin> upper_rows A S0 \<Longrightarrow> unit_rows (run (ops1 @ xs) (sysmat P A)) (s_d S0) (s_c S0) (s_i S0)"
proof -
  let ?n = "sp_rows A" and ?i = "s_i S0" and ?M = "sysmat P A" and ?AT = "spmat_transpose A" and ?up = "upper_rows A S0"
  note AD = matrix_okD [OF A]
  have iL: "?i \<le> pL P" using i(1) AD(10) by simp
  have im: "?i \<le> m" using i(2) by (simp add: m_def)
  let ?m0 = "of_nat (length ops1) - 1 :: u32"
  let ?S1 = "S0\<lparr>s_mark0 := ?m0, s_ops := ops1 @ ops2\<rparr>"
  from make_U_spec [OF A o iL i(2,3) ops, folded ops1_def ops2_def] obtain U where
    mk: "precode_matrix_make_U P A ?AT S0 = Inr (U, ?S1)" and e1: "elim_inv P A S0 (sparse_rows P A) (U, ?S1)" and bits: "all_bits A U"
    unfolding all_bits_def by blast
  show "\<forall>op \<in> set ops2. op_i op \<notin> ?up" using ops2_targets [OF A o iL] by (simp add: ops2_def)
  have up: "s_d S0 ! p \<in> ?up \<longleftrightarrow> p < ?i" if "p < ?n" for p using upper_at [OF orders_okD(7) [OF o] that] .
  have unit1: "unit_rows (run ops1 ?M) (s_d S0) (s_c S0) ?i"
    using ops1_identity(1) [OF A o iL i(2) tri, of ?M] by (simp add: ops1_def)
  have "run (ops1 @ xs) ?M (s_d S0 ! p) = run ops1 ?M (s_d S0 ! p)" if "\<forall>op \<in> set xs. op_i op \<notin> ?up" "p < ?i" for xs p
  proof -
    have "s_d S0 ! p \<in> ?up" using up [of p] that(2) i(2) by simp
    then show ?thesis using that(1) by (auto intro!: run_other [THEN fun_cong, THEN ext])
  qed
  with unit1 show "unit_rows (run (ops1 @ xs) ?M) (s_d S0) (s_c S0) ?i" if "\<forall>op \<in> set xs. op_i op \<notin> ?up"
    using that by (simp add: unit_rows_def)
  have "run (ops1 @ ops2) ?M (s_d S0 ! h) (s_c S0 ! q) = 0" if h: "?i \<le> h" "h < m" and q: "q < ?i" for h q
  proof -
    have "s_d S0 ! h \<notin> ?up" using up [of h] h by (simp add: m_def)
    then have "s_d S0 ! h \<notin> op_i ` set ops1"
      using ops1_rows(1) [OF A o iL i(2)] by (fastforce simp: ops1_def op_rows_def)
    then have "run ops1 ?M (s_d S0 ! h) = ?M (s_d S0 ! h)" by (rule run_other)
    then show ?thesis using ops2_clears [OF A o iL i(2) unit1 h(1) h(2) [unfolded m_def] q] by (simp add: ops2_def)
  qed
  then have "gf_inv P A S0 (sparse_rows P A) m ((!) (s_d S0) ` {?i..<m}) (ops1 @ ops2) ?m0 ?i (U, ?S1)"
    using e1 sparse_at [OF A o] by (auto simp: gf_inv_def ech_def records_def m_def)
  with mk bits show "\<exists>U. precode_matrix_make_U P A ?AT S0 = Inr (U, ?S1)
      \<and> gf_inv P A S0 (sparse_rows P A) m ((!) (s_d S0) ` {?i..<m}) (ops1 @ ops2) ?m0 ?i (U, ?S1) \<and> all_bits A U" by blast
qed

text \<open>The dense rows join.\<close>

lemma fill_gf:
  assumes A: "matrix_ok P A" and o: "orders_ok P A S0" and i: "s_i S0 \<le> pW P" "s_i S0 \<le> sp_rows A - pH P" "s_u S0 = pL P - s_i S0"
    and HD: "precode_matrix_make_HDPC P = Inr M"
    and g: "gf_inv P A S0 (sparse_rows P A) (sp_rows A - pH P) ((!) (s_d S0) ` {s_i S0..<sp_rows A - pH P}) (ops1 @ ops2) m0 (s_i S0) (U2, S2)"
      "all_bits A U2"
    and low2: "\<forall>op \<in> set ops2. op_i op \<notin> upper_rows A S0"
    and unit: "\<And>xs. \<forall>op \<in> set xs. op_i op \<notin> upper_rows A S0 \<Longrightarrow> unit_rows (run (ops1 @ xs) (sysmat P A)) (s_d S0) (s_c S0) (s_i S0)"
  shows "\<exists>U3 S3 tl hops L. precode_matrix_fill_HDPC P (U2, S2) = Inr (U3, S3) \<and> s_ops S2 = ops1 @ ops2 @ tl
    \<and> s_ops S3 = ops1 @ ops2 @ tl @ hops \<and> gf_inv P A S0 {..<sp_rows A} (sp_rows A) L (ops1 @ (ops2 @ tl @ hops)) m0 (s_i S0) (U3, S3) \<and> L \<inter> upper_rows A S0 = {}
    \<and> (\<forall>op \<in> set (ops2 @ tl @ hops). op_i op \<notin> upper_rows A S0) \<and> (\<forall>op \<in> set hops. op_i op \<in> {pS P..<pS P + pH P})"
proof -
  let ?n = "sp_rows A" and ?i = "s_i S0" and ?up = "upper_rows A S0" and ?L = "(!) (s_d S0) ` {s_i S0..<sp_rows A - pH P}"
  note G = gf_invD [OF g(1)]
  note E = elim_invD [OF G(1)]
  have Lup: "?L \<inter> ?up = {}" using upper_at [OF orders_okD(7) [OF o]] by auto
  from G(5) obtain tl where tl: "s_ops S2 = (ops1 @ ops2) @ tl" "\<forall>op \<in> set tl. op_rows op \<subseteq> ?L" by (auto simp: records_def)
  have "op_i op \<notin> ?up" if "op \<in> set tl" for op
  proof -
    have "op_i op \<in> op_rows op" by (simp add: op_rows_def)
    then have "op_i op \<in> ?L" using tl(2) that by (meson subsetD)
    then show ?thesis using Lup by (meson disjoint_iff)
  qed
  then have low: "\<forall>op \<in> set (ops2 @ tl). op_i op \<notin> ?up" using low2 by auto
  have up2: "upper_rows A S2 = ?up"
    using i(2) E(7) by (intro upper_rows_eq [OF orders_okD(7) [OF o] E(6) E(4)]) auto
  have last: "\<forall>h < pH P. s_d S0 ! (?n - pH P + h) = pS P + h" using orders_okD(4) [OF o] by simp
  have "unit_rows (run (s_ops S2) (sysmat P A)) (s_d S0) (s_c S0) ?i" using unit [OF low] tl(1) by simp
  from fill_HDPC_spec [OF A HD i last g this] obtain U3 S3 hops where
    fill: "precode_matrix_fill_HDPC P (U2, S2) = Inr (U3, S3)" "\<forall>op \<in> set hops. op_i op \<in> {pS P..<pS P + pH P}"
      "s_ops S3 = ops1 @ ops2 @ tl @ hops"
    and g3: "gf_inv P A S0 {..<?n} ?n ((!) (s_d S2) ` {?i..<?n}) (ops1 @ (ops2 @ tl @ hops)) m0 ?i (U3, S3)"
    by (auto simp: tl(1))
  have hup: "r \<notin> ?up" if "r \<in> {pS P..<pS P + pH P}" for r
    using sparse_position [OF A o, of r] that i(2) by (auto simp: upper_rows_def sparse_rows_def)
  have "((!) (s_d S2) ` {?i..<?n}) \<inter> ?up = {}" using upper_at [OF E(6)] up2 E(4) by auto
  moreover have "\<forall>op \<in> set (ops2 @ tl @ hops). op_i op \<notin> ?up" using low fill(2) hup by auto
  ultimately show ?thesis using fill g3 tl(1) by auto
qed

lemma forward_spec:
  assumes A: "matrix_ok P A" and o: "orders_ok P A S0" and i: "s_i S0 \<le> pW P" "s_i S0 \<le> sp_rows A - pH P" "s_u S0 = pL P - s_i S0"
    and ops: "s_ops S0 = []" and tri: "triangle A (s_d S0) (s_c S0) (s_i S0) (s_i S0)"
    and HD: "precode_matrix_make_HDPC P = Inr M"
  shows "yields (\<lambda>(rank, US). rank \<le> pL P \<and> (rank = pL P \<longrightarrow> forward_done P A S0 US))
    (rbind (precode_matrix_make_U P A (spmat_transpose A) S0) (\<lambda>US.
     rbind (if pL P \<le> sp_rows A - pH P then precode_matrix_solve_gf2 P US else Inr (0, US)) (\<lambda>(rank, US).
     if rank < pL P then rbind (precode_matrix_fill_HDPC P US) (precode_matrix_solve_gf256 P) else Inr (rank, US))))"
proof -
  let ?n = "sp_rows A" and ?i = "s_i S0" and ?m = "sp_rows A - pH P" and ?sp = "sparse_rows P A" and ?up = "upper_rows A S0"
  note AD = matrix_okD [OF A]
  have iL: "?i \<le> pL P" using i(1) AD(10) by simp
  define ops1 where "ops1 = ge_ops S0 (spmat_transpose A) 0 ?i"
  define ops2 where "ops2 = ge_ops S0 (spmat_transpose A) (int ?i - 1) ?m"
  define m0 where "m0 = (of_nat (length ops1) - 1 :: u32)"
  let ?S1 = "S0\<lparr>s_mark0 := m0, s_ops := ops1 @ ops2\<rparr>" and ?L = "(!) (s_d S0) ` {?i..<?m}"
  note mU = make_U_gf [OF A o i ops tri, folded ops1_def ops2_def, folded m0_def]
  from mU(1) obtain U where mk: "precode_matrix_make_U P A (spmat_transpose A) S0 = Inr (U, ?S1)"
    and g1: "gf_inv P A S0 ?sp ?m ?L (ops1 @ ops2) m0 ?i (U, ?S1)" and bits: "all_bits A U" by blast
  note low2 = mU(2)
  have Lup: "?L \<inter> ?up = {}" using upper_at [OF orders_okD(7) [OF o]] by auto
  have spR: "\<forall>p < ?i. s_d S0 ! p \<in> ?sp" using sparse_at [OF A o] i(2) by simp
  let ?Q2 = "\<lambda>(rank, US). (rank = pL P \<longrightarrow> forward_done P A S0 US) \<and> rank \<le> pL P
      \<and> (rank < pL P \<longrightarrow> gf_inv P A S0 ?sp ?m ?L (ops1 @ ops2) m0 ?i US \<and> all_bits A (fst US))"
  have gf2: "yields ?Q2 (if pL P \<le> ?m then precode_matrix_solve_gf2 P (U, ?S1) else Inr (0, (U, ?S1)))"
  proof (cases "pL P \<le> ?m")
    case True
    have "yields (\<lambda>(rank, U', S'). gf_inv P A S0 ?sp ?m ?L (ops1 @ ops2) m0 ?i (U', S') \<and> all_bits A U'
      \<and> rank \<le> pL P \<and> (rank = pL P \<longrightarrow> gf_inv P A S0 ?sp ?m ?L (ops1 @ ops2) m0 (pL P) (U', S'))) (solve_gf2_loop P (pL P - ?i) (U, ?S1))"
      by (rule solve_gf2_spec [OF A sparse_subset True _ refl]) (use iL g1 bits in simp_all)
    then have "yields ?Q2 (solve_gf2_loop P (pL P - ?i) (U, ?S1))"
    proof (rule yields_weaken)
      fix x :: "nat \<times> wrkmat \<times> schedule"
      obtain rank U' S' where x: "x = (rank, U', S')" by (cases x) auto
      assume "case x of (rank, U', S') \<Rightarrow> gf_inv P A S0 ?sp ?m ?L (ops1 @ ops2) m0 ?i (U', S') \<and> all_bits A U'
        \<and> rank \<le> pL P \<and> (rank = pL P \<longrightarrow> gf_inv P A S0 ?sp ?m ?L (ops1 @ ops2) m0 (pL P) (U', S'))"
      then show "?Q2 x"
        using forward_doneI [of P A S0 ?sp ?m ?L ops2 U' S'] True iL Lup low2 spR by (simp add: x ops1_def m0_def)
    qed
    then show ?thesis using True by (simp add: precode_matrix_solve_gf2_def)
  next
    case False
    then show ?thesis using g1 bits AD(13) by simp
  qed
  have gf256: "yields (\<lambda>(rank, US). rank \<le> pL P \<and> (rank = pL P \<longrightarrow> forward_done P A S0 US))
      (rbind (precode_matrix_fill_HDPC P US) (precode_matrix_solve_gf256 P))"
    if g: "gf_inv P A S0 ?sp ?m ?L (ops1 @ ops2) m0 ?i US" "all_bits A (fst US)" for US
  proof -
    obtain U2 S2 where US: "US = (U2, S2)" by fastforce
    from fill_gf [OF A o i HD g [unfolded US, simplified fst_conv] low2 mU(3)] obtain U3 S3 tl hops L where
      fill: "precode_matrix_fill_HDPC P US = Inr (U3, S3)"
      and g3: "gf_inv P A S0 {..<?n} ?n L (ops1 @ (ops2 @ tl @ hops)) m0 ?i (U3, S3)" and L3: "L \<inter> ?up = {}"
      and rest: "\<forall>op \<in> set (ops2 @ tl @ hops). op_i op \<notin> ?up" unfolding US by blast
    have "yields (\<lambda>(rank, U', S'). rank \<le> pL P
        \<and> (rank = pL P \<longrightarrow> gf_inv P A S0 {..<?n} ?n L (ops1 @ (ops2 @ tl @ hops)) m0 (pL P) (U', S')))
        (solve_gf256_loop P (pL P - ?i) (U3, S3))"
      by (rule solve_gf256_spec [OF A order_refl AD(4) refl]) (use iL g3 in simp_all)
    then have "yields (\<lambda>(rank, US). rank \<le> pL P \<and> (rank = pL P \<longrightarrow> forward_done P A S0 US)) (solve_gf256_loop P (pL P - ?i) (U3, S3))"
    proof (rule yields_weaken)
      fix x :: "nat \<times> wrkmat \<times> schedule"
      obtain rank U' S' where x: "x = (rank, U', S')" by (cases x) auto
      have R: "\<forall>p < ?i. s_d S0 ! p \<in> {..<?n}" using spR sparse_subset by blast
      assume "case x of (rank, U', S') \<Rightarrow> rank \<le> pL P
        \<and> (rank = pL P \<longrightarrow> gf_inv P A S0 {..<?n} ?n L (ops1 @ (ops2 @ tl @ hops)) m0 (pL P) (U', S'))"
      then show "case x of (rank, US) \<Rightarrow> rank \<le> pL P \<and> (rank = pL P \<longrightarrow> forward_done P A S0 US)"
        using forward_doneI [OF _ AD(4) iL L3 rest R, of U' S'] by (simp add: x ops1_def m0_def)
    qed
    then show ?thesis
      using elim_invD(4) [OF gf_invD(1) [OF g3]] by (simp add: fill precode_matrix_solve_gf256_def)
  qed
  show ?thesis
    unfolding mk rbind_simps
    by (rule yields_rbind [OF gf2]) (auto simp: less_le intro!: gf256)
qed

end
