(* ===== verification/Precode_Invert.thy ===== *)
theory Precode_Invert
  imports Precode_Correct
begin

subsection \<open>Back substitution\<close>

definition back_targets :: "spmat \<Rightarrow> wrkmat \<Rightarrow> schedule \<Rightarrow> nat \<Rightarrow> nat list" where
  "back_targets AT U S p = filter (\<lambda>t. s_di S ! t < s_i S) (idxs AT ! (s_c S ! p))
     @ map ((!) (s_d S)) (filter (\<lambda>h. wrkmat_at U (s_d S ! h) (p - s_i S) \<noteq> 0) [s_i S..<p])"

definition back_beta :: "wrkmat \<Rightarrow> schedule \<Rightarrow> nat \<Rightarrow> nat \<Rightarrow> u8" where
  "back_beta U S p t = (if s_di S ! t < s_i S then 1 else wrkmat_at U t (p - s_i S))"

definition back_ops :: "params \<Rightarrow> spmat \<Rightarrow> wrkmat \<Rightarrow> schedule \<Rightarrow> sched_op list" where
  "back_ops P AT U S = batches ((!) (s_d S)) (back_beta U S) (back_targets AT U S) (rev [s_i S..<pL P])"

lemma push_fold:
  assumes "\<And>S x. s_d S = d \<Longrightarrow> s_di S = di \<Longrightarrow> s_c S = c \<Longrightarrow> s_i S = i \<Longrightarrow> x \<in> set xs \<Longrightarrow> f S x = S\<lparr>s_ops := s_ops S @ g x\<rparr>"
    and "s_d S = d" "s_di S = di" "s_c S = c" "s_i S = i"
  shows "foldl f S xs = S\<lparr>s_ops := s_ops S @ concat (map g xs)\<rparr>"
  using assms by (induction xs arbitrary: S) simp_all

lemma backsolve_ops:
  assumes A: "matrix_ok P A" and p: "perms_ok P A S" and i: "pL P \<le> sp_rows A"
  shows "precode_matrix_backsolve P (spmat_transpose A) U S = S\<lparr>s_ops := s_ops S @ back_ops P (spmat_transpose A) U S\<rparr>"
proof -
  let ?AT = "spmat_transpose A" and ?i = "s_i S"
  note d = perm_pairD [OF perms_okD(1) [OF p]] and c = perm_pairD [OF perms_okD(2) [OF p]]
  have e1: "concat (map (\<lambda>x. if Q x then [h x] else []) xs) = map h (filter Q xs)" for Q h and xs :: "nat list"
    by (induction xs) simp_all
  let ?f = "\<lambda>row S x. let del_row = s_di S ! x in if del_row < s_i S then sched_push S (s_d S ! del_row) (s_d S ! row) 1 else S"
  let ?g = "\<lambda>row S h. let beta = wrkmat_at U (s_d S ! h) (row - s_i S) in if beta = 0 then S else sched_push S (s_d S ! h) (s_d S ! row) beta"
  have 1: "foldl (?f row) T (idxs ?AT ! (s_c S ! row)) = T\<lparr>s_ops := s_ops T @ concat (map
      (\<lambda>x. if s_di S ! x < ?i then [\<lparr>op_beta = 1, op_i = x, op_j = s_d S ! row\<rparr>] else []) (idxs ?AT ! (s_c S ! row)))\<rparr>"
    if "row < pL P" "s_d T = s_d S" "s_di T = s_di S" "s_c T = s_c S" "s_i T = ?i" for row and T :: schedule
  proof (rule push_fold [OF _ that(2-5)])
    fix S2 :: schedule and x
    assume S2: "s_d S2 = s_d S" "s_di S2 = s_di S" "s_c S2 = s_c S" "s_i S2 = ?i" and x: "x \<in> set (idxs ?AT ! (s_c S ! row))"
    have "x < sp_rows A" using x column_rows(2) [OF A c(3) [OF that(1)]] by simp
    then show "?f row S2 x = S2\<lparr>s_ops := s_ops S2 @ (if s_di S ! x < ?i then [\<lparr>op_beta = 1, op_i = x, op_j = s_d S ! row\<rparr>] else [])\<rparr>"
      using d(6) [of x] S2 by (simp add: Let_def sched_push_def)
  qed
  have 2: "foldl (?g row) T [?i..<row] = T\<lparr>s_ops := s_ops T @ concat (map
      (\<lambda>h. if wrkmat_at U (s_d S ! h) (row - ?i) \<noteq> 0 then [\<lparr>op_beta = wrkmat_at U (s_d S ! h) (row - ?i), op_i = s_d S ! h, op_j = s_d S ! row\<rparr>] else []) [?i..<row])\<rparr>"
    if "s_d T = s_d S" "s_di T = s_di S" "s_c T = s_c S" "s_i T = ?i" for row and T :: schedule
    by (rule push_fold [OF _ that]) (simp add: Let_def sched_push_def)
  have b: "batch (s_d S ! row) (back_beta U S row) (back_targets ?AT U S row)
    = concat (map (\<lambda>x. if s_di S ! x < ?i then [\<lparr>op_beta = 1, op_i = x, op_j = s_d S ! row\<rparr>] else []) (idxs ?AT ! (s_c S ! row)))
    @ concat (map (\<lambda>h. if wrkmat_at U (s_d S ! h) (row - ?i) \<noteq> 0
        then [\<lparr>op_beta = wrkmat_at U (s_d S ! h) (row - ?i), op_i = s_d S ! h, op_j = s_d S ! row\<rparr>] else []) [?i..<row])"
    if "row < pL P" for row
    using d(5) that i by (auto simp: batch_def back_targets_def back_beta_def e1)
  have "precode_matrix_backsolve P ?AT U S
    = S\<lparr>s_ops := s_ops S @ concat (map (\<lambda>row. batch (s_d S ! row) (back_beta U S row) (back_targets ?AT U S row)) (rev [?i..<pL P]))\<rparr>"
    unfolding precode_matrix_backsolve_def
  proof (rule push_fold [OF _ refl refl refl refl])
    fix T :: schedule and row
    assume T: "s_d T = s_d S" "s_di T = s_di S" "s_c T = s_c S" "s_i T = ?i" and row: "row \<in> set (rev [?i..<pL P])"
    have r: "row < pL P" using row by simp
    show "foldl (?g row) (foldl (?f row) T (idxs ?AT ! (s_c T ! row))) [s_i T..<row]
      = T\<lparr>s_ops := s_ops T @ batch (s_d S ! row) (back_beta U S row) (back_targets ?AT U S row)\<rparr>"
      unfolding b [OF r] T(3,4) 1 [OF r T] by (subst 2) (simp_all add: T)
  qed
  then show ?thesis by (simp add: back_ops_def batches_def)
qed

lemma back_targets_set:
  fixes U :: wrkmat and S :: schedule
  assumes A: "matrix_ok P A" and p: "perms_ok P A S" and L: "pL P \<le> sp_rows A" and q: "s_i S \<le> q" "q < pL P" and h: "h < pL P"
  defines "ts \<equiv> back_targets (spmat_transpose A) U S q"
  shows "distinct ts" "s_d S ! q \<notin> set ts" "t \<in> set ts \<Longrightarrow> back_beta U S q t \<noteq> 0 \<and> t < sp_rows A"
    "s_d S ! h \<in> set ts \<longleftrightarrow> (if h < s_i S then s_c S ! q \<in> ones A (s_d S ! h) else h < q \<and> wrkmat_at U (s_d S ! h) (q - s_i S) \<noteq> 0)"
proof -
  note d = perm_pairD [OF perms_okD(1) [OF p]] and c = perm_pairD(3) [OF perms_okD(2) [OF p] q(2)]
  note col = column_rows [OF A c]
  have di: "s_di S ! (s_d S ! x) = x" "s_d S ! x < sp_rows A" if "x < pL P" for x using d(3,5) that L by simp_all
  have inj: "s_d S ! x = s_d S ! y \<longleftrightarrow> x = y" if "x < pL P" "y < pL P" for x y
    using perm_pair_inj [OF perms_okD(1) [OF p], of x y] that L by simp
  have ts: "t \<in> set ts \<longleftrightarrow> t < sp_rows A \<and> s_c S ! q \<in> ones A t \<and> s_di S ! t < s_i S
      \<or> (\<exists>h. s_i S \<le> h \<and> h < q \<and> t = s_d S ! h \<and> wrkmat_at U t (q - s_i S) \<noteq> 0)" for t
    using col(2) by (auto simp: ts_def back_targets_def)
  have "inj_on ((!) (s_d S)) (set (filter (\<lambda>h. wrkmat_at U (s_d S ! h) (q - s_i S) \<noteq> 0) [s_i S..<q]))"
    using inj q by (simp add: inj_on_def)
  then have "distinct (map ((!) (s_d S)) (filter (\<lambda>h. wrkmat_at U (s_d S ! h) (q - s_i S) \<noteq> 0) [s_i S..<q]))"
    by (simp add: distinct_map)
  then show "distinct ts" using col(1) q di(1) by (auto simp: ts_def back_targets_def)
  have "h = q" if "h < q" "s_d S ! q = s_d S ! h" for h using inj [of h q] that q(2) by auto
  then show "s_d S ! q \<notin> set ts" unfolding ts using di(1) [OF q(2)] q by auto
  show "back_beta U S q t \<noteq> 0 \<and> t < sp_rows A" if t: "t \<in> set ts"
    using t unfolding ts
  proof
    assume "t < sp_rows A \<and> s_c S ! q \<in> ones A t \<and> s_di S ! t < s_i S"
    then show ?thesis by (simp add: back_beta_def)
  next
    assume "\<exists>h. s_i S \<le> h \<and> h < q \<and> t = s_d S ! h \<and> wrkmat_at U t (q - s_i S) \<noteq> 0"
    then obtain h where h: "s_i S \<le> h" "h < q" "t = s_d S ! h" "wrkmat_at U t (q - s_i S) \<noteq> 0" by blast
    then show ?thesis using di [of h] q(2) by (simp add: back_beta_def)
  qed
  show "s_d S ! h \<in> set ts \<longleftrightarrow> (if h < s_i S then s_c S ! q \<in> ones A (s_d S ! h) else h < q \<and> wrkmat_at U (s_d S ! h) (q - s_i S) \<noteq> 0)"
  proof -
    have "(\<exists>x. s_i S \<le> x \<and> x < q \<and> s_d S ! h = s_d S ! x \<and> W) \<longleftrightarrow> s_i S \<le> h \<and> h < q \<and> W" for W
    proof
      assume "\<exists>x. s_i S \<le> x \<and> x < q \<and> s_d S ! h = s_d S ! x \<and> W"
      then obtain x where x: "s_i S \<le> x" "x < q" "s_d S ! h = s_d S ! x" "W" by blast
      then show "s_i S \<le> h \<and> h < q \<and> W" using inj [OF h, of x] q(2) by simp
    qed auto
    then show ?thesis unfolding ts di(1) [OF h] using di(2) [OF h] by auto
  qed
qed

text \<open>
  What the solver returns: \<open>ops1\<close> are the operations up to the first checkpoint, \<open>rest\<close> those up to
  the second.
\<close>

definition solution_schedule :: "params \<Rightarrow> spmat \<Rightarrow> schedule \<Rightarrow> sched_op list \<Rightarrow> sched_op list \<Rightarrow> sched_op list \<Rightarrow> bool" where
  "solution_schedule P A S ops1 rest back \<longleftrightarrow>
     perms_ok P A S \<and> s_ops S = ops1 @ rest @ back
     \<and> s_mark0 S = of_nat (length ops1) - 1 \<and> s_mark1 S = of_nat (length (ops1 @ rest)) - 1
     \<and> (\<forall>op \<in> set (s_ops S). op_ok (sp_rows A) op)
     \<and> (\<forall>op \<in> set ops1. op_rows op \<subseteq> upper_rows A S \<and> op_beta op \<noteq> 0 \<and> op_i op \<noteq> op_j op)
     \<and> (\<forall>op \<in> set rest. op_i op \<notin> upper_rows A S)
     \<and> (\<forall>p < pL P. \<forall>q < pL P.
          run (ops1 @ rest @ rev ops1 @ back @ ops1) (sysmat P A) (s_d S ! p) (s_c S ! q) = (if p = q then 1 else 0))"

lemma undo_upper:
  assumes ops: "\<And>op. op \<in> set ops1 \<Longrightarrow> op_rows op \<subseteq> X \<and> op_beta op \<noteq> 0 \<and> op_i op \<noteq> op_j op"
    and rest: "\<And>op. op \<in> set rest \<Longrightarrow> op_i op \<notin> X"
  shows "run (rev ops1) (run (ops1 @ rest) M) r = (if r \<in> X then M r else run (ops1 @ rest) M r)"
proof (cases "r \<in> X")
  case True
  have "run (rev ops1) (run (ops1 @ rest) M) r = run (rev ops1) (run ops1 M) r"
  proof (rule run_local [of _ X, OF _ _ True])
    show "run (ops1 @ rest) M x = run ops1 M x" if "x \<in> X" for x
      using rest that by (auto intro!: run_other)
  qed (use ops in simp)
  then show ?thesis using True ops by (simp add: run_undo)
next
  case False
  then show ?thesis using ops by (auto simp: op_rows_def simp del: run_simps intro!: run_other)
qed

lemma backsolve_identity:
  assumes A: "matrix_ok P A" and o: "orders_ok P A S0" and i: "s_i S0 \<le> pL P" "s_i S0 \<le> sp_rows A - pH P"
    and tri: "triangle A (s_d S0) (s_c S0) (s_i S0) (s_i S0)"
    and E: "elim_inv P A S0 R (U, S)" "\<forall>p < pL P. s_d S ! p \<in> R"
    and ops: "s_ops S = ge_ops S0 (spmat_transpose A) 0 (s_i S0) @ rest" and rest: "\<forall>op \<in> set rest. op_i op \<notin> upper_rows A S0"
    and e: "ech (run (s_ops S) (sysmat P A)) (s_d S) (s_c S0) (s_i S0) (pL P) (pL P)"
    and pq: "p < pL P" "q < pL P"
  shows "run (s_ops S @ rev (ge_ops S0 (spmat_transpose A) 0 (s_i S0)) @ back_ops P (spmat_transpose A) U S
      @ ge_ops S0 (spmat_transpose A) 0 (s_i S0)) (sysmat P A) (s_d S ! p) (s_c S ! q) = (if p = q then 1 else 0)"
proof -
  let ?i = "s_i S0" and ?AT = "spmat_transpose A" and ?up = "upper_rows A S0" and ?M = "sysmat P A"
  define ops1 where "ops1 = ge_ops S0 ?AT 0 ?i"
  note I = elim_invD [OF E(1)]
  have L: "pL P \<le> sp_rows A" by (rule matrix_okD(4) [OF A])
  have up: "s_d S ! h \<in> ?up \<longleftrightarrow> h < ?i" if "h < pL P" for h
    using upper_at [OF I(6), of h] upper_rows_eq [OF orders_okD(7) [OF o] I(6,4)] I(7) i(2) that L I(4) by auto
  define N where "N = run (s_ops S) ?M"
  define N2 where "N2 = run (rev ops1) N"
  define N3 where "N3 = run (back_ops P ?AT U S) N2"
  have N2: "N2 (s_d S ! h) = (if h < ?i then ?M (s_d S ! h) else N (s_d S ! h))" if "h < pL P" for h
    unfolding N2_def N_def ops ops1_def [symmetric]
    using undo_upper [of ops1 ?up rest ?M "s_d S ! h"] ops1_rows [OF A o i] rest up [OF that] by (simp add: ops1_def)
  have Mu: "?M (s_d S ! h) x = (if x \<in> ones A (s_d S ! h) then 1 else 0)" if "h < ?i" for h x
    using sysmat_upper [OF A o i(2) that] I(7) [OF that] by simp
  have N3: "N3 (s_d S ! h) (s_c S ! q) = (if ?i \<le> q then (if h = q then 1 else 0) else N2 (s_d S ! h) (s_c S ! q))"
    if h: "h < pL P" and q: "q < pL P" for h q
  proof -
    have "run (batches ((!) (s_d S)) (back_beta U S) (back_targets ?AT U S) (rev [pL P - (pL P - ?i)..<pL P])) N2 (s_d S ! h) (s_c S ! q)
        = (if pL P - (pL P - ?i) \<le> q then (if h = q then 1 else 0) else N2 (s_d S ! h) (s_c S ! q))"
    proof (rule back_batches [where a = ?i and c = "(!) (s_c S)"])
      fix p assume p: "?i \<le> p" "p < pL P"
      note T = back_targets_set [OF A I(6) L p(1) [folded I(4)] p(2), where U = U]
      show "N2 (s_d S ! p) (s_c S ! p) = 1" using N2 [OF p(2)] echD(2) [OF e p] p I(2) by (simp add: N_def)
      show "N2 (s_d S ! p) (s_c S ! q) = 0" if "q < p" for q
        using N2 [OF p(2)] echD(1) [OF e p, of q] p that I(2) by (simp add: N_def)
      show "distinct (back_targets ?AT U S p) \<and> s_d S ! p \<notin> set (back_targets ?AT U S p)
          \<and> (\<forall>t \<in> set (back_targets ?AT U S p). back_beta U S p t \<noteq> 0)" using T(1-3) [OF p(2)] by blast
      fix h assume h: "h < pL P" "h \<noteq> p"
      have dh: "s_di S ! (s_d S ! h) = h" using perm_pairD(5) [OF perms_okD(1) [OF I(6)]] h(1) L by simp
      consider "h < ?i" | "?i \<le> h" "h < p" | "?i \<le> h" "p < h" using h(2) by linarith
      then show "N2 (s_d S ! h) (s_c S ! p) = (if s_d S ! h \<in> set (back_targets ?AT U S p) then back_beta U S p (s_d S ! h) else 0)"
      proof cases
        case 1
        then show ?thesis unfolding T(4) [OF h(1)] I(4) by (simp add: N2 [OF h(1)] Mu back_beta_def dh I(4))
      next
        case 2
        have "wrkmat_at U (s_d S ! h) (p - ?i) = N (s_d S ! h) (s_c S ! p)"
          using I(10) [OF _ p, of "s_d S ! h"] E(2) h(1) by (simp add: N_def I(2))
        then show ?thesis unfolding T(4) [OF h(1)] I(4) using 2 by (simp add: N2 [OF h(1)] back_beta_def dh I(4))
      next
        case 3
        then show ?thesis unfolding T(4) [OF h(1)] I(4)
          using echD(1) [OF e 3(1) h(1) p(2) 3(2)] by (simp add: N2 [OF h(1)] N_def I(2))
      qed
    qed (use i h q in simp_all)
    then show ?thesis using i by (simp add: N3_def back_ops_def I(4))
  qed
  have run: "run (s_ops S @ rev ops1 @ back_ops P ?AT U S @ ops1) ?M = run ops1 N3"
    by (simp add: N3_def N2_def N_def)
  have sq: "s_d S ! h = s_d S0 ! h" "s_c S = s_c S0" if "h < ?i" for h using I(2,7) that by simp_all
  have N3M: "N3 (s_d S0 ! h) (s_c S0 ! q) = ?M (s_d S0 ! h) (s_c S0 ! q)" if "h < ?i" "q < ?i" for h q
    using N3 [of h q] N2 [of h] I(2) I(7) [of h] i(1) that by simp
  note one = ops1_identity [where N = N3, OF A o i tri N3M, folded ops1_def]
  show ?thesis
    unfolding ops1_def [symmetric] run
  proof (cases "?i \<le> q")
    case True
    have "N3 (s_d S0 ! h) (s_c S ! q) = 0" if "h < ?i" for h
      using N3 [of h q] that True pq(2) i(1) I(7) [OF that] by simp
    then show "run ops1 N3 (s_d S ! p) (s_c S ! q) = (if p = q then 1 else 0)"
      using one(2) [of "s_c S ! q" "s_d S ! p"] N3 [OF pq] True by auto
  next
    case False
    show "run ops1 N3 (s_d S ! p) (s_c S ! q) = (if p = q then 1 else 0)"
    proof (cases "p < ?i")
      case True
      have "unit_rows (run ops1 N3) (s_d S0) (s_c S0) ?i" using one(1) .
      then show ?thesis using True False I(2) I(7) [OF True] by (simp add: unit_rows_def)
    next
      case h: False
      have "s_d S ! p \<notin> op_i ` set ops1" using ops1_rows(1) [OF A o i] up [OF pq(1)] h by (fastforce simp: ops1_def op_rows_def)
      then have "run ops1 N3 (s_d S ! p) = N3 (s_d S ! p)" by (rule run_other)
      then show ?thesis
        using N3 [OF pq] N2 [OF pq(1)] False h echD(1) [OF e, of p q] pq I(2) by (simp add: N_def)
    qed
  qed
qed


subsection \<open>The solver\<close>

lemma upper_rows_order: "upper_rows A S = {r. r < sp_rows A \<and> s_di S ! r < s_i S}"
  by (rule upper_rows_def)

lemma back_ops_ok:
  assumes A: "matrix_ok P A" and p: "perms_ok P A S" and op: "op \<in> set (back_ops P (spmat_transpose A) U S)"
  shows "op_ok (sp_rows A) op"
proof -
  note L = matrix_okD(4) [OF A]
  from op obtain q t where q: "s_i S \<le> q" "q < pL P" and t: "t \<in> set (back_targets (spmat_transpose A) U S q)"
    and e: "op = \<lparr>op_beta = back_beta U S q t, op_i = t, op_j = s_d S ! q\<rparr>"
    by (auto simp: back_ops_def batches_def batch_def)
  note T = back_targets_set [OF A p L q q(2), where U = U]
  have "s_d S ! q < sp_rows A" using perm_pairD(3) [OF perms_okD(1) [OF p]] q(2) L by simp
  moreover have "t \<noteq> s_d S ! q" using T(2) t by blast
  ultimately show ?thesis using T(3) [OF t] by (simp add: e op_ok_def)
qed

lemma forward_solution:
  assumes A: "matrix_ok P A" and o: "orders_ok P A S0" and i: "s_i S0 \<le> pW P" "s_i S0 \<le> sp_rows A - pH P"
    and tri: "triangle A (s_d S0) (s_c S0) (s_i S0) (s_i S0)" and f: "forward_done P A S0 (U, S)"
  shows "\<exists>ops1 rest back. solution_schedule P A (precode_matrix_backsolve P (spmat_transpose A) U
      (S\<lparr>s_mark1 := of_nat (length (s_ops S)) - 1\<rparr>)) ops1 rest back"
proof -
  let ?AT = "spmat_transpose A" and ?S1 = "S\<lparr>s_mark1 := of_nat (length (s_ops S)) - 1\<rparr>"
  let ?ops1 = "ge_ops S0 ?AT 0 (s_i S0)"
  have iL: "s_i S0 \<le> pL P" using i(1) matrix_okD(10) [OF A] by simp
  from f obtain R rest where E: "elim_inv P A S0 R (U, S)" "\<forall>p < pL P. s_d S ! p \<in> R"
    and ops: "s_ops S = ?ops1 @ rest" and m0: "s_mark0 S = of_nat (length ?ops1) - 1"
    and rest: "\<forall>op \<in> set rest. op_i op \<notin> upper_rows A S0" and ok: "\<forall>op \<in> set (s_ops S). op_ok (sp_rows A) op"
    and e: "ech (run (s_ops S) (sysmat P A)) (s_d S) (s_c S0) (s_i S0) (pL P) (pL P)"
    unfolding forward_done_def by blast
  note I = elim_invD [OF E(1)]
  have p1: "perms_ok P A ?S1" using I(6) by (simp add: perms_ok_def)
  have up: "upper_rows A S = upper_rows A S0" using upper_rows_eq [OF orders_okD(7) [OF o] I(6,4)] I(7) i(2) by auto
  let ?B = "back_ops P ?AT U S"
  have B: "back_ops P ?AT U ?S1 = ?B"
    by (simp add: back_ops_def back_beta_def [abs_def] back_targets_def [abs_def] cong: if_cong)
  have S2: "precode_matrix_backsolve P ?AT U ?S1 = ?S1\<lparr>s_ops := s_ops S @ ?B\<rparr>"
    using backsolve_ops [OF A p1 matrix_okD(4) [OF A], of U] by (simp add: B)
  have id: "run (?ops1 @ rest @ rev ?ops1 @ ?B @ ?ops1) (sysmat P A) (s_d S ! p) (s_c S ! q) = (if p = q then 1 else 0)"
    if "p < pL P" "q < pL P" for p q
    using backsolve_identity [OF A o iL i(2) tri E ops rest e that] unfolding ops append_assoc .
  have "solution_schedule P A (?S1\<lparr>s_ops := s_ops S @ ?B\<rparr>) ?ops1 rest ?B"
    unfolding solution_schedule_def
  proof (intro conjI)
    show "perms_ok P A (?S1\<lparr>s_ops := s_ops S @ ?B\<rparr>)" using I(6) by (simp add: perms_ok_def)
    show "\<forall>op \<in> set (s_ops (?S1\<lparr>s_ops := s_ops S @ ?B\<rparr>)). op_ok (sp_rows A) op" using ok back_ops_ok [OF A I(6)] by auto
    show "\<forall>op \<in> set ?ops1. op_rows op \<subseteq> upper_rows A (?S1\<lparr>s_ops := s_ops S @ ?B\<rparr>) \<and> op_beta op \<noteq> 0 \<and> op_i op \<noteq> op_j op"
      using ops1_rows [OF A o iL i(2)] up by (simp add: upper_rows_def)
    show "\<forall>op \<in> set rest. op_i op \<notin> upper_rows A (?S1\<lparr>s_ops := s_ops S @ ?B\<rparr>)" using rest up by (simp add: upper_rows_def)
    show "\<forall>p < pL P. \<forall>q < pL P. run (?ops1 @ rest @ rev ?ops1 @ ?B @ ?ops1) (sysmat P A)
        (s_d (?S1\<lparr>s_ops := s_ops S @ ?B\<rparr>) ! p) (s_c (?S1\<lparr>s_ops := s_ops S @ ?B\<rparr>) ! q) = (if p = q then 1 else 0)"
      using id by simp
  qed (simp_all add: ops m0)
  then show ?thesis unfolding S2 by blast
qed

lemma invert_spec:
  assumes A: "matrix_ok P A" and H: "1 < pH P"
  shows "yields (\<lambda>r. case r of None \<Rightarrow> True | Some S \<Rightarrow> \<exists>ops1 rest back. solution_schedule P A S ops1 rest back)
    (precode_matrix_invert P A)"
proof -
  let ?AT = "spmat_transpose A"
  from precond_spec [OF A] obtain S0 where
    pre: "precode_matrix_precond P A ?AT (precode_matrix_sort P A (sched_new (sp_rows A) (sp_cols A))) = Inr S0"
    and S0: "orders_ok P A S0" "s_ops S0 = []" "s_i S0 \<le> pW P" "s_i S0 \<le> sp_rows A - pH P" "s_u S0 = pL P - s_i S0"
      "triangle A (s_d S0) (s_c S0) (s_i S0) (s_i S0)" by blast
  have "0 < pKprime P + pS P" using matrix_okD(10,11,9,12) [OF A] matrix_okD(1) [OF A] by (auto simp: params_ok_def)
  then obtain M where M: "precode_matrix_make_HDPC P = Inr M" using H by (simp add: precode_matrix_make_HDPC_def Let_def)
  note F = forward_spec [OF A S0(1,3-5) S0(2,6) M]
  let ?fin = "\<lambda>(rank, U, S). Inr (if rank < pL P then None
    else Some (precode_matrix_backsolve P ?AT U (S\<lparr>s_mark1 := of_nat (length (s_ops S)) - 1\<rparr>))) :: schedule option result"
  have inv: "precode_matrix_invert P A = rbind (rbind (precode_matrix_make_U P A ?AT S0) (\<lambda>US.
     rbind (if pL P \<le> sp_rows A - pH P then precode_matrix_solve_gf2 P US else Inr (0, US)) (\<lambda>(rank, US).
     if rank < pL P then rbind (precode_matrix_fill_HDPC P US) (precode_matrix_solve_gf256 P) else Inr (rank, US)))) ?fin"
    unfolding precode_matrix_invert_def Let_def pre rbind_simps
    by (simp add: rbind_def split: sum.splits prod.splits)
  show ?thesis
    unfolding inv
  proof (rule yields_rbind [OF F])
    fix x :: "nat \<times> wrkmat \<times> schedule"
    obtain rank U S where x: "x = (rank, U, S)" by (cases x) auto
    assume "case x of (rank, US) \<Rightarrow> rank \<le> pL P \<and> (rank = pL P \<longrightarrow> forward_done P A S0 US)"
    then show "yields (\<lambda>r. case r of None \<Rightarrow> True | Some S \<Rightarrow> \<exists>ops1 rest back. solution_schedule P A S ops1 rest back) (?fin x)"
      using forward_solution [OF A S0(1,3,4,6), of U S] by (auto simp: x)
  qed
qed


subsection \<open>The intermediate symbols\<close>

text \<open>
  The runner executes the last forward operation after the undo, not before; that is harmless when the
  two checkpoints differ and the operation does not read a row of the triangle.
\<close>

definition marks_apart :: "spmat \<Rightarrow> schedule \<Rightarrow> bool" where
  "marks_apart A S \<longleftrightarrow> length (s_ops S) < 2147483648 \<and> s_mark0 S < s_mark1 S
     \<and> (\<forall>r \<in> op_rows (s_ops S ! unat (s_mark1 S)). s_i S \<le> s_di S ! r)"

lemma unat_pred: "0 < n \<Longrightarrow> n < 4294967296 \<Longrightarrow> unat (of_nat n - 1 :: u32) = n - 1"
  by (cases n) (simp_all add: unsigned_of_nat take_bit_nat_eq_self)

lemma checkpoints:
  assumes "solution_schedule P A S ops1 rest back" and "marks_apart A S"
  shows "Suc (unat (s_mark0 S)) = length ops1" "unat (s_mark1 S) = length ops1 + length rest - 1" "ops1 \<noteq> []" "rest \<noteq> []"
proof -
  let ?m = "\<lambda>n. of_nat n - 1 :: u32"
  have ops: "s_ops S = ops1 @ rest @ back" and m: "s_mark0 S = ?m (length ops1)" "s_mark1 S = ?m (length (ops1 @ rest))"
    using assms(1) by (simp_all add: solution_schedule_def)
  have lt: "length ops1 + length rest < 4294967296" and less: "unat (s_mark0 S) < unat (s_mark1 S)"
    using assms(2) by (simp_all add: marks_apart_def ops word_less_nat_alt)
  have top: "unat (?m 0) = 4294967295" by (simp add: unsigned_minus_1_eq_mask mask_eq_exp_minus_1)
  show "ops1 \<noteq> []"
  proof
    assume "ops1 = []"
    then have "unat (s_mark0 S) = 4294967295" using m top by simp
    moreover have "unat (s_mark1 S) < 4294967296" using unsigned_less [of "s_mark1 S", where ?'a = nat] by simp
    ultimately show False using less by linarith
  qed
  then have 1: "0 < length ops1" by simp
  then have u: "unat (s_mark0 S) = length ops1 - 1" "unat (s_mark1 S) = length ops1 + length rest - 1"
    using lt unat_pred [of "length ops1"] unat_pred [of "length ops1 + length rest"] by (simp_all add: m)
  then show "Suc (unat (s_mark0 S)) = length ops1" "unat (s_mark1 S) = length ops1 + length rest - 1" "rest \<noteq> []"
    using 1 less by auto
qed

lemma runner_order:
  assumes s: "solution_schedule P A S ops1 rest back" and m: "marks_apart A S"
  defines "m0 \<equiv> Suc (unat (s_mark0 S))" and "m1 \<equiv> unat (s_mark1 S)"
  shows "run (take m1 (s_ops S) @ rev (take m0 (s_ops S)) @ drop m1 (s_ops S) @ take m0 (s_ops S)) M
    = run (ops1 @ rest @ rev ops1 @ back @ ops1) M"
proof -
  note c = checkpoints [OF s m]
  have ops: "s_ops S = ops1 @ rest @ back" and o1: "\<forall>op \<in> set ops1. op_rows op \<subseteq> upper_rows A S"
    using s by (auto simp: solution_schedule_def)
  define z where "z = last rest"
  have r: "rest = butlast rest @ [z]" using c(4) by (simp add: z_def)
  have m0: "m0 = length ops1" using c(1) by (simp add: m0_def)
  have m1: "m1 = length (ops1 @ butlast rest)" using c(2,4) by (cases rest) (simp_all add: m1_def)
  have e: "s_ops S = (ops1 @ butlast rest) @ z # back" unfolding ops by (subst (1) r) simp
  have z: "s_ops S ! m1 = z" unfolding e m1 by (simp only: nth_append_length)
  have zr: "op_rows z \<inter> upper_rows A S = {}"
    using m z by (auto simp: marks_apart_def upper_rows_def m1_def)
  have sw: "run (rev ops1 @ [z]) N = run ([z] @ rev ops1) N" for N
    by (rule run_swap [of "rev ops1" "upper_rows A S" "[z]" "op_rows z"]) (use o1 zr in auto)
  have "take m1 (s_ops S) = ops1 @ butlast rest" "drop m1 (s_ops S) = z # back" "take m0 (s_ops S) = ops1"
    unfolding e m1 m0 by simp_all
  then have "run (take m1 (s_ops S) @ rev (take m0 (s_ops S)) @ drop m1 (s_ops S) @ take m0 (s_ops S)) M
    = run (back @ ops1) (run (rev ops1 @ [z]) (run (ops1 @ butlast rest) M))" by simp
  also have "\<dots> = run (ops1 @ (butlast rest @ [z]) @ rev ops1 @ back @ ops1) M" unfolding sw by simp
  finally show ?thesis using r by simp
qed

lemma solution_values:
  assumes s: "solution_schedule P A S ops1 rest back" and sol: "solves (sp_rows A) (pL P) k (sysmat P A) C D"
    and L: "pL P \<le> sp_rows A" and p: "p < pL P" and x: "x < k"
  shows "run (ops1 @ rest @ rev ops1 @ back @ ops1) D (s_d S ! p) x = C (s_c S ! p) x"
proof -
  let ?ops = "ops1 @ rest @ rev ops1 @ back @ ops1"
  have perms: "perms_ok P A S" and ok: "op \<in> set ?ops \<Longrightarrow> op_ok (sp_rows A) op"
    and id: "\<And>q. q < pL P \<Longrightarrow> run ?ops (sysmat P A) (s_d S ! p) (s_c S ! q) = (if p = q then 1 else 0)" for op
    using s p by (auto simp: solution_schedule_def)
  note d = perm_pairD [OF perms_okD(1) [OF perms]] and c = perm_pairD [OF perms_okD(2) [OF perms]]
  have dp: "s_d S ! p < sp_rows A" using d(3) p L by simp
  have "solves (sp_rows A) (pL P) k (run ?ops (sysmat P A)) C (run ?ops D)" by (rule solves_run [OF sol ok])
  then have "run ?ops D (s_d S ! p) x = xsum (\<lambda>c. gf_mul (run ?ops (sysmat P A) (s_d S ! p) c) (C c x)) (pL P)"
    unfolding solves_def using dp x by blast
  also have "\<dots> = gf_mul (run ?ops (sysmat P A) (s_d S ! p) (s_c S ! p)) (C (s_c S ! p) x)"
  proof (rule xsum_single)
    show "s_c S ! p < pL P" using c(3) p by simp
    fix r assume r: "r < pL P" "r \<noteq> s_c S ! p"
    then have "s_ci S ! r < pL P" "s_c S ! (s_ci S ! r) = r" using c(4,6) by simp_all
    then show "gf_mul (run ?ops (sysmat P A) (s_d S ! p) r) (C r x) = 0" using id [of "s_ci S ! r"] r(2) by auto
  qed
  finally show ?thesis using id [OF p] by simp
qed

lemma intermediate_spec:
  assumes A: "matrix_ok P A" and s: "solution_schedule P A S ops1 rest back" and m: "marks_apart A S"
    and D: "is_mat n k (om_data D)" "om_cols D = k" and n: "sp_rows A \<le> n"
    and sol: "solves (sp_rows A) (pL P) k (sysmat P A) C (mat_of (om_data D))"
  shows "\<exists>D'. precode_matrix_intermediate D S = Inr D' \<and> is_mat n k (om_data D') \<and> om_cols D' = k \<and> om_rows D' = om_rows D
    \<and> (\<forall>r < pL P. \<forall>x < k. om_data D' ! r ! x = C r x)"
proof -
  note L = matrix_okD(4) [OF A]
  have perms: "perms_ok P A S" and len: "length (s_ops S) < 2147483648"
    using s m by (simp_all add: solution_schedule_def marks_apart_def)
  have ok: "op_ok n op" if "op \<in> set (s_ops S)" for op
  proof -
    have "op_ok (sp_rows A) op" using s that by (simp add: solution_schedule_def)
    then show ?thesis using n by (auto simp: op_ok_def)
  qed
  note pd = perms_okD [OF perms] and ck = checkpoints [OF s m]
  note d = perm_pairD [OF pd(1)] and c = perm_pairD [OF pd(2)]
  have ops: "s_ops S = ops1 @ rest @ back" using s by (simp add: solution_schedule_def)
  have lt: "unat (s_mark0 S) < length (s_ops S)" "unat (s_mark1 S) < length (s_ops S)"
    using ck by (auto simp: ops Suc_le_eq [symmetric])
  from apply_sched_run [OF D(1) ok len lt] obtain D1 where D1: "precode_matrix_apply_sched k (om_data D) S = Inr D1" "is_mat n k D1"
    "agree n k (mat_of D1) (run (ops1 @ rest @ rev ops1 @ back @ ops1) (mat_of (om_data D)))"
    unfolding runner_order [OF s m] by blast
  from permute_spec [OF perm_pair_sym [OF pd(1)] n D1(2)] obtain D2 where D2:
    "precode_matrix_permute D1 (map int (s_di S)) (sp_rows A) k = Inr D2" "is_mat n k D2" "\<forall>x < sp_rows A. D2 ! (s_di S ! x) = D1 ! x" by blast
  have Ln: "pL P \<le> n" using L n by simp
  from permute_spec [OF pd(2) Ln D2(2)] obtain D3 where D3:
    "precode_matrix_permute D2 (map int (s_c S)) (pL P) k = Inr D3" "is_mat n k D3" "\<forall>x < pL P. D3 ! (s_c S ! x) = D2 ! x" by blast
  have "D3 ! r ! x = C r x" if r: "r < pL P" and x: "x < k" for r x
  proof -
    define p where "p = s_ci S ! r"
    have p: "p < pL P" "s_c S ! p = r" using c(4,6) r by (simp_all add: p_def)
    have dp: "s_d S ! p < sp_rows A" "s_di S ! (s_d S ! p) = p" using d(3,5) p(1) L by simp_all
    have "D3 ! r = D1 ! (s_d S ! p)" using D3(3) p D2(3) dp by metis
    then show ?thesis
      using D1(3) dp(1) n x solution_values [OF s sol L p(1) x] p(2) by (simp add: agree_def mat_of_def del: run_simps)
  qed
  moreover have "precode_matrix_intermediate D S = Inr (D\<lparr>om_data := D3\<rparr>)"
    using D1(1) D2(1) D3(1) by (simp add: precode_matrix_intermediate_def D(2) pd(4,5))
  ultimately show ?thesis using D3(2) D(2) by (intro exI [of _ "D\<lparr>om_data := D3\<rparr>"]) simp
qed

end
