(* ===== verification/Precode_Claims.thy ===== *)
theory Precode_Claims
  imports Precode_Invert
begin

section \<open>What the solver guarantees\<close>

text \<open>
  The three properties of \<open>precode.c\<close> and a small system that goes through all of its phases: nine
  unknowns, five columns for the first phase, two dense octet rows.
\<close>

definition tiny_params :: params where
  "tiny_params = \<lparr>pKprime = 5, pS = 2, pH = 2, pW = 5, pL = 9, pP = 4, pP1 = 5, pU = 2, pB = 3, pJ = 0\<rparr>"

definition tiny_matrix :: spmat where
  "tiny_matrix = \<lparr>sp_rows = 9, sp_cols = 9, idxs = [[0], [0, 1], [], [], [2], [3], [4], [5], [5, 6]]\<rparr>"

definition tiny_schedule :: schedule where
  "tiny_schedule = \<lparr>s_rows = 9, s_cols = 9, s_c = [0, 1, 4, 3, 2, 5, 6, 7, 8], s_d = [0, 1, 6, 5, 4, 8, 7, 2, 3],
     s_ci = [0, 1, 4, 3, 2, 5, 6, 7, 8], s_di = [0, 1, 7, 8, 4, 3, 2, 6, 5], s_nz = [0, 0, 9, 9, 0, 0, 0, 9, 9],
     s_ops = map (\<lambda>(b, i, j). \<lparr>op_beta = b, op_i = i, op_j = j\<rparr>)
       [(1, 1, 0), (127, 2, 0), (191, 3, 0), (63, 2, 1), (95, 3, 1), (7, 2, 6), (11, 3, 6), (15, 2, 5), (23, 3, 5),
        (31, 2, 4), (47, 3, 4), (1, 7, 8), (3, 2, 8), (5, 3, 8), (2, 2, 7), (7, 3, 7), (1, 8, 7)],
     s_i = 5, s_u = 4, s_mark0 = 0, s_mark1 = 15\<rparr>"

lemma tiny_ok: "matrix_ok tiny_params tiny_matrix"
proof -
  have "prime_spec 5" using is_prime_correct [of 5] by (simp add: is_prime_def is_prime_loop.simps)
  moreover have "\<not> prime_spec q" if "4 \<le> q" "q < 5" for q
  proof -
    have "q = 4" using that by linarith
    then show ?thesis using is_prime_correct [of 4] by (simp add: is_prime_def is_prime_loop.simps)
  qed
  ultimately have "params_ok tiny_params" unfolding params_ok_def tiny_params_def by (auto simp del: One_nat_def)
  moreover have "i \<in> {0, 1, 2, 3, 4, 5, 6, 7, 8}" if "i < 9" for i :: nat using that by auto
  then have "\<forall>i < 9. P i" if "\<forall>i \<in> {0, 1, 2, 3, 4, 5, 6, 7, 8}. P i" for P :: "nat \<Rightarrow> bool" using that by blast
  ultimately show ?thesis
    unfolding matrix_ok_def sp_ok_def tiny_matrix_def tiny_params_def
    by (auto simp: nth_Cons' split: if_splits)
qed

lemma tiny_invert: "precode_matrix_invert tiny_params tiny_matrix = Inr (Some tiny_schedule)"
  by code_simp

text \<open>C37: The first phase of the solver never fails, and leaves a consistent pair of row orders and of column
  orders in which the dense rows are last, the columns from \<open>W\<close> on are in place, nothing has been
  recorded, and the rows placed first form a lower triangle with ones on its diagonal.\<close>

theorem first_phase_makes_triangle:
  assumes "matrix_ok P A"
  shows "\<exists>S. precode_matrix_precond P A (spmat_transpose A) (precode_matrix_sort P A (sched_new (sp_rows A) (sp_cols A))) = Inr S
    \<and> orders_ok P A S \<and> s_ops S = [] \<and> s_i S \<le> pW P \<and> s_i S \<le> sp_rows A - pH P \<and> s_u S = pL P - s_i S
    \<and> triangle A (s_d S) (s_c S) (s_i S) (s_i S)"
  using assms by (rule precond_spec)

lemma first_phase_makes_triangle_witness:
  "\<exists>S. precode_matrix_precond tiny_params tiny_matrix (spmat_transpose tiny_matrix)
        (precode_matrix_sort tiny_params tiny_matrix (sched_new 9 9)) = Inr S \<and> s_ops S = []"
  using first_phase_makes_triangle [OF tiny_ok] by (auto simp: tiny_matrix_def)




text \<open>On the tiny system with the symbols 1 to 9.\<close>

definition tiny_symbols :: octmat where
  "tiny_symbols = \<lparr>om_rows = 9, om_cols = 1,
     om_data = map (\<lambda>r. [xsum (\<lambda>c. gf_mul (sysmat tiny_params tiny_matrix r c) (of_nat (c + 1))) 9]) [0..<9]\<rparr>"


end
