(* ===== verification/Coding.thy ===== *)
theory Coding
  imports Nanorq Precode
begin

section \<open>Encoding and repair (nanorq.c)\<close>

text \<open>
  The operations of \<open>nanorq.c\<close> that use the solver: a coded symbol from the intermediate symbols
  (\<open>decode_row\<close>), making the intermediate symbols of a block, encoding, and repairing a block from the
  repair symbols kept so far. The theories \<open>Repair_Rows\<close> and \<open>Repair\<close> show what they compute.
\<close>

subsection \<open>A coded symbol\<close>

text \<open>\<open>APPLYROW\<close>: row \<open>w\<close> of the matrix onto the bytes at \<open>a\<close>.\<close>

definition apply_row :: "rows \<Rightarrow> bytes \<Rightarrow> nat \<Rightarrow> bytes result" where
  "apply_row D a w =
     (if length D \<le> w then Inl Out_Of_Bounds
      else Inr (map (\<lambda>i. a ! i XOR D ! w ! i) [0..<length a]))"

text \<open>The two loops of \<open>decode_row\<close> that follow the first column of either part.\<close>

fun lt_rows :: "params \<Rightarrow> rows \<Rightarrow> nat \<Rightarrow> nat \<Rightarrow> nat \<Rightarrow> bytes \<Rightarrow> bytes result" where
  "lt_rows P D a b 0 ptr = Inr ptr"
| "lt_rows P D a b (Suc n) ptr =
     (let b = (b + a) mod pW P in rbind (apply_row D ptr b) (lt_rows P D a b n))"

fun pi_rows :: "params \<Rightarrow> rows \<Rightarrow> nat \<Rightarrow> nat \<Rightarrow> nat \<Rightarrow> bytes \<Rightarrow> bytes result" where
  "pi_rows P D a1 b1 0 ptr = Inr ptr"
| "pi_rows P D a1 b1 (Suc n) ptr =
     (case skip_pi P a1 ((b1 + a1) mod pP1 P) of
        None \<Rightarrow> Inl Diverges
      | Some b1 \<Rightarrow> rbind (apply_row D ptr (pW P + b1)) (pi_rows P D a1 b1 n))"

definition decode_row :: "params \<Rightarrow> rows \<Rightarrow> u32 \<Rightarrow> nat \<Rightarrow> bytes result" where
  "decode_row P D row len =
     (let ptr = replicate len 0; t = gen_tuple row P
      in rbind (apply_row D ptr (t_b t)) (\<lambda>ptr.
         rbind (lt_rows P D (t_a t) (t_b t) (t_d t - 1) ptr) (\<lambda>ptr.
         case skip_pi P (t_a1 t) (t_b1 t) of
           None \<Rightarrow> Inl Diverges
         | Some b1 \<Rightarrow>
             rbind (apply_row D ptr (pW P + b1)) (pi_rows P D (t_a1 t) b1 (t_d1 t - 1)))))"

subsection \<open>The intermediate symbols of a block\<close>

definition put_encoder :: "nanorq \<Rightarrow> nat \<Rightarrow> block_encoder \<Rightarrow> nanorq" where
  "put_encoder rq sbn enc = rq\<lparr>encoders := (encoders rq)(sbn := Some enc)\<rparr>"

definition matrix_of :: "nanorq \<Rightarrow> block_encoder \<Rightarrow> octmat" where
  "matrix_of rq enc = \<lparr>om_rows = length (eD enc), om_cols = rqT rq, om_data = eD enc\<rparr>"

text \<open>\<open>if (!enc->loaded) enc->loaded = load_symbol_matrix (rq, sbn, io)\<close>; the encoder exists, so it is loaded.\<close>

definition ensure_loaded :: "nanorq \<Rightarrow> nat \<Rightarrow> block_encoder \<Rightarrow> ioctx \<Rightarrow> (block_encoder \<times> nanorq \<times> ioctx) result" where
  "ensure_loaded rq sbn enc io =
     (if eloaded enc then Inr (enc, rq, io)
      else rbind (load_symbol_matrix rq sbn io) (\<lambda>(rq, io).
           rbind (get_block_encoder rq sbn) (\<lambda>(enc, rq).
             let enc = enc\<lparr>eloaded := True\<rparr> in Inr (enc, put_encoder rq sbn enc, io))))"

definition nanorq_generate_symbols :: "nanorq \<Rightarrow> nat \<Rightarrow> ioctx \<Rightarrow> (bool \<times> nanorq \<times> ioctx) result" where
  "nanorq_generate_symbols rq sbn io =
     rbind (get_block_encoder rq sbn) (\<lambda>(enc, rq).
       if einverted enc then Inr (True, rq, io)
       else rbind (ensure_loaded rq sbn enc io) (\<lambda>(enc, rq, io).
            rbind (case rqS rq of
                     Some S \<Rightarrow> Inr (Some S)
                   | None \<Rightarrow> rbind (precode_matrix_gen (rqP (par rq)) 0) (precode_matrix_invert (rqP (par rq)))) (\<lambda>S.
              case S of
                None \<Rightarrow> Inr (False, rq, io)
              | Some S \<Rightarrow>
                  rbind (precode_matrix_intermediate (matrix_of rq enc) S) (\<lambda>D.
                    Inr (True, put_encoder rq sbn (enc\<lparr>eD := om_data D, einverted := True\<rparr>), io)))))"

definition nanorq_precalculate :: "nanorq \<Rightarrow> (bool \<times> nanorq) result" where
  "nanorq_precalculate rq =
     rbind (params_init (nanorq_block_symbols (par rq) 0)) (\<lambda>P.
     rbind (precode_matrix_gen P 0) (\<lambda>A.
     rbind (precode_matrix_invert P A) (\<lambda>S.
       Inr (case S of None \<Rightarrow> (False, rq) | Some S \<Rightarrow> (True, rq\<lparr>rqS := Some S\<rparr>)))))"

subsection \<open>Encoding\<close>

text \<open>The result: the return value, the bytes stored at \<open>data\<close>, the new state.\<close>

definition nanorq_encode :: "nanorq \<Rightarrow> nat \<Rightarrow> nat \<Rightarrow> ioctx \<Rightarrow> (nat \<times> bytes \<times> nanorq \<times> ioctx) result" where
  "nanorq_encode rq esi sbn io =
     rbind (get_block_encoder rq sbn) (\<lambda>(enc, rq).
       if esi < eK enc
       then if einverted enc
            then rbind (decode_row (rqP (par rq)) (eD enc) (of_nat esi) (rqT rq)) (\<lambda>d. Inr (rqT rq, d, rq, io))
            else rbind (ensure_loaded rq sbn enc io) (\<lambda>(enc, rq, io).
                 let row = pS (rqP (par rq)) + pH (rqP (par rq)) + esi
                 in if length (eD enc) \<le> row then Inl Out_Of_Bounds
                    else Inr (rqT rq, eD enc ! row, rq, io))
       else if 2 ^ 24 - 1 < esi then Inr (0, [], rq, io)
       else rbind (if einverted enc then Inr (True, rq, io) else nanorq_generate_symbols rq sbn io) (\<lambda>(ok, rq, io).
            rbind (get_block_encoder rq sbn) (\<lambda>(enc, rq).
              let enc = enc\<lparr>einverted := ok\<rparr>; rq = put_encoder rq sbn enc
              in if ok
                 then rbind (decode_row (rqP (par rq)) (eD enc) (of_nat (esi + (pKprime (rqP (par rq)) - eK enc))) (rqT rq))
                        (\<lambda>d. Inr (rqT rq, d, rq, io))
                 else Inr (0, [], rq, io))))"

subsection \<open>Repair\<close>

text \<open>The row of a kept repair symbol, replacing whatever the row held.\<close>

definition patch_row :: "params \<Rightarrow> nat \<Rightarrow> (nat \<times> bytes) list \<Rightarrow> spmat \<times> nat \<Rightarrow> nat \<Rightarrow> (spmat \<times> nat) result" where
  "patch_row P padding bin = (\<lambda>(A, idx) row.
     if length bin \<le> idx \<or> length (idxs A) \<le> row then Inl Out_Of_Bounds
     else rbind (of_opt Diverges (params_set_idxs (of_nat (fst (bin ! idx) + padding)) P)) (\<lambda>cs.
            Inr (foldl (\<lambda>A c. spmat_push A row c) (spmat_clear_row A row) cs, idx + 1)))"

fun patch_gaps :: "params \<Rightarrow> nat \<Rightarrow> bitmask \<Rightarrow> (nat \<times> bytes) list \<Rightarrow> nat list \<Rightarrow> nat \<Rightarrow> spmat \<times> nat \<Rightarrow> (spmat \<times> nat) result" where
  "patch_gaps P padding msk bin [] num_gaps (A, idx) = Inr (A, idx)"
| "patch_gaps P padding msk bin (gap # gs) num_gaps (A, idx) =
     (if num_gaps = 0 then Inr (A, idx)
      else if bitmask_check msk gap then patch_gaps P padding msk bin gs num_gaps (A, idx)
      else rbind (patch_row P padding bin (A, idx) (gap + pH P + pS P)) (patch_gaps P padding msk bin gs (num_gaps - 1)))"

definition patch_precode_matrix :: "params \<Rightarrow> spmat \<Rightarrow> nat \<Rightarrow> nat \<Rightarrow> bitmask \<Rightarrow> (nat \<times> bytes) list \<Rightarrow> spmat result" where
  "patch_precode_matrix P A k num_gaps msk bin =
     (let padding = pKprime P - k
      in rbind (patch_gaps P padding msk bin [0..<pL P] num_gaps (A, 0)) (\<lambda>(A, idx).
         rbind (rfold (patch_row P padding bin) (A, idx) [pL P..<sp_rows A]) (\<lambda>(A, idx). Inr A)))"

definition fill_row :: "(nat \<times> bytes) list \<Rightarrow> rows \<times> nat \<Rightarrow> nat \<Rightarrow> (rows \<times> nat) result" where
  "fill_row bin = (\<lambda>(D, idx) row.
     if length bin \<le> idx \<or> length D \<le> row then Inl Out_Of_Bounds else Inr (D[row := snd (bin ! idx)], idx + 1))"

fun fill_gaps :: "nat \<Rightarrow> bitmask \<Rightarrow> (nat \<times> bytes) list \<Rightarrow> nat list \<Rightarrow> rows \<times> nat \<Rightarrow> (rows \<times> nat) result" where
  "fill_gaps skip msk bin [] (D, idx) = Inr (D, idx)"
| "fill_gaps skip msk bin (gap # gs) (D, idx) =
     (if length bin \<le> idx then Inr (D, idx)
      else if bitmask_check msk gap then fill_gaps skip msk bin gs (D, idx)
      else rbind (fill_row bin (D, idx) (skip + gap)) (fill_gaps skip msk bin gs))"

definition fill_symbol_matrix_gaps :: "params \<Rightarrow> rows \<Rightarrow> nat \<Rightarrow> bitmask \<Rightarrow> (nat \<times> bytes) list \<Rightarrow> rows result" where
  "fill_symbol_matrix_gaps P D k msk bin =
     rbind (fill_gaps (pS P + pH P) msk bin [0..<k] (D, 0)) (\<lambda>(D, idx).
     rbind (rfold (fill_row bin) (D, idx) [pL P..<pL P + (length bin - idx)]) (\<lambda>(D, idx). Inr D))"

text \<open>\<open>M\<close> gets a row for every gap.\<close>

fun repair_rows :: "params \<Rightarrow> rows \<Rightarrow> nat \<Rightarrow> bitmask \<Rightarrow> nat list \<Rightarrow> nat \<Rightarrow> nat \<Rightarrow> rows \<Rightarrow> rows result" where
  "repair_rows P D t msk [] row num_gaps M = Inr M"
| "repair_rows P D t msk (gap # gs) row num_gaps M =
     (if num_gaps = 0 then Inr M
      else if bitmask_check msk gap then repair_rows P D t msk gs row num_gaps M
      else rbind (decode_row P D (of_nat gap) t) (\<lambda>r.
             repair_rows P D t msk gs (row + 1) (num_gaps - 1) (M[row := r])))"

definition decode_repair_rows :: "params \<Rightarrow> rows \<Rightarrow> nat \<Rightarrow> nat \<Rightarrow> nat \<Rightarrow> bitmask \<Rightarrow> rows result" where
  "decode_repair_rows P D t k num_gaps msk =
     repair_rows P D t msk [0..<k] 0 num_gaps (replicate num_gaps (replicate t 0))"

fun write_rows :: "nanorq_params \<Rightarrow> nat \<Rightarrow> nat \<Rightarrow> rows \<Rightarrow> nat list \<Rightarrow> nat \<Rightarrow> bitmask \<Rightarrow> ioctx \<Rightarrow> (bitmask \<times> ioctx) result" where
  "write_rows p sbn k M [] miss msk io = Inr (msk, io)"
| "write_rows p sbn k M (row # rs) miss msk io =
     (if length M \<le> miss then Inr (msk, io)
      else if bitmask_check msk row then write_rows p sbn k M rs miss msk io
      else rbind (transfer_esi p sbn row k (M ! miss) io True) (\<lambda>(_, _, io).
             write_rows p sbn k M rs (miss + 1) (bitmask_set msk row) io))"

definition write_repair_rows :: "nanorq_params \<Rightarrow> nat \<Rightarrow> nat \<Rightarrow> ioctx \<Rightarrow> rows \<Rightarrow> bitmask \<Rightarrow> (bitmask \<times> ioctx) result" where
  "write_repair_rows p sbn k io M msk = write_rows p sbn k M [0..<k] 0 msk io"

definition nanorq_repair_block :: "nanorq \<Rightarrow> ioctx \<Rightarrow> nat \<Rightarrow> (bool \<times> nanorq \<times> ioctx) result" where
  "nanorq_repair_block rq io sbn =
     rbind (get_block_encoder rq sbn) (\<lambda>(dec, rq).
       let P = rqP (par rq); k = eK dec; msk = repair_mask dec; bin = repair_bin dec; num_repair = length bin
       in rbind (bitmask_gaps msk k) (\<lambda>num_gaps.
          if num_gaps = 0 then Inr (True, rq, io)
          else if num_repair < num_gaps then Inr (False, rq, io)
          else let overhead = num_repair - num_gaps
               in if length (eD dec) < pL P + overhead then Inr (False, rq, io)
                  else rbind (fill_symbol_matrix_gaps P (eD dec) k msk bin) (\<lambda>D.
                       rbind (precode_matrix_gen P overhead) (\<lambda>A.
                       rbind (patch_precode_matrix P A k num_gaps msk bin) (\<lambda>A.
                       rbind (precode_matrix_invert P A) (\<lambda>S.
                       let dec = dec\<lparr>eD := D\<rparr>
                       in case S of
                            None \<Rightarrow> Inr (False, put_encoder rq sbn dec, io)
                          | Some S \<Rightarrow>
                              rbind (precode_matrix_intermediate (matrix_of rq dec) S) (\<lambda>D.
                              rbind (decode_repair_rows P (om_data D) (rqT rq) k num_gaps msk) (\<lambda>M.
                              rbind (write_repair_rows (par rq) sbn k io M msk) (\<lambda>(msk, io).
                              let rq = put_encoder rq sbn (dec\<lparr>eD := om_data D, repair_mask := msk\<rparr>)
                              in rbind (nanorq_num_missing rq sbn) (\<lambda>(missing, rq).
                                   Inr (missing = 0, rq, io)))))))))))"

end
