(* ===== verification/Precode_Gen.thy ===== *)
theory Precode_Gen
  imports Precode_Invert Params_Check
begin

section \<open>The matrix of a block\<close>

text \<open>
  \<open>precode_matrix_gen\<close> row by row: the LDPC rows, the empty places of the dense rows, and one row for
  every internal symbol id below \<open>K'\<close>. For the parameters of any block size these rows have no repeated
  column, so the matrix satisfies what the solver asks for, and it still does after some of the symbol
  rows have been replaced by rows of other symbol ids.
\<close>

subsection \<open>Pushing a list of entries\<close>

definition pushes :: "(nat \<times> nat) list \<Rightarrow> spmat \<Rightarrow> spmat" where
  "pushes es A = foldl (\<lambda>A (r, c). spmat_push A r c) A es"

lemma pushes_spec:
  assumes "\<forall>e \<in> set es. fst e < length (idxs A)"
  shows "sp_rows (pushes es A) = sp_rows A" "sp_cols (pushes es A) = sp_cols A" "length (idxs (pushes es A)) = length (idxs A)"
    "r < length (idxs A) \<Longrightarrow> idxs (pushes es A) ! r = idxs A ! r @ map snd (filter (\<lambda>e. fst e = r) es)"
proof -
  have "sp_rows (pushes es A) = sp_rows A \<and> sp_cols (pushes es A) = sp_cols A \<and> length (idxs (pushes es A)) = length (idxs A)
    \<and> (\<forall>r < length (idxs A). idxs (pushes es A) ! r = idxs A ! r @ map snd (filter (\<lambda>e. fst e = r) es))"
    using assms unfolding pushes_def
  proof (induction es rule: rev_induct)
    case (snoc e es)
    then show ?case by (cases e) (auto simp: sp_push_nth)
  qed simp
  then show "sp_rows (pushes es A) = sp_rows A" "sp_cols (pushes es A) = sp_cols A" "length (idxs (pushes es A)) = length (idxs A)"
    "r < length (idxs A) \<Longrightarrow> idxs (pushes es A) ! r = idxs A ! r @ map snd (filter (\<lambda>e. fst e = r) es)" by simp_all
qed

lemma foldl_pushes: "(\<And>A x. x \<in> set xs \<Longrightarrow> f A x = pushes (g x) A) \<Longrightarrow> foldl f A xs = pushes (concat (map g xs)) A"
  by (induction xs arbitrary: A) (simp_all add: pushes_def)

subsection \<open>The LDPC rows\<close>

definition ldpc1_rows :: "nat \<Rightarrow> nat \<Rightarrow> nat list" where
  "ldpc1_rows S col = [col mod S, (col + col div S + 1) mod S, (col + 2 * (col div S + 1)) mod S]"

definition ldpc_row :: "params \<Rightarrow> nat \<Rightarrow> nat list" where
  "ldpc_row P r = filter (\<lambda>col. r \<in> set (ldpc1_rows (pS P) col)) [0..<pB P]
     @ [pB P + r, pW P + r mod pP P, pW P + (r + 1) mod pP P]"

text \<open>What the LDPC rows need of the parameters, and the dense rows of their number.\<close>

definition gen_ok :: "params \<Rightarrow> bool" where
  "gen_ok P \<longleftrightarrow> params_ok P \<and> 1 < pH P \<and> 0 < pS P \<and> (\<forall>col < pB P. 2 * (col div pS P + 1) < pS P)"

lemma mod_shift_neq: "0 < a \<Longrightarrow> a < n \<Longrightarrow> (c + a) mod n \<noteq> c mod (n :: nat)"
proof
  assume a: "0 < a" "a < n" and eq: "(c + a) mod n = c mod n"
  have "(c + a - c) mod n = 0" using mod_eq_dvd_iff_nat [of c "c + a" n] eq by (simp add: dvd_eq_mod_eq_0)
  then show False using a by simp
qed

lemma ldpc1_distinct:
  assumes "2 * (col div S + 1) < S"
  shows "distinct (ldpc1_rows S col)"
proof -
  define d where "d = col div S + 1"
  have d: "0 < d" "d < S" "0 < 2 * d" "2 * d < S" using assms by (simp_all add: d_def)
  have "(col + d) mod S \<noteq> col mod S" "(col + 2 * d) mod S \<noteq> col mod S" "(col + d + d) mod S \<noteq> (col + d) mod S"
    using mod_shift_neq d by blast+
  moreover have "col + d + d = col + 2 * d" by simp
  ultimately show ?thesis unfolding ldpc1_rows_def add.assoc [of col _ 1] d_def [symmetric] by auto
qed

lemma filter_rows: "distinct rs \<Longrightarrow> map snd (filter (\<lambda>e. fst e = r) (map (\<lambda>x. (x, c)) rs)) = (if r \<in> set rs then [c] else [])"
  by (induction rs) auto

lemma filter_concat_rows:
  "(\<And>c. c \<in> set cs \<Longrightarrow> distinct (f c)) \<Longrightarrow>
    map snd (filter (\<lambda>e. fst e = r) (concat (map (\<lambda>c. map (\<lambda>x. (x, c)) (f c)) cs))) = filter (\<lambda>c. r \<in> set (f c)) cs"
proof (induction cs)
  case (Cons c cs)
  then show ?case using filter_rows [of "f c" r c] by simp
qed simp

lemma filter_diag: "map snd (filter (\<lambda>e. fst e = r) (concat (map (\<lambda>d. map (Pair d) (g d)) [0..<n]))) = (if r < n then g r else [])"
  by (induction n) (auto simp: less_Suc_eq comp_def)

lemma ldpc_part:
  assumes ok: "gen_ok P" and A: "A = spmat_new (pL P + ov) (pL P)"
  defines "A' \<equiv> precode_matrix_make_LDPC2 (precode_matrix_make_identity (precode_matrix_make_LDPC1 A (pS P) (pB P)) (pS P) 0 (pB P))
      (pW P) (pS P) (pP P)"
  shows "sp_rows A' = pL P + ov" "sp_cols A' = pL P" "length (idxs A') = pL P + ov"
    "r < pL P + ov \<Longrightarrow> idxs A' ! r = (if r < pS P then ldpc_row P r else [])"
proof -
  let ?S = "pS P" and ?n = "pL P + ov"
  have S: "0 < ?S" "?S \<le> ?n" and d: "distinct (ldpc1_rows ?S col)" if "col < pB P" for col
    using ok that by (auto simp: gen_ok_def params_ok_def intro: ldpc1_distinct)
  have S0: "0 < ?S" "?S \<le> ?n" using ok by (auto simp: gen_ok_def params_ok_def)
  define e1 where "e1 = concat (map (\<lambda>c. map (\<lambda>x. (x, c)) (ldpc1_rows ?S c)) [0..<pB P])"
  define e2 where "e2 = concat (map (\<lambda>d. map (Pair d) [pB P + d]) [0..<?S])"
  define e3 where "e3 = concat (map (\<lambda>d. map (Pair d) [pW P + d mod pP P, pW P + (d + 1) mod pP P]) [0..<?S])"
  have 1: "precode_matrix_make_LDPC1 A ?S (pB P) = pushes e1 A" for A
    unfolding precode_matrix_make_LDPC1_def e1_def by (rule foldl_pushes) (simp add: pushes_def ldpc1_rows_def Let_def)
  have 2: "precode_matrix_make_identity A ?S 0 (pB P) = pushes e2 A" for A
    unfolding precode_matrix_make_identity_def e2_def by (rule foldl_pushes) (simp add: pushes_def)
  have 3: "precode_matrix_make_LDPC2 A (pW P) ?S (pP P) = pushes e3 A" for A
    unfolding precode_matrix_make_LDPC2_def e3_def by (rule foldl_pushes) (simp add: pushes_def Let_def)
  have A': "A' = pushes (e1 @ e2 @ e3) A" unfolding A'_def 1 2 3 by (simp add: pushes_def)
  have small: "fst e < ?S" if "e \<in> set (e1 @ e2 @ e3)" for e
    using that S0 by (auto simp: e1_def e2_def e3_def ldpc1_rows_def)
  then have "\<forall>e \<in> set (e1 @ e2 @ e3). fst e < length (idxs A)"
    using S0(2) by (fastforce simp: A spmat_new_def)
  note sp = pushes_spec [OF this]
  have dd: "\<And>c. c \<in> set [0..<pB P] \<Longrightarrow> distinct (ldpc1_rows ?S c)" using d by simp
  show "sp_rows A' = ?n" "sp_cols A' = pL P" "length (idxs A') = ?n" using sp(1-3) by (simp_all add: A' A spmat_new_def)
  assume r: "r < ?n"
  show "idxs A' ! r = (if r < ?S then ldpc_row P r else [])"
  proof (cases "r < ?S")
    case True
    then show ?thesis
      using sp(4) [where r = r] r filter_concat_rows [where r = r and f = "ldpc1_rows ?S" and cs = "[0..<pB P]", OF dd]
        filter_diag [where r = r and g = "\<lambda>d. [pB P + d]" and n = ?S]
        filter_diag [where r = r and g = "\<lambda>d. [pW P + d mod pP P, pW P + (d + 1) mod pP P]" and n = ?S]
      unfolding A' e1_def [symmetric] e2_def [symmetric] e3_def [symmetric] by (simp add: A spmat_new_def ldpc_row_def)
  next
    case False
    then have "filter (\<lambda>e. fst e = r) (e1 @ e2 @ e3) = []" using small by (auto simp: filter_empty_conv)
    then show ?thesis using sp(4) [where r = r] r False unfolding A' by (simp add: A spmat_new_def)
  qed
qed

lemma ldpc_row_ok:
  assumes "gen_ok P" and "r < pS P"
  shows "distinct (ldpc_row P r)" "set (ldpc_row P r) \<subseteq> {..<pL P}"
proof -
  have P: "3 < pP P" "pS P + pB P = pW P" "pW P + pP P = pL P" using assms(1) by (auto simp: gen_ok_def params_ok_def)
  have "r mod pP P \<noteq> (r + 1) mod pP P" using mod_shift_neq [of 1 "pP P" r] P(1) by simp
  then show "distinct (ldpc_row P r)" using P assms(2) by (auto simp: ldpc_row_def)
  have "r mod pP P < pP P" "(r + 1) mod pP P < pP P" using P(1) by simp_all
  then show "set (ldpc_row P r) \<subseteq> {..<pL P}"
    using P assms(2) unfolding ldpc_row_def by (auto simp del: mod_less_divisor)
qed


subsection \<open>The symbol rows\<close>

text \<open>
  A system of a block: the LDPC rows, and from row \<open>S + H\<close> on the rows of the internal symbol ids
  \<open>ids r\<close>.
\<close>

definition rows_of :: "params \<Rightarrow> nat \<Rightarrow> (nat \<Rightarrow> u32) \<Rightarrow> spmat \<Rightarrow> bool" where
  "rows_of P n ids A \<longleftrightarrow> sp_rows A = n \<and> sp_cols A = pL P \<and> length (idxs A) = n
     \<and> (\<forall>r < pS P + pH P. idxs A ! r = (if r < pS P then ldpc_row P r else []))
     \<and> (\<forall>r. pS P + pH P \<le> r \<and> r < n \<longrightarrow> idxs A ! r = row_columns (ids r) P)"

lemma rows_of_ok:
  assumes ok: "gen_ok P" and r: "rows_of P n ids A" and n: "pL P \<le> n"
  shows "matrix_ok P A"
proof -
  have P: "params_ok P" "pL P = pKprime P + pS P + pH P" using ok by (auto simp: gen_ok_def params_ok_def)
  have row: "distinct (idxs A ! x) \<and> set (idxs A ! x) \<subseteq> {..<pL P}" if x: "x < n" for x
  proof (cases "x < pS P + pH P")
    case True
    then show ?thesis using r ldpc_row_ok [OF ok, of x] by (cases "x < pS P") (auto simp: rows_of_def)
  next
    case False
    then have "idxs A ! x = row_columns (ids x) P" using r x by (simp add: rows_of_def)
    then show ?thesis using row_columns_props(1,2) [OF P(1), of "ids x"] by (simp add: lessThan_atLeast0)
  qed
  then have "sp_ok A" using r by (force simp: sp_ok_def rows_of_def)
  then show ?thesis using P row r n by (auto simp: matrix_ok_def rows_of_def)
qed

lemma fold_push_row:
  "i < length (idxs A) \<Longrightarrow> foldl (\<lambda>A c. spmat_push A i c) A cs = A\<lparr>idxs := (idxs A)[i := idxs A ! i @ cs]\<rparr>"
proof (induction cs rule: rev_induct)
  case (snoc c cs)
  then show ?case by (simp add: spmat_push_def)
qed simp

lemma gen_rows:
  assumes ok: "gen_ok P"
  shows "\<exists>A. precode_matrix_gen P ov = Inr A \<and> sp_rows A = pL P + ov \<and> sp_cols A = pL P \<and> length (idxs A) = pL P + ov
    \<and> (\<forall>r < pL P + ov. idxs A ! r = (if r < pS P then ldpc_row P r else if pS P + pH P \<le> r \<and> r < pL P
          then row_columns (of_nat (r - pS P - pH P)) P else []))"
proof -
  let ?n = "pL P + ov" and ?h = "pS P + pH P"
  have P: "params_ok P" "?h \<le> pL P" using ok by (auto simp: gen_ok_def params_ok_def)
  define A0 where "A0 = precode_matrix_make_LDPC2 (precode_matrix_make_identity
      (precode_matrix_make_LDPC1 (spmat_new ?n (pL P)) (pS P) (pB P)) (pS P) 0 (pB P)) (pW P) (pS P) (pP P)"
  note ld = ldpc_part [where ov = ov, OF ok refl, folded A0_def]
  let ?f = "\<lambda>A row. rbind (of_opt Diverges (params_set_idxs (of_nat (row - pS P - pH P)) P)) (\<lambda>cs. Inr (foldl (\<lambda>A c. spmat_push A row c) A cs))"
  define I where "I = (\<lambda>m (A :: spmat). sp_rows A = ?n \<and> sp_cols A = pL P \<and> length (idxs A) = ?n
     \<and> (\<forall>r < ?n. idxs A ! r = (if r < pS P then ldpc_row P r else if ?h \<le> r \<and> r < ?h + m
          then row_columns (of_nat (r - pS P - pH P)) P else [])))"
  have "\<exists>A. rfold ?f A0 [?h..<pL P] = Inr A \<and> I (length [?h..<pL P]) A"
  proof (rule rfold_total)
    show "I 0 A0" using ld P(2) by (auto simp: I_def)
    fix m A assume m: "m < length [?h..<pL P]" and I: "I m A"
    let ?cs = "row_columns (of_nat (?h + m - pS P - pH P)) P"
    have len: "?h + m < length (idxs A)" and emp: "idxs A ! (?h + m) = []" using m I by (auto simp: I_def)
    have "?f A ([?h..<pL P] ! m) = Inr (A\<lparr>idxs := (idxs A)[?h + m := ?cs]\<rparr>)"
      using m fold_push_row [OF len, of ?cs] emp by (simp add: params_set_idxs_columns [OF P(1)])
    moreover have "I (Suc m) (A\<lparr>idxs := (idxs A)[?h + m := ?cs]\<rparr>)"
      using I len unfolding I_def by (auto simp: nth_list_update less_Suc_eq)
    ultimately show "\<exists>A'. ?f A ([?h..<pL P] ! m) = Inr A' \<and> I (Suc m) A'" by blast
  qed
  then obtain A where "rfold ?f A0 [?h..<pL P] = Inr A" "I (pL P - ?h) A" by auto
  moreover have "precode_matrix_gen P ov = rfold ?f A0 [?h..<pL P]"
    unfolding precode_matrix_gen_def precode_matrix_make_G_ENC_def Let_def A0_def ..
  ultimately show ?thesis using P(2) unfolding I_def by auto
qed

subsection \<open>Every block size\<close>

definition ldpc_numbers :: "nat \<times> nat \<times> nat \<Rightarrow> bool" where
  "ldpc_numbers r = (case r of (s, h, w) \<Rightarrow> 1 < h \<and> s mod 2 = 1 \<and> s < w \<and> w < 65536 \<and> 2 * w \<le> s * (s + 1))"

lemma rows_ldpc_numbers: "list_all ldpc_numbers S_H_W"
  by (simp add: S_H_W_def ldpc_numbers_def)

lemma ldpc_shift: "odd s \<Longrightarrow> 2 * b \<le> s * (s - 1) \<Longrightarrow> c < b \<Longrightarrow> 2 * (c div s + 1) < (s :: nat)"
proof -
  assume s: "odd s" and b: "2 * b \<le> s * (s - 1)" "c < b"
  from s obtain k where k: "s = 2 * k + 1" by (auto elim: oddE)
  have "2 * c < s * (2 * k)" using b unfolding k by simp
  then have "c < k * s" by (simp add: algebra_simps)
  then have "c div s < k" using k by (simp add: less_mult_imp_div_less)
  then show ?thesis using k by simp
qed

lemma row_gen_ok:
  assumes "r \<in> set params_rows"
  shows "gen_ok (params_of_row r)"
proof -
  obtain kp j s h w where r: "r = (kp, j, s, h, w)" by (metis prod_cases5)
  have "ldpc_numbers (s, h, w)"
    using rows_ldpc_numbers assms by (auto simp: r params_rows_def list_all_iff dest!: set_zip_rightD)
  then have c: "1 < h" "odd s" "s < w" "w < 65536" "2 * w \<le> s * (s + 1)"
    by (simp_all add: ldpc_numbers_def odd_iff_mod_2_eq_one)
  then have c5: "2 * (w - s) \<le> s * (s - 1)" by (cases s) simp_all
  have "w + 65536 - s = (w - s) + 65536" using c(3) by simp
  then have b: "(w + 65536 - s) mod 65536 = w - s" using c(4) by (simp only: mod_add_self2) simp
  have "pB (params_of_row r) = w - s" "pS (params_of_row r) = s" "pH (params_of_row r) = h"
    using b by (simp_all add: r params_of_row_def Let_def)
  then show ?thesis
    using rows_params_ok [OF assms] c ldpc_shift [OF c(2) c5] odd_pos [OF c(2)] by (simp add: gen_ok_def)
qed

lemma params_init_gen:
  assumes "K \<le> K_max" and "params_init K = Inr P"
  shows "gen_ok P"
  using params_init_row [OF assms(1)] row_gen_ok assms(2) by (metis Inr_inject)

end
