(* ===== verification/Coded.thy ===== *)
theory Coded
  imports Coding Precode_Gen
begin

section \<open>Coded symbols\<close>

text \<open>
  The specification of the code: the intermediate symbols \<open>C\<close> of a block are those on which the LDPC and
  the dense rows vanish and the row of every internal symbol id below \<open>K'\<close> gives the source symbol
  (\<open>intermediate_of\<close>); the coded symbol of an id is the sum of the intermediate symbols its row names
  (\<open>coded\<close>). \<open>decode_row\<close> computes \<open>coded\<close>, a received symbol is one equation, and a system of such
  rows has the intermediate symbols as its solution.
\<close>

definition coded :: "params \<Rightarrow> mat \<Rightarrow> u32 \<Rightarrow> nat \<Rightarrow> u8" where
  "coded P C X x = xsum (\<lambda>c. if c \<in> set (row_columns X P) then C c x else 0) (pL P)"

definition coded_symbol :: "params \<Rightarrow> mat \<Rightarrow> u32 \<Rightarrow> nat \<Rightarrow> bytes" where
  "coded_symbol P C X k = map (coded P C X) [0..<k]"

text \<open>The rows of the system above the symbol rows.\<close>

definition head_row :: "params \<Rightarrow> nat \<Rightarrow> nat \<Rightarrow> u8" where
  "head_row P r c = (if r < pS P then (if c \<in> set (ldpc_row P r) then 1 else 0) else hdpc_entry P (r - pS P) c)"

definition intermediate_of :: "params \<Rightarrow> nat \<Rightarrow> (nat \<Rightarrow> bytes) \<Rightarrow> mat \<Rightarrow> bool" where
  "intermediate_of P k src C \<longleftrightarrow> (\<forall>x < k.
     (\<forall>r < pS P + pH P. xsum (\<lambda>c. gf_mul (head_row P r c) (C c x)) (pL P) = 0)
     \<and> (\<forall>i < pKprime P. coded P C (of_nat i) x = src i ! x))"

subsection \<open>\<open>decode_row\<close>\<close>

lemma xsum_insert:
  assumes "a \<notin> S" and "a < n"
  shows "xsum (\<lambda>c. if c \<in> insert a S then f c else 0) n = f a XOR xsum (\<lambda>c. if c \<in> S then f c else 0) n"
proof -
  have "(\<lambda>c. if c \<in> insert a S then f c else 0) = (\<lambda>c. (if c = a then f c else 0) XOR (if c \<in> S then f c else 0))"
    using assms(1) by auto
  then have "xsum (\<lambda>c. if c \<in> insert a S then f c else 0) n
    = xsum (\<lambda>c. if c = a then f c else 0) n XOR xsum (\<lambda>c. if c \<in> S then f c else 0) n" by (simp only: xsum_xor)
  moreover have "xsum (\<lambda>c. if c = a then f c else 0) n = f a" using xsum_single [OF assms(2), of "\<lambda>c. if c = a then f c else 0"] by simp
  ultimately show ?thesis by simp
qed

lemma apply_rows:
  assumes D: "is_mat n k D" and cs: "distinct cs" "set cs \<subseteq> {..<l}" and l: "l \<le> n"
  shows "length a = k \<Longrightarrow> rfold (apply_row D) a cs = Inr (map (\<lambda>x. a ! x XOR xsum (\<lambda>c. if c \<in> set cs then D ! c ! x else 0) l) [0..<k])"
  using cs
proof (induction cs arbitrary: a)
  case Nil
  have "xsum (\<lambda>c. 0) l = 0" by (rule xsum_0) simp
  then show ?case using Nil.prems(1) by (simp add: list_eq_iff_nth_eq)
next
  case (Cons c cs)
  let ?b = "map (\<lambda>x. a ! x XOR D ! c ! x) [0..<k]"
  have c: "c < n" "c < l" "c \<notin> set cs" using Cons.prems(2,3) l by auto
  have "apply_row D a c = Inr ?b" using c(1) is_matD(1) [OF D] Cons.prems(1) by (simp add: apply_row_def)
  moreover have "rfold (apply_row D) ?b cs = Inr (map (\<lambda>x. ?b ! x XOR xsum (\<lambda>c. if c \<in> set cs then D ! c ! x else 0) l) [0..<k])"
    using Cons.prems by (intro Cons.IH) auto
  moreover have "xsum (\<lambda>d. if d \<in> set (c # cs) then D ! d ! x else 0) l = D ! c ! x XOR xsum (\<lambda>c. if c \<in> set cs then D ! c ! x else 0) l" for x
    using xsum_insert [OF c(3,2), of "\<lambda>c. D ! c ! x"] by simp
  ultimately show ?case by (simp add: xor.assoc)
qed

lemma lt_rows_walk: "lt_rows P D a b n ptr = rfold (apply_row D) ptr (lt_walk P a b n)"
  by (induction n arbitrary: b ptr) (simp_all add: Let_def rbind_def split: sum.split)

lemma pi_rows_walk: "pi_walk P a1 b1 n = Some cs \<Longrightarrow> pi_rows P D a1 b1 n ptr = rfold (apply_row D) ptr cs"
  by (induction n arbitrary: b1 ptr cs) (auto simp: rbind_def split: option.splits sum.split)

lemma decode_row_fold:
  assumes "params_ok P"
  shows "decode_row P D X k = rfold (apply_row D) (replicate k 0) (row_columns X P)"
proof -
  let ?t = "gen_tuple X P"
  from params_set_idxs_columns [OF assms, of X] obtain b1 cs where
    b1: "skip_pi P (t_a1 ?t) (t_b1 ?t) = Some b1" and cs: "pi_walk P (t_a1 ?t) b1 (t_d1 ?t - 1) = Some cs"
    and row: "row_columns X P = t_b ?t # lt_walk P (t_a ?t) (t_b ?t) (t_d ?t - 1) @ (pW P + b1) # cs"
    by (auto simp: params_set_idxs_def Let_def split: option.splits)
  show ?thesis
    unfolding decode_row_def Let_def b1 row lt_rows_walk option.case
    by (simp add: rfold_append pi_rows_walk [OF cs, simplified] rbind_def split: sum.split)
qed

lemma decode_row_coded:
  assumes "params_ok P" and "is_mat n k D" and "pL P \<le> n" and "\<And>c x. c < pL P \<Longrightarrow> x < k \<Longrightarrow> D ! c ! x = C c x"
  shows "decode_row P D X k = Inr (coded_symbol P C X k)"
proof -
  note rc = row_columns_props(1,2) [OF assms(1), of X]
  have "rfold (apply_row D) (replicate k 0) (row_columns X P)
    = Inr (map (\<lambda>x. replicate k 0 ! x XOR xsum (\<lambda>c. if c \<in> set (row_columns X P) then D ! c ! x else 0) (pL P)) [0..<k])"
    using rc by (intro apply_rows [OF assms(2) _ _ assms(3)]) (auto simp: lessThan_atLeast0)
  moreover have "xsum (\<lambda>c. if c \<in> set (row_columns X P) then D ! c ! x else 0) (pL P) = coded P C X x" if "x < k" for x
    unfolding coded_def using assms(4) that by (intro xsum_cong) simp
  ultimately show ?thesis unfolding decode_row_fold [OF assms(1)] coded_symbol_def by simp
qed

subsection \<open>The system of a block\<close>

lemma gf_mul_bit: "gf_mul (if b then 1 else 0) v = (if b then v else 0)"
  by simp

lemma sysmat_head:
  assumes "rows_of P n ids A" and "r < pS P + pH P"
  shows "sysmat P A r = head_row P r"
  using assms by (auto simp: sysmat_def head_row_def rows_of_def fun_eq_iff)

lemma sysmat_symbol:
  assumes "rows_of P n ids A" and "pS P + pH P \<le> r" and "r < n"
  shows "xsum (\<lambda>c. gf_mul (sysmat P A r c) (C c x)) (pL P) = coded P C (ids r) x"
proof -
  have "sysmat P A r c = (if c \<in> set (row_columns (ids r) P) then 1 else 0)" for c
    using assms by (simp add: sysmat_def rows_of_def)
  then show ?thesis unfolding coded_def by (intro xsum_cong) (simp add: gf_mul_bit)
qed

lemma solves_rows:
  assumes r: "rows_of P n ids A" and h: "pS P + pH P \<le> n"
  shows "solves n (pL P) k (sysmat P A) C D \<longleftrightarrow> (\<forall>x < k.
     (\<forall>r < pS P + pH P. D r x = xsum (\<lambda>c. gf_mul (head_row P r c) (C c x)) (pL P))
     \<and> (\<forall>r. pS P + pH P \<le> r \<and> r < n \<longrightarrow> D r x = coded P C (ids r) x))" (is "_ \<longleftrightarrow> ?rhs")
proof -
  have "(\<forall>r < n. \<forall>x < k. D r x = xsum (\<lambda>c. gf_mul (sysmat P A r c) (C c x)) (pL P)) \<longleftrightarrow> ?rhs"
  proof
    assume a: "\<forall>r < n. \<forall>x < k. D r x = xsum (\<lambda>c. gf_mul (sysmat P A r c) (C c x)) (pL P)"
    have "D r x = xsum (\<lambda>c. gf_mul (head_row P r c) (C c x)) (pL P)" if "x < k" "r < pS P + pH P" for x r
      using a that h sysmat_head [OF r that(2)] by simp
    moreover have "D r' x = coded P C (ids r') x" if "x < k" "pS P + pH P \<le> r'" "r' < n" for x r'
      using a that sysmat_symbol [OF r that(2,3)] by simp
    ultimately show ?rhs by blast
  next
    assume a: ?rhs
    have "D r' x = xsum (\<lambda>c. gf_mul (sysmat P A r' c) (C c x)) (pL P)" if "x < k" "r' < n" for r' x
      using a that sysmat_head [OF r, of r'] sysmat_symbol [OF r _ that(2)] by (cases "r' < pS P + pH P") auto
    then show "\<forall>r < n. \<forall>x < k. D r x = xsum (\<lambda>c. gf_mul (sysmat P A r c) (C c x)) (pL P)" by blast
  qed
  then show ?thesis unfolding solves_def .
qed

subsection \<open>Solutions exist when the schedule does\<close>

lemma gf_mul_cancel_left: "b \<noteq> 0 \<Longrightarrow> gf_mul b v = gf_mul b w \<Longrightarrow> v = w"
proof -
  assume b: "b \<noteq> 0" and e: "gf_mul b v = gf_mul b w"
  have "gf_mul b (v XOR w) = 0" using e by (simp add: gf_mul_xor_right)
  then have "v XOR w = 0" using b gf_mul_eq_0_iff by blast
  then show "v = w" by (simp only: xor_eq_zero_iff)
qed

lemma xor_right_cancel: "a XOR c = b XOR c \<longleftrightarrow> a = (b :: u8)"
  by (metis xor.assoc xor_self_eq xor.right_neutral)

lemma solves_row_op_back:
  assumes s: "solves n l k (row_op M op) C (row_op D op)" and op: "op_ok n op"
  shows "solves n l k M C D"
  unfolding solves_def
proof (intro allI impI)
  fix r x assume r: "r < n" and x: "x < k"
  have D: "row_op D op r x = xsum (\<lambda>c. gf_mul (row_op M op r c) (C c x)) l" if "r < n" for r
    using s that x by (simp add: solves_def)
  have other: "D r x = xsum (\<lambda>c. gf_mul (M r c) (C c x)) l" if "r < n" "r \<noteq> op_i op" for r
    using D [OF that(1)] that(2) by (simp add: row_op_other)
  show "D r x = xsum (\<lambda>c. gf_mul (M r c) (C c x)) l"
  proof (cases "r = op_i op")
    case False
    then show ?thesis using other r by blast
  next
    case i: True
    show ?thesis
    proof (cases "op_beta op = 0")
      case True
      have "gf_mul (of_nat (op_j op)) (D r x) = gf_mul (of_nat (op_j op)) (xsum (\<lambda>c. gf_mul (M r c) (C c x)) l)"
        using D [OF r] i True by (simp add: row_op_def gf_mul_assoc xsum_mul)
      then show ?thesis using gf_mul_cancel_left op True by (auto simp: op_ok_def)
    next
      case False
      then have j: "op_j op < n" "op_j op \<noteq> op_i op" using op by (auto simp: op_ok_def)
      have "D r x XOR gf_mul (op_beta op) (D (op_j op) x)
        = xsum (\<lambda>c. gf_mul (M r c) (C c x)) l XOR gf_mul (op_beta op) (xsum (\<lambda>c. gf_mul (M (op_j op) c) (C c x)) l)"
        using D [OF r] i False by (simp add: row_op_def gf_mul_xor_left gf_mul_assoc xsum_xor xsum_mul)
      then show ?thesis unfolding other [OF j] by (simp only: xor_right_cancel)
    qed
  qed
qed

lemma solves_run_back:
  "solves n l k (run ops M) C (run ops D) \<Longrightarrow> (\<And>op. op \<in> set ops \<Longrightarrow> op_ok n op) \<Longrightarrow> solves n l k M C D"
proof (induction ops arbitrary: M D)
  case (Cons op ops)
  have "solves n l k (row_op M op) C (row_op D op)"
  proof (rule Cons.IH)
    show "solves n l k (run ops (row_op M op)) C (run ops (row_op D op))" using Cons.prems(1) by simp
    show "op_ok n x" if "x \<in> set ops" for x using Cons.prems(2) [of x] that by simp
  qed
  then show ?case using solves_row_op_back Cons.prems(2) by simp
qed simp

lemma solution_exists:
  assumes s: "solution_schedule P A S ops1 rest ops3" and n: "sp_rows A = pL P"
  shows "\<exists>C. solves (pL P) (pL P) k (sysmat P A) C D"
proof -
  let ?ops = "ops1 @ rest @ rev ops1 @ ops3 @ ops1"
  have perms: "perms_ok P A S" and ok: "\<And>op. op \<in> set ?ops \<Longrightarrow> op_ok (pL P) op"
    and id: "\<And>p q. p < pL P \<Longrightarrow> q < pL P \<Longrightarrow> run ?ops (sysmat P A) (s_d S ! p) (s_c S ! q) = (if p = q then 1 else 0)"
    using s n by (auto simp: solution_schedule_def)
  note d = perm_pairD [OF perms_okD(1) [OF perms]] and c = perm_pairD [OF perms_okD(2) [OF perms]]
  define C where "C = (\<lambda>c x. run ?ops D (s_d S ! (s_ci S ! c)) x)"
  have "run ?ops D r x = xsum (\<lambda>c. gf_mul (run ?ops (sysmat P A) r c) (C c x)) (pL P)" if r: "r < pL P" for r x
  proof -
    define p where "p = s_di S ! r"
    have p: "p < pL P" "s_d S ! p = r" using d(4,6) r n by (simp_all add: p_def)
    have "xsum (\<lambda>c. gf_mul (run ?ops (sysmat P A) r c) (C c x)) (pL P) = gf_mul (run ?ops (sysmat P A) r (s_c S ! p)) (C (s_c S ! p) x)"
    proof (rule xsum_single)
      show "s_c S ! p < pL P" using c(3) p(1) by simp
      fix q assume q: "q < pL P" "q \<noteq> s_c S ! p"
      then have "s_ci S ! q < pL P" "s_c S ! (s_ci S ! q) = q" using c(4,6) by simp_all
      then show "gf_mul (run ?ops (sysmat P A) r q) (C q x) = 0" using id [OF p(1), of "s_ci S ! q"] q(2) p(2) by auto
    qed
    also have "\<dots> = run ?ops D r x"
      using id [OF p(1) p(1)] p c(5) [OF p(1)] unfolding C_def by (simp del: run_simps)
    finally show ?thesis by simp
  qed
  then have "solves (pL P) (pL P) k (run ?ops (sysmat P A)) C (run ?ops D)" by (simp add: solves_def del: run_simps)
  from solves_run_back [OF this ok] show ?thesis by blast
qed

end
