(* ===== verification/Repair_Rows.thy ===== *)
theory Repair_Rows
  imports Coded
begin

section \<open>The system of a block with lost symbols\<close>

text \<open>
  \<open>patch_precode_matrix\<close> and \<open>fill_symbol_matrix_gaps\<close> walk the missing symbols in the same order: the
  \<open>j\<close>-th kept repair symbol takes the row of the \<open>j\<close>-th missing symbol, and those left over take the rows
  after the last. Each row of the patched matrix with the matching row of the symbol matrix is then an
  equation the intermediate symbols satisfy (\<open>patched_system\<close>).
\<close>

definition missing_ids :: "bitmask \<Rightarrow> nat \<Rightarrow> nat list" where
  "missing_ids msk k = filter (\<lambda>g. g \<notin> mask_set msk) [0..<k]"

lemma missing_ids [simp]: "distinct (missing_ids msk k)" "g \<in> set (missing_ids msk k) \<longleftrightarrow> g < k \<and> g \<notin> mask_set msk"
  by (auto simp: missing_ids_def)

lemma bitmask_gaps_missing: "k \<le> mask_cap msk \<Longrightarrow> bitmask_gaps msk k = Inr (length (missing_ids msk k))"
proof -
  assume k: "k \<le> mask_cap msk"
  have "set (missing_ids msk k) = {0..<k} - mask_set msk" by auto
  then have "length (missing_ids msk k) = card ({0..<k} - mask_set msk)" using distinct_card [of "missing_ids msk k"] by simp
  then show ?thesis using mask.gaps_ok [OF k] by simp
qed

subsection \<open>Both walks are loops over the same rows\<close>

lemma patch_gaps_fold:
  "patch_gaps P pad msk bin gs n (A, idx)
     = rfold (patch_row P pad bin) (A, idx) (map (\<lambda>g. g + pH P + pS P) (take n (filter (\<lambda>g. g \<notin> mask_set msk) gs)))"
proof (induction gs arbitrary: n A idx)
  case (Cons g gs)
  have "patch_gaps P pad msk bin gs n s = rfold (patch_row P pad bin) s (map (\<lambda>g. g + pH P + pS P) (take n (filter (\<lambda>g. g \<notin> mask_set msk) gs)))"
    for n s using Cons.IH [of n "fst s" "snd s"] by simp
  then show ?case by (cases n) (auto simp: rbind_def split: sum.split)
qed simp

lemma fill_row_idx: "fill_row bin (D, idx) r = Inr (D', idx') \<Longrightarrow> idx' = idx + 1"
  by (auto simp: fill_row_def split: if_splits)

lemma fill_gaps_fold:
  "fill_gaps skip msk bin gs (D, idx)
     = rfold (fill_row bin) (D, idx) (map (\<lambda>g. skip + g) (take (length bin - idx) (filter (\<lambda>g. g \<notin> mask_set msk) gs)))"
proof (induction gs arbitrary: D idx)
  case (Cons g gs)
  show ?case
  proof (cases "length bin \<le> idx \<or> g \<in> mask_set msk")
    case True
    then show ?thesis using Cons.IH by auto
  next
    case False
    then have "idx < length bin" by simp
    then have "length bin - idx = Suc (length bin - (idx + 1))" by linarith
    with False show ?thesis using Cons.IH by (cases "fill_row bin (D, idx) (skip + g)") (auto dest: fill_row_idx)
  qed
qed simp

subsection \<open>What a loop over rows does\<close>

text \<open>Row \<open>r\<close> is taken by the repair symbol of this index, if any.\<close>

definition taken :: "nat list \<Rightarrow> nat \<Rightarrow> nat \<Rightarrow> nat option" where
  "taken rs idx r = map_of (zip rs [idx..<idx + length rs]) r"

lemma taken_simps [simp]:
  "taken [] idx r = None"
  "taken (x # rs) idx r = (if r = x then Some idx else taken rs (idx + 1) r)"
  by (simp_all add: taken_def upt_conv_Cons del: upt_Suc)

lemma taken_None: "taken rs idx r = None \<longleftrightarrow> r \<notin> set rs"
  by (induction rs arbitrary: idx) auto

lemma taken_Some: "taken rs idx r = Some j \<Longrightarrow> idx \<le> j \<and> j < idx + length rs \<and> r = rs ! (j - idx)"
proof (induction rs arbitrary: idx)
  case (Cons x rs)
  then show ?case by (cases "r = x") (force simp: nth_Cons' split: if_splits)+
qed simp

lemma patch_row_ok:
  assumes "params_ok P" and "idx < length bin" and "r < length (idxs A)"
  shows "patch_row P pad bin (A, idx) r = Inr (A\<lparr>idxs := (idxs A)[r := row_columns (of_nat (fst (bin ! idx) + pad)) P]\<rparr>, idx + 1)"
  using assms fold_push_row [of r "spmat_clear_row A r"]
  by (simp add: patch_row_def params_set_idxs_columns [OF assms(1)] spmat_clear_row_def)

lemma patch_rows_spec:
  assumes P: "params_ok P"
  shows "distinct rs \<Longrightarrow> idx + length rs \<le> length bin \<Longrightarrow> \<forall>r \<in> set rs. r < length (idxs A) \<Longrightarrow>
    \<exists>A'. rfold (patch_row P pad bin) (A, idx) rs = Inr (A', idx + length rs) \<and> sp_rows A' = sp_rows A \<and> sp_cols A' = sp_cols A
      \<and> length (idxs A') = length (idxs A)
      \<and> (\<forall>r < length (idxs A). idxs A' ! r = (case taken rs idx r of None \<Rightarrow> idxs A ! r
            | Some j \<Rightarrow> row_columns (of_nat (fst (bin ! j) + pad)) P))"
proof (induction rs arbitrary: A idx)
  case (Cons x rs)
  let ?A = "A\<lparr>idxs := (idxs A)[x := row_columns (of_nat (fst (bin ! idx) + pad)) P]\<rparr>"
  have x: "idx < length bin" "x < length (idxs A)" "x \<notin> set rs" using Cons.prems by auto
  have "\<exists>A'. rfold (patch_row P pad bin) (?A, idx + 1) rs = Inr (A', idx + 1 + length rs) \<and> sp_rows A' = sp_rows ?A \<and> sp_cols A' = sp_cols ?A
      \<and> length (idxs A') = length (idxs ?A)
      \<and> (\<forall>r < length (idxs ?A). idxs A' ! r = (case taken rs (idx + 1) r of None \<Rightarrow> idxs ?A ! r
            | Some j \<Rightarrow> row_columns (of_nat (fst (bin ! j) + pad)) P))"
    using Cons.prems by (intro Cons.IH) auto
  then obtain A' where A': "rfold (patch_row P pad bin) (?A, idx + 1) rs = Inr (A', idx + 1 + length rs)"
    "sp_rows A' = sp_rows A" "sp_cols A' = sp_cols A" "length (idxs A') = length (idxs A)"
    "\<forall>r < length (idxs A). idxs A' ! r = (case taken rs (idx + 1) r of None \<Rightarrow> idxs ?A ! r | Some j \<Rightarrow> row_columns (of_nat (fst (bin ! j) + pad)) P)"
    by auto
  have "taken rs (idx + 1) x = None" using x(3) by (simp add: taken_None)
  then have "idxs A' ! r = (case taken (x # rs) idx r of None \<Rightarrow> idxs A ! r | Some j \<Rightarrow> row_columns (of_nat (fst (bin ! j) + pad)) P)"
    if "r < length (idxs A)" for r using A'(5) that x(2) by (auto split: option.splits)
  then show ?case using A'(1-4) patch_row_ok [OF P x(1,2), of pad] by (intro exI [of _ A']) simp
qed simp

lemma fill_rows_spec:
  "distinct rs \<Longrightarrow> idx + length rs \<le> length bin \<Longrightarrow> \<forall>r \<in> set rs. r < length D \<Longrightarrow>
    \<exists>D'. rfold (fill_row bin) (D, idx) rs = Inr (D', idx + length rs) \<and> length D' = length D
      \<and> (\<forall>r < length D. D' ! r = (case taken rs idx r of None \<Rightarrow> D ! r | Some j \<Rightarrow> snd (bin ! j)))"
proof (induction rs arbitrary: D idx)
  case (Cons x rs)
  let ?D = "D[x := snd (bin ! idx)]"
  have x: "idx < length bin" "x < length D" "x \<notin> set rs" using Cons.prems by auto
  have "\<exists>D'. rfold (fill_row bin) (?D, idx + 1) rs = Inr (D', idx + 1 + length rs) \<and> length D' = length ?D
      \<and> (\<forall>r < length ?D. D' ! r = (case taken rs (idx + 1) r of None \<Rightarrow> ?D ! r | Some j \<Rightarrow> snd (bin ! j)))"
    using Cons.prems by (intro Cons.IH) auto
  then obtain D' where D': "rfold (fill_row bin) (?D, idx + 1) rs = Inr (D', idx + 1 + length rs)" "length D' = length D"
    "\<forall>r < length D. D' ! r = (case taken rs (idx + 1) r of None \<Rightarrow> ?D ! r | Some j \<Rightarrow> snd (bin ! j))" by auto
  have "taken rs (idx + 1) x = None" using x(3) by (simp add: taken_None)
  then have "D' ! r = (case taken (x # rs) idx r of None \<Rightarrow> D ! r | Some j \<Rightarrow> snd (bin ! j))" if "r < length D" for r
    using D'(3) that x(2) by (auto split: option.splits)
  then show ?case using D'(1,2) x(1,2) by (intro exI [of _ D']) (simp add: fill_row_def)
qed simp


subsection \<open>The patched system\<close>

definition repaired_rows :: "params \<Rightarrow> nat \<Rightarrow> bitmask \<Rightarrow> nat \<Rightarrow> nat list" where
  "repaired_rows P k msk nrep =
     map (\<lambda>g. pS P + pH P + g) (missing_ids msk k) @ [pL P..<pL P + (nrep - length (missing_ids msk k))]"

definition row_id :: "params \<Rightarrow> nat \<Rightarrow> bitmask \<Rightarrow> (nat \<times> bytes) list \<Rightarrow> nat \<Rightarrow> u32" where
  "row_id P k msk bin r = (case taken (repaired_rows P k msk (length bin)) 0 r of
     None \<Rightarrow> of_nat (r - (pS P + pH P)) | Some j \<Rightarrow> of_nat (fst (bin ! j) + (pKprime P - k)))"

lemma repaired_rows_props:
  assumes "params_ok P" and "k \<le> pKprime P" and "length (missing_ids msk k) \<le> length bin"
  shows "distinct (repaired_rows P k msk (length bin))" "length (repaired_rows P k msk (length bin)) = length bin"
    "r \<in> set (repaired_rows P k msk (length bin)) \<Longrightarrow> pS P + pH P \<le> r \<and> r < pL P + (length bin - length (missing_ids msk k))"
proof -
  have L: "pS P + pH P + k \<le> pL P" using assms(1,2) by (simp add: params_ok_def)
  then show "distinct (repaired_rows P k msk (length bin))"
    by (auto simp: repaired_rows_def distinct_map inj_on_def)
  show "length (repaired_rows P k msk (length bin)) = length bin" using assms(3) by (simp add: repaired_rows_def)
  show "pS P + pH P \<le> r \<and> r < pL P + (length bin - length (missing_ids msk k))" if "r \<in> set (repaired_rows P k msk (length bin))"
    using that L by (auto simp: repaired_rows_def)
qed

lemma patched_matrix:
  assumes ok: "gen_ok P" and k: "k \<le> pKprime P" and n: "length (missing_ids msk k) \<le> length bin"
  defines "ov \<equiv> length bin - length (missing_ids msk k)"
  shows "\<exists>A0 A. precode_matrix_gen P ov = Inr A0
    \<and> patch_precode_matrix P A0 k (length (missing_ids msk k)) msk bin = Inr A \<and> rows_of P (pL P + ov) (row_id P k msk bin) A"
proof -
  let ?ng = "length (missing_ids msk k)" and ?rs = "repaired_rows P k msk (length bin)" and ?pad = "pKprime P - k"
  have P: "params_ok P" using ok by (simp add: gen_ok_def)
  then have L: "k \<le> pL P" "pS P + pH P \<le> pL P" "pS P \<le> pS P + pH P" using k by (auto simp: params_ok_def)
  from gen_rows [OF ok, of ov] obtain A0 where A0: "precode_matrix_gen P ov = Inr A0" "sp_rows A0 = pL P + ov" "sp_cols A0 = pL P"
    "length (idxs A0) = pL P + ov" "\<forall>r < pL P + ov. idxs A0 ! r = (if r < pS P then ldpc_row P r else if pS P + pH P \<le> r \<and> r < pL P
          then row_columns (of_nat (r - pS P - pH P)) P else [])" by blast
  note R = repaired_rows_props [OF P k n]
  have "[0..<pL P] = [0..<k] @ [k..<pL P]" using L(1) upt_add_eq_append [of 0 k "pL P - k"] by simp
  then have gaps: "take ?ng (filter (\<lambda>g. g \<notin> mask_set msk) [0..<pL P]) = missing_ids msk k" by (simp add: missing_ids_def)
  have rows: "?rs = map (\<lambda>g. g + pH P + pS P) (missing_ids msk k) @ [pL P..<sp_rows A0]"
    by (simp add: repaired_rows_def A0(2) ov_def add_ac)
  from patch_rows_spec [OF P R(1), of 0 bin A0 ?pad] R(2,3) A0(4) obtain A where
    A: "rfold (patch_row P ?pad bin) (A0, 0) ?rs = Inr (A, length bin)" "sp_rows A = sp_rows A0" "sp_cols A = sp_cols A0"
      "length (idxs A) = length (idxs A0)"
      "\<forall>r < length (idxs A0). idxs A ! r = (case taken ?rs 0 r of None \<Rightarrow> idxs A0 ! r | Some j \<Rightarrow> row_columns (of_nat (fst (bin ! j) + ?pad)) P)"
    by (auto simp: ov_def)
  let ?gs = "map (\<lambda>g. g + pH P + pS P) (missing_ids msk k)"
  have "distinct ?gs" "?ng \<le> length bin" using R(1) n unfolding rows by simp_all
  moreover have "r < length (idxs A0)" if "r \<in> set ?gs" for r
    using R(3) [of r] that A0(4) unfolding rows ov_def by simp
  ultimately obtain A1 where A1: "rfold (patch_row P ?pad bin) (A0, 0) ?gs = Inr (A1, ?ng)" "sp_rows A1 = sp_rows A0"
    using patch_rows_spec [OF P, of ?gs 0 bin A0 ?pad] by auto
  have "rfold (patch_row P ?pad bin) (A1, ?ng) [pL P..<sp_rows A0] = Inr (A, length bin)"
    using A(1) A1(1) unfolding rows rfold_append by simp
  then have "patch_precode_matrix P A0 k ?ng msk bin = Inr A"
    using A1 unfolding patch_precode_matrix_def Let_def patch_gaps_fold gaps by simp
  moreover have "rows_of P (pL P + ov) (row_id P k msk bin) A"
    unfolding rows_of_def
  proof (intro conjI allI impI)
    show "sp_rows A = pL P + ov" "sp_cols A = pL P" "length (idxs A) = pL P + ov" using A(2-4) A0(2-4) by simp_all
    fix r assume r: "r < pS P + pH P"
    then have "taken ?rs 0 r = None" using R(3) [of r] by (auto simp: taken_None)
    moreover have "r < pL P + ov" using r L by simp
    ultimately show "idxs A ! r = (if r < pS P then ldpc_row P r else [])" using A(5) A0(4,5) r by auto
  next
    fix r assume r: "pS P + pH P \<le> r \<and> r < pL P + ov"
    show "idxs A ! r = row_columns (row_id P k msk bin r) P"
    proof (cases "taken ?rs 0 r")
      case (Some j)
      then show ?thesis using A(5) A0(4) r by (simp add: row_id_def)
    next
      case None
      then have "r \<notin> {pL P..<pL P + ov}" using taken_None [of ?rs 0 r] by (simp add: repaired_rows_def ov_def)
      then have "r < pL P" using r by auto
      then show ?thesis using A(5) A0(4,5) r None by (simp add: row_id_def)
    qed
  qed
  ultimately show ?thesis using A0(1) by blast
qed

lemma filled_matrix:
  assumes P: "params_ok P" and k: "k \<le> pKprime P" and n: "length (missing_ids msk k) \<le> length bin"
    and D: "pL P + (length bin - length (missing_ids msk k)) \<le> length D"
  shows "\<exists>D'. fill_symbol_matrix_gaps P D k msk bin = Inr D' \<and> length D' = length D
    \<and> (\<forall>r < length D. D' ! r = (case taken (repaired_rows P k msk (length bin)) 0 r of None \<Rightarrow> D ! r | Some j \<Rightarrow> snd (bin ! j)))"
proof -
  let ?rs = "repaired_rows P k msk (length bin)"
  let ?gs = "map (\<lambda>g. pS P + pH P + g) (missing_ids msk k)"
  note R = repaired_rows_props [OF P k n]
  have gaps: "take (length bin - 0) (filter (\<lambda>g. g \<notin> mask_set msk) [0..<k]) = missing_ids msk k"
    using n by (simp add: missing_ids_def)
  from fill_rows_spec [OF R(1), of 0 bin D] R(2,3) D obtain D' where
    D': "rfold (fill_row bin) (D, 0) ?rs = Inr (D', length bin)" "length D' = length D"
      "\<forall>r < length D. D' ! r = (case taken ?rs 0 r of None \<Rightarrow> D ! r | Some j \<Rightarrow> snd (bin ! j))"
    by fastforce
  have "r < length D" if "r \<in> set ?gs" for r
  proof -
    have "r \<in> set ?rs" using that by (simp add: repaired_rows_def)
    then show ?thesis using R(3) [of r] D by simp
  qed
  moreover have "distinct ?gs" using R(1) by (simp add: repaired_rows_def)
  ultimately have "distinct ?gs" "\<forall>r \<in> set ?gs. r < length D" by blast+
  from fill_rows_spec [OF this(1), of 0 bin D] this(2) n obtain D1 where
    D1: "rfold (fill_row bin) (D, 0) ?gs = Inr (D1, length (missing_ids msk k))" by auto
  have "fill_symbol_matrix_gaps P D k msk bin = Inr D'"
    using D'(1) D1 unfolding fill_symbol_matrix_gaps_def fill_gaps_fold gaps repaired_rows_def rfold_append by simp
  then show ?thesis using D'(2,3) by blast
qed

text \<open>What the decoder holds of a block: the rows of received and padding symbols, and genuine repair symbols.\<close>

definition block_rows :: "params \<Rightarrow> nat \<Rightarrow> nat \<Rightarrow> (nat \<Rightarrow> bytes) \<Rightarrow> bitmask \<Rightarrow> rows \<Rightarrow> bool" where
  "block_rows P k t src msk D \<longleftrightarrow> is_mat (length D) t D \<and> pL P \<le> length D
     \<and> (\<forall>r < pS P + pH P. D ! r = replicate t 0)
     \<and> (\<forall>i < pKprime P. i \<in> mask_set msk \<or> k \<le> i \<longrightarrow> D ! (pS P + pH P + i) = src i)"

lemma patched_system:
  assumes P: "params_ok P" and k: "k \<le> pKprime P" and n: "length (missing_ids msk k) \<le> length bin"
    and D: "block_rows P k t src msk D" "pL P + (length bin - length (missing_ids msk k)) \<le> length D"
    and C: "intermediate_of P t src C"
    and bin: "\<forall>(e, d) \<in> set bin. d = coded_symbol P C (of_nat (e + (pKprime P - k))) t"
    and A: "rows_of P (pL P + (length bin - length (missing_ids msk k))) (row_id P k msk bin) A"
    and D': "length D' = length D" "\<forall>r < length D. D' ! r = (case taken (repaired_rows P k msk (length bin)) 0 r of None \<Rightarrow> D ! r | Some j \<Rightarrow> snd (bin ! j))"
  shows "is_mat (length D) t D'" "solves (sp_rows A) (pL P) t (sysmat P A) C (mat_of D')"
proof -
  let ?rs = "repaired_rows P k msk (length bin)" and ?h = "pS P + pH P" and ?n = "pL P + (length bin - length (missing_ids msk k))"
  note R = repaired_rows_props [OF P k n]
  have L: "?h + pKprime P = pL P" using P by (simp add: params_ok_def)
  have kept: "snd (bin ! j) = coded_symbol P C (of_nat (fst (bin ! j) + (pKprime P - k))) t" if "taken ?rs 0 r = Some j" for r j
  proof -
    have "j < length bin" using taken_Some [OF that] R(2) by simp
    then have "bin ! j \<in> set bin" by simp
    from bspec [OF bin this] show ?thesis by (simp add: case_prod_beta)
  qed
  have "length (D' ! r) = t" if "r < length D" for r
  proof (cases "taken ?rs 0 r")
    case None
    then show ?thesis using D'(2) D(1) that by (simp add: is_mat_def block_rows_def)
  next
    case (Some j)
    then show ?thesis using D'(2) kept [OF Some] that by (simp add: coded_symbol_def)
  qed
  then show "is_mat (length D) t D'" using D'(1) by (simp add: is_mat_def)
  have val: "mat_of D' r x = coded P C (row_id P k msk bin r) x" if r: "?h \<le> r" "r < ?n" and x: "x < t" for r x
  proof (cases "taken ?rs 0 r")
    case (Some j)
    then show ?thesis using D'(2) kept [OF Some] r D(2) x by (simp add: mat_of_def row_id_def coded_symbol_def)
  next
    case None
    then have nr: "r \<notin> set ?rs" by (simp add: taken_None)
    then have "r < pL P" using r by (auto simp: repaired_rows_def)
    then obtain i where i: "r = ?h + i" "i < pKprime P" using r(1) L by (metis le_Suc_ex nat_add_left_cancel_less)
    have "i \<notin> set (missing_ids msk k)" using nr unfolding repaired_rows_def i(1) by auto
    then have "D ! r = src i" using D(1) i by (auto simp: block_rows_def)
    moreover have "src i ! x = coded P C (of_nat i) x" using C i(2) x by (simp add: intermediate_of_def)
    ultimately show ?thesis using D'(2) None r D(2) i(1) by (simp add: mat_of_def row_id_def)
  qed
  have head: "mat_of D' r x = 0" if "r < ?h" "x < t" for r x
  proof -
    have "taken ?rs 0 r = None" using R(3) [of r] that by (auto simp: taken_None)
    moreover have "r < length D" using that(1) L D(2) by simp
    ultimately show ?thesis using D'(2) D(1) that by (simp add: mat_of_def block_rows_def)
  qed
  have "solves ?n (pL P) t (sysmat P A) C (mat_of D')"
    using solves_rows [OF A, of t C "mat_of D'"] L val head C by (simp add: intermediate_of_def)
  moreover have "sp_rows A = ?n" using A by (simp add: rows_of_def)
  ultimately show "solves (sp_rows A) (pL P) t (sysmat P A) C (mat_of D')" by simp
qed

end
