(* ===== verification/Encoder.thy ===== *)
theory Encoder
  imports Repair_Rows
begin

section \<open>The encoder emits the code\<close>

text \<open>
  \<open>enc_inv\<close> is the state of an encoder for the file \<open>f\<close>: every block encoder is empty, or loaded with the
  block's source symbols, or holds the intermediate symbols of exactly these. All operations keep it, and
  under it \<open>nanorq_encode\<close> returns the source symbol or the coded symbol that was asked for.
\<close>

text \<open>The source symbols of a block, padded with zero symbols up to \<open>K'\<close>.\<close>

definition block_source :: "nanorq_params \<Rightarrow> bytes \<Rightarrow> nat \<Rightarrow> nat \<Rightarrow> bytes" where
  "block_source p f sbn i = (if i < nanorq_block_symbols p sbn then file_symbol p f sbn i else replicate (oT (common p)) 0)"

definition source_rows :: "params \<Rightarrow> nat \<Rightarrow> (nat \<Rightarrow> bytes) \<Rightarrow> rows \<Rightarrow> bool" where
  "source_rows P t src D \<longleftrightarrow> (\<forall>r < pS P + pH P. D ! r = replicate t 0) \<and> (\<forall>i < pKprime P. D ! (pS P + pH P + i) = src i)"

definition holds :: "params \<Rightarrow> nat \<Rightarrow> rows \<Rightarrow> mat \<Rightarrow> bool" where
  "holds P t D C \<longleftrightarrow> (\<forall>c < pL P. \<forall>x < t. D ! c ! x = C c x)"

text \<open>The schedule of a block of this size, when there is one.\<close>

definition block_schedule :: "params \<Rightarrow> schedule \<Rightarrow> bool" where
  "block_schedule P S \<longleftrightarrow> (\<exists>A. precode_matrix_gen P 0 = Inr A \<and> precode_matrix_invert P A = Inr (Some S))"

definition schedule_sound :: "params \<Rightarrow> bool" where
  "schedule_sound P \<longleftrightarrow> (\<forall>A S. precode_matrix_gen P 0 = Inr A \<longrightarrow> precode_matrix_invert P A = Inr (Some S) \<longrightarrow> marks_apart A S)"

definition enc_ok :: "nanorq_params \<Rightarrow> bytes \<Rightarrow> nat \<Rightarrow> block_encoder \<Rightarrow> bool" where
  "enc_ok p f sbn enc \<longleftrightarrow> eK enc = nanorq_block_symbols p sbn \<and> is_mat (length (eD enc)) (oT (common p)) (eD enc)
     \<and> pL (rqP p) \<le> length (eD enc)
     \<and> (if einverted enc
        then (\<exists>S. block_schedule (rqP p) S)
          \<and> (\<exists>C. intermediate_of (rqP p) (oT (common p)) (block_source p f sbn) C \<and> holds (rqP p) (oT (common p)) (eD enc) C)
        else if eloaded enc then source_rows (rqP p) (oT (common p)) (block_source p f sbn) (eD enc)
        else \<forall>r < length (eD enc). eD enc ! r = replicate (oT (common p)) 0)"

definition enc_inv :: "nanorq_params \<Rightarrow> bytes \<Rightarrow> nanorq \<Rightarrow> bool" where
  "enc_inv p f rq \<longleftrightarrow> par rq = p \<and> (max_esi rq = 0 \<or> pKprime (rqP p) \<le> max_esi rq)
     \<and> (\<forall>S. rqS rq = Some S \<longrightarrow> block_schedule (rqP p) S)
     \<and> (\<forall>sbn < nanorq_blocks p. \<forall>enc. encoders rq sbn = Some enc \<longrightarrow> enc_ok p f sbn enc)"

definition file_io :: "bytes \<Rightarrow> ioctx \<Rightarrow> bool" where
  "file_io f io \<longleftrightarrow> io_ready io \<and> io_content io = f"

subsection \<open>The solver on a loaded block\<close>

lemma gen_rows_of:
  assumes "gen_ok P" and "precode_matrix_gen P 0 = Inr A"
  shows "rows_of P (pL P) (\<lambda>r. of_nat (r - (pS P + pH P))) A"
proof -
  have L: "pS P + pH P \<le> pL P" "pS P \<le> pS P + pH P" using assms(1) by (auto simp: gen_ok_def params_ok_def)
  show ?thesis using gen_rows [OF assms(1), of 0] assms(2) L by (auto simp: rows_of_def)
qed

lemma encoder_solution:
  assumes ok: "gen_ok P" and D: "is_mat n t D" "pL P \<le> n" and src: "source_rows P t src D"
    and S: "precode_matrix_gen P 0 = Inr A" "precode_matrix_invert P A = Inr (Some S)" "marks_apart A S"
  shows "\<exists>D' C. precode_matrix_intermediate \<lparr>om_rows = m, om_cols = t, om_data = D\<rparr> S = Inr D' \<and> is_mat n t (om_data D')
    \<and> intermediate_of P t src C \<and> holds P t (om_data D') C"
proof -
  let ?M = "\<lparr>om_rows = m, om_cols = t, om_data = D\<rparr>" and ?h = "pS P + pH P"
  have P: "params_ok P" "1 < pH P" using ok by (auto simp: gen_ok_def)
  then have L: "?h + pKprime P = pL P" by (simp add: params_ok_def)
  note R = gen_rows_of [OF ok S(1)]
  have A: "matrix_ok P A" by (rule rows_of_ok [OF ok R order_refl])
  have rows: "sp_rows A = pL P" using R by (simp add: rows_of_def)
  obtain ops1 rest ops3 where sch: "solution_schedule P A S ops1 rest ops3"
    using invert_spec [OF A P(2)] S(2) by auto
  from solution_exists [OF sch rows] obtain C where C: "solves (pL P) (pL P) t (sysmat P A) C (mat_of D)" by blast
  have hn: "?h \<le> pL P" using L by simp
  have eqs: "mat_of D r x = xsum (\<lambda>c. gf_mul (head_row P r c) (C c x)) (pL P)" if "r < ?h" "x < t" for r x
    using C that unfolding solves_rows [OF R hn] by blast
  have eqc: "mat_of D r x = coded P C (of_nat (r - ?h)) x" if "?h \<le> r" "r < pL P" "x < t" for r x
    using C that unfolding solves_rows [OF R hn] by blast
  have "coded P C (of_nat i) x = src i ! x" if "i < pKprime P" "x < t" for i x
    using eqc [of "?h + i" x] that L src by (simp add: source_rows_def mat_of_def)
  moreover have "xsum (\<lambda>c. gf_mul (head_row P r c) (C c x)) (pL P) = 0" if "r < ?h" "x < t" for r x
    using eqs [OF that] src that by (simp add: source_rows_def mat_of_def)
  ultimately have int: "intermediate_of P t src C" by (simp add: intermediate_of_def)
  from intermediate_spec [OF A sch S(3), of n t ?M C] D C rows show ?thesis
    using int by (auto simp: holds_def)
qed


subsection \<open>Loading\<close>

lemma load_rows_other:
  "load_rows p sbn k es d io = Inr (d', io') \<Longrightarrow> length d' = length d \<and> (\<forall>r < pS (rqP p) + pH (rqP p). d' ! r = d ! r)"
proof (induction es arbitrary: d io)
  case (Cons e es)
  then obtain n r io1 where 1: "pS (rqP p) + pH (rqP p) + e < length d"
    "load_rows p sbn k es (d[pS (rqP p) + pH (rqP p) + e := r]) io1 = Inr (d', io')"
    by (auto simp: Let_def split: if_splits sum.splits)
  from Cons.IH [OF 1(2)] show ?case by simp
qed simp

lemma source_parameters:
  assumes "rq_ok p"
  shows "gen_ok (rqP p)" "params_ok (rqP p)" "pS (rqP p) + pH (rqP p) + pKprime (rqP p) = pL (rqP p)"
    "nanorq_block_symbols p sbn \<le> pKprime (rqP p)" "0 < oT (common p)"
proof -
  note s = rq_ok_symbols [OF assms]
  have "block_symbols (src_part p) 0 mod 65536 \<le> K_max" using s(1) [of 0] by (simp add: K_max_def)
  moreover have "params_init (block_symbols (src_part p) 0 mod 65536) = Inr (rqP p)" using assms unfolding rq_ok_def by blast
  ultimately show "gen_ok (rqP p)" by (rule params_init_gen)
  show "params_ok (rqP p)" "pS (rqP p) + pH (rqP p) + pKprime (rqP p) = pL (rqP p)"
    using s(3) by (auto simp: params_ok_def)
  show "nanorq_block_symbols p sbn \<le> pKprime (rqP p)" using s(2) by (simp add: nanorq_block_symbols_def)
  show "0 < oT (common p)" using assms by (simp add: rq_ok_def)
qed

lemma enc_inv_get:
  assumes p: "rq_ok p" and inv: "enc_inv p f rq" and b: "sbn < nanorq_blocks p"
  obtains enc rq1 where "get_block_encoder rq sbn = Inr (enc, rq1)" "encoders rq1 sbn = Some enc" "enc_inv p f rq1" "enc_ok p f sbn enc"
proof (cases "encoders rq sbn")
  case (Some enc)
  then show thesis using that [of enc rq] inv b by (simp add: get_block_encoder_def enc_inv_def)
next
  case None
  have pr: "par rq = p" "max_esi rq = 0 \<or> pKprime (rqP (par rq)) \<le> max_esi rq" using inv by (auto simp: enc_inv_def)
  let ?k = "nanorq_block_symbols p sbn mod 65536"
  have k: "?k = nanorq_block_symbols p sbn"
    using rq_ok_symbols(1) [OF p, of sbn] by (simp add: nanorq_block_symbols_def K_max_def)
  obtain enc where enc: "get_block_encoder rq sbn = Inr (enc, rq\<lparr>encoders := (encoders rq)(sbn := Some enc)\<rparr>)"
    "eK enc = nanorq_block_symbols p sbn" "pL (rqP p) \<le> length (eD enc)" "\<forall>r < length (eD enc). eD enc ! r = replicate (oT (common p)) 0"
    using get_new_encoder [of rq sbn] p None pr by metis
  have "\<not> eloaded enc \<and> \<not> einverted enc"
    using enc(1) None by (auto simp: get_block_encoder_def Let_def split: if_splits)
  then have ok: "enc_ok p f sbn enc" using enc(2-4) by (simp add: enc_ok_def is_mat_def)
  then have "enc_inv p f (rq\<lparr>encoders := (encoders rq)(sbn := Some enc)\<rparr>)" using inv by (auto simp: enc_inv_def)
  with that enc(1) ok show thesis by simp
qed

lemma enc_inv_put: "enc_inv p f rq \<Longrightarrow> enc_ok p f sbn enc \<Longrightarrow> enc_inv p f (put_encoder rq sbn enc)"
  by (simp add: enc_inv_def put_encoder_def)

lemma put_encoder_simps [simp]:
  "par (put_encoder rq sbn enc) = par rq" "max_esi (put_encoder rq sbn enc) = max_esi rq" "rqS (put_encoder rq sbn enc) = rqS rq"
  "encoders (put_encoder rq sbn enc) = (encoders rq)(sbn := Some enc)"
  by (simp_all add: put_encoder_def)

lemma ensure_loaded_ok:
  assumes p: "rq_ok p" and inv: "enc_inv p f rq" and b: "sbn < nanorq_blocks p" and enc: "encoders rq sbn = Some enc" "\<not> einverted enc"
    and io: "file_io f io" and f: "length f = oF (common p)"
  shows "\<exists>enc' rq' io'. ensure_loaded rq sbn enc io = Inr (enc', rq', io') \<and> enc_inv p f rq' \<and> file_io f io'
    \<and> encoders rq' sbn = Some enc' \<and> enc_ok p f sbn enc' \<and> eloaded enc' \<and> \<not> einverted enc' \<and> rqS rq' = rqS rq \<and> par rq' = p"
proof -
  have pr: "par rq = p" and ok: "enc_ok p f sbn enc" using inv b enc(1) by (auto simp: enc_inv_def)
  show ?thesis
  proof (cases "eloaded enc")
    case True
    then show ?thesis using inv enc io ok pr by (simp add: ensure_loaded_def)
  next
    case False
    let ?k = "nanorq_block_symbols p sbn" and ?h = "pS (rqP p) + pH (rqP p)" and ?t = "oT (common p)"
    note sp = source_parameters [OF p]
    have e: "eK enc = ?k" "is_mat (length (eD enc)) ?t (eD enc)" "pL (rqP p) \<le> length (eD enc)"
      "\<And>r. r < length (eD enc) \<Longrightarrow> eD enc ! r = replicate ?t 0"
      using ok enc(2) False by (auto simp: enc_ok_def)
    have hk: "?h + ?k \<le> length (eD enc)" using sp(3) sp(4) [of sbn] e(3) by linarith
    from load_rows_spec [OF p b refl hk _ distinct_upt _ _ _ f, of 0 ?k io] e(2) io obtain d io' where
      d: "load_rows p sbn ?k [0..<?k] (eD enc) io = Inr (d, io')" "io_ready io'" "io_content io' = f" "length d = length (eD enc)"
        "\<forall>i \<in> set [0..<?k]. d ! (?h + i) = blit (eD enc ! (?h + i)) 0 (chunk f (sym_off p sbn i) (sym_len p sbn i))"
        "\<forall>i. i \<notin> set [0..<?k] \<longrightarrow> d ! (?h + i) = eD enc ! (?h + i)"
      by (auto simp: is_mat_def file_io_def)
    have src: "d ! (?h + i) = block_source p f sbn i" if i: "i < pKprime (rqP p)" for i
    proof (cases "i < ?k")
      case True
      have "eD enc ! (?h + i) = replicate ?t 0" using e(4) [of "?h + i"] hk True by simp
      then show ?thesis
        using d(5) True length_file_chunk [OF p b True f] by (simp add: blit_zero_row file_symbol_def sym_len_def block_source_def)
    next
      case False
      have "?h + i < length (eD enc)" using i sp(3) e(3) by linarith
      then show ?thesis using d(6) False e(4) by (simp add: block_source_def)
    qed
    have head: "d ! r = replicate ?t 0" if "r < ?h" for r
      using load_rows_other [OF d(1)] that e(4) [of r] sp(3) e(3) by simp
    have "length (d ! r) = ?t" if r: "r < length d" for r
    proof (cases "\<exists>i < ?k. r = ?h + i")
      case True
      then obtain i where "i < ?k" "r = ?h + i" by blast
      then show ?thesis using src [of i] sp(4) [of sbn] length_file_symbol [OF p b _ f] by (simp add: block_source_def)
    next
      case False
      show ?thesis
      proof (cases "r < ?h")
        case True
        then show ?thesis using head by simp
      next
        case h: False
        then obtain i where i: "r = ?h + i" by (metis le_Suc_ex not_le)
        then have "d ! r = eD enc ! r" using d(6) False by auto
        then show ?thesis using e(4) r d(4) by simp
      qed
    qed
    then have mat: "is_mat (length d) ?t d" by (simp add: is_mat_def)
    let ?enc = "enc\<lparr>eD := d, eloaded := True\<rparr>"
    have ok': "enc_ok p f sbn ?enc"
      using e(1,3) enc(2) mat src head d(4) by (simp add: enc_ok_def source_rows_def)
    have "ensure_loaded rq sbn enc io = Inr (?enc, put_encoder (rq\<lparr>encoders := (encoders rq)(sbn := Some (enc\<lparr>eD := d\<rparr>))\<rparr>) sbn ?enc, io')"
      using False enc(1) pr e(1) d(1) by (simp add: ensure_loaded_def load_symbol_matrix_def get_block_encoder_def Let_def)
    moreover have "put_encoder (rq\<lparr>encoders := (encoders rq)(sbn := Some (enc\<lparr>eD := d\<rparr>))\<rparr>) sbn ?enc = put_encoder rq sbn ?enc"
      by (simp add: put_encoder_def)
    ultimately show ?thesis
      using enc_inv_put [OF inv ok'] ok' enc(2) d(2,3) pr by (simp add: file_io_def)
  qed
qed


subsection \<open>The operations\<close>

lemma generate_ok:
  assumes p: "rq_ok p" and inv: "enc_inv p f rq" and b: "sbn < nanorq_blocks p" and s: "schedule_sound (rqP p)"
    and io: "file_io f io" and f: "length f = oF (common p)"
  shows "yields (\<lambda>(ok, rq', io'). enc_inv p f rq' \<and> file_io f io' \<and> (\<exists>enc. encoders rq' sbn = Some enc \<and> einverted enc = ok))
    (nanorq_generate_symbols rq sbn io)"
proof -
  let ?P = "rqP p" and ?t = "oT (common p)" and ?src = "block_source p f sbn"
  from enc_inv_get [OF p inv b] obtain enc rq1 where g: "get_block_encoder rq sbn = Inr (enc, rq1)" "encoders rq1 sbn = Some enc"
    "enc_inv p f rq1" "enc_ok p f sbn enc" .
  show ?thesis
  proof (cases "einverted enc")
    case True
    then show ?thesis using g io by (simp add: nanorq_generate_symbols_def)
  next
    case False
    from ensure_loaded_ok [OF p g(3) b g(2) False io f] obtain enc2 rq2 io2 where
      l: "ensure_loaded rq1 sbn enc io = Inr (enc2, rq2, io2)" "enc_inv p f rq2" "file_io f io2" "encoders rq2 sbn = Some enc2"
        "enc_ok p f sbn enc2" "eloaded enc2" "\<not> einverted enc2" "par rq2 = p" by blast
    note sp = source_parameters [OF p]
    let ?get = "case rqS rq2 of Some S \<Rightarrow> Inr (Some S) | None \<Rightarrow> rbind (precode_matrix_gen (rqP (par rq2)) 0) (precode_matrix_invert (rqP (par rq2)))"
    have get: "yields (\<lambda>S. \<forall>S'. S = Some S' \<longrightarrow> block_schedule ?P S') ?get"
    proof (cases "rqS rq2")
      case None
      from gen_rows [OF sp(1), of 0] obtain A where A: "precode_matrix_gen ?P 0 = Inr A" by blast
      have "matrix_ok ?P A" "1 < pH ?P"
        using rows_of_ok [OF sp(1) gen_rows_of [OF sp(1) A] order_refl] sp(1) by (simp_all add: gen_ok_def)
      from invert_spec [OF this] show ?thesis using None A l(8)
        by (cases "precode_matrix_invert ?P A") (auto simp: block_schedule_def)
    next
      case (Some S)
      then show ?thesis using l(2) by (simp add: enc_inv_def)
    qed
    have fin: "yields (\<lambda>(ok, rq', io'). enc_inv p f rq' \<and> file_io f io' \<and> (\<exists>enc. encoders rq' sbn = Some enc \<and> einverted enc = ok))
      (case S of None \<Rightarrow> Inr (False, rq2, io2)
        | Some S \<Rightarrow> rbind (precode_matrix_intermediate (matrix_of rq2 enc2) S)
            (\<lambda>D. Inr (True, put_encoder rq2 sbn (enc2\<lparr>eD := om_data D, einverted := True\<rparr>), io2)))"
      if S: "\<forall>S'. S = Some S' \<longrightarrow> block_schedule ?P S'" for S
    proof (cases S)
      case None
      then show ?thesis using l by simp
    next
      case (Some S')
      then obtain A where A: "precode_matrix_gen ?P 0 = Inr A" "precode_matrix_invert ?P A = Inr (Some S')"
        using S by (auto simp: block_schedule_def)
      then have "marks_apart A S'" using s by (simp add: schedule_sound_def)
      from encoder_solution [OF sp(1) _ _ _ A this, of "length (eD enc2)" ?t "eD enc2" ?src "length (eD enc2)"] l(5-7)
      obtain D C where D: "precode_matrix_intermediate (matrix_of rq2 enc2) S' = Inr D" "is_mat (length (eD enc2)) ?t (om_data D)"
        "intermediate_of ?P ?t ?src C" "holds ?P ?t (om_data D) C"
        by (auto simp: enc_ok_def matrix_of_def l(8))
      have "enc_ok p f sbn (enc2\<lparr>eD := om_data D, einverted := True\<rparr>)"
        using l(5) D(2-4) is_matD(1) [OF D(2)] S Some by (auto simp: enc_ok_def)
      from enc_inv_put [OF l(2) this] show ?thesis using Some D(1) l(3) by simp
    qed
    have "nanorq_generate_symbols rq sbn io = rbind ?get (\<lambda>S. case S of None \<Rightarrow> Inr (False, rq2, io2)
        | Some S \<Rightarrow> rbind (precode_matrix_intermediate (matrix_of rq2 enc2) S)
            (\<lambda>D. Inr (True, put_encoder rq2 sbn (enc2\<lparr>eD := om_data D, einverted := True\<rparr>), io2)))"
      unfolding nanorq_generate_symbols_def g(1) using False l(1) by simp
    then show ?thesis using yields_rbind [OF get fin] by simp
  qed
qed

text \<open>The symbol that was asked for.\<close>

definition emitted :: "nanorq_params \<Rightarrow> bytes \<Rightarrow> nat \<Rightarrow> nat \<Rightarrow> bytes \<Rightarrow> bool" where
  "emitted p f sbn esi d \<longleftrightarrow>
     (if esi < nanorq_block_symbols p sbn then d = file_symbol p f sbn esi
      else (\<exists>S. block_schedule (rqP p) S) \<and> (\<exists>C. intermediate_of (rqP p) (oT (common p)) (block_source p f sbn) C
        \<and> d = coded_symbol (rqP p) C (of_nat (esi + (pKprime (rqP p) - nanorq_block_symbols p sbn))) (oT (common p))))"

lemma coded_source:
  assumes "intermediate_of P t src C" and "i < pKprime P" and "length (src i) = t"
  shows "coded_symbol P C (of_nat i) t = src i"
  using assms by (intro nth_equalityI) (simp_all add: coded_symbol_def intermediate_of_def)

lemma encoded_row:
  assumes p: "rq_ok p" and e: "enc_ok p f sbn enc" "einverted enc"
  shows "(\<exists>S. block_schedule (rqP p) S) \<and> (\<exists>C. intermediate_of (rqP p) (oT (common p)) (block_source p f sbn) C
    \<and> decode_row (rqP p) (eD enc) X (oT (common p)) = Inr (coded_symbol (rqP p) C X (oT (common p))))"
proof -
  let ?P = "rqP p" and ?t = "oT (common p)"
  from e obtain C S where C: "block_schedule ?P S" "intermediate_of ?P ?t (block_source p f sbn) C" "holds ?P ?t (eD enc) C"
    "is_mat (length (eD enc)) ?t (eD enc)" "pL ?P \<le> length (eD enc)" by (auto simp: enc_ok_def)
  show ?thesis using decode_row_coded [OF source_parameters(2) [OF p] C(4,5), of C X] C(1-3) by (auto simp: holds_def)
qed

text \<open>Source symbols are always returned, whatever the solver does.\<close>

lemma encode_source:
  assumes p: "rq_ok p" and inv: "enc_inv p f rq" and b: "sbn < nanorq_blocks p" and k: "esi < nanorq_block_symbols p sbn"
    and io: "file_io f io" and f: "length f = oF (common p)"
  shows "\<exists>rq' io'. nanorq_encode rq esi sbn io = Inr (oT (common p), file_symbol p f sbn esi, rq', io') \<and> enc_inv p f rq' \<and> file_io f io'"
proof -
  let ?P = "rqP p" and ?t = "oT (common p)" and ?src = "block_source p f sbn" and ?k = "nanorq_block_symbols p sbn"
  note sp = source_parameters [OF p]
  from enc_inv_get [OF p inv b] obtain enc rq1 where g: "get_block_encoder rq sbn = Inr (enc, rq1)" "encoders rq1 sbn = Some enc"
    "enc_inv p f rq1" "enc_ok p f sbn enc" .
  have pr: "par rq1 = p" "eK enc = ?k" using g(3,4) by (simp_all add: enc_inv_def enc_ok_def)
  have ek: "esi < pKprime ?P" using k sp(4) [of sbn] by simp
  have src: "?src esi = file_symbol p f sbn esi" "length (?src esi) = ?t"
    using k length_file_symbol [OF p b k f] by (simp_all add: block_source_def)
  show ?thesis
  proof (cases "einverted enc")
    case True
    from encoded_row [OF p g(4) True, of "of_nat esi"] obtain C where C: "intermediate_of ?P ?t ?src C"
      "decode_row ?P (eD enc) (of_nat esi) ?t = Inr (coded_symbol ?P C (of_nat esi) ?t)" by blast
    have "coded_symbol ?P C (of_nat esi) ?t = file_symbol p f sbn esi" using coded_source [OF C(1) ek src(2)] src(1) by simp
    then show ?thesis using g k pr True C(2) io by (simp add: nanorq_encode_def)
  next
    case False
    from ensure_loaded_ok [OF p g(3) b g(2) False io f] obtain enc2 rq2 io2 where
      l: "ensure_loaded rq1 sbn enc io = Inr (enc2, rq2, io2)" "enc_inv p f rq2" "file_io f io2"
        "enc_ok p f sbn enc2" "eloaded enc2" "\<not> einverted enc2" "par rq2 = p" by blast
    have D: "eD enc2 ! (pS ?P + pH ?P + esi) = file_symbol p f sbn esi" "pS ?P + pH ?P + esi < length (eD enc2)"
      using l(4-6) ek src(1) sp(3) by (auto simp: enc_ok_def source_rows_def)
    then show ?thesis using g(1) k pr False l(1-3,7) by (simp add: nanorq_encode_def Let_def)
  qed
qed

lemma encode_ok:
  assumes p: "rq_ok p" and inv: "enc_inv p f rq" and b: "sbn < nanorq_blocks p" and esi: "esi < 2 ^ 24"
    and s: "nanorq_block_symbols p sbn \<le> esi \<Longrightarrow> schedule_sound (rqP p)"
    and io: "file_io f io" and f: "length f = oF (common p)"
  shows "yields (\<lambda>(n, d, rq', io'). enc_inv p f rq' \<and> file_io f io'
      \<and> (n = oT (common p) \<and> emitted p f sbn esi d \<or> n = 0 \<and> d = [] \<and> nanorq_block_symbols p sbn \<le> esi)) (nanorq_encode rq esi sbn io)"
proof -
  let ?P = "rqP p" and ?t = "oT (common p)" and ?src = "block_source p f sbn" and ?k = "nanorq_block_symbols p sbn"
  note sp = source_parameters [OF p]
  from enc_inv_get [OF p inv b] obtain enc rq1 where g: "get_block_encoder rq sbn = Inr (enc, rq1)" "encoders rq1 sbn = Some enc"
    "enc_inv p f rq1" "enc_ok p f sbn enc" .
  have pr: "par rq1 = p" "eK enc = ?k" using g(3,4) by (simp_all add: enc_inv_def enc_ok_def)
  show ?thesis
  proof (cases "esi < ?k")
    case True
    then show ?thesis using encode_source [OF p inv b True io f] by (auto simp: emitted_def)
  next
    case k: False
    let ?Q = "\<lambda>(ok, rq', io'). enc_inv p f rq' \<and> file_io f io' \<and> (\<exists>enc. encoders rq' sbn = Some enc \<and> einverted enc = ok)"
    have gen: "yields ?Q (if einverted enc then Inr (True, rq1, io) else nanorq_generate_symbols rq1 sbn io)"
      using generate_ok [OF p g(3) b s io f] k g(2,3) io by auto
    show ?thesis
      unfolding nanorq_encode_def g(1) rbind_simps prod.case pr(2)
    proof (simp only: k if_False, cases "2 ^ 24 - 1 < esi", goal_cases)
      case 1
      then show ?case using esi by simp
    next
      case 2
      show ?case
        unfolding if_not_P [OF 2]
      proof (rule yields_rbind [OF gen])
        fix x :: "bool \<times> nanorq \<times> ioctx"
        obtain ok rq2 io2 where x: "x = (ok, rq2, io2)" by (cases x) auto
        assume "?Q x"
        then obtain enc2 where q: "enc_inv p f rq2" "file_io f io2" "encoders rq2 sbn = Some enc2" "einverted enc2 = ok" by (auto simp: x)
        have e2: "enc_ok p f sbn enc2" "par rq2 = p" using q(1,3) b by (auto simp: enc_inv_def)
        have same: "enc2\<lparr>einverted := ok\<rparr> = enc2" using q(4) by simp
        have g2: "get_block_encoder rq2 sbn = Inr (enc2, rq2)" using q(3) by (simp add: get_block_encoder_def)
        have inv2: "enc_inv p f (put_encoder rq2 sbn enc2)" using enc_inv_put [OF q(1) e2(1)] .
        have kk: "eK enc2 = ?k" using e2(1) by (simp add: enc_ok_def)
        show "yields (\<lambda>(n, d, rq', io'). enc_inv p f rq' \<and> file_io f io'
            \<and> (n = ?t \<and> emitted p f sbn esi d \<or> n = 0 \<and> d = [] \<and> ?k \<le> esi))
          (case x of (ok, rq, io) \<Rightarrow> rbind (get_block_encoder rq sbn) (\<lambda>(enc, rq).
              let enc = enc\<lparr>einverted := ok\<rparr>; rq = put_encoder rq sbn enc
              in if ok
                 then rbind (decode_row (rqP (par rq)) (eD enc) (of_nat (esi + (pKprime (rqP (par rq)) - eK enc))) (rqT rq))
                        (\<lambda>d. Inr (rqT rq, d, rq, io))
                 else Inr (0, [], rq, io)))"
        proof (cases ok)
          case True
          from encoded_row [OF p e2(1), of "of_nat (esi + (pKprime ?P - ?k))"] True q(4) obtain C S where
            C: "block_schedule ?P S" "intermediate_of ?P ?t ?src C"
              "decode_row ?P (eD enc2) (of_nat (esi + (pKprime ?P - ?k))) ?t = Inr (coded_symbol ?P C (of_nat (esi + (pKprime ?P - ?k))) ?t)"
            by blast
          have "emitted p f sbn esi (coded_symbol ?P C (of_nat (esi + (pKprime ?P - ?k))) ?t)"
            unfolding emitted_def using k C(1,2) by auto
          then show ?thesis
            unfolding x prod.case g2 rbind_simps Let_def same put_encoder_simps e2(2) kk C(3) using True inv2 q(2) C(3) by simp
        next
          case False
          then show ?thesis
            unfolding x prod.case g2 rbind_simps Let_def same using inv2 q(2) k by simp
        qed
      qed
    qed
  qed
qed


subsection \<open>Requests in any order\<close>

text \<open>What a sender does with the encoder: any symbols of any blocks, one after the other.\<close>

fun encode_all :: "nanorq \<Rightarrow> ioctx \<Rightarrow> (nat \<times> nat) list \<Rightarrow> ((nat \<times> bytes) list \<times> nanorq \<times> ioctx) result" where
  "encode_all rq io [] = Inr ([], rq, io)"
| "encode_all rq io ((sbn, esi) # rs) =
     rbind (nanorq_encode rq esi sbn io) (\<lambda>(n, d, rq, io).
     rbind (encode_all rq io rs) (\<lambda>(outs, rq, io). Inr ((n, d) # outs, rq, io)))"

definition answered :: "nanorq_params \<Rightarrow> bytes \<Rightarrow> nat \<times> nat \<Rightarrow> nat \<times> bytes \<Rightarrow> bool" where
  "answered p f req out \<longleftrightarrow> (case (req, out) of ((sbn, esi), (n, d)) \<Rightarrow>
     n = oT (common p) \<and> emitted p f sbn esi d \<or> n = 0 \<and> d = [] \<and> nanorq_block_symbols p sbn \<le> esi)"

lemma encode_all_ok:
  assumes p: "rq_ok p" and f: "length f = oF (common p)"
  shows "enc_inv p f rq \<Longrightarrow> file_io f io \<Longrightarrow> \<forall>(sbn, esi) \<in> set rs. sbn < nanorq_blocks p \<and> esi < 2 ^ 24
      \<and> (nanorq_block_symbols p sbn \<le> esi \<longrightarrow> schedule_sound (rqP p)) \<Longrightarrow>
    yields (\<lambda>(outs, rq', io'). list_all2 (answered p f) rs outs \<and> enc_inv p f rq' \<and> file_io f io') (encode_all rq io rs)"
proof (induction rs arbitrary: rq io)
  case (Cons r rs)
  obtain sbn esi where r: "r = (sbn, esi)" by fastforce
  have ok: "sbn < nanorq_blocks p" "esi < 2 ^ 24" "nanorq_block_symbols p sbn \<le> esi \<Longrightarrow> schedule_sound (rqP p)"
    using Cons.prems(3) by (auto simp: r)
  have "yields (\<lambda>x. yields (\<lambda>(outs, rq', io'). list_all2 (answered p f) (r # rs) outs \<and> enc_inv p f rq' \<and> file_io f io')
      (case x of (n, d, rq, io) \<Rightarrow> rbind (encode_all rq io rs) (\<lambda>(outs, rq, io). Inr ((n, d) # outs, rq, io))))
    (nanorq_encode rq esi sbn io)"
  proof (rule yields_weaken [OF encode_ok [OF p Cons.prems(1) ok Cons.prems(2) f]], assumption)
    fix x :: "nat \<times> bytes \<times> nanorq \<times> ioctx"
    obtain n d rq2 io2 where x: "x = (n, d, rq2, io2)" by (cases x) auto
    assume "case x of (n, d, rq', io') \<Rightarrow> enc_inv p f rq' \<and> file_io f io'
        \<and> (n = oT (common p) \<and> emitted p f sbn esi d \<or> n = 0 \<and> d = [] \<and> nanorq_block_symbols p sbn \<le> esi)"
    then have one: "enc_inv p f rq2" "file_io f io2" "answered p f r (n, d)" by (auto simp: x r answered_def)
    have "yields (\<lambda>(outs, rq', io'). list_all2 (answered p f) rs outs \<and> enc_inv p f rq' \<and> file_io f io') (encode_all rq2 io2 rs)"
      using Cons.prems(3) by (intro Cons.IH [OF one(1,2)]) simp
    then show "yields (\<lambda>(outs, rq', io'). list_all2 (answered p f) (r # rs) outs \<and> enc_inv p f rq' \<and> file_io f io')
      (case x of (n, d, rq, io) \<Rightarrow> rbind (encode_all rq io rs) (\<lambda>(outs, rq, io). Inr ((n, d) # outs, rq, io)))"
      unfolding x prod.case by (rule yields_rbind) (use one(3) in auto)
  qed
  then show ?case unfolding r encode_all.simps by (cases "nanorq_encode rq esi sbn io") auto
qed simp

lemma encode_all_sources:
  assumes p: "rq_ok p" and f: "length f = oF (common p)"
  shows "enc_inv p f rq \<Longrightarrow> file_io f io \<Longrightarrow> \<forall>(sbn, esi) \<in> set rs. sbn < nanorq_blocks p \<and> esi < nanorq_block_symbols p sbn \<Longrightarrow>
    \<exists>rq' io'. encode_all rq io rs = Inr (map (\<lambda>(sbn, esi). (oT (common p), file_symbol p f sbn esi)) rs, rq', io')"
proof (induction rs arbitrary: rq io)
  case (Cons r rs)
  obtain sbn esi where r: "r = (sbn, esi)" by fastforce
  obtain rq1 io1 where one: "nanorq_encode rq esi sbn io = Inr (oT (common p), file_symbol p f sbn esi, rq1, io1)"
    "enc_inv p f rq1" "file_io f io1"
    using encode_source [OF p Cons.prems(1) _ _ Cons.prems(2) f, of sbn esi] Cons.prems(3) by (auto simp: r)
  show ?case using Cons.IH [OF one(2,3)] Cons.prems(3) one(1) by (auto simp: r)
qed simp

lemma enc_inv_init: "m = 0 \<or> pKprime (rqP p) \<le> m \<Longrightarrow> enc_inv p f (nanorq_init p m)"
  by (simp add: enc_inv_def nanorq_init_def)



end
