(* ===== verification/Repair.thy ===== *)
theory Repair
  imports Encoder
begin

section \<open>The decoder rebuilds the file\<close>

text \<open>
  \<open>dec_rows\<close> adds to the decoder's invariant what its matrices and its kept repair symbols hold. Receiving
  a symbol and repairing a block keep it, whether the repair succeeds or not, and a repair that succeeds
  writes the missing symbols of the block to the file. \<open>fountain_rebuilds_file\<close> puts sender and receiver
  together.
\<close>

subsection \<open>The intermediate symbols are determined\<close>

lemma intermediate_unique:
  assumes ok: "gen_ok P" and S: "block_schedule P S" and C: "intermediate_of P t src C" "intermediate_of P t src C'"
  shows "coded_symbol P C X t = coded_symbol P C' X t"
proof -
  from S obtain A where A: "precode_matrix_gen P 0 = Inr A" "precode_matrix_invert P A = Inr (Some S)"
    by (auto simp: block_schedule_def)
  let ?h = "pS P + pH P"
  have P: "params_ok P" "1 < pH P" using ok by (auto simp: gen_ok_def)
  then have L: "?h + pKprime P = pL P" "?h \<le> pL P" by (auto simp: params_ok_def)
  note R = gen_rows_of [OF ok A(1)]
  have m: "matrix_ok P A" "sp_rows A = pL P" using rows_of_ok [OF ok R order_refl] R by (auto simp: rows_of_def)
  obtain ops1 rest ops3 where sch: "solution_schedule P A S ops1 rest ops3" using invert_spec [OF m(1) P(2)] A(2) by auto
  let ?D = "\<lambda>r x. if r < ?h then 0 else src (r - ?h) ! x"
  have sol: "solves (sp_rows A) (pL P) t (sysmat P A) C ?D" if "intermediate_of P t src C" for C
    using that L unfolding m(2) solves_rows [OF R L(2)] intermediate_of_def by (auto simp del: of_nat_diff)
  have "C c x = C' c x" if c: "c < pL P" and x: "x < t" for c x
  proof -
    have perms: "perms_ok P A S" using sch by (simp add: solution_schedule_def)
    note p = perm_pairD [OF perms_okD(2) [OF perms]]
    have "s_ci S ! c < pL P" "s_c S ! (s_ci S ! c) = c" using p(4,6) c by simp_all
    then show ?thesis
      using solution_values [OF sch sol [OF C(1)], of "s_ci S ! c" x] solution_values [OF sch sol [OF C(2)], of "s_ci S ! c" x] m(2) x
      by simp
  qed
  then show ?thesis unfolding coded_symbol_def coded_def by (intro map_cong refl xsum_cong) simp
qed

subsection \<open>What the decoder holds\<close>

definition enc_rows :: "nanorq_params \<Rightarrow> bytes \<Rightarrow> nat \<Rightarrow> block_encoder \<Rightarrow> bool" where
  "enc_rows p f sbn enc \<longleftrightarrow>
     (missing_ids (repair_mask enc) (nanorq_block_symbols p sbn) \<noteq> [] \<longrightarrow>
        block_rows (rqP p) (nanorq_block_symbols p sbn) (oT (common p)) (block_source p f sbn) (repair_mask enc) (eD enc))
     \<and> (\<forall>(e, d) \<in> set (repair_bin enc). nanorq_block_symbols p sbn \<le> e \<and> emitted p f sbn e d)"

definition dec_rows :: "nanorq_params \<Rightarrow> bytes \<Rightarrow> nanorq \<Rightarrow> bool" where
  "dec_rows p f rq \<longleftrightarrow> (\<forall>sbn < nanorq_blocks p. \<forall>enc. encoders rq sbn = Some enc \<longrightarrow> enc_rows p f sbn enc)"

lemma dec_rows_get:
  assumes p: "rq_ok p" and m: "0 < m" "pKprime (rqP p) \<le> m" and inv: "dec_inv p m f rq io R" and rows: "dec_rows p f rq"
    and b: "sbn < nanorq_blocks p"
  obtains enc rq1 where "get_block_encoder rq sbn = Inr (enc, rq1)" "encoders rq1 sbn = Some enc" "dec_inv p m f rq1 io R"
    "dec_rows p f rq1" "enc_rows p f sbn enc"
proof -
  obtain enc rq1 where g: "get_block_encoder rq sbn = Inr (enc, rq1)" "encoders rq1 sbn = Some enc" "dec_inv p m f rq1 io R"
    using get_encoder_inv [OF p m inv] .
  show thesis
  proof (cases "encoders rq sbn")
    case (Some enc')
    then have "rq1 = rq" using g(1) by (simp add: get_block_encoder_def)
    then show thesis using that g rows b by (auto simp: dec_rows_def)
  next
    case None
    have pr: "par rq = p" "max_esi rq = m" using inv by (auto simp: dec_inv_def)
    obtain enc' where e: "get_block_encoder rq sbn = Inr (enc', rq\<lparr>encoders := (encoders rq)(sbn := Some enc')\<rparr>)"
      "pL (rqP p) \<le> length (eD enc')" "\<forall>r < length (eD enc'). eD enc' ! r = replicate (oT (common p)) 0" "repair_bin enc' = []"
      "mask_set (repair_mask enc') = {}"
      using get_new_encoder [of rq sbn] p m None pr by metis
    note sp = source_parameters [OF p]
    have "block_rows (rqP p) (nanorq_block_symbols p sbn) (oT (common p)) (block_source p f sbn) (repair_mask enc') (eD enc')"
      using e(2,3,5) sp(3) by (auto simp: block_rows_def is_mat_def block_source_def)
    then have er: "enc_rows p f sbn enc'" using e(4) by (simp add: enc_rows_def)
    have eq: "enc = enc'" "rq1 = rq\<lparr>encoders := (encoders rq)(sbn := Some enc')\<rparr>" using e(1) g(1) by simp_all
    have "dec_rows p f rq1" using rows er by (simp add: dec_rows_def eq)
    with that g er eq show thesis by blast
  qed
qed

lemma dec_rows_put: "dec_rows p f rq \<Longrightarrow> enc_rows p f sbn enc \<Longrightarrow> dec_rows p f (put_encoder rq sbn enc)"
  by (simp add: dec_rows_def)

subsection \<open>Receiving\<close>

text \<open>A genuine symbol: what the sender emits for this block and id, whatever follows the \<open>T\<close> bytes.\<close>

definition genuine :: "nanorq_params \<Rightarrow> nat \<Rightarrow> bytes \<Rightarrow> nat \<times> nat \<times> bytes \<Rightarrow> bool" where
  "genuine p m f s = (case s of (sbn, esi, d) \<Rightarrow>
     sbn < nanorq_blocks p \<and> esi \<le> m \<and> oT (common p) \<le> length d \<and> emitted p f sbn esi (take (oT (common p)) d))"

lemma genuine_valid: "genuine p m f s \<Longrightarrow> symbol_valid p m f s"
  by (auto simp: genuine_def symbol_valid_def emitted_def split: prod.splits if_splits)

lemma block_rows_receive:
  assumes "block_rows P k t src msk D" and "esi < k" and "k \<le> pKprime P" and "pS P + pH P + pKprime P = pL P" and "length (src esi) = t"
  shows "block_rows P k t src (bitmask_set msk esi) (D[pS P + pH P + esi := src esi])"
proof -
  have lt: "pS P + pH P + esi < length D" using assms by (auto simp: block_rows_def)
  have "length (D[pS P + pH P + esi := src esi] ! r) = t" if "r < length D" for r
    using assms(1,5) that by (cases "r = pS P + pH P + esi") (auto simp: block_rows_def is_mat_def)
  then show ?thesis using assms(1,2) lt by (auto simp: block_rows_def is_mat_def nth_list_update)
qed

lemma missing_after: "missing_ids (bitmask_set msk e) k \<noteq> [] \<Longrightarrow> missing_ids msk k \<noteq> []"
  by (auto simp: missing_ids_def filter_empty_conv)

lemma add_symbol_rows:
  assumes p: "rq_ok p" and m: "0 < m" "pKprime (rqP p) \<le> m" "m < 2 ^ 24" and f: "length f = oF (common p)"
    and inv: "dec_inv p m f rq io R" and rows: "dec_rows p f rq" and v: "genuine p m f (sbn, esi, d)"
    and r: "nanorq_decoder_add_symbol rq d (nanorq_tag (of_nat sbn) (of_nat esi)) io = Inr (r, rq', io')"
  shows "dec_rows p f rq'"
proof -
  let ?k = "nanorq_block_symbols p sbn" and ?t = "oT (common p)" and ?h = "pS (rqP p) + pH (rqP p)"
  have b: "sbn < nanorq_blocks p" "esi \<le> m" "?t \<le> length d" and em: "emitted p f sbn esi (take ?t d)" using v by (auto simp: genuine_def)
  have "nanorq_blocks p \<le> 256" using rq_ok_symbols(4) [OF p] p by (simp add: rq_ok_def Z_max_def)
  then have tag: "unat (drop_bit 24 (nanorq_tag (of_nat sbn) (of_nat esi)) AND 0xff) = sbn"
      "unat (nanorq_tag (of_nat sbn) (of_nat esi) AND 0x00ffffff) = esi"
    using tag_numbers [of sbn esi] b m(3) by auto
  from dec_rows_get [OF p m(1,2) inv rows b(1)] obtain dec rq1 where g: "get_block_encoder rq sbn = Inr (dec, rq1)"
    "encoders rq1 sbn = Some dec" "dec_inv p m f rq1 io R" "dec_rows p f rq1" "enc_rows p f sbn dec" .
  note e = dec_inv_enc [OF g(3,2)]
  have pr: "par rq1 = p" "max_esi rq1 = m" using g(3) by (auto simp: dec_inv_def)
  have kcap: "?k \<le> mask_cap (repair_mask dec)"
    using rq_ok_symbols(2) [OF p, of sbn] m(2) e(3) by (simp add: nanorq_block_symbols_def)
  note gaps = bitmask_gaps_missing [OF kcap]
  note sp = source_parameters [OF p]
  note call = nanorq_decoder_add_symbol_def [of rq d "nanorq_tag (of_nat sbn) (of_nat esi)" io,
      unfolded Let_def tag g(1) sum.case prod.case pr e(1) gaps]
  let ?mk = "bitmask_set (repair_mask dec) esi"
  consider "missing_ids (repair_mask dec) ?k = [] \<or> esi \<in> mask_set (repair_mask dec)"
    | "missing_ids (repair_mask dec) ?k \<noteq> []" "esi \<notin> mask_set (repair_mask dec)" "esi < ?k"
    | "missing_ids (repair_mask dec) ?k \<noteq> []" "esi \<notin> mask_set (repair_mask dec)" "\<not> esi < ?k" by blast
  then show ?thesis
  proof cases
    case 1
    then have "rq' = rq1" using r b(2) unfolding call by (auto split: if_splits)
    then show ?thesis using g(4) by simp
  next
    case 2
    have sym: "take ?t d = file_symbol p f sbn esi" using em 2(3) by (simp add: emitted_def)
    have src: "block_source p f sbn esi = file_symbol p f sbn esi" "length (file_symbol p f sbn esi) = ?t"
      using 2(3) length_file_symbol [OF p b(1) 2(3) f] by (simp_all add: block_source_def)
    have rq': "rq' = put_encoder rq1 sbn (dec\<lparr>eD := (eD dec)[?h + esi := take ?t d], repair_mask := ?mk\<rparr>)"
      using r 2 b(2,3) unfolding call by (auto simp: put_encoder_def split: if_splits sum.splits)
    have "block_rows (rqP p) ?k ?t (block_source p f sbn) ?mk ((eD dec)[?h + esi := file_symbol p f sbn esi])"
      using g(5) 2(1) block_rows_receive [OF _ 2(3) sp(4,3), of ?t "block_source p f sbn" "repair_mask dec" "eD dec"] src
      by (simp add: enc_rows_def)
    then have "enc_rows p f sbn (dec\<lparr>eD := (eD dec)[?h + esi := take ?t d], repair_mask := ?mk\<rparr>)"
      using g(5) by (simp add: enc_rows_def sym)
    then show ?thesis unfolding rq' by (rule dec_rows_put [OF g(4)])
  next
    case 3
    have rq': "rq' = put_encoder rq1 sbn (dec\<lparr>repair_bin := repair_bin dec @ [(esi, take ?t d)], repair_mask := ?mk\<rparr>)"
      using r 3 b(2,3) unfolding call by (auto simp: put_encoder_def split: if_splits)
    have "block_rows (rqP p) ?k ?t (block_source p f sbn) ?mk (eD dec)"
      using g(5) 3(1,3) by (auto simp: enc_rows_def block_rows_def)
    then have "enc_rows p f sbn (dec\<lparr>repair_bin := repair_bin dec @ [(esi, take ?t d)], repair_mask := ?mk\<rparr>)"
      using g(5) 3(3) em by (auto simp: enc_rows_def)
    then show ?thesis unfolding rq' by (rule dec_rows_put [OF g(4)])
  qed
qed


subsection \<open>The rows that are computed and written\<close>

lemma repair_rows_spec:
  assumes "\<And>g. g \<in> set gs \<Longrightarrow> g \<notin> mask_set msk \<Longrightarrow> decode_row P D (of_nat g) t = Inr (src g)"
  shows "n = length (filter (\<lambda>g. g \<notin> mask_set msk) gs) \<Longrightarrow> row + n \<le> length M \<Longrightarrow>
    repair_rows P D t msk gs row n M = Inr (take row M @ map src (filter (\<lambda>g. g \<notin> mask_set msk) gs) @ drop (row + n) M)"
  using assms
proof (induction gs arbitrary: row n M)
  case (Cons g gs)
  show ?case
  proof (cases "g \<in> mask_set msk")
    case True
    then show ?thesis using Cons by (cases n) auto
  next
    case False
    then obtain n' where n: "n = Suc n'" "n' = length (filter (\<lambda>g. g \<notin> mask_set msk) gs)" using Cons.prems(1) by simp
    have "repair_rows P D t msk gs (row + 1) n' (M[row := src g])
      = Inr (take (row + 1) (M[row := src g]) @ map src (filter (\<lambda>g. g \<notin> mask_set msk) gs) @ drop (row + 1 + n') (M[row := src g]))"
      using Cons.prems n by (intro Cons.IH) auto
    moreover have "take (row + 1) (M[row := src g]) = take row M @ [src g]"
      using Cons.prems(2) n(1) by (simp add: take_Suc_conv_app_nth)
    ultimately show ?thesis using False Cons.prems(3) [of g] n(1) by simp
  qed
qed simp

lemma write_rows_spec:
  assumes p: "rq_ok p" and b: "sbn < nanorq_blocks p" and f: "length f = oF (common p)"
  shows "distinct rs \<Longrightarrow> set rs \<subseteq> {..<nanorq_block_symbols p sbn} \<Longrightarrow>
    M = pre @ map (file_symbol p f sbn) (filter (\<lambda>g. g \<notin> mask_set msk) rs) \<Longrightarrow> io_ready io \<Longrightarrow> io_room io (length f) \<Longrightarrow>
    rio.agrees (io_content io) I f \<Longrightarrow>
    \<exists>msk' io'. write_rows p sbn k M rs (length pre) msk io = Inr (msk', io') \<and> mask_set msk' = mask_set msk \<union> set rs
      \<and> mask_cap msk \<le> mask_cap msk' \<and> io_ready io' \<and> io_room io' (length f)
      \<and> rio.agrees (io_content io') (I \<union> (\<Union>g \<in> set rs - mask_set msk. symbol_bytes p (sbn, g))) f"
proof (induction rs arbitrary: pre msk io I)
  case (Cons g rs)
  note prem = Cons.prems
  have rs: "distinct rs" "set rs \<subseteq> {..<nanorq_block_symbols p sbn}" "g \<notin> set rs" using prem(1,2) by auto
  show ?case
  proof (cases "g \<in> mask_set msk")
    case True
    have M: "M = pre @ map (file_symbol p f sbn) (filter (\<lambda>g. g \<notin> mask_set msk) rs)" using prem(3) True by simp
    have set: "set (g # rs) - mask_set msk = set rs - mask_set msk" "mask_set msk \<union> set (g # rs) = mask_set msk \<union> set rs" using True by auto
    show ?thesis
    proof (cases "length M \<le> length pre")
      case l: True
      then have "filter (\<lambda>g. g \<notin> mask_set msk) rs = []" using M by simp
      then have sub: "set rs \<subseteq> mask_set msk" by (auto simp: filter_empty_conv)
      then have none: "I \<union> (\<Union>g \<in> set rs - mask_set msk. symbol_bytes p (sbn, g)) = I" "mask_set msk \<union> set rs = mask_set msk" by auto
      show ?thesis unfolding set none using l prem(4-6) by simp
    next
      case False
      then show ?thesis using Cons.IH [OF rs(1,2) M prem(4-6)] True unfolding set by simp
    qed
  next
    case False
    let ?sym = "file_symbol p f sbn g"
    have k: "g < nanorq_block_symbols p sbn" using prem(2) by simp
    have M: "M = pre @ ?sym # map (file_symbol p f sbn) (filter (\<lambda>g. g \<notin> mask_set msk) rs)" using prem(3) False by simp
    then have nth: "M ! length pre = ?sym" "\<not> length M \<le> length pre" by simp_all
    obtain io1 where io1: "transfer_esi p sbn g k ?sym io True = Inr (sym_len p sbn g, ?sym, io1)" "io_ready io1" "io_room io1 (length f)"
      "rio.agrees (io_content io1) (I \<union> symbol_bytes p (sbn, g)) f"
      using symbol_written [OF p b k f prem(4-6)] by blast
    have fil: "filter (\<lambda>x. x \<notin> mask_set (bitmask_set msk g)) rs = filter (\<lambda>x. x \<notin> mask_set msk) rs"
      using rs(3) by (intro filter_cong refl) auto
    have M': "M = (pre @ [?sym]) @ map (file_symbol p f sbn) (filter (\<lambda>x. x \<notin> mask_set (bitmask_set msk g)) rs)"
      unfolding fil using M by simp
    from Cons.IH [OF rs(1,2) M' io1(2-4)] obtain msk' io' where
      r: "write_rows p sbn k M rs (length pre + 1) (bitmask_set msk g) io1 = Inr (msk', io')"
        "mask_set msk' = insert g (mask_set msk) \<union> set rs" "mask_cap (bitmask_set msk g) \<le> mask_cap msk'" "io_ready io'" "io_room io' (length f)"
        "rio.agrees (io_content io') (I \<union> symbol_bytes p (sbn, g) \<union> (\<Union>g \<in> set rs - insert g (mask_set msk). symbol_bytes p (sbn, g))) f"
      by auto
    have sets: "I \<union> symbol_bytes p (sbn, g) \<union> (\<Union>g \<in> set rs - insert g (mask_set msk). symbol_bytes p (sbn, g))
        = I \<union> (\<Union>g \<in> set (g # rs) - mask_set msk. symbol_bytes p (sbn, g))" using False rs(3) by auto
    have "write_rows p sbn k M (g # rs) (length pre) msk io = Inr (msk', io')"
      using nth False io1(1) r(1) by simp
    moreover have "mask_set msk' = mask_set msk \<union> set (g # rs)" using r(2) by auto
    ultimately show ?thesis using r(3-6) mask_cap_set [of msk g] unfolding sets by auto
  qed
qed (auto simp: filter_empty_conv)

subsection \<open>Updating a block\<close>

lemma dec_inv_update:
  assumes inv: "dec_inv p m f rq io R" and dec: "encoders rq sbn = Some dec"
    and new: "eK enc = eK dec" "length (eD enc) = length (eD dec)" "mask_cap (repair_mask dec) \<le> mask_cap (repair_mask enc)"
      "mask_set (repair_mask enc) = mask_set (repair_mask dec) \<union> E"
    and io: "io_ready io'" "io_room io' (length f)"
    and ag: "rio.agrees (io_content io') (source_bytes p R \<union> (\<Union>g \<in> {g \<in> E. g < nanorq_block_symbols p sbn}. symbol_bytes p (sbn, g))) f"
  shows "dec_inv p m f (put_encoder rq sbn enc) io' (R \<union> Pair sbn ` E)"
proof -
  note e = dec_inv_enc [OF inv dec]
  have blocks: "case ((encoders rq)(sbn := Some enc)) b of
      None \<Rightarrow> \<forall>esi. (b, esi) \<notin> R \<union> Pair sbn ` E
    | Some enc \<Rightarrow> eK enc = nanorq_block_symbols p b \<and> pL (rqP p) \<le> length (eD enc)
        \<and> m < mask_cap (repair_mask enc) \<and> mask_set (repair_mask enc) = {x. (b, x) \<in> R \<union> Pair sbn ` E}" for b
  proof (cases "b = sbn")
    case True
    then show ?thesis using e new by auto
  next
    case False
    have "case encoders rq b of None \<Rightarrow> \<forall>esi. (b, esi) \<notin> R
      | Some enc \<Rightarrow> eK enc = nanorq_block_symbols p b \<and> pL (rqP p) \<le> length (eD enc)
          \<and> m < mask_cap (repair_mask enc) \<and> mask_set (repair_mask enc) = {esi. (b, esi) \<in> R}"
      using inv unfolding dec_inv_def by blast
    moreover have "(b, x) \<in> R \<union> Pair sbn ` E \<longleftrightarrow> (b, x) \<in> R" for x using False by auto
    ultimately show ?thesis using False by (simp split: option.splits)
  qed
  have "source_bytes p (R \<union> Pair sbn ` E) = source_bytes p R \<union> (\<Union>g \<in> {g \<in> E. g < nanorq_block_symbols p sbn}. symbol_bytes p (sbn, g))" by auto
  then show ?thesis using inv blocks io ag unfolding dec_inv_def put_encoder_def by simp
qed


subsection \<open>Repairing a block\<close>

text \<open>The schedule of a repair, when there is one, has its checkpoints apart.\<close>

definition repair_sound :: "nanorq \<Rightarrow> nat \<Rightarrow> bool" where
  "repair_sound rq sbn \<longleftrightarrow> (\<forall>dec rq1 A0 A S. get_block_encoder rq sbn = Inr (dec, rq1)
     \<longrightarrow> missing_ids (repair_mask dec) (eK dec) \<noteq> []
     \<longrightarrow> precode_matrix_gen (rqP (par rq)) (length (repair_bin dec) - length (missing_ids (repair_mask dec) (eK dec))) = Inr A0
     \<longrightarrow> patch_precode_matrix (rqP (par rq)) A0 (eK dec) (length (missing_ids (repair_mask dec) (eK dec))) (repair_mask dec) (repair_bin dec) = Inr A
     \<longrightarrow> precode_matrix_invert (rqP (par rq)) A = Inr (Some S) \<longrightarrow> marks_apart A S)"

lemma block_rows_filled:
  assumes P: "params_ok P" and k: "k \<le> pKprime P" and n: "length (missing_ids msk k) \<le> length bin"
    and D: "block_rows P k t src msk D" and m: "is_mat (length D) t D'"
    and D': "\<forall>r < length D. D' ! r = (case taken (repaired_rows P k msk (length bin)) 0 r of None \<Rightarrow> D ! r | Some j \<Rightarrow> snd (bin ! j))"
  shows "block_rows P k t src msk D'"
proof -
  note R = repaired_rows_props [OF P k n]
  have L: "pS P + pH P + pKprime P = pL P" using P by (simp add: params_ok_def)
  have len: "length D' = length D" using is_matD(1) [OF m] .
  have kept: "D' ! r = D ! r" if "r < length D" "r \<notin> set (repaired_rows P k msk (length bin))" for r
    using that D' taken_None [of "repaired_rows P k msk (length bin)" 0 r] by simp
  have "D' ! r = replicate t 0" if "r < pS P + pH P" for r
    using kept [of r] R(3) [of r] D L that by (fastforce simp: block_rows_def)
  moreover have "D' ! (pS P + pH P + i) = src i" if i: "i < pKprime P" "i \<in> mask_set msk \<or> k \<le> i" for i
  proof -
    have "pS P + pH P + i \<notin> set (repaired_rows P k msk (length bin))" using i L by (auto simp: repaired_rows_def)
    moreover have "pS P + pH P + i < length D" using D i(1) L by (simp add: block_rows_def)
    moreover have "D ! (pS P + pH P + i) = src i" using D i by (auto simp: block_rows_def)
    ultimately show ?thesis using kept by simp
  qed
  ultimately show ?thesis using D m len by (simp add: block_rows_def)
qed

lemma repair_ok:
  assumes p: "rq_ok p" and m: "0 < m" "pKprime (rqP p) \<le> m" and f: "length f = oF (common p)"
    and inv: "dec_inv p m f rq io R" and rows: "dec_rows p f rq" and b: "sbn < nanorq_blocks p" and s: "repair_sound rq sbn"
  shows "yields (\<lambda>(ok, rq', io'). \<exists>R'. dec_inv p m f rq' io' R' \<and> dec_rows p f rq' \<and> R \<subseteq> R'
      \<and> (ok \<longrightarrow> (\<forall>esi < nanorq_block_symbols p sbn. (sbn, esi) \<in> R'))) (nanorq_repair_block rq io sbn)"
proof -
  let ?P = "rqP p" and ?k = "nanorq_block_symbols p sbn" and ?t = "oT (common p)" and ?src = "block_source p f sbn"
  from dec_rows_get [OF p m inv rows b] obtain dec rq1 where g: "get_block_encoder rq sbn = Inr (dec, rq1)"
    "encoders rq1 sbn = Some dec" "dec_inv p m f rq1 io R" "dec_rows p f rq1" "enc_rows p f sbn dec" .
  note e = dec_inv_enc [OF g(3,2)] and sp = source_parameters [OF p]
  have pr: "par rq1 = p" "par rq = p" "io_ready io" "io_room io (length f)" "rio.agrees (io_content io) (source_bytes p R) f"
    using g(3) inv by (auto simp: dec_inv_def)
  let ?msk = "repair_mask dec" and ?bin = "repair_bin dec"
  let ?gs = "missing_ids ?msk ?k" and ?ov = "length ?bin - length (missing_ids ?msk ?k)"
  have kcap: "?k \<le> mask_cap ?msk" using sp(4) [of sbn] m(2) e(3) by simp
  note gaps = bitmask_gaps_missing [OF kcap]
  let ?Q = "\<lambda>(ok, rq', io'). \<exists>R'. dec_inv p m f rq' io' R' \<and> dec_rows p f rq' \<and> R \<subseteq> R' \<and> (ok \<longrightarrow> (\<forall>esi < ?k. (sbn, esi) \<in> R'))"
  have stay: "?Q (False, rq1, io)" using g(3,4) by auto
  note call = nanorq_repair_block_def [of rq io sbn, unfolded Let_def g(1) rbind_simps prod.case pr(1) e(1) gaps]
  consider "?gs = []" | "?gs \<noteq> []" "length ?bin < length ?gs \<or> length (eD dec) < pL ?P + ?ov"
    | "?gs \<noteq> []" "length ?gs \<le> length ?bin" "pL ?P + ?ov \<le> length (eD dec)" by linarith
  then show ?thesis
  proof cases
    case 1
    then have "esi \<in> mask_set ?msk" if "esi < ?k" for esi using that by (auto simp: missing_ids_def filter_empty_conv)
    then have "\<forall>esi < ?k. (sbn, esi) \<in> R" using e(4) by auto
    then show ?thesis unfolding call using 1 g(3,4) by auto
  next
    case 2
    then show ?thesis unfolding call using stay by (auto simp: not_less)
  next
    case 3
    have kK: "?k \<le> pKprime ?P" by (rule sp(4))
    have br: "block_rows ?P ?k ?t ?src ?msk (eD dec)" using g(5) 3(1) by (simp add: enc_rows_def)
    have em: "\<forall>(e, d) \<in> set ?bin. ?k \<le> e \<and> emitted p f sbn e d" using g(5) by (simp add: enc_rows_def)
    have "?bin \<noteq> []" using 3(1,2) by auto
    then obtain e0 d0 where "(e0, d0) \<in> set ?bin" by (cases ?bin) auto
    then obtain S0 C where C: "block_schedule ?P S0" "intermediate_of ?P ?t ?src C" using em by (fastforce simp: emitted_def)
    have bin: "\<forall>(e, d) \<in> set ?bin. d = coded_symbol ?P C (of_nat (e + (pKprime ?P - ?k))) ?t"
    proof safe
      fix e d assume "(e, d) \<in> set ?bin"
      then have "?k \<le> e" "emitted p f sbn e d" using em by auto
      then obtain C' where "intermediate_of ?P ?t ?src C'" "d = coded_symbol ?P C' (of_nat (e + (pKprime ?P - ?k))) ?t"
        by (auto simp: emitted_def)
      then show "d = coded_symbol ?P C (of_nat (e + (pKprime ?P - ?k))) ?t" using intermediate_unique [OF sp(1) C(1)] C(2) by blast
    qed
    from filled_matrix [OF sp(2) kK 3(2,3)] obtain D where D: "fill_symbol_matrix_gaps ?P (eD dec) ?k ?msk ?bin = Inr D"
      "length D = length (eD dec)"
      "\<forall>r < length (eD dec). D ! r = (case taken (repaired_rows ?P ?k ?msk (length ?bin)) 0 r of None \<Rightarrow> eD dec ! r | Some j \<Rightarrow> snd (?bin ! j))"
      by blast
    from patched_matrix [OF sp(1) kK 3(2)] obtain A0 A where A: "precode_matrix_gen ?P ?ov = Inr A0"
      "patch_precode_matrix ?P A0 ?k (length ?gs) ?msk ?bin = Inr A" "rows_of ?P (pL ?P + ?ov) (row_id ?P ?k ?msk ?bin) A" by blast
    note ps = patched_system [OF sp(2) kK 3(2) br 3(3) C(2) bin A(3) D(2,3)]
    have ok: "matrix_ok ?P A" "1 < pH ?P" using rows_of_ok [OF sp(1) A(3)] sp(1) by (simp_all add: gen_ok_def)
    have rA: "sp_rows A = pL ?P + ?ov" using A(3) by (simp add: rows_of_def)
    show ?thesis
    proof (cases "precode_matrix_invert ?P A")
      case (Inl x)
      then have "x = Aborted" using invert_spec [OF ok] by simp
      then show ?thesis unfolding call using 3 D(1) A(1,2) Inl by simp
    next
      case (Inr So)
      show ?thesis
      proof (cases So)
        case None
        have "enc_rows p f sbn (dec\<lparr>eD := D\<rparr>)"
          using g(5) block_rows_filled [OF sp(2) kK 3(2) br ps(1) D(3)] by (simp add: enc_rows_def)
        then have r2: "dec_rows p f (put_encoder rq1 sbn (dec\<lparr>eD := D\<rparr>))" by (rule dec_rows_put [OF g(4)])
        have "dec_inv p m f (put_encoder rq1 sbn (dec\<lparr>eD := D\<rparr>)) io (R \<union> Pair sbn ` {})"
          by (rule dec_inv_update [OF g(3,2)]) (use D(2) pr in simp_all)
        then have "?Q (False, put_encoder rq1 sbn (dec\<lparr>eD := D\<rparr>), io)" using r2 by auto
        then show ?thesis unfolding call using 3 D(1) A(1,2) Inr None by simp
      next
        case (Some S)
        have ap: "marks_apart A S" using s g(1) 3(1) A(1,2) Inr Some unfolding repair_sound_def pr(2) by (simp add: e(1))
        obtain ops1 rest ops3 where sch: "solution_schedule ?P A S ops1 rest ops3" using invert_spec [OF ok] Inr Some by auto
        let ?dec = "dec\<lparr>eD := D\<rparr>"
        have mo: "om_data (matrix_of rq1 ?dec) = D" "om_cols (matrix_of rq1 ?dec) = ?t" by (simp_all add: matrix_of_def pr(1))
        obtain D2 where D2: "precode_matrix_intermediate (matrix_of rq1 ?dec) S = Inr D2" "is_mat (length (eD dec)) ?t (om_data D2)"
          "\<forall>c < pL ?P. \<forall>x < ?t. om_data D2 ! c ! x = C c x"
          using intermediate_spec [OF ok(1) sch ap, of "length (eD dec)" ?t "matrix_of rq1 ?dec" C] ps mo rA 3(3) by auto
        have row: "decode_row ?P (om_data D2) (of_nat i) ?t = Inr (file_symbol p f sbn i)" if i: "i < ?k" for i
        proof -
          have "decode_row ?P (om_data D2) (of_nat i) ?t = Inr (coded_symbol ?P C (of_nat i) ?t)"
            using decode_row_coded [OF sp(2) D2(2), of C] 3(3) D2(3) by simp
          moreover have "coded_symbol ?P C (of_nat i) ?t = ?src i"
            using coded_source [OF C(2), of i] i kK length_file_symbol [OF p b i f] by (simp add: block_source_def)
          ultimately show ?thesis using i by (simp add: block_source_def)
        qed
        let ?M = "map (file_symbol p f sbn) ?gs"
        have M: "decode_repair_rows ?P (om_data D2) ?t ?k (length ?gs) ?msk = Inr ?M"
          using repair_rows_spec [of "[0..<?k]" ?msk ?P "om_data D2" ?t "file_symbol p f sbn" "length ?gs" 0
              "replicate (length ?gs) (replicate ?t 0)"] row
          by (simp add: decode_repair_rows_def missing_ids_def)
        have "\<exists>msk' io'. write_rows p sbn ?k ?M [0..<?k] (length ([] :: bytes list)) ?msk io = Inr (msk', io') \<and> mask_set msk' = mask_set ?msk \<union> set [0..<?k]
            \<and> mask_cap ?msk \<le> mask_cap msk' \<and> io_ready io' \<and> io_room io' (length f)
            \<and> rio.agrees (io_content io') (source_bytes p R \<union> (\<Union>g \<in> set [0..<?k] - mask_set ?msk. symbol_bytes p (sbn, g))) f"
          by (rule write_rows_spec [OF p b f _ _ _ pr(3-5), where pre = "[]" and msk = "repair_mask dec"])
            (auto simp: missing_ids_def)
        then obtain msk' io' where w: "write_repair_rows p sbn ?k io ?M ?msk = Inr (msk', io')" "mask_set msk' = mask_set ?msk \<union> {..<?k}"
          "mask_cap ?msk \<le> mask_cap msk'" "io_ready io'" "io_room io' (length f)"
          "rio.agrees (io_content io') (source_bytes p R \<union> (\<Union>g \<in> {..<?k} - mask_set ?msk. symbol_bytes p (sbn, g))) f"
          by (auto simp: write_repair_rows_def lessThan_atLeast0)
        let ?new = "?dec\<lparr>eD := om_data D2, repair_mask := msk'\<rparr>"
        let ?rq = "put_encoder rq1 sbn ?new"
        have none: "missing_ids msk' ?k = []" using w(2) by (auto simp: missing_ids_def filter_empty_conv)
        have "enc_rows p f sbn ?new" using g(5) none by (simp add: enc_rows_def)
        then have r2: "dec_rows p f ?rq" by (rule dec_rows_put [OF g(4)])
        have old: "symbol_bytes p (sbn, g) \<subseteq> source_bytes p R" if "g < ?k" "g \<in> mask_set ?msk" for g
          using that e(4) by auto
        have cover: "source_bytes p R \<union> (\<Union>g \<in> {..<?k} - mask_set ?msk. symbol_bytes p (sbn, g))
            = source_bytes p R \<union> (\<Union>g \<in> {g. g < ?k}. symbol_bytes p (sbn, g))"
          using old by fastforce
        have i2: "dec_inv p m f ?rq io' (R \<union> Pair sbn ` {..<?k})"
          by (rule dec_inv_update [OF g(3,2)])
            (use w(2-5) w(6) [unfolded cover] is_matD(1) [OF D2(2)] in simp_all)
        have cap': "?k \<le> mask_cap msk'" using kcap w(3) by simp
        have "nanorq_num_missing ?rq sbn = Inr (0, ?rq)"
          using bitmask_gaps_missing [OF cap'] none by (simp add: nanorq_num_missing_def get_block_encoder_def e(1))
        then have "nanorq_repair_block rq io sbn = Inr (True, ?rq, io')"
          unfolding call using 3 D(1) A(1,2) Inr Some D2(1) M w(1) by (simp add: pr(1))
        moreover have "?Q (True, ?rq, io')" using i2 r2 by auto
        ultimately show ?thesis by simp
      qed
    qed
  qed
qed

end
