(* ===== verification/Fountain.thy ===== *)
theory Fountain
  imports Repair
begin

section \<open>From the sender's file to the receiver's file\<close>

text \<open>
  The two ends put together: the sender answers requests for symbols (\<open>encode_all\<close>), the receiver is handed
  some of the answers, in any order, again and again or never, and tries to repair blocks in between
  (\<open>run_decoder\<close>). What it has written when every block is complete is the sender's file.
\<close>

datatype event = Received nat nat bytes | Repaired nat

datatype outcome = Symbol_Code int | Repair_Flag bool

fun run_decoder :: "nanorq \<Rightarrow> ioctx \<Rightarrow> event list \<Rightarrow> (outcome list \<times> nanorq \<times> ioctx) result" where
  "run_decoder rq io [] = Inr ([], rq, io)"
| "run_decoder rq io (Received sbn esi d # es) =
     rbind (nanorq_decoder_add_symbol rq d (nanorq_tag (of_nat sbn) (of_nat esi)) io) (\<lambda>(r, rq, io).
     rbind (run_decoder rq io es) (\<lambda>(os, x). Inr (Symbol_Code r # os, x)))"
| "run_decoder rq io (Repaired sbn # es) =
     rbind (nanorq_repair_block rq io sbn) (\<lambda>(ok, rq, io).
     rbind (run_decoder rq io es) (\<lambda>(os, x). Inr (Repair_Flag ok # os, x)))"

text \<open>Every repair of the run has its checkpoints apart.\<close>

fun run_sound :: "nanorq \<Rightarrow> ioctx \<Rightarrow> event list \<Rightarrow> bool" where
  "run_sound rq io [] = True"
| "run_sound rq io (Received sbn esi d # es) =
     (\<forall>r rq' io'. nanorq_decoder_add_symbol rq d (nanorq_tag (of_nat sbn) (of_nat esi)) io = Inr (r, rq', io') \<longrightarrow> run_sound rq' io' es)"
| "run_sound rq io (Repaired sbn # es) =
     (repair_sound rq sbn \<and> (\<forall>ok rq' io'. nanorq_repair_block rq io sbn = Inr (ok, rq', io') \<longrightarrow> run_sound rq' io' es))"

definition event_ok :: "nanorq_params \<Rightarrow> nat \<Rightarrow> bytes \<Rightarrow> event \<Rightarrow> bool" where
  "event_ok p m f e = (case e of Received sbn esi d \<Rightarrow> genuine p m f (sbn, esi, d) | Repaired sbn \<Rightarrow> sbn < nanorq_blocks p)"

text \<open>What an event with its outcome says of the set \<open>R\<close> of symbols the decoder has.\<close>

definition credited :: "nanorq_params \<Rightarrow> (nat \<times> nat) set \<Rightarrow> event \<Rightarrow> outcome \<Rightarrow> bool" where
  "credited p R e x = (case e of
     Received sbn esi d \<Rightarrow> x \<noteq> Symbol_Code NANORQ_SYM_ERR \<and> (esi < nanorq_block_symbols p sbn \<longrightarrow> (sbn, esi) \<in> R)
   | Repaired sbn \<Rightarrow> (\<exists>b. x = Repair_Flag b) \<and> (x = Repair_Flag True \<longrightarrow> (\<forall>esi < nanorq_block_symbols p sbn. (sbn, esi) \<in> R)))"

lemma credited_simps [simp]:
  "credited p R (Received sbn esi d) x \<longleftrightarrow> x \<noteq> Symbol_Code NANORQ_SYM_ERR \<and> (esi < nanorq_block_symbols p sbn \<longrightarrow> (sbn, esi) \<in> R)"
  "credited p R (Repaired sbn) x \<longleftrightarrow>
     (\<exists>b. x = Repair_Flag b) \<and> (x = Repair_Flag True \<longrightarrow> (\<forall>esi < nanorq_block_symbols p sbn. (sbn, esi) \<in> R))"
  by (simp_all add: credited_def)

lemma credited_mono: "credited p R e x \<Longrightarrow> R \<subseteq> R' \<Longrightarrow> credited p R' e x"
  by (auto simp: credited_def split: event.splits)

lemma run_decoder_ok:
  assumes p: "rq_ok p" and m: "0 < m" "pKprime (rqP p) \<le> m" "m < 2 ^ 24" and f: "length f = oF (common p)"
  shows "dec_inv p m f rq io R \<Longrightarrow> dec_rows p f rq \<Longrightarrow> list_all (event_ok p m f) es \<Longrightarrow> run_sound rq io es \<Longrightarrow>
    yields (\<lambda>(xs, rq', io'). \<exists>R'. dec_inv p m f rq' io' R' \<and> dec_rows p f rq' \<and> R \<subseteq> R' \<and> list_all2 (credited p R') es xs)
      (run_decoder rq io es)"
proof (induction es arbitrary: rq io R)
  case Nil
  then show ?case by auto
next
  case (Cons e es)
  have es: "list_all (event_ok p m f) es" and e: "event_ok p m f e" using Cons.prems(3) by simp_all
  let ?Q = "\<lambda>R (xs, rq', io'). \<exists>R'. dec_inv p m f rq' io' R' \<and> dec_rows p f rq' \<and> R \<subseteq> R' \<and> list_all2 (credited p R') es xs"
  have step: "yields (\<lambda>(xs, rq', io'). \<exists>R'. dec_inv p m f rq' io' R' \<and> dec_rows p f rq' \<and> R \<subseteq> R' \<and> list_all2 (credited p R') (e # es) xs)
      (rbind (run_decoder rq1 io1 es) (\<lambda>(os, x). Inr (y # os, x)))"
    if "dec_inv p m f rq1 io1 R1" "dec_rows p f rq1" "R \<subseteq> R1" "run_sound rq1 io1 es" "credited p R1 e y" for rq1 io1 R1 y
  proof (rule yields_rbind [OF Cons.IH [OF that(1,2) es that(4)]])
    fix x :: "outcome list \<times> nanorq \<times> ioctx"
    obtain xs rq2 io2 where x: "x = (xs, rq2, io2)" by (cases x) auto
    assume "?Q R1 x"
    then obtain R' where "dec_inv p m f rq2 io2 R'" "dec_rows p f rq2" "R1 \<subseteq> R'" "list_all2 (credited p R') es xs" by (auto simp: x)
    with that(3) credited_mono [OF that(5), of R'] show "yields (\<lambda>(xs, rq', io'). \<exists>R'. dec_inv p m f rq' io' R' \<and> dec_rows p f rq'
        \<and> R \<subseteq> R' \<and> list_all2 (credited p R') (e # es) xs) (case x of (os, x) \<Rightarrow> Inr (y # os, x))"
      by (auto simp: x)
  qed
  show ?case
  proof (cases e)
    case (Received sbn esi d)
    have v: "genuine p m f (sbn, esi, d)" using e Received by (simp add: event_ok_def)
    obtain r rq1 io1 R1 where one: "nanorq_decoder_add_symbol rq d (nanorq_tag (of_nat sbn) (of_nat esi)) io = Inr (r, rq1, io1)"
        "r \<noteq> NANORQ_SYM_ERR" "dec_inv p m f rq1 io1 R1" "R \<subseteq> R1" "esi < nanorq_block_symbols p sbn \<longrightarrow> (sbn, esi) \<in> R1"
      using add_symbol_inv [OF p m f Cons.prems(1) genuine_valid [OF v]] by blast
    have "dec_rows p f rq1" using add_symbol_rows [OF p m f Cons.prems(1,2) v one(1)] .
    then show ?thesis
      using step [OF one(3) _ one(4), of "Symbol_Code r"] one(1,2,5) Cons.prems(4) by (simp add: Received)
  next
    case (Repaired sbn)
    have b: "sbn < nanorq_blocks p" using e Repaired by (simp add: event_ok_def)
    have s: "repair_sound rq sbn" using Cons.prems(4) Repaired by simp
    show ?thesis
    proof (cases "nanorq_repair_block rq io sbn")
      case (Inl x)
      then show ?thesis using repair_ok [OF p m(1,2) f Cons.prems(1,2) b s] by (simp add: Repaired)
    next
      case (Inr x)
      obtain ok rq1 io1 where x: "x = (ok, rq1, io1)" by (cases x) auto
      obtain R1 where r: "dec_inv p m f rq1 io1 R1" "dec_rows p f rq1" "R \<subseteq> R1"
        "ok \<longrightarrow> (\<forall>esi < nanorq_block_symbols p sbn. (sbn, esi) \<in> R1)"
        using repair_ok [OF p m(1,2) f Cons.prems(1,2) b s] Inr x by auto
      show ?thesis using step [OF r(1-3), of "Repair_Flag ok"] r(4) Cons.prems(4) Inr x by (simp add: Repaired)
    qed
  qed
qed

text \<open>What the sender answers is genuine at the receiver.\<close>

lemma length_emitted:
  assumes "rq_ok p" and "sbn < nanorq_blocks p" and "length f = oF (common p)" and "emitted p f sbn esi d"
  shows "length d = oT (common p)"
  using assms length_file_symbol [OF assms(1,2) _ assms(3), of esi] by (auto simp: emitted_def coded_symbol_def split: if_splits)

definition sent :: "(nat \<times> nat) list \<Rightarrow> (nat \<times> bytes) list \<Rightarrow> nat \<Rightarrow> nat \<Rightarrow> bytes \<Rightarrow> bool" where
  "sent reqs outs sbn esi d \<longleftrightarrow> (\<exists>n > 0. ((sbn, esi), (n, d)) \<in> set (zip reqs outs))"

lemma sent_genuine:
  assumes p: "rq_ok p" and f: "length f = oF (common p)" and a: "list_all2 (answered p f) reqs outs"
    and b: "\<forall>(sbn, esi) \<in> set reqs. sbn < nanorq_blocks p" and s: "sent reqs outs sbn esi d" and m: "esi \<le> m"
  shows "genuine p m f (sbn, esi, d)"
proof -
  obtain n where n: "0 < n" "((sbn, esi), (n, d)) \<in> set (zip reqs outs)" using s by (auto simp: sent_def)
  have "answered p f (sbn, esi) (n, d)" using a n(2) by (auto simp: list_all2_iff)
  then have em: "emitted p f sbn esi d" using n(1) by (auto simp: answered_def)
  have sbn: "sbn < nanorq_blocks p" using b set_zip_leftD [OF n(2)] by auto
  show ?thesis using em sbn m length_emitted [OF p sbn f em] by (simp add: genuine_def)
qed

text \<open>The file is complete once every block is.\<close>

lemma complete_file:
  assumes p: "rq_ok p" and f: "length f = oF (common p)" and inv: "dec_inv p m f rq io R"
    and all: "\<forall>sbn < nanorq_blocks p. \<forall>esi < nanorq_block_symbols p sbn. (sbn, esi) \<in> R"
  shows "io_content io = f"
proof -
  have "rio.agrees (io_content io) (source_bytes p R) f" using inv by (simp add: dec_inv_def)
  moreover have "i \<in> source_bytes p R" if i: "i < length f" for i
  proof -
    obtain sbn esi where s: "sbn < nanorq_blocks p" "esi < nanorq_block_symbols p sbn" "i \<in> symbol_bytes p (sbn, esi)"
      using symbols_cover [OF p] i unfolding f by blast
    with all show ?thesis by (intro UN_I [of "(sbn, esi)"]) simp_all
  qed
  ultimately show ?thesis by (intro rio.agrees_all) auto
qed

definition fresh_file :: ioctx where
  "fresh_file = File \<lparr>f_bytes = [], f_pos = 0, f_writable = True\<rparr>"

lemma dec_inv_fresh: "dec_inv p m f (nanorq_init p m) fresh_file {}"
  by (simp add: dec_inv_def nanorq_init_def fresh_file_def rio.agrees_def)


subsection \<open>A transfer without losses\<close>

definition received :: "nat \<times> nat \<times> bytes \<Rightarrow> event" where
  "received s = (case s of (sbn, esi, d) \<Rightarrow> Received sbn esi d)"

lemma run_received:
  "feed_symbols rq io ss = Inr (rs, rq', io') \<Longrightarrow> run_decoder rq' io' es = Inr (xs, rq2, io2) \<Longrightarrow>
    run_decoder rq io (map received ss @ es) = Inr (map Symbol_Code rs @ xs, rq2, io2)"
  by (induction ss arbitrary: rq io rs) (auto simp: received_def split: sum.splits)

lemma run_sound_received:
  "feed_symbols rq io ss = Inr (rs, rq', io') \<Longrightarrow> run_sound rq' io' es \<Longrightarrow> run_sound rq io (map received ss @ es)"
  by (induction ss arbitrary: rq io rs) (auto simp: received_def split: sum.splits)

text \<open>Repairing a complete block does nothing.\<close>

lemma repair_complete:
  assumes p: "rq_ok p" and m: "0 < m" "pKprime (rqP p) \<le> m" and inv: "dec_inv p m f rq io R"
    and all: "\<forall>esi < nanorq_block_symbols p sbn. (sbn, esi) \<in> R"
  shows "repair_sound rq sbn" and "\<exists>rq1. nanorq_repair_block rq io sbn = Inr (True, rq1, io) \<and> dec_inv p m f rq1 io R"
proof -
  obtain dec rq1 where g: "get_block_encoder rq sbn = Inr (dec, rq1)" "encoders rq1 sbn = Some dec" "dec_inv p m f rq1 io R"
    using get_encoder_inv [OF p m inv] .
  note e = dec_inv_enc [OF g(3,2)]
  have none: "missing_ids (repair_mask dec) (eK dec) = []" using e(1,4) all by (auto simp: missing_ids_def filter_empty_conv)
  have "eK dec \<le> mask_cap (repair_mask dec)" using source_parameters(4) [OF p, of sbn] m(2) e(1,3) by simp
  note gaps = bitmask_gaps_missing [OF this]
  show "repair_sound rq sbn" using g(1) none by (simp add: repair_sound_def)
  show "\<exists>rq1. nanorq_repair_block rq io sbn = Inr (True, rq1, io) \<and> dec_inv p m f rq1 io R"
    using g(1,3) none gaps by (simp add: nanorq_repair_block_def)
qed

lemma zip_answers: "zip xs (map h xs) = map (\<lambda>x. (x, h x)) xs"
  by (induction xs) simp_all


end
