(* ===== verification/Transmitter.thy ===== *)
theory Transmitter
  imports Fountain Packets
begin

section \<open>The transmitter (transmitter.c)\<close>

text \<open>
  The program that sends a file until its symbol numbers run out. What it hands to the channel is the list
  of its calls of \<open>write_buffer\<close> or \<open>tcp_interface_send_kiss\<close>, frame by frame. The flag \<open>running\<close> is cleared for
  good by a signal handler at an unknown moment: \<open>n\<close> is the number of times the loops still read it as
  true. The main lemma is the transmission plan: a configuration frame, then the next symbol of every
  block, round after round.
\<close>

datatype output_mode = OUTPUT_SHM | OUTPUT_TCP

datatype tx_call = Write_Buffer bytes | Send_Kiss bytes

record transmitter =
  tx_rq :: nanorq
  tx_io :: ioctx
  tx_esi :: "nat list"
  tx_mode :: output_mode
  tx_frame_size :: nat
  tx_config :: bytes
  tx_config_packets :: u64
  tx_payload_packets :: u64

subsection \<open>Sending a frame\<close>

definition write_frame :: "output_mode \<Rightarrow> bytes \<Rightarrow> tx_call" where
  "write_frame mode data = (case mode of OUTPUT_SHM \<Rightarrow> Write_Buffer data | OUTPUT_TCP \<Rightarrow> Send_Kiss data)"

text \<open>\<open>write_esi\<close>: a symbol that is not encoded in full makes the program abort.\<close>

definition write_esi :: "transmitter \<Rightarrow> nat \<Rightarrow> nat \<Rightarrow> (tx_call list \<times> transmitter) result" where
  "write_esi tx sbn esi =
     rbind (nanorq_encode (tx_rq tx) esi sbn (tx_io tx)) (\<lambda>(written, data, rq, io).
       if written \<noteq> nanorq_symbol_size (par (tx_rq tx)) then Inl Aborted
       else Inr ([write_frame (tx_mode tx) (payload_frame (of_nat sbn) (of_nat esi) data)],
         tx\<lparr>tx_rq := rq, tx_io := io, tx_payload_packets := tx_payload_packets tx + 1\<rparr>))"

definition write_configuration_packet :: "transmitter \<Rightarrow> (tx_call list \<times> transmitter) result" where
  "write_configuration_packet tx =
     rbind (case tx_mode tx of
              OUTPUT_SHM \<Rightarrow> Inr (map Write_Buffer (config_blocks_shm (tx_config tx) (tx_frame_size tx)))
            | OUTPUT_TCP \<Rightarrow> rbind (config_frame_tcp (tx_config tx) (tx_frame_size tx)) (\<lambda>d. Inr [Send_Kiss d])) (\<lambda>cs.
       Inr (cs, tx\<lparr>tx_config_packets := tx_config_packets tx + 1\<rparr>))"

text \<open>The loop over the blocks: the answer, a list of calls for every frame, and the reads of \<open>running\<close> left.\<close>

fun write_blocks :: "transmitter \<Rightarrow> nat list \<Rightarrow> nat \<Rightarrow> (bool \<times> tx_call list list \<times> transmitter \<times> nat) result" where
  "write_blocks tx [] n = Inr (True, [], tx, n)"
| "write_blocks tx (sbn # sbns) 0 = Inr (True, [], tx, 0)"
| "write_blocks tx (sbn # sbns) (Suc n) =
     rbind (write_esi tx sbn (tx_esi tx ! sbn)) (\<lambda>(c, tx).
       let e = tx_esi tx ! sbn + 1; tx = tx\<lparr>tx_esi := (tx_esi tx)[sbn := e]\<rparr>
       in if 65535 < e then Inr (False, [c], tx, n)
          else rbind (write_blocks tx sbns n) (\<lambda>(ok, cs, tx, n). Inr (ok, c # cs, tx, n)))"

definition write_interleaved_block_packets :: "transmitter \<Rightarrow> nat \<Rightarrow> (bool \<times> tx_call list list \<times> transmitter \<times> nat) result" where
  "write_interleaved_block_packets tx n = write_blocks tx [0..<nanorq_blocks (par (tx_rq tx))] n"

lemma write_blocks_reads: "write_blocks tx sbns n = Inr (ok, cs, tx', n') \<Longrightarrow> n' \<le> n"
  by (induction tx sbns n arbitrary: ok cs tx' n' rule: write_blocks.induct) (fastforce simp: Let_def split: if_splits)+

text \<open>\<open>while (running)\<close>.\<close>

function transmit :: "transmitter \<Rightarrow> nat \<Rightarrow> (tx_call list list \<times> transmitter) result" where
  "transmit tx 0 = Inr ([], tx)"
| "transmit tx (Suc n) =
     (case write_configuration_packet tx of
        Inl e \<Rightarrow> Inl e
      | Inr (c, tx) \<Rightarrow>
          (case write_interleaved_block_packets tx n of
             Inl e \<Rightarrow> Inl e
           | Inr (ok, cs, tx, n) \<Rightarrow>
               if \<not> ok then Inr (c # cs, tx)
               else rbind (transmit tx n) (\<lambda>(ds, tx). Inr (c # cs @ ds, tx))))"
  by pat_completeness auto
termination
  by (relation "measure snd") (auto simp: write_interleaved_block_packets_def less_Suc_eq_le dest: write_blocks_reads)

subsection \<open>Starting\<close>

text \<open>
  \<open>main\<close> up to the loop, after the arguments have been read: \<open>myio\<close> is what \<open>ioctx_from_file\<close> returns, the
  output interface is connected. \<open>None\<close>: the program leaves with an error. The symbol size is computed in 32 bits
  and passed in 16.
\<close>

fun generate_all :: "nanorq \<Rightarrow> ioctx \<Rightarrow> nat list \<Rightarrow> (nanorq \<times> ioctx) result" where
  "generate_all rq io [] = Inr (rq, io)"
| "generate_all rq io (b # bs) = rbind (nanorq_generate_symbols rq b io) (\<lambda>(_, rq, io). generate_all rq io bs)"

definition transmitter_start :: "output_mode \<Rightarrow> int \<Rightarrow> ioctx option \<Rightarrow> transmitter option result" where
  "transmitter_start mode mod_mode myio =
     (let max_mode = (case mode of OUTPUT_TCP \<Rightarrow> HERMES_MODE_MAX | OUTPUT_SHM \<Rightarrow> MERCURY_MODE_MAX);
          frame_sizes = (case mode of OUTPUT_TCP \<Rightarrow> hermes_frame_size | OUTPUT_SHM \<Rightarrow> mercury_frame_size)
      in if mod_mode < 0 \<or> int max_mode < mod_mode then Inr None
         else case myio of
           None \<Rightarrow> Inr None
         | Some io \<Rightarrow>
             let filesize = io_size io
             in if 16777215 < filesize then Inr None
                else let frame_size = frame_sizes ! nat mod_mode;
                         packet_size = unat (of_nat frame_size - of_nat RQ_HEADER_SIZE :: u32)
                     in case nanorq_encoder_new filesize (packet_size mod 65536) 1 of
                          None \<Rightarrow> Inl Diverges
                        | Some (Inl e) \<Rightarrow> Inl e
                        | Some (Inr None) \<Rightarrow> Inr None
                        | Some (Inr (Some p)) \<Rightarrow>
                            let rq = snd (nanorq_set_max_esi (nanorq_init p 0) MAX_ESI)
                            in rbind (generate_all rq io [0..<nanorq_blocks p]) (\<lambda>(rq, io).
                                 Inr (Some \<lparr>tx_rq = rq, tx_io = io, tx_esi = replicate (nanorq_blocks p) 0, tx_mode = mode,
                                   tx_frame_size = frame_size, tx_config = configuration_packet p,
                                   tx_config_packets = 0, tx_payload_packets = 0\<rparr>)))"

subsection \<open>The plan\<close>

text \<open>Frame \<open>i\<close> of the transmission over \<open>Z\<close> blocks: the configuration or symbol \<open>esi\<close> of block \<open>sbn\<close>.\<close>

definition tx_item :: "nat \<Rightarrow> nat \<Rightarrow> (nat \<times> nat) option" where
  "tx_item Z i = (if i mod (Z + 1) = 0 then None else Some (i mod (Z + 1) - 1, i div (Z + 1)))"

definition plan_length :: "nat \<Rightarrow> nat" where
  "plan_length Z = 65535 * (Z + 1) + 2"

text \<open>The calls are those for one item: a frame of \<open>fs\<close> bytes, in one call but for the shared-memory configuration.\<close>

definition sends :: "nanorq_params \<Rightarrow> bytes \<Rightarrow> output_mode \<Rightarrow> nat \<Rightarrow> (nat \<times> nat) option \<Rightarrow> tx_call list \<Rightarrow> bool" where
  "sends p f mode fs it cs = (case it of
     None \<Rightarrow> (case mode of
         OUTPUT_SHM \<Rightarrow> cs = map Write_Buffer (config_blocks_shm (configuration_packet p) fs)
       | OUTPUT_TCP \<Rightarrow> cs = [Send_Kiss (blit (replicate fs 0) 0 (configuration_packet p))])
   | Some (sbn, esi) \<Rightarrow> \<exists>d. emitted p f sbn esi d \<and> cs = [write_frame mode (payload_frame (of_nat sbn) (of_nat esi) d)])"

lemma tx_item_round:
  "tx_item Z (r * (Z + 1)) = None" "b < Z \<Longrightarrow> tx_item Z (r * (Z + 1) + 1 + b) = Some (b, r)"
proof -
  show "tx_item Z (r * (Z + 1)) = None" by (simp only: tx_item_def mod_mult_self2_is_0 refl if_True)
  assume b: "b < Z"
  have eq: "r * (Z + 1) + 1 + b = (1 + b) + r * (Z + 1)" by simp
  have "(r * (Z + 1) + 1 + b) mod (Z + 1) = 1 + b"
    unfolding eq mod_mult_self1 using b by (intro mod_less) simp
  moreover have "(r * (Z + 1) + 1 + b) div (Z + 1) = r"
    unfolding eq using b by (subst div_mult_self1) simp_all
  ultimately show "tx_item Z (r * (Z + 1) + 1 + b) = Some (b, r)" by (simp add: tx_item_def)
qed

lemma plan_round:
  assumes "k \<le> Z"
  shows "map (tx_item Z) [r * (Z + 1)..<r * (Z + 1) + 1 + k] = None # map (\<lambda>b. Some (b, r)) [0..<k]"
  using assms
proof (induction k)
  case 0
  then show ?case using tx_item_round(1) [of Z r] by simp
next
  case (Suc k)
  have "[r * (Z + 1)..<r * (Z + 1) + 1 + Suc k] = [r * (Z + 1)..<r * (Z + 1) + 1 + k] @ [r * (Z + 1) + 1 + k]" by simp
  with Suc tx_item_round(2) [of k Z r] show ?case by simp
qed

text \<open>The state before block \<open>j\<close> of round \<open>r\<close>.\<close>

definition tx_at :: "nanorq_params \<Rightarrow> bytes \<Rightarrow> output_mode \<Rightarrow> nat \<Rightarrow> nat \<Rightarrow> nat \<Rightarrow> transmitter \<Rightarrow> bool" where
  "tx_at p f mode fs r j tx \<longleftrightarrow> enc_inv p f (tx_rq tx) \<and> file_io f (tx_io tx)
     \<and> tx_esi tx = map (\<lambda>b. if b < j then r + 1 else r) [0..<nanorq_blocks p]
     \<and> tx_mode tx = mode \<and> tx_frame_size tx = fs \<and> tx_config tx = configuration_packet p"

lemma tx_at_next: "tx_at p f mode fs r (nanorq_blocks p) tx \<longleftrightarrow> tx_at p f mode fs (r + 1) 0 tx"
proof -
  have "map (\<lambda>b. if b < nanorq_blocks p then r + 1 else r) [0..<nanorq_blocks p]
      = map (\<lambda>b. if b < 0 then r + 1 + 1 else r + 1) [0..<nanorq_blocks p]" by (rule map_cong) auto
  then show ?thesis unfolding tx_at_def by (simp only: )
qed

lemma write_esi_ok:
  assumes p: "rq_ok p" and f: "length f = oF (common p)" and s: "schedule_sound (rqP p)"
    and at: "tx_at p f mode fs r j tx" and j: "j < nanorq_blocks p" and r: "r \<le> 65535"
  shows "yields (\<lambda>(c, tx'). sends p f mode fs (Some (j, r)) c \<and> tx_esi tx' = tx_esi tx
      \<and> tx_at p f mode fs r (Suc j) (tx'\<lparr>tx_esi := (tx_esi tx')[j := r + 1]\<rparr>)) (write_esi tx j r)"
proof -
  have inv: "enc_inv p f (tx_rq tx)" "file_io f (tx_io tx)" "par (tx_rq tx) = p" using at by (auto simp: tx_at_def enc_inv_def)
  have esi: "tx_esi tx = map (\<lambda>b. if b < j then r + 1 else r) [0..<nanorq_blocks p]" using at by (simp add: tx_at_def)
  have bump: "(tx_esi tx)[j := r + 1] = map (\<lambda>b. if b < Suc j then r + 1 else r) [0..<nanorq_blocks p]"
    unfolding esi using j by (intro nth_equalityI) (auto simp: nth_list_update)
  have lim: "r < 2 ^ 24" using r by simp
  have t: "0 < oT (common p)" using p by (simp add: rq_ok_def)
  have "yields (\<lambda>(c, tx'). sends p f mode fs (Some (j, r)) c \<and> tx_esi tx' = tx_esi tx
      \<and> tx_at p f mode fs r (Suc j) (tx'\<lparr>tx_esi := (tx_esi tx')[j := r + 1]\<rparr>))
      (case x of (written, data, rq, io) \<Rightarrow>
       if written \<noteq> nanorq_symbol_size (par (tx_rq tx)) then Inl Aborted
       else Inr ([write_frame (tx_mode tx) (payload_frame (of_nat j) (of_nat r) data)],
         tx\<lparr>tx_rq := rq, tx_io := io, tx_payload_packets := tx_payload_packets tx + 1\<rparr>))"
    if "case x of (n, d, rq', io') \<Rightarrow> enc_inv p f rq' \<and> file_io f io'
      \<and> (n = oT (common p) \<and> emitted p f j r d \<or> n = 0 \<and> d = [] \<and> nanorq_block_symbols p j \<le> r)" for x
    using that at t bump inv(3) by (auto simp: sends_def tx_at_def nanorq_symbol_size_def)
  from yields_rbind [OF encode_ok [OF p inv(1) j lim s inv(2) f] this] show ?thesis unfolding write_esi_def .
qed

lemma write_blocks_ok:
  assumes p: "rq_ok p" and f: "length f = oF (common p)" and s: "schedule_sound (rqP p)" and r: "r < 65535"
  shows "tx_at p f mode fs r j tx \<Longrightarrow> j \<le> nanorq_blocks p \<Longrightarrow>
    yields (\<lambda>(ok, cs, tx', n'). ok \<and> length cs = min n (nanorq_blocks p - j) \<and> n' = n - length cs
      \<and> list_all2 (sends p f mode fs) (map (\<lambda>b. Some (b, r)) [j..<j + length cs]) cs
      \<and> (nanorq_blocks p - j \<le> n \<longrightarrow> tx_at p f mode fs (r + 1) 0 tx')) (write_blocks tx [j..<nanorq_blocks p] n)"
proof (induction "nanorq_blocks p - j" arbitrary: j tx n)
  case 0
  then have j: "j = nanorq_blocks p" by simp
  then show ?case using 0(2) tx_at_next [of p f mode fs r tx] by simp
next
  case (Suc k)
  let ?Z = "nanorq_blocks p"
  have j: "j < ?Z" and k: "k = ?Z - Suc j" and up: "[j..<?Z] = j # [Suc j..<?Z]"
    using Suc.hyps(2) by (simp_all add: upt_conv_Cons)
  have e: "tx_esi tx ! j = r" using Suc.prems(1) j by (simp add: tx_at_def)
  show ?case
  proof (cases n)
    case 0
    then show ?thesis using j by (simp add: up)
  next
    case (Suc m)
    have "yields (\<lambda>(ok, cs, tx', n'). ok \<and> length cs = min n (?Z - j) \<and> n' = n - length cs
      \<and> list_all2 (sends p f mode fs) (map (\<lambda>b. Some (b, r)) [j..<j + length cs]) cs
      \<and> (?Z - j \<le> n \<longrightarrow> tx_at p f mode fs (r + 1) 0 tx'))
      (case x of (c, tx) \<Rightarrow>
       let e = tx_esi tx ! j + 1; tx = tx\<lparr>tx_esi := (tx_esi tx)[j := e]\<rparr>
       in if 65535 < e then Inr (False, [c], tx, m)
          else rbind (write_blocks tx [Suc j..<?Z] m) (\<lambda>(ok, cs, tx, n). Inr (ok, c # cs, tx, n)))"
      if x: "case x of (c, tx') \<Rightarrow> sends p f mode fs (Some (j, r)) c \<and> tx_esi tx' = tx_esi tx
        \<and> tx_at p f mode fs r (Suc j) (tx'\<lparr>tx_esi := (tx_esi tx')[j := r + 1]\<rparr>)" for x
    proof -
      obtain c tx1 where xe: "x = (c, tx1)" by fastforce
      let ?tx = "tx1\<lparr>tx_esi := (tx_esi tx1)[j := r + 1]\<rparr>"
      have c: "sends p f mode fs (Some (j, r)) c" "tx_esi tx1 ! j = r" "tx_at p f mode fs r (Suc j) ?tx"
        using x e by (auto simp: xe)
      have "yields (\<lambda>(ok, cs, tx', n'). ok \<and> length cs = min n (?Z - j) \<and> n' = n - length cs
        \<and> list_all2 (sends p f mode fs) (map (\<lambda>b. Some (b, r)) [j..<j + length cs]) cs
        \<and> (?Z - j \<le> n \<longrightarrow> tx_at p f mode fs (r + 1) 0 tx'))
        (rbind (write_blocks ?tx [Suc j..<?Z] m) (\<lambda>(ok, cs, tx, n). Inr (ok, c # cs, tx, n)))"
      proof (rule yields_rbind [OF Suc.hyps(1) [OF k c(3)]])
        show "Suc j \<le> ?Z" using j by simp
        fix y :: "bool \<times> tx_call list list \<times> transmitter \<times> nat"
        obtain ok cs tx2 n2 where y: "y = (ok, cs, tx2, n2)" by (cases y) auto
        assume "case y of (ok, cs, tx', n') \<Rightarrow> ok \<and> length cs = min m (?Z - Suc j) \<and> n' = m - length cs
          \<and> list_all2 (sends p f mode fs) (map (\<lambda>b. Some (b, r)) [Suc j..<Suc j + length cs]) cs
          \<and> (?Z - Suc j \<le> m \<longrightarrow> tx_at p f mode fs (r + 1) 0 tx')"
        then have h: "ok" "length cs = min m (?Z - Suc j)" "n2 = m - length cs"
          "list_all2 (sends p f mode fs) (map (\<lambda>b. Some (b, r)) [Suc j..<Suc j + length cs]) cs"
          "?Z - Suc j \<le> m \<longrightarrow> tx_at p f mode fs (r + 1) 0 tx2" unfolding y prod.case by blast+
        have l: "length (c # cs) = min n (?Z - j)" using h(2) j Suc by (simp add: Suc_diff_Suc [symmetric] del: diff_Suc_Suc)
        have u: "[j..<j + length (c # cs)] = j # [Suc j..<Suc j + length cs]"
          by (simp add: upt_conv_Cons del: upt_Suc)
        show "yields (\<lambda>(ok, cs, tx', n'). ok \<and> length cs = min n (?Z - j) \<and> n' = n - length cs
          \<and> list_all2 (sends p f mode fs) (map (\<lambda>b. Some (b, r)) [j..<j + length cs]) cs
          \<and> (?Z - j \<le> n \<longrightarrow> tx_at p f mode fs (r + 1) 0 tx')) (case y of (ok, cs, tx, n) \<Rightarrow> Inr (ok, c # cs, tx, n))"
          unfolding y prod.case yields_simps u using h(1,3-5) l c(1) Suc by (auto simp del: upt_Suc)
      qed
      then show ?thesis using c(2) r by (simp add: xe)
    qed
    from yields_rbind [OF write_esi_ok [OF p f s Suc.prems(1) j] this] show ?thesis
      unfolding up Suc write_blocks.simps e using r Suc by simp
  qed
qed

lemma length_configuration: "length (configuration_packet p) = CONFIG_PACKET_SIZE"
  using config_body_shape [of p] by (auto simp: configuration_packet_def Let_def packet_sizes)

lemma write_configuration_ok:
  assumes at: "tx_at p f mode fs r j tx" and fs: "mode = OUTPUT_TCP \<Longrightarrow> CONFIG_PACKET_SIZE \<le> fs"
  shows "\<exists>c tx'. write_configuration_packet tx = Inr (c, tx') \<and> sends p f mode fs None c \<and> tx_at p f mode fs r j tx'"
  using assms
  by (cases mode) (auto simp: write_configuration_packet_def tx_at_def sends_def config_frame_tcp_def length_configuration)

lemma transmit_ok:
  assumes p: "rq_ok p" and f: "length f = oF (common p)" and s: "schedule_sound (rqP p)" and Z: "0 < nanorq_blocks p"
    and fs: "mode = OUTPUT_TCP \<Longrightarrow> CONFIG_PACKET_SIZE \<le> fs"
  shows "tx_at p f mode fs r 0 tx \<Longrightarrow> r \<le> 65535 \<Longrightarrow>
    yields (\<lambda>(cs, tx'). list_all2 (sends p f mode fs)
      (map (tx_item (nanorq_blocks p)) [r * (nanorq_blocks p + 1)..<min (r * (nanorq_blocks p + 1) + n) (plan_length (nanorq_blocks p))]) cs)
    (transmit tx n)"
proof (induction n arbitrary: r tx rule: less_induct)
  case (less n)
  let ?Z = "nanorq_blocks p" and ?S = "sends p f mode fs"
  let ?B = "r * (?Z + 1)" and ?L = "plan_length ?Z"
  have BL: "?B + 2 \<le> ?L" using less.prems(2) mult_right_mono [of r 65535 "?Z + 1"] by (simp add: plan_length_def)
  show ?case
  proof (cases n)
    case 0
    then show ?thesis using BL by simp
  next
    case (Suc m)
    obtain c tx1 where c: "write_configuration_packet tx = Inr (c, tx1)" "?S None c" "tx_at p f mode fs r 0 tx1"
      using write_configuration_ok [OF less.prems(1) fs] by blast
    have rq: "par (tx_rq tx1) = p" using c(3) by (simp add: tx_at_def enc_inv_def)
    show ?thesis
    proof (cases "r = 65535")
      case r: True
      have e: "tx_esi tx1 ! 0 = r" using c(3) Z by (simp add: tx_at_def)
      have up: "[0..<?Z] = 0 # [Suc 0..<?Z]" using Z by (simp add: upt_conv_Cons)
      have L: "?L = ?B + 1 + 1" using r by (simp add: plan_length_def)
      show ?thesis
      proof (cases m)
        case 0
        have "min (?B + n) ?L = ?B + 1 + 0" using Suc 0 BL by simp
        then have "map (tx_item ?Z) [?B..<min (?B + n) ?L] = [None]" using plan_round [of 0 ?Z r] by simp
        then show ?thesis using c(1,2) Suc 0 by (simp add: write_interleaved_block_packets_def rq up del: upt_Suc)
      next
        case k: (Suc k)
        have "min (?B + n) ?L = ?B + 1 + 1" using Suc k L by simp
        then have items: "map (tx_item ?Z) [?B..<min (?B + n) ?L] = [None, Some (0, r)]" using plan_round [of 1 ?Z r] Z by simp
        from write_esi_ok [OF p f s c(3) Z] r have w: "yields (\<lambda>(d, tx'). ?S (Some (0, r)) d \<and> tx_esi tx' = tx_esi tx1
            \<and> tx_at p f mode fs r (Suc 0) (tx'\<lparr>tx_esi := (tx_esi tx')[0 := r + 1]\<rparr>)) (write_esi tx1 0 r)" by simp
        show ?thesis
        proof (cases "write_esi tx1 0 r")
          case (Inl x)
          then show ?thesis
            using w c(1) Suc k by (simp add: write_interleaved_block_packets_def rq up e del: upt_Suc)
        next
          case (Inr y)
          obtain d tx2 where y: "y = (d, tx2)" by fastforce
          have d: "?S (Some (0, r)) d" "tx_esi tx2 ! 0 = r" using w Inr y e by auto
          then show ?thesis
            using c(1,2) Suc k Inr y r items by (simp add: write_interleaved_block_packets_def rq up e Let_def del: upt_Suc)
        qed
      qed
    next
      case False
      then have r: "r < 65535" using less.prems(2) by simp
      have BZ: "?B + 1 + ?Z \<le> ?L" using r mult_right_mono [of "r + 1" 65535 "?Z + 1"] by (simp add: plan_length_def)
      note w = write_blocks_ok [OF p f s r c(3), of m]
      show ?thesis
      proof (cases "write_blocks tx1 [0..<?Z] m")
        case (Inl x)
        then show ?thesis using w c(1) Suc by (simp add: write_interleaved_block_packets_def rq)
      next
        case (Inr y)
        obtain ok cs tx2 m2 where y: "y = (ok, cs, tx2, m2)" by (cases y) auto
        have h: "ok" "length cs = min m ?Z" "m2 = m - length cs"
          "list_all2 ?S (map (\<lambda>b. Some (b, r)) [0..<length cs]) cs" "?Z \<le> m \<longrightarrow> tx_at p f mode fs (r + 1) 0 tx2"
          using w Inr y by auto
        have run: "transmit tx n = rbind (transmit tx2 m2) (\<lambda>(ds, tx). Inr (c # cs @ ds, tx))"
          using c(1) Suc Inr y h(1) by (simp add: write_interleaved_block_packets_def rq)
        have first: "list_all2 ?S (map (tx_item ?Z) [?B..<?B + 1 + length cs]) (c # cs)"
          using plan_round [of "length cs" ?Z r] h(2,4) c(2) by simp
        show ?thesis
        proof (cases "?Z \<le> m")
          case False
          have "m2 = 0" "min (?B + n) ?L = ?B + 1 + length cs" using False h(2,3) Suc BZ by simp_all
          then show ?thesis unfolding run using first by simp
        next
          case True
          have at: "tx_at p f mode fs (r + 1) 0 tx2" using h(5) True by simp
          have lt: "m2 < n" using h(3) Suc by simp
          have start: "(r + 1) * (?Z + 1) = ?B + 1 + length cs" using h(2) True by simp
          have stop: "(r + 1) * (?Z + 1) + m2 = ?B + n" using h(2,3) True Suc by simp
          have le: "?B + 1 + length cs \<le> min (?B + n) ?L" using h(2) True Suc BZ by simp
          have split: "map (tx_item ?Z) [?B..<min (?B + n) ?L] = map (tx_item ?Z) [?B..<?B + 1 + length cs]
              @ map (tx_item ?Z) [?B + 1 + length cs..<min (?B + n) ?L]"
            using upt_add_eq_append [of ?B "?B + 1 + length cs" "min (?B + n) ?L - (?B + 1 + length cs)"] le
            unfolding map_append [symmetric] by (simp del: upt_Suc map_append)
          have "yields (\<lambda>(ds, tx'). list_all2 ?S (map (tx_item ?Z) [?B + 1 + length cs..<min (?B + n) ?L]) ds) (transmit tx2 m2)"
            using less.IH [OF lt at] r unfolding start [symmetric] stop [symmetric] by simp
          then show ?thesis
            unfolding run
          proof (rule yields_rbind)
            fix y :: "tx_call list list \<times> transmitter"
            obtain ds tx3 where y: "y = (ds, tx3)" by fastforce
            assume "case y of (ds, tx') \<Rightarrow> list_all2 ?S (map (tx_item ?Z) [?B + 1 + length cs..<min (?B + n) ?L]) ds"
            then have "list_all2 ?S (map (tx_item ?Z) [?B..<min (?B + n) ?L]) ((c # cs) @ ds)"
              unfolding y prod.case split by (rule list_all2_appendI [OF first])
            then show "yields (\<lambda>(cs, tx'). list_all2 ?S (map (tx_item ?Z) [?B..<min (?B + n) ?L]) cs)
                (case y of (ds, tx) \<Rightarrow> Inr (c # cs @ ds, tx))"
              unfolding y prod.case yields_simps append_Cons .
          qed
        qed
      qed
    qed
  qed
qed

subsection \<open>The start\<close>

lemma generate_all_ok:
  assumes p: "rq_ok p" and s: "schedule_sound (rqP p)" and f: "length f = oF (common p)"
  shows "enc_inv p f rq \<Longrightarrow> file_io f io \<Longrightarrow> \<forall>b \<in> set bs. b < nanorq_blocks p \<Longrightarrow>
    yields (\<lambda>(rq', io'). enc_inv p f rq' \<and> file_io f io') (generate_all rq io bs)"
proof (induction bs arbitrary: rq io)
  case (Cons b bs)
  have b: "b < nanorq_blocks p" using Cons.prems(3) by simp
  show ?case
    unfolding generate_all.simps
    by (rule yields_rbind [OF generate_ok [OF p Cons.prems(1) b s Cons.prems(2) f]])
      (use Cons.IH Cons.prems(3) in \<open>auto split: prod.splits\<close>)
qed simp

lemma io_size_content: "io_ready io \<Longrightarrow> io_size io = length (io_content io)"
  by (cases io) (simp_all add: memio_size_def fileio_size_def)

definition frame_sizes_of :: "output_mode \<Rightarrow> nat list" where
  "frame_sizes_of mode = (case mode of OUTPUT_TCP \<Rightarrow> hermes_frame_size | OUTPUT_SHM \<Rightarrow> mercury_frame_size)"

definition modes_of :: "output_mode \<Rightarrow> nat" where
  "modes_of mode = (case mode of OUTPUT_TCP \<Rightarrow> HERMES_MODE_MAX | OUTPUT_SHM \<Rightarrow> MERCURY_MODE_MAX)"

text \<open>All modes but one have frames that hold a configuration.\<close>

lemma frame_sizes_bounds:
  assumes "m \<le> modes_of mode" and "mode = OUTPUT_TCP \<Longrightarrow> m \<noteq> 5"
  shows "12 \<le> frame_sizes_of mode ! m \<and> frame_sizes_of mode ! m \<le> 510"
proof (cases mode)
  case OUTPUT_SHM
  then have "m < length mercury_frame_size" using assms(1) by (simp add: modes_of_def MERCURY_MODE_MAX_def mercury_frame_size_def)
  from nth_mem [OF this] show ?thesis unfolding OUTPUT_SHM frame_sizes_of_def by (auto simp: mercury_frame_size_def)
next
  case OUTPUT_TCP
  then have "m = 0 \<or> m = 1 \<or> m = 2 \<or> m = 3 \<or> m = 4 \<or> m = 6"
    using assms by (auto simp: modes_of_def HERMES_MODE_MAX_def)
  then show ?thesis unfolding OUTPUT_TCP frame_sizes_of_def by (auto simp: hermes_frame_size_def)
qed

lemma symbol_size_word: "4 \<le> n \<Longrightarrow> n < 65536 \<Longrightarrow> unat (of_nat n - of_nat RQ_HEADER_SIZE :: u32) mod 65536 = n - 4"
  by (simp add: RQ_HEADER_SIZE_def unat_sub word_le_nat_alt unat_of_nat_small)

lemma set_max_esi_init: "pKprime (rqP p) \<le> MAX_ESI \<Longrightarrow> snd (nanorq_set_max_esi (nanorq_init p 0) MAX_ESI) = nanorq_init p MAX_ESI"
  by (simp add: nanorq_set_max_esi_def nanorq_init_def MAX_ESI_def)

lemma Kprime_max_esi: "rq_ok p \<Longrightarrow> pKprime (rqP p) \<le> MAX_ESI"
  using rq_ok_symbols(3) [of p] by (simp add: params_ok_def K_max_def MAX_ESI_def)

text \<open>What the program has when its loop starts.\<close>

definition started :: "nanorq_params \<Rightarrow> bytes \<Rightarrow> output_mode \<Rightarrow> nat \<Rightarrow> transmitter \<Rightarrow> bool" where
  "started p f mode m tx \<longleftrightarrow> rq_ok p \<and> m \<le> modes_of mode \<and> length f \<le> 16777215 \<and> oF (common p) = length f
     \<and> oT (common p) = frame_sizes_of mode ! m - 4 \<and> nanorq_encoder_new (length f) (oT (common p)) 1 = Some (Inr (Some p))
     \<and> tx_at p f mode (frame_sizes_of mode ! m) 0 0 tx"

lemma start_ok:
  assumes io: "io_ready io" "io_content io = f" "f \<noteq> []" and m: "mode = OUTPUT_TCP \<Longrightarrow> m \<noteq> 5"
    and s: "\<And>p. nanorq_encoder_new (length f) (frame_sizes_of mode ! nat m - 4) 1 = Some (Inr (Some p)) \<Longrightarrow> schedule_sound (rqP p)"
  shows "yields (\<lambda>r. case r of
      None \<Rightarrow> m < 0 \<or> int (modes_of mode) < m \<or> 16777215 < length f
    | Some tx \<Rightarrow> \<exists>p. started p f mode (nat m) tx) (transmitter_start mode m (Some io))"
proof (cases "0 \<le> m \<and> m \<le> int (modes_of mode) \<and> length f \<le> 16777215")
  case False
  then show ?thesis
    using io by (auto simp: transmitter_start_def modes_of_def [symmetric] io_size_content not_less Let_def)
next
  case True
  have mode: "nat m \<le> modes_of mode" using True by linarith
  have fs: "12 \<le> frame_sizes_of mode ! nat m" "frame_sizes_of mode ! nat m \<le> 510"
    using frame_sizes_bounds [OF mode] m by force+
  let ?fs = "frame_sizes_of mode ! nat m"
  have t: "unat (of_nat ?fs - of_nat RQ_HEADER_SIZE :: u32) mod 65536 = ?fs - 4" using symbol_size_word fs by simp
  have "14439168 * 8 \<le> 14439168 * (?fs - 4)" using fs by (intro mult_le_mono) auto
  then have "length f \<le> 14439168 * (?fs - 4)" using True by linarith
  then have dc: "div_ceil (length f) (?fs - 4) \<le> Z_max * K_max"
    using fs div_ceil_le_iff [of "?fs - 4" "length f"] by (simp add: Z_max_def K_max_def)
  obtain p where new: "nanorq_encoder_new (length f) (?fs - 4) 1 = Some (Inr (Some p))"
    "common p = \<lparr>oF = length f, oT = ?fs - 4, oAl = 1\<rparr>"
  proof (rule encoder_new_exists [of "length f" "?fs - 4"])
    show "?fs - 4 < 65536" using fs by simp
  qed (use True fs dc io(3) in \<open>auto simp: NANORQ_MAX_TRANSFER_def\<close>)
  have p: "rq_ok p" using encoder_rq_ok [of "length f" "?fs - 4" 0 0 1 p] new(1) fs by (simp add: nanorq_encoder_new_def)
  have inv: "enc_inv p f (nanorq_init p MAX_ESI)" by (rule enc_inv_init) (simp add: Kprime_max_esi [OF p])
  have gen: "yields (\<lambda>(rq', io'). enc_inv p f rq' \<and> file_io f io') (generate_all (nanorq_init p MAX_ESI) io [0..<nanorq_blocks p])"
    by (rule generate_all_ok [OF p s [OF new(1)] _ inv]) (use new(2) io in \<open>auto simp: file_io_def\<close>)
  have run: "transmitter_start mode m (Some io) = rbind (generate_all (nanorq_init p MAX_ESI) io [0..<nanorq_blocks p]) (\<lambda>(rq, io).
      Inr (Some \<lparr>tx_rq = rq, tx_io = io, tx_esi = replicate (nanorq_blocks p) 0, tx_mode = mode,
        tx_frame_size = ?fs, tx_config = configuration_packet p, tx_config_packets = 0, tx_payload_packets = 0\<rparr>))"
    using True io new t set_max_esi_init [OF Kprime_max_esi [OF p]]
    by (simp add: transmitter_start_def modes_of_def [symmetric] frame_sizes_of_def [symmetric] io_size_content Let_def)
  show ?thesis
    unfolding run
    by (rule yields_rbind [OF gen])
      (use True p new mode in \<open>auto simp: started_def tx_at_def map_replicate_const split: prod.splits\<close>)
qed

end
