(* ===== verification/Receiver.thy ===== *)
theory Receiver
  imports Transmitter Ring_Buffer Tcp_Interface
begin

section \<open>The receiver (receiver.c)\<close>

text \<open>
  The program that collects frames until the file is complete. \<open>receiver_frame\<close> is one pass of its loop on a
  frame that has been read; \<open>receive_loop\<close> is the loop over what \<open>read_frame_from_input\<close> answers, up to the
  end of the list or of the program. The counters that are only printed are left out.
\<close>

definition MAX_BLOCKS :: nat where "MAX_BLOCKS = 128"

subsection \<open>Reading a frame\<close>

text \<open>The answer, the frame buffer and the length of the frame: 1 for a frame, 0 for none, -1 for an error.\<close>

type_synonym read_result = "int \<times> bytes \<times> nat"

definition read_frame_shm :: "cbuf \<Rightarrow> bytes \<Rightarrow> nat \<Rightarrow> (read_result, cbuf) attempt" where
  "read_frame_shm buffer data_frame frame_size =
     (case size_buffer buffer of
        Waits \<Rightarrow> Waits
      | Faults e \<Rightarrow> Faults e
      | Returns n buffer \<Rightarrow>
          if n < frame_size then Returns (0, data_frame, 0) buffer
          else (case read_buffer buffer frame_size of
                  Waits \<Rightarrow> Waits
                | Faults e \<Rightarrow> Faults e
                | Returns d buffer \<Rightarrow> Returns (1, blit data_frame 0 d, frame_size) buffer))"

definition read_frame_tcp ::
  "tcp_interface \<Rightarrow> bytes \<Rightarrow> nat \<Rightarrow> sock_event list \<Rightarrow> (read_result \<times> tcp_interface \<times> sock_event list) option" where
  "read_frame_tcp iface data_frame frame_size es =
     (case tcp_interface_recv_kiss iface data_frame es of
        None \<Rightarrow> None
      | Some (n, iface, buf, es) \<Rightarrow>
          Some (if 0 < n then (if nat n = frame_size then (1, buf, nat n) else (0, buf, 0))
                else if n = 0 then (0, buf, 0) else (- 1, buf, 0), iface, es))"

subsection \<open>One frame\<close>

record receiver =
  rx_configured :: bool
  rx_oti_common :: u64
  rx_oti_scheme :: u32
  rx_num_sbn :: nat
  rx_esi :: "u32 list"
  rx_decoded :: "bool list"
  rx_more :: bool
  rx_rq :: "nanorq option"
  rx_io :: ioctx

datatype verdict = Go_On | Stop | Success

definition receiver_init :: "ioctx \<Rightarrow> receiver" where
  "receiver_init io = \<lparr>rx_configured = False, rx_oti_common = 0, rx_oti_scheme = 0, rx_num_sbn = 0,
     rx_esi = replicate MAX_BLOCKS 0, rx_decoded = replicate MAX_BLOCKS False, rx_more = False, rx_rq = None, rx_io = io\<rparr>"

text \<open>The first configuration packet.\<close>

definition receiver_configure :: "receiver \<Rightarrow> bytes \<Rightarrow> receiver result" where
  "receiver_configure rx frame =
     (let com = parse_tag_oti_common frame; sch = parse_tag_oti_scheme frame;
          rx = rx\<lparr>rx_oti_common := com, rx_oti_scheme := sch\<rparr>
      in case nanorq_decoder_new com sch of
           Inl e \<Rightarrow> Inl e
         | Inr None \<Rightarrow> Inr (rx\<lparr>rx_rq := None\<rparr>)
         | Inr (Some (p, m)) \<Rightarrow>
             Inr (rx\<lparr>rx_rq := Some (snd (nanorq_set_max_esi (nanorq_init p m) MAX_ESI)),
                     rx_num_sbn := nanorq_blocks p, rx_configured := True\<rparr>))"

text \<open>A block is tried as soon as it has had as many new symbols as it has source symbols.\<close>

definition receiver_try_block :: "receiver \<Rightarrow> nanorq \<Rightarrow> nat \<Rightarrow> receiver result" where
  "receiver_try_block rx rq sbn =
     (if nanorq_block_symbols (par rq) sbn \<le> unat (rx_esi rx ! sbn) \<and> rx_more rx
      then rbind (nanorq_repair_block rq (rx_io rx) sbn) (\<lambda>(ok, rq, io).
             Inr (rx\<lparr>rx_rq := Some rq, rx_io := io,
                     rx_decoded := (if ok then (rx_decoded rx)[sbn := True] else rx_decoded rx)\<rparr>))
      else Inr rx)"

definition receiver_complete :: "receiver \<Rightarrow> bool result" where
  "receiver_complete rx =
     (if length (rx_decoded rx) < rx_num_sbn rx then Inl Out_Of_Bounds
      else Inr (\<forall>i \<in> set [0..<rx_num_sbn rx]. rx_decoded rx ! i))"

definition receiver_payload :: "receiver \<Rightarrow> nanorq \<Rightarrow> bytes \<Rightarrow> (verdict \<times> receiver) result" where
  "receiver_payload rx rq frame =
     (let sbn = frame_sbn frame 1; tag = nanorq_tag sbn (frame_esi frame 1); b = unat sbn
      in rbind (nanorq_decoder_add_symbol rq (drop RQ_HEADER_SIZE frame) tag (rx_io rx)) (\<lambda>(ret, rq, io).
         let rx = rx\<lparr>rx_rq := Some rq, rx_io := io\<rparr>
         in if ret = NANORQ_SYM_ERR then Inr (Go_On, rx)
            else if length (rx_esi rx) \<le> b then Inl Out_Of_Bounds
            else let rx = (if ret = NANORQ_SYM_ADDED
                           then rx\<lparr>rx_esi := (rx_esi rx)[b := rx_esi rx ! b + 1], rx_more := True\<rparr>
                           else if ret = NANORQ_SYM_DUP then rx\<lparr>rx_more := False\<rparr> else rx)
                 in rbind (receiver_try_block rx rq b) (\<lambda>rx.
                    rbind (receiver_complete rx) (\<lambda>done_all.
                      if done_all then Inr (Success, rx) else Inr (Go_On, rx\<lparr>rx_more := False\<rparr>)))))"

definition receiver_frame :: "receiver \<Rightarrow> bytes \<Rightarrow> nat \<Rightarrow> (verdict \<times> receiver) result" where
  "receiver_frame rx frame len =
     rbind (parse_frame_header frame len) (\<lambda>ty.
       if ty < 0 then Inr (Go_On, rx)
       else if \<not> rx_configured rx \<and> ty = int (unat PACKET_RQ_CONFIG)
       then rbind (receiver_configure rx frame) (\<lambda>rx. Inr (Go_On, rx))
       else if rx_configured rx \<and> ty = int (unat PACKET_RQ_CONFIG)
       then Inr (if parse_tag_oti_common frame \<noteq> rx_oti_common rx \<or> parse_tag_oti_scheme frame \<noteq> rx_oti_scheme rx
                 then Stop else Go_On, rx)
       else if rx_configured rx \<and> ty = int (unat PACKET_RQ_PAYLOAD)
       then (case rx_rq rx of None \<Rightarrow> Inl Uninitialised | Some rq \<Rightarrow> receiver_payload rx rq frame)
       else Inr (Go_On, rx))"

fun receive_loop :: "receiver \<Rightarrow> read_result list \<Rightarrow> (verdict \<times> receiver) result" where
  "receive_loop rx [] = Inr (Go_On, rx)"
| "receive_loop rx ((r, frame, len) # rs) =
     (if r = 0 then receive_loop rx rs
      else if r < 0 then Inr (Stop, rx)
      else rbind (receiver_frame rx frame len) (\<lambda>(v, rx). if v = Go_On then receive_loop rx rs else Inr (v, rx)))"

subsection \<open>A decoder that is fed by the sender\<close>

text \<open>\<open>R\<close> is the set of symbols the decoder has; the facts of \<open>Nanorq\<close> and \<open>Repair\<close> for one call of either operation.\<close>

definition fed :: "nanorq_params \<Rightarrow> bytes \<Rightarrow> nanorq \<Rightarrow> ioctx \<Rightarrow> (nat \<times> nat) set \<Rightarrow> bool" where
  "fed p f rq io R \<longleftrightarrow> dec_inv p MAX_ESI f rq io R \<and> dec_rows p f rq"

lemma max_esi_bounds: "rq_ok p \<Longrightarrow> 0 < MAX_ESI \<and> pKprime (rqP p) \<le> MAX_ESI \<and> MAX_ESI < 2 ^ 24"
  using Kprime_max_esi [of p] by (simp add: MAX_ESI_def)

lemma fed_init: "io_ready io \<Longrightarrow> io_room io (length f) \<Longrightarrow> io_content io = [] \<Longrightarrow> fed p f (nanorq_init p MAX_ESI) io {}"
  by (simp add: fed_def dec_inv_def dec_rows_def nanorq_init_def rio.agrees_def)

lemma fed_par: "fed p f rq io R \<Longrightarrow> par rq = p"
  by (simp add: fed_def dec_inv_def)

lemma fed_add:
  assumes p: "rq_ok p" and f: "length f = oF (common p)" and fed: "fed p f rq io R" and b: "sbn < nanorq_blocks p" "esi \<le> MAX_ESI"
    and d: "oT (common p) \<le> length d" "emitted p f sbn esi (take (oT (common p)) d)"
  shows "\<exists>r rq' io' R'. nanorq_decoder_add_symbol rq d (nanorq_tag (of_nat sbn) (of_nat esi)) io = Inr (r, rq', io')
    \<and> r \<noteq> NANORQ_SYM_ERR \<and> fed p f rq' io' R' \<and> R \<subseteq> R'"
proof -
  have m: "0 < MAX_ESI" "pKprime (rqP p) \<le> MAX_ESI" "MAX_ESI < 2 ^ 24" using max_esi_bounds [OF p] by blast+
  have g: "genuine p MAX_ESI f (sbn, esi, d)" using b d by (simp add: genuine_def)
  have i: "dec_inv p MAX_ESI f rq io R" "dec_rows p f rq" using fed by (simp_all add: fed_def)
  from add_symbol_inv [OF p m f i(1) genuine_valid [OF g]] obtain r rq' io' R' where
    a: "nanorq_decoder_add_symbol rq d (nanorq_tag (of_nat sbn) (of_nat esi)) io = Inr (r, rq', io')"
      "r \<noteq> NANORQ_SYM_ERR" "dec_inv p MAX_ESI f rq' io' R'" "R \<subseteq> R'" by blast
  from add_symbol_rows [OF p m f i g a(1)] a show ?thesis by (auto simp: fed_def)
qed

lemma fed_repair:
  assumes p: "rq_ok p" and f: "length f = oF (common p)" and fed: "fed p f rq io R" and b: "sbn < nanorq_blocks p"
    and s: "repair_sound rq sbn"
  shows "yields (\<lambda>(ok, rq', io'). \<exists>R'. fed p f rq' io' R' \<and> R \<subseteq> R'
      \<and> (ok \<longrightarrow> (\<forall>esi < nanorq_block_symbols p sbn. (sbn, esi) \<in> R'))) (nanorq_repair_block rq io sbn)"
  by (rule yields_weaken [OF repair_ok [OF p _ _ f _ _ b s, of MAX_ESI io R]])
    (use fed max_esi_bounds [OF p] in \<open>auto simp: fed_def\<close>)

text \<open>The blocks that are marked as decoded are.\<close>

definition flags_ok :: "nanorq_params \<Rightarrow> (nat \<times> nat) set \<Rightarrow> bool list \<Rightarrow> bool" where
  "flags_ok p R bs \<longleftrightarrow> (\<forall>i < length bs. bs ! i \<longrightarrow> (\<forall>esi < nanorq_block_symbols p i. (i, esi) \<in> R))"

lemma flags_mono: "flags_ok p R bs \<Longrightarrow> R \<subseteq> R' \<Longrightarrow> flags_ok p R' bs"
  by (auto simp: flags_ok_def)

lemma flags_update:
  "flags_ok p R bs \<Longrightarrow> (b \<longrightarrow> (\<forall>esi < nanorq_block_symbols p i. (i, esi) \<in> R)) \<Longrightarrow> flags_ok p R (if b then bs[i := True] else bs)"
  by (auto simp: flags_ok_def) (metis nth_list_update_neq)

lemma fed_complete:
  assumes "rq_ok p" and "length f = oF (common p)" and "fed p f rq io R" and "flags_ok p R bs"
    and "nanorq_blocks p \<le> length bs" and "\<forall>i < nanorq_blocks p. bs ! i"
  shows "io_content io = f"
  using complete_file [OF assms(1,2), of MAX_ESI rq io R] assms(3-6) by (auto simp: fed_def flags_ok_def)

subsection \<open>What the channel delivers\<close>

text \<open>
  A frame the sender of the parameters \<open>p\<close> may have sent, at the start of the frame buffer: its configuration
  packet or a symbol of the code. A damaged frame is one that the header test rejects.
\<close>

definition genuine_frame :: "nanorq_params \<Rightarrow> bytes \<Rightarrow> bytes \<Rightarrow> bool" where
  "genuine_frame p f frame \<longleftrightarrow>
     (\<exists>rest. frame = configuration_packet p @ rest)
     \<or> (\<exists>sbn esi d rest. sbn < nanorq_blocks p \<and> esi \<le> MAX_ESI \<and> emitted p f sbn esi d
          \<and> frame = payload_frame (of_nat sbn) (of_nat esi) d @ rest)"

definition delivered :: "nanorq_params \<Rightarrow> bytes \<Rightarrow> nat \<Rightarrow> read_result \<Rightarrow> bool" where
  "delivered p f fs x = (case x of (r, frame, len) \<Rightarrow>
     r = 0 \<or> 0 < r \<and> (len = fs \<and> genuine_frame p f frame \<or> parse_frame_header frame len = Inr (- 1)))"

text \<open>The repair a frame leads to, if it does, has its checkpoints apart.\<close>

definition frame_sound :: "receiver \<Rightarrow> bytes \<Rightarrow> bool" where
  "frame_sound rx frame \<longleftrightarrow> (\<forall>rq ret rq' io'. rx_rq rx = Some rq \<longrightarrow>
     nanorq_decoder_add_symbol rq (drop RQ_HEADER_SIZE frame) (nanorq_tag (frame_sbn frame 1) (frame_esi frame 1)) (rx_io rx)
       = Inr (ret, rq', io') \<longrightarrow> ret = NANORQ_SYM_ADDED \<longrightarrow>
     nanorq_block_symbols (par rq') (unat (frame_sbn frame 1)) \<le> unat (rx_esi rx ! unat (frame_sbn frame 1) + 1) \<longrightarrow>
     repair_sound rq' (unat (frame_sbn frame 1)))"

fun receive_sound :: "receiver \<Rightarrow> read_result list \<Rightarrow> bool" where
  "receive_sound rx [] = True"
| "receive_sound rx ((r, frame, len) # rs) =
     (if r = 0 then receive_sound rx rs
      else frame_sound rx frame
        \<and> (\<forall>v rx'. receiver_frame rx frame len = Inr (v, rx') \<longrightarrow> receive_sound rx' rs))"

definition rx_inv :: "nanorq_params \<Rightarrow> bytes \<Rightarrow> receiver \<Rightarrow> bool" where
  "rx_inv p f rx \<longleftrightarrow> length (rx_esi rx) = MAX_BLOCKS \<and> length (rx_decoded rx) = MAX_BLOCKS
     \<and> (if rx_configured rx
        then rx_oti_common rx = nanorq_oti_common p \<and> rx_oti_scheme rx = nanorq_oti_scheme_specific p
          \<and> rx_num_sbn rx = nanorq_blocks p
          \<and> (\<exists>rq R. rx_rq rx = Some rq \<and> fed p f rq (rx_io rx) R \<and> flags_ok p R (rx_decoded rx))
        else io_ready (rx_io rx) \<and> io_room (rx_io rx) (length f) \<and> io_content (rx_io rx) = [] \<and> True \<notin> set (rx_decoded rx))"

text \<open>Between two passes no new symbol is pending.\<close>

definition rx_idle :: "nanorq_params \<Rightarrow> bytes \<Rightarrow> receiver \<Rightarrow> bool" where
  "rx_idle p f rx \<longleftrightarrow> rx_inv p f rx \<and> \<not> rx_more rx"

definition rx_outcome :: "nanorq_params \<Rightarrow> bytes \<Rightarrow> verdict \<times> receiver \<Rightarrow> bool" where
  "rx_outcome p f x = (case x of (v, rx) \<Rightarrow> if v = Success then io_content (rx_io rx) = f else v = Go_On \<and> rx_idle p f rx)"

lemma rx_outcome_simps [simp]:
  "rx_outcome p f (Success, rx) \<longleftrightarrow> io_content (rx_io rx) = f"
  "rx_outcome p f (Go_On, rx) \<longleftrightarrow> rx_idle p f rx"
  "\<not> rx_outcome p f (Stop, rx)"
  by (simp_all add: rx_outcome_def)

lemma rx_idle_init:
  "io_ready io \<Longrightarrow> io_room io (length f) \<Longrightarrow> io_content io = [] \<Longrightarrow> rx_idle p f (receiver_init io)"
  by (simp add: rx_inv_def rx_idle_def receiver_init_def)

text \<open>The parameters are those of the transmitter's encoder.\<close>

definition sender_params :: "nanorq_params \<Rightarrow> bytes \<Rightarrow> nat \<Rightarrow> bool" where
  "sender_params p f t \<longleftrightarrow> nanorq_encoder_new (length f) t 1 = Some (Inr (Some p)) \<and> length f < 2 ^ 24 \<and> t < 65536
     \<and> oT (common p) = t \<and> nanorq_blocks p \<le> MAX_BLOCKS"

lemma sender_params_ok: "sender_params p f t \<Longrightarrow> rq_ok p \<and> length f = oF (common p)"
  using encoder_rq_ok [of "length f" t 0 0 1 p] by (simp add: sender_params_def nanorq_encoder_new_def)

subsection \<open>The loop keeps the invariant\<close>

lemma drop_payload_frame: "drop RQ_HEADER_SIZE (payload_frame sbn esi d @ rest) = d @ rest"
  by (simp add: payload_frame_def nanorq_tag_reduced_def RQ_HEADER_SIZE_def Let_def)

lemma receiver_try_block_ok:
  assumes p: "rq_ok p" and f: "length f = oF (common p)" and b: "b < nanorq_blocks p"
    and s: "nanorq_block_symbols (par rq) b \<le> unat (rx_esi rx ! b) \<Longrightarrow> rx_more rx \<Longrightarrow> repair_sound rq b"
    and c: "rx_configured rx" and inv: "rx_inv p f rx" and rq: "rx_rq rx = Some rq"
  shows "yields (rx_inv p f) (receiver_try_block rx rq b)"
proof -
  from inv c rq obtain R where R: "fed p f rq (rx_io rx) R" "flags_ok p R (rx_decoded rx)"
    and fields: "length (rx_esi rx) = MAX_BLOCKS" "length (rx_decoded rx) = MAX_BLOCKS" "rx_oti_common rx = nanorq_oti_common p"
      "rx_oti_scheme rx = nanorq_oti_scheme_specific p" "rx_num_sbn rx = nanorq_blocks p" by (auto simp: rx_inv_def)
  show ?thesis
  proof (cases "nanorq_block_symbols (par rq) b \<le> unat (rx_esi rx ! b) \<and> rx_more rx")
    case True
    have "yields (rx_inv p f) (case x of (ok, rq, io) \<Rightarrow> Inr (rx\<lparr>rx_rq := Some rq, rx_io := io,
        rx_decoded := (if ok then (rx_decoded rx)[b := True] else rx_decoded rx)\<rparr>))"
      if "case x of (ok, rq', io') \<Rightarrow> \<exists>R'. fed p f rq' io' R' \<and> R \<subseteq> R' \<and> (ok \<longrightarrow> (\<forall>esi < nanorq_block_symbols p b. (b, esi) \<in> R'))" for x
    proof -
      obtain ok rq2 io2 where x: "x = (ok, rq2, io2)" by (cases x) auto
      from that obtain R' where R': "fed p f rq2 io2 R'" "R \<subseteq> R'" "ok \<longrightarrow> (\<forall>esi < nanorq_block_symbols p b. (b, esi) \<in> R')"
        by (auto simp: x)
      show ?thesis using flags_update [OF flags_mono [OF R(2) R'(2)] R'(3)] R'(1) fields c by (auto simp: x rx_inv_def)
    qed
    from yields_rbind [OF fed_repair [OF p f R(1) b] this] s True show ?thesis
      using True by (simp add: receiver_try_block_def)
  next
    case False
    then show ?thesis using inv by (auto simp: receiver_try_block_def)
  qed
qed

lemma receiver_complete_ok:
  assumes p: "rq_ok p" and f: "length f = oF (common p)" and Z: "nanorq_blocks p \<le> MAX_BLOCKS" and inv: "rx_inv p f rx" and c: "rx_configured rx"
  shows "\<exists>a. receiver_complete rx = Inr a \<and> (a \<longrightarrow> io_content (rx_io rx) = f)"
proof -
  from inv c obtain rq R where R: "fed p f rq (rx_io rx) R" "flags_ok p R (rx_decoded rx)"
    and fields: "length (rx_decoded rx) = MAX_BLOCKS" "rx_num_sbn rx = nanorq_blocks p" by (auto simp: rx_inv_def)
  show ?thesis
    using fed_complete [OF p f R] fields Z by (auto simp: receiver_complete_def)
qed

lemma receiver_payload_ok:
  assumes sp: "sender_params p f t" and idle: "rx_idle p f rx" and c: "rx_configured rx" and rq: "rx_rq rx = Some rq"
    and b: "sbn < nanorq_blocks p" "esi \<le> MAX_ESI" and em: "emitted p f sbn esi d"
    and frame: "frame = payload_frame (of_nat sbn) (of_nat esi) d @ rest" and s: "frame_sound rx frame"
  shows "yields (rx_outcome p f) (receiver_payload rx rq frame)"
proof -
  have p: "rq_ok p" "length f = oF (common p)" and Z: "nanorq_blocks p \<le> MAX_BLOCKS"
    using sender_params_ok [OF sp] sp by (auto simp: sender_params_def)
  have len: "length d = oT (common p)" using length_emitted [OF p(1) b(1) p(2) em] .
  have sbn: "unat (of_nat sbn :: u8) = sbn" and small: "sbn < MAX_BLOCKS"
    using b(1) Z by (auto simp: MAX_BLOCKS_def intro!: unat_of_nat_small)
  have e: "of_nat esi \<le> (0xffff :: u32)"
    using b(2) by (simp add: word_le_nat_alt unat_of_nat_small MAX_ESI_def)
  note fr = payload_parsed [OF e frame]
  from idle have inv: "rx_inv p f rx" and quiet: "\<not> rx_more rx" by (simp_all add: rx_idle_def)
  from inv c rq obtain R where R: "fed p f rq (rx_io rx) R" "flags_ok p R (rx_decoded rx)"
    and fields: "length (rx_esi rx) = MAX_BLOCKS" "length (rx_decoded rx) = MAX_BLOCKS" "rx_oti_common rx = nanorq_oti_common p"
      "rx_oti_scheme rx = nanorq_oti_scheme_specific p" "rx_num_sbn rx = nanorq_blocks p" by (auto simp: rx_inv_def)
  have d: "drop RQ_HEADER_SIZE frame = d @ rest" unfolding frame by (rule drop_payload_frame)
  obtain r rq1 io1 R1 where a: "nanorq_decoder_add_symbol rq (d @ rest) (nanorq_tag (of_nat sbn) (of_nat esi)) (rx_io rx) = Inr (r, rq1, io1)"
    "r \<noteq> NANORQ_SYM_ERR" "fed p f rq1 io1 R1" "R \<subseteq> R1"
    using fed_add [OF p R(1) b, of "d @ rest"] em len by auto
  have rs: "r = NANORQ_SYM_ADDED \<Longrightarrow> nanorq_block_symbols (par rq1) sbn \<le> unat (rx_esi rx ! sbn + 1) \<Longrightarrow> repair_sound rq1 sbn"
    using s a(1) fr rq by (auto simp: frame_sound_def d sbn)
  have mk: "flags_ok p R1 (rx_decoded rx)" using flags_mono [OF R(2) a(4)] .
  let ?rx = "rx\<lparr>rx_rq := Some rq1, rx_io := io1\<rparr>"
  define rx1 where "rx1 = (if r = NANORQ_SYM_ADDED
      then ?rx\<lparr>rx_esi := (rx_esi ?rx)[sbn := rx_esi ?rx ! sbn + 1], rx_more := True\<rparr>
      else if r = NANORQ_SYM_DUP then ?rx\<lparr>rx_more := False\<rparr> else ?rx)"
  have one: "rx_inv p f rx1" "rx_configured rx1" "rx_rq rx1 = Some rq1"
    using a(3) mk fields c by (auto simp: rx1_def rx_inv_def)
  have rs1: "repair_sound rq1 sbn" if "nanorq_block_symbols (par rq1) sbn \<le> unat (rx_esi rx1 ! sbn)" "rx_more rx1"
    using rs that quiet fields(1) small by (auto simp: rx1_def split: if_splits)
  have run: "receiver_payload rx rq frame = rbind (receiver_try_block rx1 rq1 sbn) (\<lambda>rx.
      rbind (receiver_complete rx) (\<lambda>done_all. if done_all then Inr (Success, rx) else Inr (Go_On, rx\<lparr>rx_more := False\<rparr>)))"
    unfolding receiver_payload_def Let_def d using a(1,2) fr fields(1) small
    by (simp add: sbn rx1_def)
  have conf: "yields (\<lambda>rx. rx_inv p f rx \<and> rx_configured rx) (receiver_try_block rx1 rq1 sbn)"
    using receiver_try_block_ok [OF p b(1) rs1 one(2,1,3)] one(2)
    by (cases "nanorq_repair_block rq1 (rx_io rx1) sbn") (auto simp: receiver_try_block_def split: if_splits)
  show ?thesis
    unfolding run
  proof (rule yields_rbind [OF conf])
    fix rx2 assume rx2: "rx_inv p f rx2 \<and> rx_configured rx2"
    obtain all_in where all_in: "receiver_complete rx2 = Inr all_in" "all_in \<longrightarrow> io_content (rx_io rx2) = f"
      using receiver_complete_ok [OF p Z] rx2 by blast
    have "rx_idle p f (rx2\<lparr>rx_more := False\<rparr>)" using rx2 by (auto simp: rx_inv_def rx_idle_def)
    then show "yields (rx_outcome p f)
        (rbind (receiver_complete rx2) (\<lambda>done_all. if done_all then Inr (Success, rx2) else Inr (Go_On, rx2\<lparr>rx_more := False\<rparr>)))"
      using all_in rx2 by (simp add: rx_idle_def)
  qed
qed

lemma receiver_configure_value:
  assumes sp: "sender_params p f t" and frame: "frame = configuration_packet p @ rest"
  shows "receiver_configure rx frame = Inr (rx\<lparr>rx_oti_common := nanorq_oti_common p, rx_oti_scheme := nanorq_oti_scheme_specific p,
      rx_rq := Some (nanorq_init p MAX_ESI), rx_num_sbn := nanorq_blocks p, rx_configured := True\<rparr>)"
proof -
  have p: "rq_ok p" using sender_params_ok [OF sp] by simp
  have new: "nanorq_encoder_new (length f) t 1 = Some (Inr (Some p))" "t < 65536" "length f < 2 ^ 24" using sp by (auto simp: sender_params_def)
  have cp: "parse_tag_oti_common frame = nanorq_oti_common p" "parse_tag_oti_scheme frame = nanorq_oti_scheme_specific p"
    "nanorq_decoder_new (nanorq_oti_common p) (nanorq_oti_scheme_specific p) = Inr (Some (p, 2 * pKprime (rqP p)))"
    using configuration_parsed [OF new, of rest 0, folded frame] by auto
  have "snd (nanorq_set_max_esi (nanorq_init p (2 * pKprime (rqP p))) MAX_ESI) = nanorq_init p MAX_ESI"
    using max_esi_bounds [OF p] by (simp add: nanorq_set_max_esi_def nanorq_init_def)
  then show ?thesis using cp by (simp add: receiver_configure_def Let_def)
qed

lemma receiver_configure_ok:
  assumes sp: "sender_params p f t" and inv: "rx_inv p f rx" and c: "\<not> rx_configured rx" and frame: "frame = configuration_packet p @ rest"
  shows "\<exists>rx'. receiver_configure rx frame = Inr rx' \<and> rx_inv p f rx' \<and> rx_more rx' = rx_more rx"
proof -
  have "fed p f (nanorq_init p MAX_ESI) (rx_io rx) {}" using inv c by (intro fed_init) (auto simp: rx_inv_def)
  moreover have "\<not> rx_decoded rx ! i" if "i < length (rx_decoded rx)" for i
    using inv c nth_mem [OF that] by (auto simp: rx_inv_def)
  then have "flags_ok p {} (rx_decoded rx)" by (simp add: flags_ok_def)
  ultimately show ?thesis using inv c unfolding receiver_configure_value [OF sp frame] by (auto simp: rx_inv_def)
qed

lemma receiver_frame_ok:
  assumes sp: "sender_params p f t" and fs: "fs = RQ_HEADER_SIZE + t" and idle: "rx_idle p f rx"
    and d: "delivered p f fs (r, frame, len)" "r \<noteq> 0" and s: "frame_sound rx frame"
  shows "yields (rx_outcome p f) (receiver_frame rx frame len)"
proof -
  have inv: "rx_inv p f rx" "\<not> rx_more rx" using idle by (simp_all add: rx_idle_def)
  have p: "rq_ok p" "length f = oF (common p)" using sender_params_ok [OF sp] by auto
  have new: "nanorq_encoder_new (length f) t 1 = Some (Inr (Some p))" "t < 65536" "length f < 2 ^ 24" "oT (common p) = t"
    using sp by (auto simp: sender_params_def)
  have types: "uint PACKET_RQ_CONFIG = 2" "uint PACKET_RQ_PAYLOAD = 3" by (simp_all add: packet_types)
  consider "parse_frame_header frame len = Inr (- 1)"
    | rest where "frame = configuration_packet p @ rest"
    | sbn esi d rest where "sbn < nanorq_blocks p" "esi \<le> MAX_ESI" "emitted p f sbn esi d" "len = fs"
        "frame = payload_frame (of_nat sbn) (of_nat esi) d @ rest"
    using d unfolding delivered_def genuine_frame_def prod.case by blast
  then show ?thesis
  proof cases
    case 1
    then show ?thesis using idle by (simp add: receiver_frame_def)
  next
    case 2
    note cp = configuration_parsed [OF new(1-3), of rest len, folded 2]
    have h: "parse_frame_header frame len = Inr 2" using cp by blast
    show ?thesis
    proof (cases "rx_configured rx")
      case True
      then have "rx_oti_common rx = nanorq_oti_common p" "rx_oti_scheme rx = nanorq_oti_scheme_specific p" using inv by (auto simp: rx_inv_def)
      then show ?thesis using h cp idle True by (simp add: receiver_frame_def types)
    next
      case False
      then show ?thesis
        using receiver_configure_ok [OF sp inv(1) False 2] h inv(2) by (auto simp: receiver_frame_def types rx_idle_def)
    qed
  next
    case 3
    have len: "length d = t" using length_emitted [OF p(1) 3(1) p(2) 3(3)] new(4) by simp
    have e: "of_nat esi \<le> (0xffff :: u32)"
      using 3(2) by (simp add: word_le_nat_alt unat_of_nat_small MAX_ESI_def)
    have h: "parse_frame_header frame len = Inr 3" using payload_parsed [OF e 3(5)] len by (simp add: fs 3(4))
    show ?thesis
    proof (cases "rx_configured rx")
      case True
      then obtain rq where rq: "rx_rq rx = Some rq" using inv by (auto simp: rx_inv_def)
      show ?thesis
        using receiver_payload_ok [OF sp idle True rq 3(1-3,5) s] True rq h by (simp add: receiver_frame_def types)
    next
      case False
      then show ?thesis using h idle by (simp add: receiver_frame_def types)
    qed
  qed
qed

lemma receive_loop_ok:
  assumes sp: "sender_params p f t" and fs: "fs = RQ_HEADER_SIZE + t"
  shows "rx_idle p f rx \<Longrightarrow> list_all (delivered p f fs) reads \<Longrightarrow> receive_sound rx reads \<Longrightarrow>
    yields (rx_outcome p f) (receive_loop rx reads)"
proof (induction reads arbitrary: rx)
  case (Cons x reads)
  obtain r frame len where x: "x = (r, frame, len)" by (cases x) auto
  have d: "delivered p f fs (r, frame, len)" using Cons.prems(2) by (simp add: x)
  show ?case
  proof (cases "r = 0")
    case True
    then show ?thesis using Cons by (simp add: x)
  next
    case False
    then have r: "\<not> r < 0" using d by (simp add: delivered_def)
    have s: "frame_sound rx frame" "\<And>v rx'. receiver_frame rx frame len = Inr (v, rx') \<Longrightarrow> receive_sound rx' reads"
      using Cons.prems(3) False by (auto simp: x)
    note step = receiver_frame_ok [OF sp fs Cons.prems(1) d False s(1)]
    show ?thesis
    proof (cases "receiver_frame rx frame len")
      case (Inl e)
      then show ?thesis using step False r by (simp add: x)
    next
      case (Inr y)
      obtain v rx' where y: "y = (v, rx')" by fastforce
      have o: "rx_outcome p f (v, rx')" using step Inr y by simp
      show ?thesis
      proof (cases "v = Go_On")
        case True
        have "yields (rx_outcome p f) (receive_loop rx' reads)"
          using Cons.IH [of rx'] o Cons.prems(2) s(2) Inr y True by (simp add: x)
        then show ?thesis using Inr y True False r by (simp add: x)
      next
        case no: False
        then show ?thesis using o Inr y False r by (simp add: x)
      qed
    qed
  qed
qed simp

end
