(* ===== verification/Precode_Marks.thy ===== *)
theory Precode_Marks
  imports Precode_Gen
begin

section \<open>When the checkpoints of a schedule are apart\<close>

text \<open>
  \<open>marks_apart\<close> is what the runner of a schedule needs. For a block's own matrix, which has as many rows as
  columns, the dense elimination always runs last; it is enough that the first phase records an
  operation and that the first column of the dense part has two ones in sparse rows.
\<close>

subsection \<open>How many operations are recorded\<close>

lemma rfold_grows:
  fixes m :: "'s \<Rightarrow> nat"
  assumes "\<And>s x s'. f s x = Inr s' \<Longrightarrow> m s \<le> m s' \<and> m s' \<le> m s + k"
  shows "rfold f s xs = Inr s' \<Longrightarrow> m s \<le> m s' \<and> m s' \<le> m s + length xs * k"
proof (induction xs arbitrary: s)
  case (Cons x xs)
  from Cons.prems obtain s1 where s1: "f s x = Inr s1" "rfold f s1 xs = Inr s'" by (auto simp: rbind_def split: sum.splits)
  show ?case using assms [OF s1(1)] Cons.IH [OF s1(2)] by simp
qed simp

lemma rfold_keeps:
  assumes "\<And>s x s'. f s x = Inr s' \<Longrightarrow> g s' = g s"
  shows "rfold f s xs = Inr s' \<Longrightarrow> g s' = g s"
proof (induction xs arbitrary: s)
  case (Cons x xs)
  from Cons.prems obtain s1 where s1: "f s x = Inr s1" "rfold f s1 xs = Inr s'" by (auto simp: rbind_def split: sum.splits)
  show ?case using assms [OF s1(1)] Cons.IH [OF s1(2)] by simp
qed simp

lemma axpy_push_Inr:
  assumes "axpy_push (U, S) i j b = Inr (U', S')"
  shows "S' = sched_push S i j b" "w_rows U' = w_rows U"
proof -
  obtain V where V: "wrkmat_axpy U i j b = Inr V" "U' = V" "S' = sched_push S i j b"
    using assms by (auto simp: axpy_push_def rbind_def split: sum.splits)
  then show "S' = sched_push S i j b" by simp
  show "w_rows U' = w_rows U" using V(1,2) by (auto simp: wrkmat_axpy_def Let_def split: if_splits)
qed

text \<open>Clearing a column: at most one operation for a row, at least one where some row has an entry.\<close>

lemma del_rows_ops:
  assumes f: "\<And>U S x. f (U, S) x = (let beta = wrkmat_at U (s_d S ! x) col
      in if beta = 0 then Inr (U, S) else axpy_push (U, S) (s_d S ! x) (s_d S ! row) beta)"
  shows "rfold f (U, S) xs = Inr (U', S') \<Longrightarrow> \<exists>ops. s_ops S' = s_ops S @ ops \<and> length ops \<le> length xs
    \<and> ((\<exists>x \<in> set xs. wrkmat_at U (s_d S ! x) col \<noteq> 0) \<longrightarrow> ops \<noteq> []) \<and> w_rows U' = w_rows U"
proof (induction xs arbitrary: U S)
  case (Cons x xs)
  from Cons.prems obtain U1 S1 where 1: "f (U, S) x = Inr (U1, S1)" "rfold f (U1, S1) xs = Inr (U', S')"
    by (auto simp: rbind_def split: sum.splits)
  from Cons.IH [OF 1(2)] obtain ops where ops: "s_ops S' = s_ops S1 @ ops" "length ops \<le> length xs"
    "(\<exists>x \<in> set xs. wrkmat_at U1 (s_d S1 ! x) col \<noteq> 0) \<longrightarrow> ops \<noteq> []" "w_rows U' = w_rows U1" by blast
  show ?case
  proof (cases "wrkmat_at U (s_d S ! x) col = 0")
    case True
    then have "U1 = U" "S1 = S" using 1(1) by (simp_all add: f Let_def)
    then show ?thesis using ops True by (intro exI [of _ ops]) auto
  next
    case False
    then have "axpy_push (U, S) (s_d S ! x) (s_d S ! row) (wrkmat_at U (s_d S ! x) col) = Inr (U1, S1)"
      using 1(1) by (simp add: f Let_def)
    note P = axpy_push_Inr [OF this]
    show ?thesis
      using ops P by (intro exI [of _ "\<lparr>op_beta = wrkmat_at U (s_d S ! x) col, op_i = s_d S ! x, op_j = s_d S ! row\<rparr> # ops"]) simp
  qed
qed simp

text \<open>One row of the dense elimination.\<close>

lemma gf256_step:
  assumes run: "solve_gf256_loop P (Suc n) (U, S) = Inr (r, U', S')" and nz: "List.find (\<lambda>h. wrkmat_at U (s_d S ! h) (pL P - Suc n - s_i S) \<noteq> 0)
      [pL P - Suc n..<w_rows U] = Some nz"
  shows "\<exists>U1 S1 ops. solve_gf256_loop P n (U1, S1) = Inr (r, U', S') \<and> s_ops S1 = s_ops S @ ops \<and> w_rows U1 = w_rows U
    \<and> length ops \<le> w_rows U + 1
    \<and> ((\<exists>h \<in> set [pL P - Suc n + 1..<w_rows U]. wrkmat_at U (s_d (swap_rows S (pL P - Suc n) nz) ! h) (pL P - Suc n - s_i S) \<noteq> 0) \<longrightarrow> ops \<noteq> [])"
proof -
  let ?row = "pL P - Suc n" and ?m = "w_rows U"
  let ?col = "?row - s_i S" and ?beta = "wrkmat_at U (s_d S ! nz) (?row - s_i S)" and ?S = "swap_rows S ?row nz"
  let ?scale = "if 1 < ?beta then rbind (wrkmat_scal U (s_d ?S ! ?row) (OCT_INV ! unat ?beta))
            (\<lambda>U. Inr (U, sched_push ?S (s_d ?S ! ?row) (unat (OCT_INV ! unat ?beta)) 0)) else Inr (U, ?S)"
  let ?f = "\<lambda>(U, S) del_row. let beta = wrkmat_at U (s_d S ! del_row) ?col
                in if beta = 0 then Inr (U, S) else axpy_push (U, S) (s_d S ! del_row) (s_d S ! ?row) beta"
  have eq: "solve_gf256_loop P (Suc n) (U, S)
        = rbind ?scale (\<lambda>US. rbind (rfold ?f US [?row + 1..<?m]) (\<lambda>US. solve_gf256_loop P n US))"
    by (simp only: solve_gf256_loop.simps Let_def nz option.case)
  have sw: "s_ops ?S = s_ops S" by (simp add: swap_rows_def Let_def)
  obtain U0 S0 U1 S1 where 0: "?scale = Inr (U0, S0)" and 1: "rfold ?f (U0, S0) [?row + 1..<?m] = Inr (U1, S1)"
    and 2: "solve_gf256_loop P n (U1, S1) = Inr (r, U', S')"
  proof -
    obtain US0 where s0: "?scale = Inr US0"
      and b: "rbind (rfold ?f US0 [?row + 1..<?m]) (\<lambda>US. solve_gf256_loop P n US) = Inr (r, U', S')"
      using run unfolding eq by (rule rbind_InrE)
    obtain US1 where s1: "rfold ?f US0 [?row + 1..<?m] = Inr US1" "solve_gf256_loop P n US1 = Inr (r, U', S')"
      using b by (rule rbind_InrE)
    obtain U0 S0 U1 S1 where "US0 = (U0, S0)" "US1 = (U1, S1)" by fastforce
    then show ?thesis using s0 s1 that by blast
  qed
  obtain ops0 where S0: "s_ops S0 = s_ops S @ ops0" "length ops0 \<le> 1" "w_rows U0 = ?m" "ops0 = [] \<Longrightarrow> U0 = U \<and> S0 = ?S"
  proof (cases "1 < ?beta")
    case True
    then have "rbind (wrkmat_scal U (s_d ?S ! ?row) (OCT_INV ! unat ?beta))
        (\<lambda>U. Inr (U, sched_push ?S (s_d ?S ! ?row) (unat (OCT_INV ! unat ?beta)) 0)) = Inr (U0, S0)" using 0 by (simp only: if_True)
    then obtain V where V: "wrkmat_scal U (s_d ?S ! ?row) (OCT_INV ! unat ?beta) = Inr V"
      and e: "Inr (V, sched_push ?S (s_d ?S ! ?row) (unat (OCT_INV ! unat ?beta)) 0) = (Inr (U0, S0) :: (wrkmat \<times> schedule) result)"
      by (rule rbind_InrE)
    have "w_rows V = ?m" using V by (auto simp: wrkmat_scal_def split: if_splits)
    moreover have "U0 = V" "s_ops S0 = s_ops S @ [\<lparr>op_beta = 0, op_i = s_d ?S ! ?row, op_j = unat (OCT_INV ! unat ?beta)\<rparr>]"
      using e sw by auto
    ultimately show ?thesis by (intro that) auto
  next
    case False
    then have "Inr (U, ?S) = (Inr (U0, S0) :: (wrkmat \<times> schedule) result)" using 0 by (simp only: if_False)
    then have "U0 = U \<and> S0 = ?S" by blast
    then show ?thesis using sw by (intro that [of "[]"]) auto
  qed
  have "\<exists>ops. s_ops S1 = s_ops S0 @ ops \<and> length ops \<le> length [?row + 1..<?m]
    \<and> ((\<exists>x \<in> set [?row + 1..<?m]. wrkmat_at U0 (s_d S0 ! x) ?col \<noteq> 0) \<longrightarrow> ops \<noteq> []) \<and> w_rows U1 = w_rows U0"
    by (rule del_rows_ops [OF _ 1]) simp
  then obtain ops where ops: "s_ops S1 = s_ops S0 @ ops" "length ops \<le> length [?row + 1..<?m]"
    "(\<exists>x \<in> set [?row + 1..<?m]. wrkmat_at U0 (s_d S0 ! x) ?col \<noteq> 0) \<longrightarrow> ops \<noteq> []" "w_rows U1 = w_rows U0" by blast
  have "ops0 @ ops \<noteq> []" if "\<exists>h \<in> set [?row + 1..<?m]. wrkmat_at U (s_d ?S ! h) ?col \<noteq> 0"
    using ops(3) S0(4) that by (cases "ops0 = []") auto
  then show ?thesis
    using 2 S0(1-3) ops(1,2,4) by (intro exI [of _ U1] exI [of _ S1] exI [of _ "ops0 @ ops"]) auto
qed

lemma gf256_length:
  "solve_gf256_loop P n (U, S) = Inr (r, U', S') \<Longrightarrow>
    length (s_ops S) \<le> length (s_ops S') \<and> length (s_ops S') \<le> length (s_ops S) + n * (w_rows U + 1)"
proof (induction n arbitrary: U S)
  case (Suc n)
  show ?case
  proof (cases "List.find (\<lambda>h. wrkmat_at U (s_d S ! h) (pL P - Suc n - s_i S) \<noteq> 0) [pL P - Suc n..<w_rows U]")
    case None
    then show ?thesis using Suc.prems by (simp add: Let_def)
  next
    case (Some nz)
    from gf256_step [OF Suc.prems this] obtain U1 S1 ops where
      "solve_gf256_loop P n (U1, S1) = Inr (r, U', S')" "s_ops S1 = s_ops S @ ops" "w_rows U1 = w_rows U" "length ops \<le> w_rows U + 1" by blast
    then show ?thesis using Suc.IH [of U1 S1] by simp
  qed
qed simp

text \<open>Two entries in the first column: something is recorded.\<close>

lemma gf256_pushes:
  assumes run: "solve_gf256_loop P (Suc n) (U, S) = Inr (r, U', S')" and row: "row = pL P - Suc n" "Suc n \<le> pL P"
    and ab: "row \<le> a" "a < b" "b < w_rows U" "b < length (s_d S)" and zero: "\<forall>h. row \<le> h \<and> h < a \<longrightarrow> wrkmat_at U (s_d S ! h) (row - s_i S) = 0"
    and at_a: "wrkmat_at U (s_d S ! a) (row - s_i S) \<noteq> 0" and at_b: "wrkmat_at U (s_d S ! b) (row - s_i S) \<noteq> 0"
  shows "length (s_ops S) < length (s_ops S')"
proof -
  have nz: "List.find (\<lambda>h. wrkmat_at U (s_d S ! h) (row - s_i S) \<noteq> 0) [row..<w_rows U] = Some a"
    unfolding find_Some_iff using ab zero at_a by (intro exI [of _ "a - row"]) auto
  have b: "s_d (swap_rows S row a) ! b = s_d S ! b" using ab by (simp add: swap_rows_def Let_def swap_pair_def swap_at_def)
  have "b \<in> set [pL P - Suc n + 1..<w_rows U]" using ab row by simp
  with gf256_step [OF run nz [unfolded row(1)]] b at_b obtain U1 S1 ops where
    1: "solve_gf256_loop P n (U1, S1) = Inr (r, U', S')" "s_ops S1 = s_ops S @ ops" "ops \<noteq> []" unfolding row(1) by metis
  have "length (s_ops S) < length (s_ops S1)" using 1(2,3) by simp
  also have "\<dots> \<le> length (s_ops S')" using gf256_length [OF 1(1)] by blast
  finally show ?thesis .
qed

text \<open>The dense rows: at most one operation for a row of the triangle and a dense row.\<close>

lemma fill_HDPC_length:
  assumes "precode_matrix_fill_HDPC P (U, S) = Inr (U', S')"
  shows "length (s_ops S') \<le> length (s_ops S) + s_i S * pH P" "s_d S' = s_d S"
proof -
  obtain M where M: "precode_matrix_make_HDPC P = Inr M" using assms by (auto simp: precode_matrix_fill_HDPC_def)
  let ?W = "wrkmat_assign_block U (fill_UL P S M) (pS P) (pH P)"
  define f where "f = (\<lambda>row (U, S) h. let beta = om_A M h (s_c S ! row); t = s_d S ! (w_rows U - pH P + h)
            in if beta \<noteq> 0 then axpy_push (U, S) t (s_d S ! row) beta else Inr (U, S))"
  have run: "rfold (\<lambda>US row. rfold (f row) US [0..<pH P]) (?W, S) [0..<s_i S] = Inr (U', S')"
    using assms M by (simp add: precode_matrix_fill_HDPC_def f_def Let_def)
  have f: "(length (s_ops (snd US)) \<le> length (s_ops (snd US')) \<and> length (s_ops (snd US')) \<le> length (s_ops (snd US)) + 1)
      \<and> s_d (snd US') = s_d (snd US)" if "f row US h = Inr US'" for row US h US'
  proof -
    obtain U1 S1 U2 S2 where e: "US = (U1, S1)" "US' = (U2, S2)" by fastforce
    show ?thesis using that by (auto simp: f_def e Let_def dest!: axpy_push_Inr(1) split: if_splits)
  qed
  have row: "length (s_ops (snd US)) \<le> length (s_ops (snd US')) \<and> length (s_ops (snd US')) \<le> length (s_ops (snd US)) + pH P"
    "s_d (snd US') = s_d (snd US)" if "rfold (f row) US [0..<pH P] = Inr US'" for row US US'
    using rfold_grows [where f = "f row" and m = "\<lambda>US. length (s_ops (snd US))" and k = 1, OF _ that]
      rfold_keeps [where f = "f row" and g = "\<lambda>US. s_d (snd US)", OF _ that] f by auto
  show "length (s_ops S') \<le> length (s_ops S) + s_i S * pH P"
    using rfold_grows [where f = "\<lambda>US row. rfold (f row) US [0..<pH P]" and m = "\<lambda>US. length (s_ops (snd US))" and k = "pH P", OF _ run] row(1) by simp
  show "s_d S' = s_d S"
    using rfold_keeps [where f = "\<lambda>US row. rfold (f row) US [0..<pH P]" and g = "\<lambda>US. s_d (snd US)", OF _ run] row(2) by simp
qed

lemma batches_length: "(\<And>p. p \<in> set ps \<Longrightarrow> length (ts p) \<le> k) \<Longrightarrow> length (batches s b ts ps) \<le> length ps * k"
proof (induction ps)
  case (Cons p ps)
  have "length (batch (s p) (b p) (ts p)) \<le> k" using Cons.prems [of p] by (simp add: batch_def)
  moreover have "length (batches s b ts ps) \<le> length ps * k" using Cons by simp
  ultimately show ?case by (simp add: batches_def)
qed simp

lemma column_length:
  assumes "matrix_ok P A" and "c < pL P"
  shows "length (idxs (spmat_transpose A) ! c) \<le> sp_rows A"
proof -
  note C = column_rows [OF assms]
  have "set (idxs (spmat_transpose A) ! c) \<subseteq> {..<sp_rows A}" using C(2) by auto
  then have "card (set (idxs (spmat_transpose A) ! c)) \<le> sp_rows A" using card_mono [of "{..<sp_rows A}"] by simp
  then show ?thesis using distinct_card [OF C(1)] by simp
qed

lemma ge_ops_length:
  assumes A: "matrix_ok P A" and p: "perms_ok P A S" and i: "s_i S \<le> pL P"
  shows "length (ge_ops S (spmat_transpose A) s e) \<le> s_i S * sp_rows A"
proof -
  have "length (ge_targets S (spmat_transpose A) s e q) \<le> sp_rows A" if "q < s_i S" for q
  proof -
    have "s_c S ! q < pL P" using perm_pairD(3) [OF perms_okD(2) [OF p]] that i by simp
    from column_length [OF A this] show ?thesis unfolding ge_targets_def by (rule order_trans [OF length_filter_le])
  qed
  then show ?thesis
    unfolding ge_ops_def using batches_length [of "[0..<s_i S]" "ge_targets S (spmat_transpose A) s e" "sp_rows A"] by simp
qed

lemma back_ops_length:
  assumes A: "matrix_ok P A" and p: "perms_ok P A S"
  shows "length (back_ops P (spmat_transpose A) U S) \<le> pL P * (sp_rows A + pL P)"
proof -
  have t: "length (back_targets (spmat_transpose A) U S q) \<le> sp_rows A + pL P" if "q < pL P" for q
  proof -
    have "s_c S ! q < pL P" using perm_pairD(3) [OF perms_okD(2) [OF p]] that by simp
    from column_length [OF A this] have "length (filter (\<lambda>t. s_di S ! t < s_i S) (idxs (spmat_transpose A) ! (s_c S ! q))) \<le> sp_rows A"
      by (rule order_trans [OF length_filter_le])
    moreover have "length (filter (\<lambda>h. wrkmat_at U (s_d S ! h) (q - s_i S) \<noteq> 0) [s_i S..<q]) \<le> pL P"
      by (rule order_trans [OF length_filter_le]) (use that in simp)
    ultimately show ?thesis by (simp add: back_targets_def)
  qed
  have "length (back_ops P (spmat_transpose A) U S) \<le> length (rev [s_i S..<pL P]) * (sp_rows A + pL P)"
    unfolding back_ops_def by (rule batches_length) (use t in simp)
  also have "\<dots> \<le> pL P * (sp_rows A + pL P)" by (intro mult_le_mono1) simp
  finally show ?thesis .
qed

subsection \<open>The checkpoints\<close>

text \<open>
  The state \<open>S0\<close> after the first phase, and two rows at places \<open>a\<close> and \<open>b\<close> of \<open>U\<close> with an entry in the first
  column, the first such row at \<open>a\<close>.
\<close>

definition two_entries :: "params \<Rightarrow> spmat \<Rightarrow> schedule \<Rightarrow> wrkmat \<Rightarrow> nat \<Rightarrow> nat \<Rightarrow> bool" where
  "two_entries P A S U a b \<longleftrightarrow> s_i S \<le> a \<and> a < b \<and> b < sp_rows A - pH P
     \<and> (\<forall>h \<in> set [s_i S..<a]. wrkmat_at U (s_d S ! h) 0 = 0) \<and> wrkmat_at U (s_d S ! a) 0 \<noteq> 0 \<and> wrkmat_at U (s_d S ! b) 0 \<noteq> 0"

lemma dense_part_pushes:
  assumes A: "matrix_ok P A" and o: "orders_ok P A S0" and i: "s_i S0 < pL P" "s_i S0 \<le> sp_rows A - pH P"
    and g: "gf_inv P A S0 (sparse_rows P A) m L1 ops m0 (s_i S0) (U, S)" and s: "s_d S = s_d S0"
    and e3: "elim_inv P A S0 {..<sp_rows A} (U3, S3)" and d3: "s_d S3 = s_d S" and ops3: "s_ops S3 = s_ops S @ hops"
    and hops: "\<forall>op \<in> set hops. op_i op \<in> {pS P..<pS P + pH P}" and two: "two_entries P A S0 U a b"
    and run: "solve_gf256_loop P (pL P - s_i S0) (U3, S3) = Inr (r, U', S')"
  shows "length (s_ops S3) < length (s_ops S')"
proof -
  let ?i = "s_i S0"
  note E = elim_invD [OF gf_invD(1) [OF g]] and E3 = elim_invD [OF e3]
  have ab: "?i \<le> a" "a < b" "b < sp_rows A - pH P" using two by (simp_all add: two_entries_def)
  have at: "wrkmat_at U3 (s_d S0 ! h) 0 = wrkmat_at U (s_d S0 ! h) 0" if "h \<le> b" for h
  proof -
    have sp: "s_d S0 ! h \<in> sparse_rows P A" using sparse_at [OF A o] that ab(3) by simp
    have lt: "s_d S0 ! h \<in> {..<sp_rows A}" using sp sparse_subset by blast
    have "s_d S0 ! h \<notin> op_i ` set hops" using sp hops by (force simp: sparse_rows_def)
    then have "run (s_ops S3) (sysmat P A) (s_d S0 ! h) = run (s_ops S) (sysmat P A) (s_d S0 ! h)"
      using run_other [of "s_d S0 ! h" hops "run (s_ops S) (sysmat P A)"] by (simp add: ops3)
    then show ?thesis using E(10) [OF sp order_refl i(1)] E3(10) [OF lt order_refl i(1)] by simp
  qed
  have row: "?i = pL P - Suc (pL P - ?i - 1)" "Suc (pL P - ?i - 1) \<le> pL P" "Suc (pL P - ?i - 1) = pL P - ?i" using i(1) by simp_all
  have run: "solve_gf256_loop P (Suc (pL P - ?i - 1)) (U3, S3) = Inr (r, U', S')" using run by (simp only: row(3))
  show ?thesis
  proof (rule gf256_pushes [OF run row(1,2) ab(1,2)])
    show "b < w_rows U3" "b < length (s_d S3)"
      using ab(3) wrk_okD(3) [OF E3(1)] perm_pairD(1) [OF perms_okD(1) [OF E3(6)]] by simp_all
    show "\<forall>h. ?i \<le> h \<and> h < a \<longrightarrow> wrkmat_at U3 (s_d S3 ! h) (?i - s_i S3) = 0"
      using at ab two E3(4) by (auto simp: two_entries_def d3 s)
    show "wrkmat_at U3 (s_d S3 ! a) (?i - s_i S3) \<noteq> 0" "wrkmat_at U3 (s_d S3 ! b) (?i - s_i S3) \<noteq> 0"
      using at [of a] at [of b] ab two E3(4) by (simp_all add: two_entries_def d3 s)
  qed
qed

lemma marks_apartI:
  assumes s: "s_ops S = ops1 @ (mid @ late) @ back" "s_mark0 S = of_nat (length ops1) - 1" "s_mark1 S = of_nat (length (ops1 @ mid @ late)) - 1"
    and ne: "ops1 \<noteq> []" "late \<noteq> []" and len: "length (s_ops S) < 2147483648"
    and rows: "\<forall>op \<in> set late. \<forall>r \<in> op_rows op. s_i S \<le> s_di S ! r"
  shows "marks_apart A S"
proof -
  have l: "length (ops1 @ mid @ late) < 4294967296" "length ops1 < 4294967296" "0 < length ops1" "0 < length (ops1 @ mid @ late)"
    using len ne by (simp_all add: s(1))
  have u: "unat (s_mark0 S) = length ops1 - 1" "unat (s_mark1 S) = length (ops1 @ mid @ late) - 1"
    unfolding s(2,3) using unat_pred l by blast+
  have late: "0 < length late" using ne by simp
  have "s_mark0 S < s_mark1 S" unfolding word_less_nat_alt u length_append using l(3) late by linarith
  moreover have "s_ops S ! unat (s_mark1 S) = last late"
  proof -
    have "ops1 @ mid @ late = (ops1 @ mid @ butlast late) @ [last late]" using ne by simp
    then have "s_ops S = (ops1 @ mid @ butlast late) @ last late # back" unfolding s(1) by (metis append.assoc append_Cons append_Nil)
    moreover have "unat (s_mark1 S) = length (ops1 @ mid @ butlast late)" unfolding u using ne by (cases late rule: rev_cases) simp_all
    ultimately show ?thesis by (simp only: nth_append_length)
  qed
  ultimately show ?thesis using len bspec [OF rows last_in_set [OF ne(2)]] by (simp add: marks_apart_def)
qed

lemma square_marks:
  assumes ok: "matrix_ok P A" and H: "1 < pH P" and sq: "sp_rows A = pL P" and small: "pL P \<le> 15000"
    and pre: "precode_matrix_precond P A (spmat_transpose A) (precode_matrix_sort P A (sched_new (sp_rows A) (sp_cols A))) = Inr S0"
    and ops1: "ge_ops S0 (spmat_transpose A) 0 (s_i S0) \<noteq> []"
    and U: "precode_matrix_make_U P A (spmat_transpose A) S0 = Inr (U, S1)" and two: "two_entries P A S0 U a b"
    and inv: "precode_matrix_invert P A = Inr (Some S)"
  shows "marks_apart A S"
proof -
  let ?AT = "spmat_transpose A" and ?n = "sp_rows A" and ?i = "s_i S0" and ?up = "upper_rows A S0"
  note AD = matrix_okD [OF ok]
  have S0: "orders_ok P A S0" "s_ops S0 = []" "?i \<le> pW P" "?i \<le> ?n - pH P" "s_u S0 = pL P - ?i" "triangle A (s_d S0) (s_c S0) ?i ?i"
    using precond_spec [OF ok] pre by auto
  have "?i < pL P - pH P" using two unfolding two_entries_def sq by linarith
  then have iL: "?i \<le> pL P" "?i < pL P" by simp_all
  have "0 < pKprime P + pS P" using AD(10,11,9,12) AD(1) by (auto simp: params_ok_def)
  then obtain M where M: "precode_matrix_make_HDPC P = Inr M" using H by (simp add: precode_matrix_make_HDPC_def Let_def)
  let ?ops1 = "ge_ops S0 ?AT 0 ?i" and ?ops2 = "ge_ops S0 ?AT (int ?i - 1) (?n - pH P)"
  let ?m0 = "of_nat (length ?ops1) - 1 :: u32" and ?L = "(!) (s_d S0) ` {?i..<?n - pH P}"
  note mU = make_U_gf [OF ok S0(1,3-5) S0(2,6)]
  have S1: "S1 = S0\<lparr>s_mark0 := ?m0, s_ops := ?ops1 @ ?ops2\<rparr>"
    and g1: "gf_inv P A S0 (sparse_rows P A) (?n - pH P) ?L (?ops1 @ ?ops2) ?m0 ?i (U, S1)" and bits: "all_bits A U"
    using mU(1) U by auto
  from fill_gf [OF ok S0(1,3-5) M g1 bits mU(2,3)] obtain U3 S3 tl hops L where
    fill: "precode_matrix_fill_HDPC P (U, S1) = Inr (U3, S3)" and tl: "s_ops S1 = ?ops1 @ ?ops2 @ tl"
    and ops3: "s_ops S3 = ?ops1 @ ?ops2 @ tl @ hops"
    and g3: "gf_inv P A S0 {..<?n} ?n L (?ops1 @ (?ops2 @ tl @ hops)) ?m0 ?i (U3, S3)" and L: "L \<inter> ?up = {}"
    and hops: "\<forall>op \<in> set hops. op_i op \<in> {pS P..<pS P + pH P}" by blast
  have no_tl: "tl = []" using tl by (simp add: S1)
  let ?ops = "?ops1 @ (?ops2 @ tl @ hops)"
  note E3 = elim_invD [OF gf_invD(1) [OF g3]]
  have n: "\<not> pL P \<le> ?n - pH P" using H AD(10) sq iL by simp
  have "precode_matrix_invert P A = rbind (solve_gf256_loop P (pL P - ?i) (U3, S3)) (\<lambda>(rank, U, S).
     Inr (if rank < pL P then None else Some (precode_matrix_backsolve P ?AT U (S\<lparr>s_mark1 := of_nat (length (s_ops S)) - 1\<rparr>))))"
    using n iL(2) E3(4) by (simp add: precode_matrix_invert_def Let_def pre U fill precode_matrix_solve_gf256_def)
  with inv obtain rank U4 S4 where run: "solve_gf256_loop P (pL P - ?i) (U3, S3) = Inr (rank, U4, S4)" and rank: "\<not> rank < pL P"
    and S: "S = precode_matrix_backsolve P ?AT U4 (S4\<lparr>s_mark1 := of_nat (length (s_ops S4)) - 1\<rparr>)"
    by (auto split: if_splits)
  have "yields (\<lambda>(rank, U', S'). rank \<le> pL P \<and> (rank = pL P \<longrightarrow> gf_inv P A S0 {..<?n} ?n L ?ops ?m0 (pL P) (U', S')))
        (solve_gf256_loop P (pL P - ?i) (U3, S3))"
    by (rule solve_gf256_spec [OF ok order_refl AD(4) refl]) (use iL g3 in simp_all)
  then have g4: "gf_inv P A S0 {..<?n} ?n L ?ops ?m0 (pL P) (U4, S4)" using run rank by simp
  note G4 = gf_invD [OF g4] and E4 = elim_invD [OF gf_invD(1) [OF g4]]
  from G4(5) obtain late where late: "s_ops S4 = ?ops @ late" "\<forall>op \<in> set late. op_rows op \<subseteq> L" by (auto simp: records_def)
  let ?S4 = "S4\<lparr>s_mark1 := of_nat (length (s_ops S4)) - 1\<rparr>" and ?B = "back_ops P ?AT U4 (S4\<lparr>s_mark1 := of_nat (length (s_ops S4)) - 1\<rparr>)"
  have p4: "perms_ok P A ?S4" using E4(6) by (simp add: perms_ok_def)
  have S: "S = ?S4\<lparr>s_ops := s_ops S4 @ ?B\<rparr>" unfolding S using backsolve_ops [OF ok p4 AD(4), of U4] by simp
  have "late \<noteq> []"
  proof
    assume "late = []"
    then have "s_ops S4 = s_ops S3" using late(1) ops3 by simp
    moreover have "length (s_ops S3) < length (s_ops S4)"
      by (rule dense_part_pushes [OF ok S0(1) iL(2) S0(4) g1 _ gf_invD(1) [OF g3] fill_HDPC_length(2) [OF fill] _ hops two run])
        (simp_all add: S1 ops3 no_tl)
    ultimately show False by simp
  qed
  moreover have "length (s_ops S) < 2147483648"
  proof -
    have l1: "length (s_ops S1) \<le> 2 * (?i * ?n)"
      using ge_ops_length [OF ok orders_okD(7) [OF S0(1)] iL(1), of 0 ?i] ge_ops_length [OF ok orders_okD(7) [OF S0(1)] iL(1), of "int ?i - 1" "?n - pH P"]
      by (simp add: S1)
    have l3: "length (s_ops S3) \<le> length (s_ops S1) + ?i * pH P" using fill_HDPC_length(1) [OF fill] by (simp add: S1)
    have l4: "length (s_ops S4) \<le> length (s_ops S3) + (pL P - ?i) * (?n + 1)"
      using gf256_length [OF run] wrk_okD(3) [OF E3(1)] by simp
    have lb: "length ?B \<le> pL P * (?n + pL P)" by (rule back_ops_length [OF ok p4])
    have sq15: "x * y \<le> 15000 * 15001" if "x \<le> 15000" "y \<le> 15001" for x y :: nat using that by (rule mult_le_mono)
    have "?i * ?n \<le> 15000 * 15001" "?i * pH P \<le> 15000 * 15001" "(pL P - ?i) * (?n + 1) \<le> 15000 * 15001"
      "pL P * ?n \<le> 15000 * 15001" "pL P * pL P \<le> 15000 * 15001"
      by (intro sq15; use iL(1) small sq AD(10-12) in simp)+
    then show ?thesis using l1 l3 l4 lb by (simp add: S distrib_left)
  qed
  moreover have "\<forall>op \<in> set late. \<forall>r \<in> op_rows op. s_i S \<le> s_di S ! r"
  proof (intro ballI)
    fix op r assume "op \<in> set late" "r \<in> op_rows op"
    then have r: "r \<in> L" using late(2) by blast
    then have r: "r < ?n" "r \<notin> ?up" using G4(4) L by auto
    have "upper_rows A S4 = ?up"
      using S0(4) E4(7) by (intro upper_rows_eq [OF orders_okD(7) [OF S0(1)] E4(6) E4(4)]) auto
    then have "r \<notin> upper_rows A S4" using r(2) by simp
    then have "s_i S4 \<le> s_di S4 ! r" using r(1) by (simp add: upper_rows_def)
    then show "s_i S \<le> s_di S ! r" by (simp add: S)
  qed
  moreover have "s_ops S = ?ops1 @ ((?ops2 @ tl @ hops) @ late) @ ?B" unfolding S by (simp add: late(1))
  moreover have "s_mark0 S = ?m0" using G4(6) by (simp add: S)
  moreover have "s_mark1 S = of_nat (length (?ops1 @ (?ops2 @ tl @ hops) @ late)) - 1" unfolding S by (simp add: late(1))
  ultimately show ?thesis using ops1 by (intro marks_apartI)
qed

end
