(* ===== verification/Precode_Ten.thy ===== *)
theory Precode_Ten
  imports Encoder Precode_Marks
begin

section \<open>The smallest block\<close>

text \<open>
  The parameters of all blocks of up to ten source symbols, \<open>K' = 10\<close>, worked out: the rows of the
  matrix, the order of the first phase and the working matrix. The schedule the solver
  returns for it is sound, so the encoder of every file of at most ten symbols is covered without
  an assumption about the solver.
\<close>

subsection \<open>The symbol rows\<close>

text \<open>A look-up in a table is evaluated at the index only.\<close>

lemma nth_index_cong: "n = m \<Longrightarrow> xs ! n = xs ! m"
  by simp

lemmas table_at = arg_cong [OF V0_def, of "\<lambda>xs. xs ! n" for n] arg_cong [OF V1_def, of "\<lambda>xs. xs ! n" for n]
  arg_cong [OF V2_def, of "\<lambda>xs. xs ! n" for n] arg_cong [OF V3_def, of "\<lambda>xs. xs ! n" for n]

lemma ten_fields: "pW params_10 = 17" "pP params_10 = 10" "pP1 params_10 = 11"
  by (simp_all add: params_10_def)

lemma skip_ten: "b < 10 \<Longrightarrow> skip_pi params_10 a b = Some b"
  "(10 + a) mod 11 < 10 \<Longrightarrow> skip_pi params_10 a 10 = Some ((10 + a) mod 11)"
  by (subst skip_pi.simps, simp add: params_10_def) (subst skip_pi.simps, subst skip_pi.simps, simp add: params_10_def)

lemma ten_simps:
  "lt_walk params_10 a b (numeral n) = (b + a) mod 17 # lt_walk params_10 a ((b + a) mod 17) (pred_numeral n)"
  "pi_walk params_10 a b (numeral n) = (case skip_pi params_10 a ((b + a) mod 11) of None \<Rightarrow> None
     | Some b \<Rightarrow> map_option ((#) (pW params_10 + b)) (pi_walk params_10 a b (pred_numeral n)))"
  by (simp_all add: numeral_eq_Suc [of n] ten_fields Let_def)

lemma rnd_0:
  "rnd_get 2618085 0 1048576 = 31081" "rnd_get 2618085 1 16 = 3" "rnd_get 2618085 2 17 = 9" "rnd_get 0 3 2 =
  0" "rnd_get 0 4 10 = 4" "rnd_get 0 5 11 = 1"
  by (simp add: rnd_get_def table_at cong: nth_index_cong)+

lemma tuple_0: "gen_tuple 0 params_10 = \<lparr>t_d = 2, t_a = 4, t_b = 9, t_d1 = 2, t_a1 = 5, t_b1 = 1\<rparr>"
  by (simp add: gen_tuple_def params_10_def rnd_0 deg_def degree_dist_def push_bit_eq_mult)

lemma cols_0: "params_set_idxs 0 params_10 = Some [9, 13, 18, 23]"
  by (simp add: params_set_idxs_def tuple_0 ten_simps ten_fields skip_ten)

lemma rnd_1:
  "rnd_get 2924914 0 1048576 = 886842" "rnd_get 2924914 1 16 = 5" "rnd_get 2924914 2 17 = 12" "rnd_get 1 4 10 =
  0" "rnd_get 1 5 11 = 3"
  by (simp add: rnd_get_def table_at cong: nth_index_cong)+

lemma tuple_1: "gen_tuple 1 params_10 = \<lparr>t_d = 7, t_a = 6, t_b = 12, t_d1 = 2, t_a1 = 1, t_b1 = 3\<rparr>"
  by (simp add: gen_tuple_def params_10_def rnd_1 deg_def degree_dist_def push_bit_eq_mult)

lemma cols_1: "params_set_idxs 1 params_10 = Some [12, 1, 7, 13, 2, 8, 14, 20, 21]"
  by (simp add: params_set_idxs_def tuple_1 ten_simps ten_fields skip_ten)

lemma rnd_2:
  "rnd_get 3231743 0 1048576 = 1004165" "rnd_get 3231743 1 16 = 5" "rnd_get 3231743 2 17 = 3" "rnd_get 2 4 10 =
  0" "rnd_get 2 5 11 = 0"
  by (simp add: rnd_get_def table_at cong: nth_index_cong)+

lemma tuple_2: "gen_tuple 2 params_10 = \<lparr>t_d = 15, t_a = 6, t_b = 3, t_d1 = 2, t_a1 = 1, t_b1 = 0\<rparr>"
  by (simp add: gen_tuple_def params_10_def rnd_2 deg_def degree_dist_def push_bit_eq_mult)

lemma cols_2: "params_set_idxs 2 params_10 = Some [3, 9, 15, 4, 10, 16, 5, 11, 0, 6, 12, 1, 7, 13, 2, 17, 18]"
  by (simp add: params_set_idxs_def tuple_2 ten_simps ten_fields skip_ten)

lemma rnd_3:
  "rnd_get 3538572 0 1048576 = 80938" "rnd_get 3538572 1 16 = 0" "rnd_get 3538572 2 17 = 4" "rnd_get 3 3 2 =
  1" "rnd_get 3 4 10 = 2" "rnd_get 3 5 11 = 8"
  by (simp add: rnd_get_def table_at cong: nth_index_cong)+

lemma tuple_3: "gen_tuple 3 params_10 = \<lparr>t_d = 2, t_a = 1, t_b = 4, t_d1 = 3, t_a1 = 3, t_b1 = 8\<rparr>"
  by (simp add: gen_tuple_def params_10_def rnd_3 deg_def degree_dist_def push_bit_eq_mult)

lemma cols_3: "params_set_idxs 3 params_10 = Some [4, 5, 25, 17, 20]"
  by (simp add: params_set_idxs_def tuple_3 ten_simps ten_fields skip_ten)

lemma rnd_4:
  "rnd_get 3845401 0 1048576 = 89492" "rnd_get 3845401 1 16 = 0" "rnd_get 3845401 2 17 = 7" "rnd_get 4 3 2 =
  1" "rnd_get 4 4 10 = 5" "rnd_get 4 5 11 = 8"
  by (simp add: rnd_get_def table_at cong: nth_index_cong)+

lemma tuple_4: "gen_tuple 4 params_10 = \<lparr>t_d = 2, t_a = 1, t_b = 7, t_d1 = 3, t_a1 = 6, t_b1 = 8\<rparr>"
  by (simp add: gen_tuple_def params_10_def rnd_4 deg_def degree_dist_def push_bit_eq_mult)

lemma cols_4: "params_set_idxs 4 params_10 = Some [7, 8, 25, 20, 26]"
  by (simp add: params_set_idxs_def tuple_4 ten_simps ten_fields skip_ten)

lemma rnd_5:
  "rnd_get 4152230 0 1048576 = 409120" "rnd_get 4152230 1 16 = 7" "rnd_get 4152230 2 17 = 7" "rnd_get 5 3 2 =
  0" "rnd_get 5 4 10 = 2" "rnd_get 5 5 11 = 4"
  by (simp add: rnd_get_def table_at cong: nth_index_cong)+

lemma tuple_5: "gen_tuple 5 params_10 = \<lparr>t_d = 2, t_a = 8, t_b = 7, t_d1 = 2, t_a1 = 3, t_b1 = 4\<rparr>"
  by (simp add: gen_tuple_def params_10_def rnd_5 deg_def degree_dist_def push_bit_eq_mult)

lemma cols_5: "params_set_idxs 5 params_10 = Some [7, 15, 21, 24]"
  by (simp add: params_set_idxs_def tuple_5 ten_simps ten_fields skip_ten)

lemma rnd_6:
  "rnd_get 4459059 0 1048576 = 552417" "rnd_get 4459059 1 16 = 3" "rnd_get 4459059 2 17 = 5" "rnd_get 6 3 2 =
  1" "rnd_get 6 4 10 = 3" "rnd_get 6 5 11 = 5"
  by (simp add: rnd_get_def table_at cong: nth_index_cong)+

lemma tuple_6: "gen_tuple 6 params_10 = \<lparr>t_d = 3, t_a = 4, t_b = 5, t_d1 = 3, t_a1 = 4, t_b1 = 5\<rparr>"
  by (simp add: gen_tuple_def params_10_def rnd_6 deg_def degree_dist_def push_bit_eq_mult)

lemma cols_6: "params_set_idxs 6 params_10 = Some [5, 9, 13, 22, 26, 19]"
  by (simp add: params_set_idxs_def tuple_6 ten_simps ten_fields skip_ten)

lemma rnd_7:
  "rnd_get 4765888 0 1048576 = 140680" "rnd_get 4765888 1 16 = 5" "rnd_get 4765888 2 17 = 6" "rnd_get 7 3 2 =
  0" "rnd_get 7 4 10 = 2" "rnd_get 7 5 11 = 2"
  by (simp add: rnd_get_def table_at cong: nth_index_cong)+

lemma tuple_7: "gen_tuple 7 params_10 = \<lparr>t_d = 2, t_a = 6, t_b = 6, t_d1 = 2, t_a1 = 3, t_b1 = 2\<rparr>"
  by (simp add: gen_tuple_def params_10_def rnd_7 deg_def degree_dist_def push_bit_eq_mult)

lemma cols_7: "params_set_idxs 7 params_10 = Some [6, 12, 19, 22]"
  by (simp add: params_set_idxs_def tuple_7 ten_simps ten_fields skip_ten)

lemma rnd_8:
  "rnd_get 5072717 0 1048576 = 567487" "rnd_get 5072717 1 16 = 4" "rnd_get 5072717 2 17 = 16" "rnd_get 8 3 2 =
  1" "rnd_get 8 4 10 = 7" "rnd_get 8 5 11 = 3"
  by (simp add: rnd_get_def table_at cong: nth_index_cong)+

lemma tuple_8: "gen_tuple 8 params_10 = \<lparr>t_d = 3, t_a = 5, t_b = 16, t_d1 = 3, t_a1 = 8, t_b1 = 3\<rparr>"
  by (simp add: gen_tuple_def params_10_def rnd_8 deg_def degree_dist_def push_bit_eq_mult)

lemma cols_8: "params_set_idxs 8 params_10 = Some [16, 4, 9, 20, 17, 25]"
  by (simp add: params_set_idxs_def tuple_8 ten_simps ten_fields skip_ten)

lemma rnd_9:
  "rnd_get 5379546 0 1048576 = 871722" "rnd_get 5379546 1 16 = 2" "rnd_get 5379546 2 17 = 16" "rnd_get 9 4 10 =
  5" "rnd_get 9 5 11 = 4"
  by (simp add: rnd_get_def table_at cong: nth_index_cong)+

lemma tuple_9: "gen_tuple 9 params_10 = \<lparr>t_d = 6, t_a = 3, t_b = 16, t_d1 = 2, t_a1 = 6, t_b1 = 4\<rparr>"
  by (simp add: gen_tuple_def params_10_def rnd_9 deg_def degree_dist_def push_bit_eq_mult)

lemma cols_9: "params_set_idxs 9 params_10 = Some [16, 2, 5, 8, 11, 14, 21, 22]"
  by (simp add: params_set_idxs_def tuple_9 ten_simps ten_fields skip_ten)

subsection \<open>The matrix\<close>

definition matrix_10 :: spmat where
  "matrix_10 = \<lparr>sp_rows = 27, sp_cols = 27, idxs = [[0, 5, 6, 7, 10, 17, 18],
     [0, 1, 6, 8, 11, 18, 19],
     [0, 1, 2, 7, 9, 12, 19, 20],
     [1, 2, 3, 8, 13, 20, 21],
     [2, 3, 4, 7, 9, 14, 21, 22],
     [3, 4, 5, 8, 15, 22, 23],
     [4, 5, 6, 9, 16, 23, 24],
     [],
     [],
     [],
     [],
     [],
     [],
     [],
     [],
     [],
     [],
     [9, 13, 18, 23],
     [12, 1, 7, 13, 2, 8, 14, 20, 21],
     [3, 9, 15, 4, 10, 16, 5, 11, 0, 6, 12, 1, 7, 13, 2, 17, 18],
     [4, 5, 25, 17, 20],
     [7, 8, 25, 20, 26],
     [7, 15, 21, 24],
     [5, 9, 13, 22, 26, 19],
     [6, 12, 19, 22],
     [16, 4, 9, 20, 17, 25],
     [16, 2, 5, 8, 11, 14, 21, 22]]\<rparr>"

lemma gen_ok_10: "gen_ok params_10"
proof -
  have "params_of_row (10, 254, 7, 10, 17) \<in> params_of_row ` set params_rows"
    by (intro imageI) (simp add: params_rows_def K_padded_def J_K_padded_def S_H_W_def)
  then show ?thesis using row_gen_ok params_10_row by (metis imageE)
qed

lemma gen_10: "precode_matrix_gen params_10 0 = Inr matrix_10"
proof -
  have sizes: "pL params_10 = 27" "pS params_10 = 7" "pH params_10 = 10" by (simp_all add: params_10_def)
  have sym: "row_columns X params_10 = xs" if "params_set_idxs X params_10 = Some xs" for X xs
    using params_set_idxs_columns [OF params_10_ok, of X] that by simp
  note cols = cols_0 [THEN sym] cols_1 [THEN sym] cols_2 [THEN sym] cols_3 [THEN sym] cols_4 [THEN sym]
    cols_5 [THEN sym] cols_6 [THEN sym] cols_7 [THEN sym] cols_8 [THEN sym] cols_9 [THEN sym]
  let ?g = "\<lambda>r. if r < 7 then ldpc_row params_10 r else if 17 \<le> r \<and> r < 27 then row_columns (of_nat (r - 7 - 10)) params_10 else []"
  obtain A where A: "precode_matrix_gen params_10 0 = Inr A" "sp_rows A = 27" "sp_cols A = 27" "length (idxs A) = 27"
    "\<forall>r < 27. idxs A ! r = ?g r"
    using gen_rows [OF gen_ok_10, of 0] by (auto simp: sizes)
  have "idxs A = map ?g [0..<27]" using A(4,5) by (intro nth_equalityI) auto
  also have "[0..<27] = [0..<7] @ [7..<17] @ [17..<27 :: nat]" by (simp add: upt_add_eq_append [symmetric, of 0 7 20, simplified] upt_add_eq_append [of 7 17 10, simplified])
  also have "map ?g \<dots> = map (ldpc_row params_10) [0..<7] @ replicate 10 [] @ map (\<lambda>r. row_columns (of_nat (r - 17)) params_10) [17..<27]"
    by (simp add: numeral_eq_Suc)
  also have "map (ldpc_row params_10) [0..<7] = [[0, 5, 6, 7, 10, 17, 18], [0, 1, 6, 8, 11, 18, 19], [0, 1, 2, 7, 9, 12, 19, 20], [1, 2, 3, 8, 13, 20, 21], [2, 3, 4, 7, 9, 14, 21, 22], [3, 4, 5, 8, 15, 22, 23], [4, 5, 6, 9, 16, 23, 24]]" by code_simp
  also have "map (\<lambda>r. row_columns (of_nat (r - 17)) params_10) [17..<27] = [[9, 13, 18, 23], [12, 1, 7, 13, 2, 8, 14, 20, 21], [3, 9, 15, 4, 10, 16, 5, 11, 0, 6, 12, 1, 7, 13, 2, 17, 18], [4, 5, 25, 17, 20], [7, 8, 25, 20, 26], [7, 15, 21, 24], [5, 9, 13, 22, 26, 19], [6, 12, 19, 22], [16, 4, 9, 20, 17, 25], [16, 2, 5, 8, 11, 14, 21, 22]]"
    by (simp add: upt_conv_Cons cols)
  finally show ?thesis using A(1-3) by (simp add: matrix_10_def numeral_eq_Suc)
qed

lemma matrix_10_ok: "matrix_ok params_10 matrix_10"
proof -
  have "\<exists>ids. rows_of params_10 (pL params_10) ids matrix_10"
    using gen_rows_of [OF gen_ok_10] gen_10 by auto
  then show ?thesis using rows_of_ok [OF gen_ok_10] by blast
qed

subsection \<open>The phases\<close>

definition order_10 :: schedule where
  "order_10 = \<lparr>s_rows = 27, s_cols = 27, s_c = [6, 7, 8, 4, 3, 9, 16, 1, 14, 11, 0, 10, 2, 13, 5, 15, 12, 17, 18, 19,
     20, 21, 22, 23, 24, 25, 26], s_d = [24, 22, 21, 20, 5, 23, 25, 3, 18, 26, 1, 19, 2, 17, 4, 0, 6, 7, 8, 9,
     10, 11, 12, 13, 14, 15, 16], s_ci = [10, 7, 12, 4, 3, 14, 0, 1, 2, 5, 11, 9, 16, 13, 8, 15, 6, 17, 18, 19,
     20, 21, 22, 23, 24, 25, 26], s_di = [15, 10, 12, 7, 14, 4, 16, 17, 18, 19, 20, 21, 22, 23, 24, 25, 26, 13,
     8, 11, 3, 2, 1, 5, 0, 6, 9], s_nz = [0, 0, 0, 0, 0, 0, 0, 27, 27, 27, 27, 27, 27, 27, 27, 27, 27, 0, 0, 0,
     0, 0, 0, 0, 0, 0, 0], s_ops = [], s_i = 12, s_u = 15, s_mark0 = 0, s_mark1 = 0\<rparr>"

lemma precond_10: "precode_matrix_precond params_10 matrix_10 (spmat_transpose matrix_10)
    (precode_matrix_sort params_10 matrix_10 (sched_new 27 27)) = Inr order_10"
  by code_simp

lemma first_phase_10: "length (ge_ops order_10 (spmat_transpose matrix_10) 0 (s_i order_10)) = 26"
  by code_simp

definition work_10 :: wrkmat where
  "work_10 = \<lparr>w_GF2 = \<lparr>g_rows = 27, g_cols = 15, g_stride = 1, g_bits = [[11399], [9412], [24048], [11819],
     [25523], [24096], [15796], [0], [0], [0], [0], [0], [0], [0], [0], [0], [0], [19652], [19512], [7871],
     [8484], [29448], [4616], [17542], [1168], [17538], [32183]]\<rparr>, w_GF256 = \<lparr>om_rows = 0,
     om_cols = 0, om_data = []\<rparr>, w_rows = 27, w_cols = 15, w_blkidx = 0, w_rowmap = [0, 0, 0, 0, 0, 0,
     0, 0, 0, 0, 0, 0, 0, 0, 0, 0, 0, 0, 0, 0, 0, 0, 0, 0, 0, 0, 0], w_type = [False, False, False, False,
     False, False, False, False, False, False, False, False, False, False, False, False, False, False, False,
     False, False, False, False, False, False, False, False]\<rparr>"

lemma make_U_10: "map_sum id fst (precode_matrix_make_U params_10 matrix_10 (spmat_transpose matrix_10) order_10) = Inr work_10"
  by code_simp

lemma two_entries_10: "two_entries params_10 matrix_10 order_10 work_10 14 15"
  by code_simp

subsection \<open>The schedule\<close>

lemma schedule_sound_10: "schedule_sound params_10"
  unfolding schedule_sound_def
proof (intro allI impI)
  fix A S assume A: "precode_matrix_gen params_10 0 = Inr A" and S: "precode_matrix_invert params_10 A = Inr (Some S)"
  have sizes: "pL params_10 = 27" "pH params_10 = 10" "sp_rows matrix_10 = 27" "sp_cols matrix_10 = 27"
    by (simp_all add: params_10_def matrix_10_def)
  have A: "A = matrix_10" using A gen_10 by simp
  have ok: "matrix_ok params_10 matrix_10" using matrix_10_ok .
  obtain S1 where U: "precode_matrix_make_U params_10 matrix_10 (spmat_transpose matrix_10) order_10 = Inr (work_10, S1)"
    using make_U_10 by (cases "precode_matrix_make_U params_10 matrix_10 (spmat_transpose matrix_10) order_10") auto
  have "ge_ops order_10 (spmat_transpose matrix_10) 0 (s_i order_10) \<noteq> []" using first_phase_10 by auto
  from square_marks [OF ok _ _ _ _ this U two_entries_10 S [unfolded A]] precond_10 show "marks_apart A S"
    by (simp add: A sizes)
qed

text \<open>The parameters of every file of at most ten symbols.\<close>

lemma params_init_10: "K \<le> 10 \<Longrightarrow> params_init K = Inr params_10"
proof -
  assume K: "K \<le> 10"
  have "\<exists>xs. K_padded = 10 # xs" "\<exists>xs. J_K_padded = 254 # xs" "\<exists>xs. S_H_W = (7, 10, 17) # xs"
    by (simp_all add: K_padded_def J_K_padded_def S_H_W_def)
  then obtain xs ys zs where "K_padded = 10 # xs" "J_K_padded = 254 # ys" "S_H_W = (7, 10, 17) # zs" by blast
  then have rows: "params_rows = (10, 254, 7, 10, 17) # zip xs (zip ys zs)" unfolding params_rows_def by (metis zip_Cons_Cons)
  show ?thesis unfolding params_init_def rows using K by (simp add: params_10_row)
qed

lemma ten_symbols:
  assumes "rq_ok p" and "oKt (scheme p) \<le> 10"
  shows "rqP p = params_10"
proof -
  have Z: "0 < oZ (scheme p)" "oZ (scheme p) < 65536" "src_part p = fill_partition (oKt (scheme p)) (oZ (scheme p))"
    and i: "params_init (block_symbols (src_part p) 0 mod 65536) = Inr (rqP p)"
    using assms(1) by (auto simp: rq_ok_def Z_max_def)
  have "oKt (scheme p) * 1 \<le> oKt (scheme p) * oZ (scheme p)" using Z(1) by (intro mult_le_mono2) simp
  then have "div_ceil (oKt (scheme p)) (oZ (scheme p)) \<le> 10" "oKt (scheme p) div oZ (scheme p) \<le> 10"
    using Z(1) assms(2) div_ceil_le_iff [of "oZ (scheme p)" "oKt (scheme p)" 10] div_le_dividend [of "oKt (scheme p)" "oZ (scheme p)"]
    by (auto intro: order_trans [OF div_le_dividend])
  then have "block_symbols (src_part p) 0 \<le> 10"
    using Z(2) by (auto simp: Z(3) fill_partition_def block_symbols_def div_floor_def Let_def)
  then have "params_init (block_symbols (src_part p) 0 mod 65536) = Inr params_10" by (intro params_init_10) simp
  then show ?thesis using i by simp
qed

end
