(* ===== verification/Broadcast.thy ===== *)
theory Broadcast
  imports Receiver Precode_Ten
begin

section \<open>From the transmitter to the receiver\<close>

text \<open>
  The two programs joined by a channel that loses, repeats, reorders and damages frames. The main facts: which frames
  the transmitter sends, and that, whatever arrives, the receiver only ever finishes with the transmitter's file.
\<close>

fun call_bytes :: "tx_call \<Rightarrow> bytes" where
  "call_bytes (Write_Buffer d) = d"
| "call_bytes (Send_Kiss d) = d"

definition frame_bytes :: "tx_call list \<Rightarrow> bytes" where
  "frame_bytes cs = concat (map call_bytes cs)"

lemma drop_replicate_rest: "drop n (replicate k x) = replicate (k - n) x"
  by simp

lemma sends_frame:
  "sends p f mode fs None cs \<Longrightarrow> frame_bytes cs = configuration_packet p @ replicate (fs - CONFIG_PACKET_SIZE) 0"
  "sends p f mode fs (Some (sbn, esi)) cs \<Longrightarrow> \<exists>d. emitted p f sbn esi d \<and> frame_bytes cs = payload_frame (of_nat sbn) (of_nat esi) d"
  by (cases mode; auto simp: sends_def frame_bytes_def config_blocks_shm_def write_frame_def blit_def length_configuration)+

lemma tx_item_bounds:
  assumes "tx_item Z i = Some (b, e)" and "i < plan_length Z" and "0 < Z"
  shows "b < Z \<and> e \<le> 65535"
proof -
  have m: "i mod (Z + 1) \<noteq> 0" and be: "b = i mod (Z + 1) - 1" "e = i div (Z + 1)" using assms(1) by (auto simp: tx_item_def split: if_splits)
  have "i mod (Z + 1) < Z + 1" by simp
  then have b: "b < Z" using m be(1) by linarith
  have "i < 65536 * (Z + 1)" using assms(2,3) by (simp add: plan_length_def)
  then have "e < 65536" unfolding be(2) by (simp add: less_mult_imp_div_less)
  with b show ?thesis by simp
qed

lemma frames_genuine:
  assumes sent: "list_all2 (sends p f mode fs) (map (tx_item (nanorq_blocks p)) [0..<k]) frames" and k: "k \<le> plan_length (nanorq_blocks p)"
    and Z: "0 < nanorq_blocks p" and cs: "cs \<in> set frames"
  shows "genuine_frame p f (frame_bytes cs @ rest)"
proof -
  from cs obtain i where i: "i < length frames" "cs = frames ! i" by (auto simp: in_set_conv_nth)
  have len: "length frames = k" using list_all2_lengthD [OF sent] by simp
  have s: "sends p f mode fs (tx_item (nanorq_blocks p) i) cs"
    using list_all2_nthD2 [OF sent i(1)] i len by simp
  show ?thesis
  proof (cases "tx_item (nanorq_blocks p) i")
    case None
    then show ?thesis using sends_frame(1) [of p f mode fs cs] s by (auto simp: genuine_frame_def)
  next
    case (Some x)
    then obtain b e where x: "tx_item (nanorq_blocks p) i = Some (b, e)" by (cases x) auto
    have "b < nanorq_blocks p" "e \<le> MAX_ESI"
      using tx_item_bounds [OF x _ Z] i(1) len k by (simp_all add: MAX_ESI_def)
    moreover obtain d where "emitted p f b e d" "frame_bytes cs = payload_frame (of_nat b) (of_nat e) d"
      using sends_frame(2) [of p f mode fs b e cs] s x by auto
    ultimately show ?thesis unfolding genuine_frame_def by blast
  qed
qed

text \<open>The transmitter's own block counts fit the receiver's arrays.\<close>

lemma encoder_blocks_bound:
  assumes new: "nanorq_encoder_new len t 1 = Some (Inr (Some p))" and t: "0 < t" "t < 65536"
    and zm: "zm \<in> {128, 256}" "div_ceil len t \<le> zm * K_max"
  shows "nanorq_blocks p \<le> zm" and "b < nanorq_blocks p \<Longrightarrow> 0 < nanorq_block_symbols p b" and "oT (common p) = t"
proof -
  have p: "rq_ok p" using encoder_rq_ok [of len t 0 0 1 p] new t(2) by (simp add: nanorq_encoder_new_def)
  define kt where "kt = div_ceil len t"
  have kt: "kt \<le> zm * K_max" "kt \<le> Z_max * K_max" using zm by (auto simp: kt_def K_max_def Z_max_def)
  have g: "grow_T len t 1 = Some (Inr t)"
    using t kt by (subst grow_T.simps) (simp add: kt_def [symmetric])
  define z where "z = grow_Z kt 16"
  have "div_ceil kt zm \<le> K_max" using kt zm by (auto simp: div_ceil_le_iff mult.commute)
  then have z: "16 \<le> z" "z \<le> zm" using grow_Z_spec [of 16 zm kt] zm(1) by (auto simp: z_def)
  define kn where "kn = div_ceil kt z"
  have s: "gen_scheme_specific \<lparr>oF = len, oT = t, oAl = 1\<rparr> 0 0
      = (if kn = 0 then Inl Div_By_Zero else Inr \<lparr>oZ = div_ceil kt kn, oN = 1, oKt = kt\<rparr>)"
    using t z(1) by (auto simp: gen_scheme_specific_def Let_def kn_def kt_def z_def)
  have kn: "kn \<noteq> 0"
  proof
    assume "kn = 0"
    then show False using new g s t by (auto simp: nanorq_encoder_new_def nanorq_encoder_new_ex_def match_align_def Let_def split: if_splits)
  qed
  have sch: "scheme p = \<lparr>oZ = div_ceil kt kn, oN = 1, oKt = kt\<rparr>"
    using new g s t kn by (auto simp: nanorq_encoder_new_def nanorq_encoder_new_ex_def match_align_def Let_def split: if_splits sum.splits)
  show "oT (common p) = t"
    using new g s t kn by (auto simp: nanorq_encoder_new_def nanorq_encoder_new_ex_def match_align_def Let_def split: if_splits sum.splits)
  have "kt \<le> kn * z" unfolding kn_def using div_ceil_bounds(1) [of z kt] z(1) by simp
  then have "div_ceil kt kn \<le> z" using kn by (simp add: div_ceil_le_iff mult.commute)
  then show "nanorq_blocks p \<le> zm" using rq_ok_symbols(4) [OF p] z(2) by (simp add: sch)
  have Z: "0 < oZ (scheme p)" "oZ (scheme p) \<le> 256" "src_part p = fill_partition (oKt (scheme p)) (oZ (scheme p))"
    using p by (auto simp: rq_ok_def Z_max_def)
  have "kt * 1 \<le> kt * kn" using kn by (intro mult_le_mono2) simp
  then have "oZ (scheme p) \<le> oKt (scheme p)" using kn by (simp add: sch div_ceil_le_iff)
  then have ks: "0 < oKt (scheme p) div oZ (scheme p)" using Z(1) by (simp add: div_greater_zero_iff)
  then have kl: "0 < div_ceil (oKt (scheme p)) (oZ (scheme p))" by (simp add: div_ceil_def)
  assume b: "b < nanorq_blocks p"
  show "0 < nanorq_block_symbols p b"
    using b ks kl Z(1,2) unfolding nanorq_blocks_def nanorq_block_symbols_def Z(3) fill_partition_def block_symbols_def
    by (auto simp: Let_def div_floor_def)
qed

text \<open>For a file of at most ten symbols nothing is assumed of the solver.\<close>

lemma small_file_sound:
  assumes "nanorq_encoder_new len t 1 = Some (Inr (Some p))" and "0 < t" "t < 65536" and "len \<le> 10 * t"
  shows "schedule_sound (rqP p)"
proof -
  have k: "div_ceil len t \<le> 10" using assms(2,4) by (simp add: div_ceil_le_iff)
  then have "div_ceil len t \<le> 256 * K_max" by (simp add: K_max_def)
  then have t: "oT (common p) = t" using encoder_blocks_bound(3) [OF assms(1-3), of 256] by simp
  have p: "rq_ok p" "oF (common p) = len" using encoder_rq_ok [of len t 0 0 1 p] assms(1,3) by (auto simp: nanorq_encoder_new_def)
  then have "oKt (scheme p) \<le> 10" using k t by (simp add: rq_ok_def)
  then show ?thesis using ten_symbols [OF p(1)] schedule_sound_10 by simp
qed

lemma encoder_blocks_small:
  assumes "nanorq_encoder_new len t 1 = Some (Inr (Some p))" and "len \<le> 16777215" and "8 \<le> t" and "t < 65536"
  shows "nanorq_blocks p \<le> 128" and "b < nanorq_blocks p \<Longrightarrow> 0 < nanorq_block_symbols p b" and "oT (common p) = t"
proof -
  have d: "div_ceil len t \<le> 128 * K_max"
  proof -
    have "len \<le> 2097152 * t" using assms(2,3) by simp
    then show ?thesis using assms(3) by (simp add: div_ceil_le_iff K_max_def)
  qed
  have t: "0 < t" using assms(3) by simp
  note b = encoder_blocks_bound [OF assms(1) t assms(4) _ d]
  show "nanorq_blocks p \<le> 128" "b < nanorq_blocks p \<Longrightarrow> 0 < nanorq_block_symbols p b" "oT (common p) = t"
    using b by simp_all
qed

lemma started_sender:
  assumes s: "started p f mode m tx" and m: "mode = OUTPUT_TCP \<Longrightarrow> m \<noteq> 5"
  shows "sender_params p f (frame_sizes_of mode ! m - 4)" "12 \<le> frame_sizes_of mode ! m" "tx_frame_size tx = frame_sizes_of mode ! m"
proof -
  have modes: "m \<le> modes_of mode" using s by (simp add: started_def)
  show fs: "12 \<le> frame_sizes_of mode ! m" using frame_sizes_bounds [OF modes m] by blast
  have le: "frame_sizes_of mode ! m \<le> 510" using frame_sizes_bounds [OF modes m] by blast
  show "sender_params p f (frame_sizes_of mode ! m - 4)"
    using s encoder_blocks_small [of "length f" "frame_sizes_of mode ! m - 4" p] fs le
    by (auto simp: started_def sender_params_def MAX_BLOCKS_def)
  show "tx_frame_size tx = frame_sizes_of mode ! m" using s by (simp add: started_def tx_at_def)
qed

subsection \<open>The transmission\<close>

lemma started_encoder:
  assumes "started p f mode m tx"
  shows "nanorq_encoder_new (length f) (frame_sizes_of mode ! m - 4) 1 = Some (Inr (Some p))"
proof -
  have e: "oT (common p) = frame_sizes_of mode ! m - 4" "nanorq_encoder_new (length f) (oT (common p)) 1 = Some (Inr (Some p))"
    using assms unfolding started_def by blast+
  show ?thesis using e(2) unfolding e(1) .
qed

lemma transmission_plan:
  assumes s: "started p f mode m tx" and m: "mode = OUTPUT_TCP \<Longrightarrow> m \<noteq> 5" and snd: "schedule_sound (rqP p)"
  shows "yields (\<lambda>(cs, tx'). list_all2 (sends p f mode (frame_sizes_of mode ! m))
      (map (tx_item (nanorq_blocks p)) [0..<min n (plan_length (nanorq_blocks p))]) cs) (transmit tx n)"
proof -
  note sp = started_sender [OF s m]
  have p: "rq_ok p" "length f = oF (common p)" using s by (auto simp: started_def)
  have Z: "0 < nanorq_blocks p" using rq_ok_symbols(4) [OF p(1)] p(1) by (simp add: rq_ok_def)
  have at: "tx_at p f mode (frame_sizes_of mode ! m) 0 0 tx" using s by (simp add: started_def)
  have "CONFIG_PACKET_SIZE \<le> frame_sizes_of mode ! m" using sp(2) by (simp add: CONFIG_PACKET_SIZE_def)
  from transmit_ok [OF p snd Z this at, of n] show ?thesis by simp
qed

lemma started_cases:
  assumes "yields (\<lambda>r. case r of None \<Rightarrow> bad | Some tx \<Rightarrow> \<exists>p. started p f mode m tx) s"
    and "\<And>p tx. started p f mode m tx \<Longrightarrow> Q tx"
  shows "case s of Inl e \<Rightarrow> e = Aborted | Inr None \<Rightarrow> bad | Inr (Some tx) \<Rightarrow> Q tx"
  using assms by (auto simp: yields_def split: sum.splits option.splits)


text \<open>Eight bytes in frames of twelve.\<close>

definition sample_data :: bytes where "sample_data = [1, 2, 3, 4, 5, 6, 7, 8]"
definition sample_file :: ioctx where "sample_file = File \<lparr>f_bytes = sample_data, f_pos = 0, f_writable = False\<rparr>"

lemma sample_file_sound:
  "io_ready sample_file" "io_content sample_file = sample_data" "sample_data \<noteq> []" "length sample_data = 8"
  "nanorq_encoder_new (length sample_data) (frame_sizes_of OUTPUT_SHM ! nat 0 - 4) 1 = Some (Inr (Some p)) \<Longrightarrow> schedule_sound (rqP p)"
proof -
  show "io_ready sample_file" "io_content sample_file = sample_data" "sample_data \<noteq> []" "length sample_data = 8"
    by (simp_all add: sample_file_def sample_data_def)
  then have s: "length sample_data = 8" "frame_sizes_of OUTPUT_SHM ! nat 0 - 4 = 8"
    by (simp_all add: frame_sizes_of_def mercury_frame_size_def)
  show "nanorq_encoder_new (length sample_data) (frame_sizes_of OUTPUT_SHM ! nat 0 - 4) 1 = Some (Inr (Some p)) \<Longrightarrow> schedule_sound (rqP p)"
    unfolding s by (erule small_file_sound) simp_all
qed


subsection \<open>The two programs\<close>

text \<open>A read of the receiver: no frame, one that its header test rejects, or one of the transmitter's with anything behind it
  in the buffer.\<close>

definition overheard :: "tx_call list list \<Rightarrow> nat \<Rightarrow> read_result \<Rightarrow> bool" where
  "overheard calls fs x = (case x of (r, buf, len) \<Rightarrow> r = 0 \<or> 0 < r \<and> (parse_frame_header buf len = Inr (- 1)
      \<or> len = fs \<and> (\<exists>cs \<in> set calls. \<exists>rest. buf = frame_bytes cs @ rest)))"

text \<open>Whatever it hears of these calls, with room for the file: no error, and success only with the file.\<close>

definition never_wrong :: "bytes \<Rightarrow> nat \<Rightarrow> tx_call list list \<Rightarrow> bool" where
  "never_wrong f fs calls \<longleftrightarrow> (\<forall>out reads. io_ready out \<longrightarrow> io_room out (length f) \<longrightarrow> io_content out = []
     \<longrightarrow> list_all (overheard calls fs) reads \<longrightarrow> receive_sound (receiver_init out) reads
     \<longrightarrow> (case receive_loop (receiver_init out) reads of
           Inl e \<Rightarrow> e = Aborted
         | Inr (v, rx) \<Rightarrow> v \<noteq> Stop \<and> (v = Success \<longrightarrow> io_content (rx_io rx) = f)))"

lemma plan_never_wrong:
  assumes s: "started p f mode m tx" and m: "mode = OUTPUT_TCP \<Longrightarrow> m \<noteq> 5"
    and sent: "list_all2 (sends p f mode (frame_sizes_of mode ! m)) (map (tx_item (nanorq_blocks p)) [0..<min n (plan_length (nanorq_blocks p))]) calls"
  shows "never_wrong f (tx_frame_size tx) calls"
  unfolding never_wrong_def
proof (intro allI impI)
  fix out :: ioctx and reads
  assume out: "io_ready out" "io_room out (length f)" "io_content out = []" and reads: "list_all (overheard calls (tx_frame_size tx)) reads"
    and rs: "receive_sound (receiver_init out) reads"
  note sp = started_sender [OF s m]
  have p: "rq_ok p" using s by (auto simp: started_def)
  have Z: "0 < nanorq_blocks p" using rq_ok_symbols(4) [OF p] p by (simp add: rq_ok_def)
  have fs: "frame_sizes_of mode ! m = RQ_HEADER_SIZE + (frame_sizes_of mode ! m - 4)"
    using sp(2) by (simp add: RQ_HEADER_SIZE_def)
  have "list_all (delivered p f (frame_sizes_of mode ! m)) reads"
    using reads frames_genuine [OF sent min.cobounded2 Z] sp(3) unfolding list_all_iff delivered_def overheard_def by fastforce
  from receive_loop_ok [OF sp(1) fs rx_idle_init [OF out] this rs]
  show "case receive_loop (receiver_init out) reads of
           Inl e \<Rightarrow> e = Aborted
         | Inr (v, rx) \<Rightarrow> v \<noteq> Stop \<and> (v = Success \<longrightarrow> io_content (rx_io rx) = f)"
    by (cases "receive_loop (receiver_init out) reads") auto
qed



end
