(* ===== verification/Delivery.thy ===== *)
theory Delivery
  imports Broadcast
begin

section \<open>The receiver finishes\<close>

text \<open>
  What the receiver does with the source symbols alone, which need no solver: it counts them per block, calls
  the repair of a block (which then has nothing to do) when the block's last one arrives, and leaves with
  success at the last block. The state is described by the set \<open>R\<close> of the symbols that have arrived.
\<close>

definition source_ids :: "nanorq_params \<Rightarrow> (nat \<times> nat) set" where
  "source_ids p = {(b, e). b < nanorq_blocks p \<and> e < nanorq_block_symbols p b}"

definition collecting :: "nanorq_params \<Rightarrow> bytes \<Rightarrow> receiver \<Rightarrow> (nat \<times> nat) set \<Rightarrow> bool" where
  "collecting p f rx R \<longleftrightarrow> rx_configured rx \<and> rx_oti_common rx = nanorq_oti_common p \<and> rx_oti_scheme rx = nanorq_oti_scheme_specific p
     \<and> rx_num_sbn rx = nanorq_blocks p \<and> length (rx_esi rx) = MAX_BLOCKS \<and> length (rx_decoded rx) = MAX_BLOCKS \<and> \<not> rx_more rx
     \<and> R \<subset> source_ids p \<and> (\<exists>rq. rx_rq rx = Some rq \<and> dec_inv p MAX_ESI f rq (rx_io rx) R)
     \<and> (\<forall>b < nanorq_blocks p. unat (rx_esi rx ! b) = card {e. (b, e) \<in> R})
     \<and> (\<forall>b < nanorq_blocks p. rx_decoded rx ! b \<longleftrightarrow> (\<forall>e < nanorq_block_symbols p b. (b, e) \<in> R))"

lemma collected_block:
  assumes "R \<subseteq> source_ids p"
  shows "{e. (b, e) \<in> R} \<subseteq> {..<nanorq_block_symbols p b}" "finite {e. (b, e) \<in> R}" "card {e. (b, e) \<in> R} \<le> nanorq_block_symbols p b"
    "nanorq_block_symbols p b \<le> card {e. (b, e) \<in> R} \<longleftrightarrow> (\<forall>e < nanorq_block_symbols p b. (b, e) \<in> R)"
proof -
  show s: "{e. (b, e) \<in> R} \<subseteq> {..<nanorq_block_symbols p b}" using assms by (auto simp: source_ids_def)
  then show fin: "finite {e. (b, e) \<in> R}" using finite_subset by blast
  show le: "card {e. (b, e) \<in> R} \<le> nanorq_block_symbols p b" using card_mono [OF _ s] by simp
  show "nanorq_block_symbols p b \<le> card {e. (b, e) \<in> R} \<longleftrightarrow> (\<forall>e < nanorq_block_symbols p b. (b, e) \<in> R)"
  proof
    assume "nanorq_block_symbols p b \<le> card {e. (b, e) \<in> R}"
    then have "{e. (b, e) \<in> R} = {..<nanorq_block_symbols p b}" using card_seteq [OF _ s] by simp
    then show "\<forall>e < nanorq_block_symbols p b. (b, e) \<in> R" by auto
  next
    assume "\<forall>e < nanorq_block_symbols p b. (b, e) \<in> R"
    then have "{..<nanorq_block_symbols p b} \<subseteq> {e. (b, e) \<in> R}" by auto
    from card_mono [OF fin this] show "nanorq_block_symbols p b \<le> card {e. (b, e) \<in> R}" by simp
  qed
qed

lemma sources_complete:
  "R \<subseteq> source_ids p \<Longrightarrow> R = source_ids p \<longleftrightarrow> (\<forall>b < nanorq_blocks p. \<forall>e < nanorq_block_symbols p b. (b, e) \<in> R)"
  by (auto simp: source_ids_def)

lemma small_block_symbols: "rq_ok p \<Longrightarrow> nanorq_block_symbols p b < 65536"
  using source_parameters(4) [of p b] Kprime_max_esi [of p] by (simp add: MAX_ESI_def)

text \<open>The rest of a pass, once the symbol has been stored.\<close>

lemma collect_tail:
  assumes p: "rq_ok p" and f: "length f = oF (common p)" and Z: "nanorq_blocks p \<le> MAX_BLOCKS"
    and rx: "rx_num_sbn rx = nanorq_blocks p" "length (rx_decoded rx) = MAX_BLOCKS"
    and R: "R \<subseteq> source_ids p" and inv: "dec_inv p MAX_ESI f rq (rx_io rx) R"
    and dec: "\<forall>b < nanorq_blocks p. rx_decoded rx ! b \<longleftrightarrow> (\<forall>e < nanorq_block_symbols p b. (b, e) \<in> R)"
  shows "receiver_complete rx = Inr (R = source_ids p)" "R = source_ids p \<Longrightarrow> io_content (rx_io rx) = f"
proof -
  show "receiver_complete rx = Inr (R = source_ids p)"
    using rx Z dec by (simp add: receiver_complete_def sources_complete [OF R] atLeast0LessThan Ball_def)
  show "io_content (rx_io rx) = f" if "R = source_ids p"
    using complete_file [OF p f inv] that unfolding sources_complete [OF R] by blast
qed

lemma collect_payload:
  assumes sp: "sender_params p f t" and c: "collecting p f rx R" and rq: "rx_rq rx = Some rq"
    and b: "sbn < nanorq_blocks p" "esi < nanorq_block_symbols p sbn"
    and frame: "frame = payload_frame (of_nat sbn) (of_nat esi) (file_symbol p f sbn esi) @ rest"
  shows "\<exists>rx'. if insert (sbn, esi) R = source_ids p
    then receiver_payload rx rq frame = Inr (Success, rx') \<and> io_content (rx_io rx') = f
    else receiver_payload rx rq frame = Inr (Go_On, rx') \<and> collecting p f rx' (insert (sbn, esi) R)"
proof -
  let ?k = "nanorq_block_symbols p" and ?R = "insert (sbn, esi) R"
  have p: "rq_ok p" "length f = oF (common p)" and Z: "nanorq_blocks p \<le> MAX_BLOCKS"
    using sender_params_ok [OF sp] sp by (auto simp: sender_params_def)
  have m: "0 < MAX_ESI" "pKprime (rqP p) \<le> MAX_ESI" "MAX_ESI < 2 ^ 24" using max_esi_bounds [OF p(1)] by blast+
  have R: "R \<subset> source_ids p" "dec_inv p MAX_ESI f rq (rx_io rx) R" and more: "\<not> rx_more rx"
    and fields: "length (rx_esi rx) = MAX_BLOCKS" "length (rx_decoded rx) = MAX_BLOCKS" "rx_num_sbn rx = nanorq_blocks p"
    and cnt: "\<forall>b < nanorq_blocks p. unat (rx_esi rx ! b) = card {e. (b, e) \<in> R}"
    and dec: "\<forall>b < nanorq_blocks p. rx_decoded rx ! b \<longleftrightarrow> (\<forall>e < ?k b. (b, e) \<in> R)"
    using c rq by (auto simp: collecting_def)
  have RS: "?R \<subseteq> source_ids p" using R(1) b by (auto simp: source_ids_def)
  have small: "sbn < MAX_BLOCKS" "esi < 65536" using b Z small_block_symbols [OF p(1), of sbn] by auto
  have sbn: "unat (of_nat sbn :: u8) = sbn" using small by (auto simp: MAX_BLOCKS_def intro!: unat_of_nat_small)
  have e: "of_nat esi \<le> (0xffff :: u32)" using small by (simp add: word_le_nat_alt unat_of_nat_small)
  note fr = payload_parsed [OF e frame]
  let ?d = "file_symbol p f sbn esi @ rest"
  have d: "drop RQ_HEADER_SIZE frame = ?d" unfolding frame by (rule drop_payload_frame)
  have len: "length (file_symbol p f sbn esi) = oT (common p)" using length_file_symbol [OF p(1) b p(2)] .
  have v: "symbol_valid p MAX_ESI f (sbn, esi, ?d)" using b small len by (simp add: symbol_valid_def MAX_ESI_def)
  obtain r rq1 io1 where a: "nanorq_decoder_add_symbol rq ?d (nanorq_tag (of_nat sbn) (of_nat esi)) (rx_io rx) = Inr (r, rq1, io1)"
    "if (\<forall>g < ?k sbn. (sbn, g) \<in> R) \<or> (sbn, esi) \<in> R
     then r \<in> {NANORQ_SYM_IGN, NANORQ_SYM_DUP} \<and> dec_inv p MAX_ESI f rq1 io1 R
     else r = NANORQ_SYM_ADDED \<and> dec_inv p MAX_ESI f rq1 io1 ?R"
    using add_symbol_exact [OF p(1) m p(2) R(2) v] by blast
  have pr1: "par rq1 = p" using a(2) by (auto simp: dec_inv_def split: if_splits)
  show ?thesis
  proof (cases "(sbn, esi) \<in> R")
    case True
    then have same: "?R = R" and r: "r \<in> {NANORQ_SYM_IGN, NANORQ_SYM_DUP}" "dec_inv p MAX_ESI f rq1 io1 R" using a(2) by auto
    define rx1 where "rx1 = (if r = NANORQ_SYM_DUP then rx\<lparr>rx_rq := Some rq1, rx_io := io1, rx_more := False\<rparr>
        else rx\<lparr>rx_rq := Some rq1, rx_io := io1\<rparr>)"
    have one: "collecting p f rx1 R" "rx_io rx1 = io1" "\<not> rx_more rx1" "rx1\<lparr>rx_more := False\<rparr> = rx1"
      using c r more by (auto simp: collecting_def rx1_def)
    have "R \<noteq> source_ids p" using R(1) by blast
    then have comp: "receiver_complete rx1 = Inr False"
      using collect_tail(1) [OF p Z, of rx1 R rq1] one r(2) R(1) by (auto simp: collecting_def)
    have "receiver_try_block rx1 rq1 sbn = Inr rx1" using one(3) by (simp add: receiver_try_block_def)
    moreover have "receiver_payload rx rq frame = rbind (receiver_try_block rx1 rq1 sbn) (\<lambda>rx.
        rbind (receiver_complete rx) (\<lambda>done_all. if done_all then Inr (Success, rx) else Inr (Go_On, rx\<lparr>rx_more := False\<rparr>)))"
      unfolding receiver_payload_def Let_def d rx1_def using a(1) fr fields(1) small r(1)
      by (elim insertE emptyE) (simp_all add: sbn sym_codes)
    ultimately have "receiver_payload rx rq frame = Inr (Go_On, rx1)" using comp one(4) by simp
    then show ?thesis using one(1) R(1) unfolding same by auto
  next
    case False
    then have r: "r = NANORQ_SYM_ADDED" "dec_inv p MAX_ESI f rq1 io1 ?R" using a(2) b(2) by (auto split: if_splits)
    let ?rx = "rx\<lparr>rx_rq := Some rq1, rx_io := io1, rx_esi := (rx_esi rx)[sbn := rx_esi rx ! sbn + 1], rx_more := True\<rparr>"
    have insrt: "{e. (sbn, e) \<in> ?R} = insert esi {e. (sbn, e) \<in> R}" by auto
    have cards: "card {e. (sbn, e) \<in> ?R} = Suc (card {e. (sbn, e) \<in> R})"
      unfolding insrt using collected_block(2) [of R p sbn] R(1) False by (subst card_insert_disjoint) auto
    have "Suc (unat (rx_esi rx ! sbn)) < 2 ^ 32"
      using cnt b(1) cards collected_block(3) [OF RS, of sbn] small_block_symbols [OF p(1), of sbn] by simp
    then have up: "unat (rx_esi ?rx ! sbn) = card {e. (sbn, e) \<in> ?R}"
      using cnt b(1) cards fields(1) small by (simp add: unat_word_ariths)
    have cnt1: "\<forall>b < nanorq_blocks p. unat (rx_esi ?rx ! b) = card {e. (b, e) \<in> ?R}"
    proof (intro allI impI)
      fix b assume b': "b < nanorq_blocks p"
      show "unat (rx_esi ?rx ! b) = card {e. (b, e) \<in> ?R}"
      proof (cases "b = sbn")
        case True
        then show ?thesis using up by (simp only:)
      next
        case False
        then have "{e. (b, e) \<in> ?R} = {e. (b, e) \<in> R}" "rx_esi ?rx ! b = rx_esi rx ! b" by simp_all
        then show ?thesis using cnt b' by (simp only:)
      qed
    qed
    define full where "full \<longleftrightarrow> (\<forall>e < ?k sbn. (sbn, e) \<in> ?R)"
    have try_it: "?k (sbn) \<le> unat (rx_esi ?rx ! sbn) \<longleftrightarrow> full"
      unfolding up full_def by (rule collected_block(4) [OF RS])
    have "\<exists>rq2. (full \<longrightarrow> nanorq_repair_block rq1 io1 sbn = Inr (True, rq2, io1)) \<and> (\<not> full \<longrightarrow> rq2 = rq1) \<and> dec_inv p MAX_ESI f rq2 io1 ?R"
    proof (cases full)
      case True
      from repair_complete(2) [OF p(1) m(1,2) r(2) True [unfolded full_def]] show ?thesis using True by simp
    next
      case False
      with r(2) show ?thesis by simp
    qed
    then obtain rq2 where rq2: "full \<longrightarrow> nanorq_repair_block rq1 io1 sbn = Inr (True, rq2, io1)" "\<not> full \<longrightarrow> rq2 = rq1"
      "dec_inv p MAX_ESI f rq2 io1 ?R" by (elim exE conjE)
    define rx2 where "rx2 = ?rx\<lparr>rx_rq := Some rq2, rx_decoded := (if full then (rx_decoded rx)[sbn := True] else rx_decoded rx)\<rparr>"
    have tryb: "receiver_try_block ?rx rq1 sbn = Inr rx2"
      unfolding receiver_try_block_def pr1 try_it using rq2(1,2) by (cases full) (simp_all add: rx2_def)
    have dec2: "\<forall>b < nanorq_blocks p. rx_decoded rx2 ! b \<longleftrightarrow> (\<forall>e < ?k b. (b, e) \<in> ?R)"
    proof (intro allI impI)
      fix b assume b': "b < nanorq_blocks p"
      show "rx_decoded rx2 ! b \<longleftrightarrow> (\<forall>e < ?k b. (b, e) \<in> ?R)"
      proof (cases "b = sbn")
        case True
        have "rx_decoded rx2 ! sbn \<longleftrightarrow> full"
          using dec b fields(2) small(1) False by (cases full) (auto simp: rx2_def)
        then show ?thesis unfolding True full_def .
      next
        case False
        then have "rx_decoded rx2 ! b = rx_decoded rx ! b" by (simp add: rx2_def)
        then show ?thesis using dec b' False by simp
      qed
    qed
    have io2: "rx_io rx2 = io1" "rx_rq rx2 = Some rq2" by (simp_all add: rx2_def)
    note tail = collect_tail [OF p Z _ _ RS, of rx2 rq2, unfolded io2(1), OF _ _ rq2(3) dec2]
    have f2: "rx_num_sbn rx2 = nanorq_blocks p" "length (rx_decoded rx2) = MAX_BLOCKS" using fields by (simp_all add: rx2_def)
    have run: "receiver_payload rx rq frame = (if ?R = source_ids p then Inr (Success, rx2) else Inr (Go_On, rx2\<lparr>rx_more := False\<rparr>))"
      unfolding receiver_payload_def Let_def d using a(1) fr fields(1) small r(1) tryb tail(1) [OF f2]
      by (simp add: sbn sym_codes)
    have "collecting p f (rx2\<lparr>rx_more := False\<rparr>) ?R" if "?R \<noteq> source_ids p"
      using that c RS rq2 dec2 f2 cnt1 by (auto simp: collecting_def rx2_def)
    then show ?thesis unfolding run using tail(2) [OF f2] io2(1) by auto
  qed
qed

subsection \<open>Any frame\<close>

text \<open>Without repair symbols. \<open>carried\<close> is the symbol in a frame that was read, if it is a payload.\<close>

definition lossless :: "nanorq_params \<Rightarrow> bytes \<Rightarrow> nat \<Rightarrow> read_result \<Rightarrow> bool" where
  "lossless p f fs x = (case x of (r, frame, len) \<Rightarrow>
     r = 0 \<or> 0 < r \<and> (parse_frame_header frame len = Inr (- 1)
       \<or> len = fs \<and> ((\<exists>rest. frame = configuration_packet p @ rest)
         \<or> (\<exists>b e rest. (b, e) \<in> source_ids p \<and> frame = payload_frame (of_nat b) (of_nat e) (file_symbol p f b e) @ rest))))"

definition carried :: "read_result \<Rightarrow> (nat \<times> nat) set" where
  "carried x = (case x of (r, frame, len) \<Rightarrow>
     if r \<noteq> 0 \<and> parse_frame_header frame len = Inr 3 then {(unat (frame_sbn frame 1), unat (frame_esi frame 1))} else {})"

lemma source_payload:
  assumes sp: "sender_params p f t" and id: "(b, e) \<in> source_ids p"
    and frame: "frame = payload_frame (of_nat b) (of_nat e) (file_symbol p f b e) @ rest"
  shows "parse_frame_header frame (RQ_HEADER_SIZE + t) = Inr 3" "unat (frame_sbn frame 1) = b" "unat (frame_esi frame 1) = e"
proof -
  have p: "rq_ok p" "length f = oF (common p)" and s: "nanorq_blocks p \<le> MAX_BLOCKS" "oT (common p) = t"
    using sender_params_ok [OF sp] sp by (auto simp: sender_params_def)
  have be: "b < nanorq_blocks p" "e < nanorq_block_symbols p b" using id by (auto simp: source_ids_def)
  have small: "b < 256" "e < 65536" using be s(1) small_block_symbols [OF p(1), of b] by (auto simp: MAX_BLOCKS_def)
  have e: "of_nat e \<le> (0xffff :: u32)" using small by (simp add: word_le_nat_alt unat_of_nat_small)
  have len: "length (file_symbol p f b e) = t" using length_file_symbol [OF p(1) be p(2)] s(2) by simp
  note fr = payload_parsed [OF e frame, unfolded len]
  show "parse_frame_header frame (RQ_HEADER_SIZE + t) = Inr 3" using fr by blast
  show "unat (frame_sbn frame 1) = b" "unat (frame_esi frame 1) = e"
    using fr small by (auto simp: unat_of_nat_small)
qed

lemma collect_frame:
  assumes sp: "sender_params p f t" and fs: "fs = RQ_HEADER_SIZE + t" and c: "collecting p f rx R"
    and l: "lossless p f fs (r, frame, len)" "r \<noteq> 0"
  shows "\<exists>v rx'. receiver_frame rx frame len = Inr (v, rx')
    \<and> (v = Success \<and> io_content (rx_io rx') = f \<or> v = Go_On \<and> collecting p f rx' (R \<union> carried (r, frame, len)))"
proof -
  have new: "nanorq_encoder_new (length f) t 1 = Some (Inr (Some p))" "t < 65536" "length f < 2 ^ 24"
    using sp by (auto simp: sender_params_def)
  have types: "uint PACKET_RQ_CONFIG = 2" "uint PACKET_RQ_PAYLOAD = 3" by (simp_all add: packet_types)
  from c obtain rq where cfg: "rx_configured rx" "rx_oti_common rx = nanorq_oti_common p" "rx_oti_scheme rx = nanorq_oti_scheme_specific p"
    "rx_rq rx = Some rq" by (auto simp: collecting_def)
  consider "parse_frame_header frame len = Inr (- 1)"
    | rest where "frame = configuration_packet p @ rest"
    | b e rest where "(b, e) \<in> source_ids p" "len = fs"
        "frame = payload_frame (of_nat b) (of_nat e) (file_symbol p f b e) @ rest"
    using l unfolding lossless_def prod.case by blast
  then show ?thesis
  proof cases
    case 1
    then show ?thesis using c by (simp add: receiver_frame_def carried_def)
  next
    case 2
    note cp = configuration_parsed [OF new, of rest len, folded 2]
    have h: "parse_frame_header frame len = Inr 2" using cp by blast
    show ?thesis using h cp c cfg by (simp add: receiver_frame_def types carried_def)
  next
    case 3
    note h = source_payload [OF sp 3(1,3), folded fs 3(2)]
    have be: "b < nanorq_blocks p" "e < nanorq_block_symbols p b" using 3(1) by (auto simp: source_ids_def)
    have run: "receiver_frame rx frame len = receiver_payload rx rq frame" using h(1) cfg by (simp add: receiver_frame_def types)
    have got: "R \<union> carried (r, frame, len) = insert (b, e) R" using h l(2) by (simp add: carried_def)
    show ?thesis
      unfolding run got using collect_payload [OF sp c cfg(4) be 3(3)] by (auto split: if_splits)
  qed
qed

lemma collect_loop:
  assumes sp: "sender_params p f t" and fs: "fs = RQ_HEADER_SIZE + t"
  shows "collecting p f rx R \<Longrightarrow> list_all (lossless p f fs) reads \<Longrightarrow> source_ids p \<subseteq> R \<union> (\<Union>x \<in> set reads. carried x) \<Longrightarrow>
    \<exists>rx'. receive_loop rx reads = Inr (Success, rx') \<and> io_content (rx_io rx') = f"
proof (induction reads arbitrary: rx R)
  case Nil
  then show ?case by (auto simp: collecting_def)
next
  case (Cons x reads)
  obtain r frame len where x: "x = (r, frame, len)" by (cases x) auto
  have l: "lossless p f fs (r, frame, len)" and ls: "list_all (lossless p f fs) reads" using Cons.prems(2) by (simp_all add: x)
  show ?case
  proof (cases "r = 0")
    case True
    then have "carried x = {}" by (simp add: x carried_def)
    then show ?thesis using Cons.IH [OF Cons.prems(1) ls] Cons.prems(3) True by (simp add: x)
  next
    case False
    then have r: "\<not> r < 0" using l by (simp add: lossless_def)
    obtain v rx' where step: "receiver_frame rx frame len = Inr (v, rx')"
      "v = Success \<and> io_content (rx_io rx') = f \<or> v = Go_On \<and> collecting p f rx' (R \<union> carried (r, frame, len))"
      using collect_frame [OF sp fs Cons.prems(1) l False] by blast
    from step(2) show ?thesis
    proof (elim disjE conjE)
      assume "v = Success" "io_content (rx_io rx') = f"
      then show ?thesis using step(1) False r by (simp add: x)
    next
      assume go: "v = Go_On" and c: "collecting p f rx' (R \<union> carried (r, frame, len))"
      have "source_ids p \<subseteq> R \<union> carried (r, frame, len) \<union> (\<Union>x \<in> set reads. carried x)" using Cons.prems(3) by (auto simp: x)
      from Cons.IH [OF c ls this] show ?thesis using step(1) go False r by (simp add: x)
    qed
  qed
qed

text \<open>Before the configuration nothing is kept.\<close>

lemma receive_before_configuration:
  "\<not> rx_configured rx \<Longrightarrow> list_all (\<lambda>(r, frame, len). r = 0 \<or> 0 < r \<and> parse_frame_header frame len \<in> {Inr (- 1), Inr 3}) reads \<Longrightarrow>
    receive_loop rx (reads @ rs) = receive_loop rx rs"
  by (induction reads) (auto simp: receiver_frame_def packet_types)

lemma collect_configuration:
  assumes sp: "sender_params p f t" and rx: "rx = receiver_init io" "io_ready io" "io_room io (length f)" "io_content io = []"
    and frame: "frame = configuration_packet p @ rest" and blocks: "0 < nanorq_blocks p" "\<forall>b < nanorq_blocks p. 0 < nanorq_block_symbols p b"
  shows "\<exists>rx'. receiver_frame rx frame len = Inr (Go_On, rx') \<and> collecting p f rx' {}"
proof -
  have new: "nanorq_encoder_new (length f) t 1 = Some (Inr (Some p))" "t < 65536" "length f < 2 ^ 24" and Z: "nanorq_blocks p \<le> MAX_BLOCKS"
    using sp by (auto simp: sender_params_def)
  let ?rq = "nanorq_init p MAX_ESI"
  let ?rx = "rx\<lparr>rx_oti_common := nanorq_oti_common p, rx_oti_scheme := nanorq_oti_scheme_specific p,
      rx_rq := Some ?rq, rx_num_sbn := nanorq_blocks p, rx_configured := True\<rparr>"
  have "parse_frame_header frame len = Inr 2" using configuration_parsed [OF new, of rest len, folded frame] by blast
  then have run: "receiver_frame rx frame len = Inr (Go_On, ?rx)"
    using receiver_configure_value [OF sp frame, of rx] by (simp add: receiver_frame_def packet_types rx(1) receiver_init_def)
  have "fed p f ?rq io {}" using rx by (intro fed_init) auto
  then have dec: "dec_inv p MAX_ESI f ?rq (rx_io ?rx) {}" by (simp add: fed_def rx(1) receiver_init_def)
  have "(0, 0) \<in> source_ids p" using blocks by (simp add: source_ids_def)
  then have "collecting p f ?rx {}" using dec blocks Z by (auto simp: collecting_def rx(1) receiver_init_def)
  with run show ?thesis by blast
qed

text \<open>C12: The receiver finishes with the file when nothing essential is lost. It is started on an empty output file and reads,
  in any order and number: nothing, frames its header test rejects, and, once a configuration
  packet of the encoder has come, more of these and source symbols. If every source symbol is among the frames after that
  configuration, it leaves with success and the output file is the sender's file. Frames that come before the configuration
  are not needed.\<close>

theorem receiver_finishes:
  assumes "nanorq_encoder_new (length f) t 1 = Some (Inr (Some p))" and "length f \<le> 16777215" and "8 \<le> t" and "t < 65536"
    and "io_ready out" and "io_room out (length f)" and "io_content out = []"
    and "list_all (\<lambda>(r, frame, len). r = 0 \<or> 0 < r \<and> parse_frame_header frame len \<in> {Inr (- 1), Inr 3}) early"
    and "list_all (lossless p f (RQ_HEADER_SIZE + t)) reads"
    and "\<forall>(b, e) \<in> source_ids p. \<exists>rest. (1, payload_frame (of_nat b) (of_nat e) (file_symbol p f b e) @ rest, RQ_HEADER_SIZE + t) \<in> set reads"
  shows "\<exists>rx. receive_loop (receiver_init out) (early @ (1, configuration_packet p @ rest, RQ_HEADER_SIZE + t) # reads) = Inr (Success, rx)
    \<and> io_content (rx_io rx) = f"
proof -
  have ok: "rq_ok p" "length f = oF (common p)" using encoder_rq_ok [of "length f" t 0 0 1 p] assms(1,4) by (simp_all add: nanorq_encoder_new_def)
  note small = encoder_blocks_small [OF assms(1-4)]
  have sp: "sender_params p f t" using small(1,3) assms(1,2,4) by (simp add: sender_params_def MAX_BLOCKS_def)
  have Z: "0 < nanorq_blocks p" using rq_ok_symbols(4) [OF ok(1)] ok(1) by (simp add: rq_ok_def)
  obtain rx where rx: "receiver_frame (receiver_init out) (configuration_packet p @ rest) (RQ_HEADER_SIZE + t) = Inr (Go_On, rx)"
    "collecting p f rx {}" using collect_configuration [OF sp refl assms(5-7) refl Z] small(2) by blast
  have "source_ids p \<subseteq> {} \<union> (\<Union>x \<in> set reads. carried x)"
  proof
    fix x assume x: "x \<in> source_ids p"
    obtain b e where be: "x = (b, e)" by fastforce
    from assms(10) x obtain rest where r: "(1, payload_frame (of_nat b) (of_nat e) (file_symbol p f b e) @ rest, RQ_HEADER_SIZE + t) \<in> set reads"
      by (auto simp: be)
    have "x \<in> carried (1, payload_frame (of_nat b) (of_nat e) (file_symbol p f b e) @ rest, RQ_HEADER_SIZE + t)"
      using source_payload [OF sp x [unfolded be] refl, of rest] by (simp add: carried_def be)
    with r show "x \<in> {} \<union> (\<Union>x \<in> set reads. carried x)" by blast
  qed
  from collect_loop [OF sp refl rx(2) assms(9) this] show ?thesis
    using receive_before_configuration [OF _ assms(8), of "receiver_init out"] rx(1) by (simp add: receiver_init_def)
qed

lemma receiver_finishes_witness:
  "\<exists>p rx. nanorq_encoder_new 1000 122 1 = Some (Inr (Some p)) \<and>
    receive_loop (receiver_init fresh_file) ((1, configuration_packet p, 126)
      # map (\<lambda>(b, e, d). (1, payload_frame (of_nat b) (of_nat e) d, 126)) (all_symbols p (replicate 1000 7))) = Inr (Success, rx)
    \<and> io_content (rx_io rx) = replicate 1000 7"
proof -
  obtain p where p: "nanorq_encoder_new 1000 122 1 = Some (Inr (Some p))" using sample_encoder by metis
  let ?f = "replicate 1000 (7 :: 8 word)"
  let ?frame = "\<lambda>(b, e, d). (1 :: int, payload_frame (of_nat b) (of_nat e) d, 126 :: nat)"
  let ?reads = "map ?frame (all_symbols p ?f)"
  have ids: "(b, e, d) \<in> set (all_symbols p ?f) \<longleftrightarrow> (b, e) \<in> source_ids p \<and> d = file_symbol p ?f b e" for b e d
    by (auto simp: all_symbols_set source_ids_def)
  have fs: "RQ_HEADER_SIZE + 122 = 126" by (simp add: RQ_HEADER_SIZE_def)
  have reads: "list_all (lossless p ?f (RQ_HEADER_SIZE + 122)) ?reads"
    unfolding list_all_iff
  proof
    fix x assume "x \<in> set ?reads"
    then obtain b e where x: "(b, e) \<in> source_ids p" "x = (1, payload_frame (of_nat b) (of_nat e) (file_symbol p ?f b e), 126)"
      by (auto simp: ids)
    let ?y = "payload_frame (of_nat b) (of_nat e) (file_symbol p ?f b e)"
    have "\<exists>b' e' rest. (b', e') \<in> source_ids p \<and> ?y = payload_frame (of_nat b') (of_nat e') (file_symbol p ?f b' e') @ rest"
      using x(1) by (intro exI [of _ b] exI [of _ e] exI [of _ "[]"]) simp
    then show "lossless p ?f (RQ_HEADER_SIZE + 122) x" unfolding lossless_def fs x(2) by simp
  qed
  have "\<exists>rx. receive_loop (receiver_init fresh_file) ([] @ (1, configuration_packet p @ [], RQ_HEADER_SIZE + 122) # ?reads) = Inr (Success, rx)
    \<and> io_content (rx_io rx) = ?f"
  proof (rule receiver_finishes [OF _ _ _ _ _ _ _ _ reads])
    show "\<forall>(b, e) \<in> source_ids p. \<exists>rest. (1, payload_frame (of_nat b) (of_nat e) (file_symbol p ?f b e) @ rest, RQ_HEADER_SIZE + 122) \<in> set ?reads"
    proof (clarify, intro exI [of _ "[]"])
      fix b e assume "(b, e) \<in> source_ids p"
      then have "(b, e, file_symbol p ?f b e) \<in> set (all_symbols p ?f)" by (simp add: ids)
      from imageI [OF this, of ?frame] show "(1, payload_frame (of_nat b) (of_nat e) (file_symbol p ?f b e) @ [], RQ_HEADER_SIZE + 122) \<in> set ?reads"
        by (simp add: fs)
    qed
  qed (use p in \<open>simp_all add: fresh_file_def\<close>)
  with p show ?thesis by (simp add: fs)
qed

end
