(* ===== verification/Turns.thy ===== *)
theory Turns
  imports Delivery
begin

section \<open>Blocks in turn\<close>

text \<open>
  Both senders take a symbol of every block in turn. The blocks with the greater number of symbols come first, so that the first
  \<open>Kt\<close> symbols are exactly the source symbols.
\<close>

text \<open>After \<open>k\<close> frames over \<open>Z\<close> blocks, the number of symbols of block \<open>b\<close> among them.\<close>

definition rounds :: "nat \<Rightarrow> nat \<Rightarrow> nat \<Rightarrow> nat" where
  "rounds Z k b = k div Z + (if b < k mod Z then 1 else 0)"

lemma rounds_Suc: "0 < Z \<Longrightarrow> b < Z \<Longrightarrow> rounds Z (Suc k) b = rounds Z k b + (if b = k mod Z then 1 else 0)"
  by (auto simp: rounds_def div_Suc mod_Suc)

lemma div_less_rounds:
  assumes "0 < Z"
  shows "k div Z < rounds Z n (k mod Z) \<longleftrightarrow> k < n"
proof -
  let ?a = "k div Z" and ?r = "k mod Z" and ?b = "n div Z" and ?s = "n mod Z"
  have k: "k = ?a * Z + ?r" "?r < Z" and n: "n = ?b * Z + ?s" "?s < Z" using assms by simp_all
  consider "?a < ?b" | "?a = ?b" | "?b < ?a" by linarith
  then show ?thesis
  proof cases
    case 1
    then have "k < n" using div_le_mono [of n k Z] by (meson leD not_le)
    then show ?thesis using 1 by (simp add: rounds_def)
  next
    case 2
    then have "k < n \<longleftrightarrow> ?r < ?s" using k(1) n(1) by (metis add_less_cancel_left)
    then show ?thesis using 2 by (simp add: rounds_def)
  next
    case 3
    then have "n < k" using div_le_mono [of k n Z] by (meson leD not_le)
    then show ?thesis using 3 by (simp add: rounds_def)
  qed
qed

lemma block_symbols_rounds:
  assumes "rq_ok p" and "b < nanorq_blocks p"
  shows "nanorq_block_symbols p b = rounds (nanorq_blocks p) (oKt (scheme p)) b"
proof -
  let ?Z = "oZ (scheme p)" and ?n = "oKt (scheme p)"
  have Z: "0 < ?Z" "?Z \<le> 256" and part: "src_part p = fill_partition ?n ?Z" using assms(1) by (auto simp: rq_ok_def Z_max_def)
  have blocks: "nanorq_blocks p = ?Z" using rq_ok_symbols(4) [OF assms(1)] .
  have rest: "?n - ?n div ?Z * ?Z = ?n mod ?Z" by (simp add: minus_div_mult_eq_mod)
  have m: "?n mod ?Z < ?Z" using Z(1) by simp
  have up: "div_ceil ?n ?Z = ?n div ?Z + 1" if "0 < ?n mod ?Z" using that by (simp add: div_ceil_def)
  have b: "b < ?Z" using assms(2) blocks by simp
  have parts: "JL (src_part p) = ?n mod ?Z" "JS (src_part p) = ?Z - ?n mod ?Z" "IS (src_part p) = ?n div ?Z"
    "0 < ?n mod ?Z \<Longrightarrow> IL (src_part p) = ?n div ?Z + 1"
    unfolding part using Z up by (auto simp: fill_partition_def Let_def div_floor_def rest)
  show ?thesis
    using b m parts unfolding nanorq_block_symbols_def block_symbols_def blocks rounds_def by auto
qed

lemma source_turn:
  assumes p: "rq_ok p"
  shows "(k mod nanorq_blocks p, k div nanorq_blocks p) \<in> source_ids p \<longleftrightarrow> k < oKt (scheme p)"
proof -
  have Z: "0 < nanorq_blocks p" using rq_ok_symbols(4) [OF p] p by (simp add: rq_ok_def)
  then have "k mod nanorq_blocks p < nanorq_blocks p" by simp
  then show ?thesis using block_symbols_rounds [OF p] div_less_rounds [OF Z, of k "oKt (scheme p)"] by (simp add: source_ids_def)
qed

end
