(* ===== verification/Completion.thy ===== *)
theory Completion
  imports Turns
begin

section \<open>The transmission arrives\<close>

text \<open>
  The transmitter's program and the receiver's, joined by a channel without losses: the first rounds carry the configuration and
  every source symbol, and the receiver leaves with the file.
\<close>

lemma symbols_positive: "rq_ok p \<Longrightarrow> length f = oF (common p) \<Longrightarrow> f \<noteq> [] \<Longrightarrow> 0 < oKt (scheme p)"
  using div_ceil_bounds(1) [of "oT (common p)" "oF (common p)"] by (cases "oKt (scheme p) = 0") (auto simp: rq_ok_def)

text \<open>The number of the first frames that hold all source symbols.\<close>

definition enough :: "nanorq_params \<Rightarrow> nat" where
  "enough p = (let Z = nanorq_blocks p; k = oKt (scheme p) - 1 in k div Z * (Z + 1) + k mod Z + 2)"

lemma enough_bound: "0 < oKt (scheme p) \<Longrightarrow> enough p \<le> 2 * oKt (scheme p)"
proof -
  let ?Z = "nanorq_blocks p" and ?k = "oKt (scheme p) - 1"
  assume k: "0 < oKt (scheme p)"
  have "?k div ?Z * (?Z + 1) + ?k mod ?Z = ?k div ?Z + (?k div ?Z * ?Z + ?k mod ?Z)" by (simp add: algebra_simps)
  also have "\<dots> = ?k div ?Z + ?k" by (simp only: div_mult_mod_eq)
  finally have "enough p = ?k div ?Z + ?k + 2" by (simp only: enough_def Let_def)
  then show ?thesis using k div_le_dividend [of ?k ?Z] by linarith
qed

lemma turn_order:
  assumes "b < Z" and "r < Z"
  shows "e * Z + b \<le> a * Z + r \<longleftrightarrow> e * (Z + 1) + b \<le> a * (Z + 1) + (r :: nat)"
proof (cases e a rule: linorder_cases)
  case less
  then have "(e + 1) * Z \<le> a * Z" by (intro mult_le_mono1) simp
  then show ?thesis using assms less by (simp add: algebra_simps)
next
  case greater
  then have "(a + 1) * Z \<le> e * Z" by (intro mult_le_mono1) simp
  then show ?thesis using assms greater by (simp add: algebra_simps)
qed simp

lemma turn_source:
  assumes p: "rq_ok p" "0 < oKt (scheme p)" and i: "tx_item (nanorq_blocks p) i = Some (b, e)"
  shows "(b, e) \<in> source_ids p \<longleftrightarrow> i < enough p"
proof -
  let ?Z = "nanorq_blocks p" and ?k = "oKt (scheme p) - 1"
  have Z: "0 < ?Z" using rq_ok_symbols(4) [OF p(1)] p(1) by (simp add: rq_ok_def)
  have m: "i mod (?Z + 1) \<noteq> 0" "b = i mod (?Z + 1) - 1" "e = i div (?Z + 1)" using i by (auto simp: tx_item_def split: if_splits)
  have "i mod (?Z + 1) < ?Z + 1" by simp
  then have b: "b < ?Z" using m by linarith
  have mb: "i mod (?Z + 1) = b + 1" using m(1,2) by simp
  have ix: "i = e * (?Z + 1) + b + 1" using div_mult_mod_eq [of i "?Z + 1"] unfolding mb m(3) [symmetric] by simp
  have kb: "(e * ?Z + b) mod ?Z = b" "(e * ?Z + b) div ?Z = e" using b by simp_all
  have src: "(b, e) \<in> source_ids p \<longleftrightarrow> e * ?Z + b < oKt (scheme p)" using source_turn [OF p(1), of "e * ?Z + b"] kb by simp
  have km: "?k mod ?Z < ?Z" using Z by simp
  have "e * ?Z + b \<le> ?k \<longleftrightarrow> e * (?Z + 1) + b \<le> ?k div ?Z * (?Z + 1) + ?k mod ?Z"
    using turn_order [OF b km, of e "?k div ?Z"] unfolding div_mult_mod_eq .
  then show ?thesis unfolding src using p(2) ix by (auto simp: enough_def Let_def)
qed

lemma enough_plan: "rq_ok p \<Longrightarrow> 0 < oKt (scheme p) \<Longrightarrow> enough p \<le> plan_length (nanorq_blocks p)"
proof -
  let ?Z = "nanorq_blocks p" and ?k = "oKt (scheme p) - 1"
  assume p: "rq_ok p" "0 < oKt (scheme p)"
  have Z: "0 < ?Z" using rq_ok_symbols(4) [OF p(1)] p(1) by (simp add: rq_ok_def)
  have "(?k mod ?Z, ?k div ?Z) \<in> source_ids p" using source_turn [OF p(1), of ?k] p(2) by simp
  then have a: "?k div ?Z < 65535" using small_block_symbols [OF p(1), of "?k mod ?Z"] by (auto simp: source_ids_def)
  have r: "?k mod ?Z < ?Z" using Z by simp
  show ?thesis
    unfolding enough_def Let_def plan_length_def
  proof (rule add_le_mono1)
    have "(?k div ?Z + 1) * (?Z + 1) \<le> 65535 * (?Z + 1)" using a by (intro mult_le_mono1) simp
    then have "?k div ?Z * (?Z + 1) + (?Z + 1) \<le> 65535 * (?Z + 1)" by (simp only: add_mult_distrib mult_1)
    then show "?k div ?Z * (?Z + 1) + ?k mod ?Z \<le> 65535 * (?Z + 1)" using r by linarith
  qed
qed

text \<open>The receiver reads every frame, with anything behind it in its buffer.\<close>

definition hear :: "nat \<Rightarrow> (nat \<Rightarrow> bytes) \<Rightarrow> tx_call list list \<Rightarrow> read_result list" where
  "hear fs rest calls = map (\<lambda>i. (1, frame_bytes (calls ! i) @ rest i, fs)) [0..<length calls]"

lemma receive_loop_stops:
  "receive_loop rx xs = Inr (v, rx') \<Longrightarrow> v \<noteq> Go_On \<Longrightarrow> receive_loop rx (xs @ ys) = Inr (v, rx')"
proof (induction xs arbitrary: rx)
  case (Cons x xs)
  obtain r frame len where x: "x = (r, frame, len)" by (cases x) auto
  show ?case
  proof (cases "r = 0 \<or> r < 0")
    case True
    then show ?thesis using Cons by (auto simp: x)
  next
    case False
    then obtain y where y: "receiver_frame rx frame len = Inr y"
      using Cons.prems(1) by (cases "receiver_frame rx frame len") (auto simp: x)
    obtain w rx1 where w: "y = (w, rx1)" by (cases y) auto
    show ?thesis using Cons False by (auto simp: x y w split: if_splits)
  qed
qed simp

lemma plan_received:
  assumes s: "started p f mode m tx" and m: "mode = OUTPUT_TCP \<Longrightarrow> m \<noteq> 5" and f: "f \<noteq> []"
    and sent: "list_all2 (sends p f mode (frame_sizes_of mode ! m)) (map (tx_item (nanorq_blocks p)) [0..<k]) calls" and k: "enough p \<le> k"
    and out: "io_ready out" "io_room out (length f)" "io_content out = []"
  shows "\<exists>rx. receive_loop (receiver_init out) (hear (tx_frame_size tx) rest calls) = Inr (Success, rx) \<and> io_content (rx_io rx) = f"
proof -
  let ?Z = "nanorq_blocks p" and ?fs = "frame_sizes_of mode ! m" and ?n = "enough p"
  let ?x = "\<lambda>i. (1 :: int, frame_bytes (calls ! i) @ rest i, ?fs)"
  note sp = started_sender [OF s m]
  have p: "rq_ok p" "length f = oF (common p)" using s by (auto simp: started_def)
  have Z: "0 < ?Z" using rq_ok_symbols(4) [OF p(1)] p(1) by (simp add: rq_ok_def)
  have kt: "0 < oKt (scheme p)" by (rule symbols_positive [OF p f])
  have fs: "?fs = RQ_HEADER_SIZE + (?fs - 4)" using sp(2) by (simp add: RQ_HEADER_SIZE_def)
  have len: "length calls = k" using list_all2_lengthD [OF sent] by simp
  have sends: "sends p f mode ?fs (tx_item ?Z i) (calls ! i)" if "i < ?n" for i
    using list_all2_nthD [OF sent, of i] that k by simp
  have conf: "frame_bytes (calls ! i) = configuration_packet p @ replicate (?fs - CONFIG_PACKET_SIZE) 0" if "i < ?n" "tx_item ?Z i = None" for i
    using sends_frame(1) [of p f mode ?fs "calls ! i"] sends [OF that(1)] that(2) by simp
  have symb: "(b, e) \<in> source_ids p" "frame_bytes (calls ! i) = payload_frame (of_nat b) (of_nat e) (file_symbol p f b e)"
    if i: "i < ?n" "tx_item ?Z i = Some (b, e)" for i b e
  proof -
    show id: "(b, e) \<in> source_ids p" using turn_source [OF p(1) kt i(2)] i(1) by simp
    obtain d where "emitted p f b e d" "frame_bytes (calls ! i) = payload_frame (of_nat b) (of_nat e) d"
      using sends_frame(2) [of p f mode ?fs b e "calls ! i"] sends [OF i(1)] i(2) by auto
    then show "frame_bytes (calls ! i) = payload_frame (of_nat b) (of_nat e) (file_symbol p f b e)"
      using id by (auto simp: emitted_def source_ids_def)
  qed
  have n: "0 < ?n" by (simp add: enough_def Let_def)
  have "tx_item ?Z 0 = None" by (simp add: tx_item_def)
  then have first: "frame_bytes (calls ! 0) @ rest 0 = configuration_packet p @ (replicate (?fs - CONFIG_PACKET_SIZE) 0 @ rest 0)" using conf n by simp
  have new: "nanorq_encoder_new (length f) (?fs - 4) 1 = Some (Inr (Some p))" using s by (rule started_encoder)
  have small: "length f \<le> 16777215" "8 \<le> ?fs - 4" "?fs - 4 < 65536" using s sp(1,2) by (auto simp: started_def sender_params_def)
  have blocks: "\<forall>b < ?Z. 0 < nanorq_block_symbols p b" using encoder_blocks_small(2) [OF new small] by blast
  obtain rx1 where rx1: "receiver_frame (receiver_init out) (frame_bytes (calls ! 0) @ rest 0) ?fs = Inr (Go_On, rx1)" "collecting p f rx1 {}"
    using collect_configuration [OF sp(1) refl out first Z blocks, of ?fs] by blast
  have lossless: "list_all (lossless p f ?fs) (map ?x [1..<?n])"
  proof -
    have "lossless p f ?fs (?x i)" if i: "i < ?n" for i
    proof (cases "tx_item ?Z i")
      case None
      then show ?thesis using conf [OF i None] by (simp add: lossless_def)
    next
      case (Some x)
      obtain b e where x: "x = (b, e)" by fastforce
      from symb [OF i Some [unfolded x]] have "\<exists>b' e' rest'. (b', e') \<in> source_ids p
          \<and> frame_bytes (calls ! i) @ rest i = payload_frame (of_nat b') (of_nat e') (file_symbol p f b' e') @ rest'" by blast
      then show ?thesis unfolding lossless_def prod.case by simp
    qed
    then show ?thesis by (auto simp: list_all_iff)
  qed
  have all: "source_ids p \<subseteq> {} \<union> (\<Union>x \<in> set (map ?x [1..<?n]). carried x)"
  proof
    fix x assume x: "x \<in> source_ids p"
    obtain b e where be: "x = (b, e)" by fastforce
    define i where "i = e * (?Z + 1) + 1 + b"
    have b: "b < ?Z" using x by (simp add: be source_ids_def)
    have it: "tx_item ?Z i = Some (b, e)" unfolding i_def by (rule tx_item_round(2) [OF b])
    then have i: "i < ?n" "1 \<le> i" using turn_source [OF p(1) kt it] x by (simp_all add: be i_def)
    have "x \<in> carried (?x i)"
      using source_payload [OF sp(1) x [unfolded be] arg_cong2 [where f = "(@)", OF symb(2) [OF i(1) it] refl], of "rest i"] fs
      by (simp add: carried_def be)
    moreover have "?x i \<in> set (map ?x [1..<?n])" using i by auto
    ultimately show "x \<in> {} \<union> (\<Union>x \<in> set (map ?x [1..<?n]). carried x)" by blast
  qed
  obtain rx where rx: "receive_loop rx1 (map ?x [1..<?n]) = Inr (Success, rx)" "io_content (rx_io rx) = f"
    using collect_loop [OF sp(1) fs rx1(2) lossless all] by blast
  have "receive_loop (receiver_init out) (map ?x [0..<?n]) = Inr (Success, rx)"
    using n rx(1) rx1(1) by (simp add: upt_conv_Cons)
  moreover have "hear (tx_frame_size tx) rest calls = map ?x [0..<?n] @ map ?x [?n..<k]"
    using upt_add_eq_append [of 0 ?n "k - ?n"] k sp(3) unfolding hear_def len by simp
  ultimately show ?thesis using rx(2) receive_loop_stops [of _ "map ?x [0..<?n]" Success] by auto
qed



end
