(* ===== verification/Daemon_Queue.thy ===== *)
theory Daemon_Queue
  imports Results "HOL-Library.Char_ord" "HOL-Library.List_Lexorder"
begin

section \<open>The daemon's directories (daemon.c)\<close>

text \<open>
  The file the daemon transmits is the first of its queue directory in the order of \<open>strcmp\<close>, the number of frames it
  may send is read off the name, and a received file gets a name of its own. A string is the list of
  its characters without the final zero; what the operating system answers is a parameter.
\<close>

definition PATH_MAX :: nat where "PATH_MAX = 4096"
definition NAME_MAX :: nat where "NAME_MAX = 255"

text \<open>\<open>snprintf\<close> into an array of \<open>n\<close> bytes keeps \<open>n - 1\<close> characters.\<close>

definition snprintf :: "nat \<Rightarrow> string \<Rightarrow> string" where
  "snprintf n s = take (n - 1) s"

subsection \<open>The first regular file\<close>

text \<open>\<open>names\<close> are the entries \<open>readdir\<close> returns, \<open>stat p\<close> is \<open>None\<close> where the call fails, else whether \<open>p\<close> is a regular file, and its
  time of modification.\<close>

definition better_name :: "string \<Rightarrow> (string \<Rightarrow> (bool \<times> int) option) \<Rightarrow> string option \<Rightarrow> string \<Rightarrow> string option" where
  "better_name dirpath stat best d_name =
     (if take 1 d_name = ''.'' then best
      else case stat (snprintf PATH_MAX (dirpath @ ''/'' @ d_name)) of
             None \<Rightarrow> best
           | Some (regular, _) \<Rightarrow>
               if \<not> regular then best
               else case best of
                      None \<Rightarrow> Some (snprintf (NAME_MAX + 1) d_name)
                    | Some b \<Rightarrow> if d_name < b then Some (snprintf (NAME_MAX + 1) d_name) else best)"

definition first_regular :: "string \<Rightarrow> (string \<Rightarrow> (bool \<times> int) option) \<Rightarrow> string list \<Rightarrow> string option" where
  "first_regular dirpath stat names = foldl (better_name dirpath stat) None names"

definition find_first_regular_file ::
  "string \<Rightarrow> string list option \<Rightarrow> (string \<Rightarrow> (bool \<times> int) option) \<Rightarrow> (string \<times> int) option" where
  "find_first_regular_file dirpath entries stat =
     (case entries of
        None \<Rightarrow> None
      | Some names \<Rightarrow>
          (case first_regular dirpath stat names of
             None \<Rightarrow> None
           | Some best_name \<Rightarrow>
               let out_path = snprintf PATH_MAX (dirpath @ ''/'' @ best_name)
               in case stat out_path of None \<Rightarrow> None | Some (_, mtime) \<Rightarrow> Some (out_path, mtime)))"

subsection \<open>The frame budget in a file name\<close>

text \<open>\<open>strrchr\<close>, \<open>strstr\<close>, \<open>isdigit\<close> and \<open>atoll\<close> on a string of digits.\<close>

definition base_name :: "string \<Rightarrow> string" where
  "base_name filepath = rev (takeWhile (\<lambda>c. c \<noteq> CHR ''/'') (rev filepath))"

fun strstr :: "string \<Rightarrow> string \<Rightarrow> nat option" where
  "strstr [] pat = (if pat = [] then Some 0 else None)"
| "strstr (c # s) pat = (if take (length pat) (c # s) = pat then Some 0 else map_option Suc (strstr s pat))"

definition digit_value :: "char \<Rightarrow> nat" where
  "digit_value c = of_char c - 48"

definition isdigit :: "char \<Rightarrow> bool" where
  "isdigit c \<longleftrightarrow> 48 \<le> (of_char c :: nat) \<and> (of_char c :: nat) \<le> 57"

definition atoll :: "string \<Rightarrow> int result" where
  "atoll s = (let v = foldl (\<lambda>v c. 10 * v + digit_value c) 0 s
     in if 9223372036854775807 < v then Inl Overflow else Inr (int v))"

text \<open>\<open>digits\<close> is the longest run of digits that ends before the suffix, \<open>-1\<close> no budget.\<close>

definition parse_frames_limit_from_filename :: "string \<Rightarrow> int result" where
  "parse_frames_limit_from_filename filepath =
     (let base = base_name filepath
      in case strstr base ''_frames'' of
           None \<Rightarrow> Inr (- 1)
         | Some suffix \<Rightarrow>
             let digits = rev (takeWhile isdigit (rev (take suffix base)));
                 start = suffix - length digits
             in if start = 0 \<or> base ! (start - 1) \<noteq> CHR ''-'' then Inr (- 1)
                else if digits = [] \<or> 32 \<le> length digits then Inr (- 1)
                else rbind (atoll digits) (\<lambda>v. Inr (if 0 < v then v else - 1)))"

subsection \<open>A name for a received file\<close>

text \<open>\<open>dec w n\<close> is \<open>n\<close> printed by \<open>%0wd\<close>.\<close>

fun digits_of :: "nat \<Rightarrow> string" where
  "digits_of n = (if n < 10 then [char_of (48 + n)] else digits_of (n div 10) @ [char_of (48 + n mod 10)])"

declare digits_of.simps [simp del]

definition dec :: "nat \<Rightarrow> nat \<Rightarrow> string" where
  "dec w n = replicate (w - length (digits_of n)) (CHR ''0'') @ digits_of n"

record tm =
  tm_year :: nat
  tm_mon :: nat
  tm_mday :: nat
  tm_hour :: nat
  tm_min :: nat
  tm_sec :: nat

definition output_name :: "string \<Rightarrow> tm \<Rightarrow> nat \<Rightarrow> string" where
  "output_name rx_dir now i =
     rx_dir @ ''/broadcast_'' @ dec 4 (tm_year now + 1900) @ dec 2 (tm_mon now + 1) @ dec 2 (tm_mday now)
       @ ''_'' @ dec 2 (tm_hour now) @ dec 2 (tm_min now) @ dec 2 (tm_sec now)
       @ (if i = 0 then [] else ''_'' @ dec 3 i) @ ''.bin''"

text \<open>\<open>exists\<close> answers \<open>access (out_path, F_OK)\<close>. The first result is the return value.\<close>

definition build_output_path :: "string \<Rightarrow> nat \<Rightarrow> tm \<Rightarrow> (string \<Rightarrow> bool) \<Rightarrow> bool \<times> string" where
  "build_output_path rx_dir out_path_len now exists =
     (let path = (\<lambda>i. snprintf out_path_len (output_name rx_dir now i))
      in case find (\<lambda>i. \<not> exists (path i)) [0..<1000] of
           Some i \<Rightarrow> (True, path i)
         | None \<Rightarrow> (False, path 999))"

subsection \<open>The queue is served in order\<close>

definition candidate :: "string \<Rightarrow> (string \<Rightarrow> (bool \<times> int) option) \<Rightarrow> string \<Rightarrow> bool" where
  "candidate dirpath stat d \<longleftrightarrow> take 1 d \<noteq> ''.'' \<and> (\<exists>m. stat (snprintf PATH_MAX (dirpath @ ''/'' @ d)) = Some (True, m))"

lemma better_name_candidate:
  assumes "length d \<le> NAME_MAX"
  shows "better_name dirpath stat best d = (if candidate dirpath stat d
    then Some (case best of None \<Rightarrow> d | Some b \<Rightarrow> min d b) else best)"
proof -
  have "snprintf (NAME_MAX + 1) d = d" using assms by (simp add: snprintf_def)
  then show ?thesis by (auto simp: better_name_def candidate_def min_def split: option.splits)
qed

lemma first_regular_spec:
  assumes "list_all (\<lambda>d. length d \<le> NAME_MAX) names"
  shows "first_regular dirpath stat names
    = (if filter (candidate dirpath stat) names = [] then None else Some (Min (set (filter (candidate dirpath stat) names))))"
  using assms
proof (induction names rule: rev_induct)
  case (snoc d names)
  let ?cs = "filter (candidate dirpath stat) names"
  have best: "first_regular dirpath stat names = (if ?cs = [] then None else Some (Min (set ?cs)))" using snoc by simp
  have step: "first_regular dirpath stat (names @ [d]) = better_name dirpath stat (first_regular dirpath stat names) d"
    by (simp add: first_regular_def)
  have "Min (insert d (set ?cs)) = min d (Min (set ?cs))" if "?cs \<noteq> []"
    using that by (intro Min_insert) (simp_all only: finite_set set_empty not_False_eq_True)
  then show ?case
    using snoc.prems unfolding step best by (simp add: better_name_candidate del: set_filter)
qed (simp add: first_regular_def)

text \<open>C39: The queue is served in the order of the names: the daemon takes the first regular file of its directory in the
  order of \<open>strcmp\<close> that is not hidden, whatever the order in which the directory lists them; when there is none
  it takes nothing. (Paths short enough for its buffers.)\<close>

theorem first_file_is_least:
  assumes "list_all (\<lambda>d. length d \<le> NAME_MAX) names" and "length dirpath + NAME_MAX + 2 \<le> PATH_MAX"
  shows "find_first_regular_file dirpath (Some names) stat
    = (let cs = filter (candidate dirpath stat) names
       in if cs = [] then None
          else Some (dirpath @ ''/'' @ Min (set cs), snd (the (stat (dirpath @ ''/'' @ Min (set cs))))))"
proof -
  let ?cs = "filter (candidate dirpath stat) names"
  have path: "snprintf PATH_MAX (dirpath @ ''/'' @ d) = dirpath @ ''/'' @ d" if "length d \<le> NAME_MAX" for d
    using that assms(2) by (simp add: snprintf_def)
  show ?thesis
  proof (cases "?cs = []")
    case True
    then show ?thesis by (simp add: find_first_regular_file_def first_regular_spec [OF assms(1)])
  next
    case False
    then have "Min (set ?cs) \<in> set ?cs" by (intro Min_in) (simp_all only: finite_set set_empty not_False_eq_True)
    then have m: "candidate dirpath stat (Min (set ?cs))" "length (Min (set ?cs)) \<le> NAME_MAX"
      using assms(1) by (auto simp: list_all_iff)
    show ?thesis
      using m False path [OF m(2)]
      by (auto simp: find_first_regular_file_def first_regular_spec [OF assms(1)] candidate_def Let_def simp del: set_filter)
  qed
qed

lemma first_file_is_least_witness:
  "find_first_regular_file ''q'' (Some [''b'', ''.x'', ''dir'', ''a'']) (\<lambda>p. Some (p \<noteq> ''q/dir'', 7)) = Some (''q/a'', 7)"
  using first_file_is_least [of "[''b'', ''.x'', ''dir'', ''a'']" "''q''" "\<lambda>p. Some (p \<noteq> ''q/dir'', 7)"]
  by (simp add: candidate_def snprintf_def NAME_MAX_def PATH_MAX_def)

subsection \<open>The budget is read as it is printed\<close>

lemma strstr_None: "strstr s pat = None \<Longrightarrow> take (length pat) (drop j s) \<noteq> pat"
proof (induction s arbitrary: j)
  case (Cons c s)
  then show ?case by (cases j) (auto split: if_splits)
qed (auto split: if_splits)

lemma strstr_skip:
  "\<forall>j < length a. take (length pat) (drop j (a @ b)) \<noteq> pat \<Longrightarrow> strstr (a @ b) pat = map_option ((+) (length a)) (strstr b pat)"
proof (induction a)
  case (Cons c a)
  have "\<forall>j < length a. take (length pat) (drop j (a @ b)) \<noteq> pat" using Cons.prems by fastforce
  moreover have "take (length pat) (c # a @ b) \<noteq> pat" using Cons.prems by fastforce
  ultimately show ?case using Cons.IH by (cases "strstr b pat") auto
next
  case Nil
  show ?case by (cases "strstr b pat") simp_all
qed

lemma strstr_here: "strstr (pat @ s) pat = Some 0"
proof (cases "pat @ s")
  case (Cons a l)
  then have "take (length pat) (a # l) = pat" by (metis append_eq_conv_conj)
  then show ?thesis unfolding Cons by simp
qed simp

text \<open>The first occurrence of a pattern whose first character is nowhere else in it is not hidden by text before it.\<close>

lemma no_overlap:
  assumes a: "strstr a (c # cs) = None" and c: "c \<notin> set cs" and j: "j < length a"
  shows "take (length (c # cs)) (drop j (a @ (c # cs) @ b)) \<noteq> c # cs"
proof
  let ?p = "c # cs" and ?s = "a @ (c # cs) @ b"
  assume eq: "take (length ?p) (drop j ?s) = ?p"
  show False
  proof (cases "j + length ?p \<le> length a")
    case True
    then have "take (length ?p) (drop j a) = ?p" using eq by simp
    then show False using strstr_None [OF a] by blast
  next
    case False
    then have k: "0 < length a - j" "length a - j < length ?p" using j by auto
    have "?p ! (length a - j) = take (length ?p) (drop j ?s) ! (length a - j)" by (simp only: eq)
    also have "\<dots> = drop j ?s ! (length a - j)" using k by (intro nth_take)
    also have "\<dots> = ?s ! length a" using j by (simp only: nth_drop length_append) simp
    also have "\<dots> = c" by simp
    finally have "cs ! (length a - j - 1) = c" using k by (simp add: nth_Cons')
    moreover have "length a - j - 1 < length cs" using k by simp
    ultimately show False using c nth_mem by blast
  qed
qed

text \<open>Text with characters the pattern has not does not hold the pattern.\<close>

lemma strstr_foreign:
  assumes a: "strstr a pat = None" and b: "set b \<inter> set pat = {}" and p: "pat \<noteq> []"
  shows "strstr (a @ b) pat = None"
proof -
  have "take (length pat) (drop j (a @ b)) \<noteq> pat" if j: "j < length a" for j
  proof
    assume eq: "take (length pat) (drop j (a @ b)) = pat"
    show False
    proof (cases "j + length pat \<le> length a")
      case True
      then show False using eq strstr_None [OF a, of j] by simp
    next
      case False
      then have "take (length pat - (length a - j)) b = drop (length a - j) pat"
        using arg_cong [OF eq, of "drop (length a - j)"] j by (simp add: drop_take)
      moreover have "drop (length a - j) pat \<noteq> []" using False j by simp
      ultimately obtain c where "c \<in> set (take (length pat - (length a - j)) b)" "c \<in> set (drop (length a - j) pat)"
        by (metis list.set_intros(1) neq_Nil_conv)
      then show False using b in_set_takeD in_set_dropD by fastforce
    qed
  qed
  moreover have "strstr b pat = None"
    using b p
  proof (induction b)
    case (Cons c b)
    have "take (length pat) (c # b) \<noteq> pat" using Cons.prems by (cases pat) auto
    with Cons show ?case by simp
  qed simp
  ultimately show ?thesis using strstr_skip [of a pat b] by simp
qed

lemma of_char_digit: "d < 10 \<Longrightarrow> of_char (char_of (48 + d)) = (48 + d :: nat)"
  by simp

lemma digit_char: "d < 10 \<Longrightarrow> isdigit (char_of (48 + d)) \<and> digit_value (char_of (48 + d)) = d"
  using of_char_digit [of d] by (simp add: isdigit_def digit_value_def)

lemma digits_of_isdigit: "list_all isdigit (digits_of n)"
proof (induction n rule: digits_of.induct)
  case (1 n)
  then show ?case by (subst digits_of.simps) (simp add: digit_char)
qed

lemma digits_of_nonempty: "digits_of n \<noteq> []"
  by (subst digits_of.simps) simp

lemma digits_of_value: "foldl (\<lambda>v c. 10 * v + digit_value c) 0 (digits_of n) = n"
proof (induction n rule: digits_of.induct)
  case (1 n)
  then show ?case by (subst digits_of.simps) (simp add: digit_char)
qed

lemma length_digits_of: "n < 10 ^ k \<Longrightarrow> 0 < k \<Longrightarrow> length (digits_of n) \<le> k"
proof (induction k arbitrary: n)
  case (Suc k)
  show ?case
  proof (cases "n < 10")
    case True
    then show ?thesis by (subst digits_of.simps) simp
  next
    case False
    then have "0 < k" using Suc.prems by (cases k) auto
    moreover have "n div 10 < 10 ^ k" using Suc.prems by (simp add: div_less_iff_less_mult mult.commute)
    ultimately show ?thesis using False Suc.IH [of "n div 10"] by (subst digits_of.simps) simp
  qed
qed simp

lemma base_name_append: "CHR ''/'' \<notin> set b \<Longrightarrow> base_name (d @ ''/'' @ b) = b"
  by (simp add: base_name_def takeWhile_append2 takeWhile_append)

text \<open>C40: A budget in the form the usage text tells, \<open>name-N_frames.ext\<close>, is read back as \<open>N\<close>, for any name that
  does not contain the suffix itself and any positive number that fits 64 bits, wherever the file lies.\<close>

theorem frames_limit_roundtrip:
  assumes "0 < n" and "n < 2 ^ 63" and "CHR ''/'' \<notin> set stem \<union> set ext" and "strstr stem ''_frames'' = None"
  shows "parse_frames_limit_from_filename (dir @ ''/'' @ stem @ ''-'' @ digits_of n @ ''_frames'' @ ext) = Inr (int n)"
proof -
  let ?a = "stem @ ''-'' @ digits_of n" and ?p = "''_frames''"
  have dig: "c \<in> set (digits_of n) \<Longrightarrow> isdigit c" for c using digits_of_isdigit [of n] by (auto simp: list_all_iff)
  have foreign: "set (''-'' @ digits_of n) \<inter> set ?p = {}" using dig [THEN iffD1 [OF isdigit_def]] by (fastforce simp: )
  have "CHR ''/'' \<notin> set (stem @ ''-'' @ digits_of n @ ?p @ ext)" using assms(3) dig [of "CHR ''/''"] by (auto simp: isdigit_def)
  then have base: "base_name (dir @ ''/'' @ stem @ ''-'' @ digits_of n @ ?p @ ext) = ?a @ ?p @ ext"
    using base_name_append [of "stem @ ''-'' @ digits_of n @ ?p @ ext" dir] by simp
  have none: "strstr ?a ?p = None" by (rule strstr_foreign [OF assms(4) foreign]) simp
  have "strstr (?a @ ?p @ ext) ?p = map_option ((+) (length ?a)) (strstr (?p @ ext) ?p)"
    by (rule strstr_skip) (use no_overlap [OF none] in auto)
  then have at: "strstr (?a @ ?p @ ext) ?p = Some (length ?a)" by (simp only: strstr_here) simp
  have take: "take (length ?a) (?a @ ?p @ ext) = ?a" by simp
  have "takeWhile isdigit (rev ?a) = rev (digits_of n)"
    using dig takeWhile_append2 [of "rev (digits_of n)" isdigit] by (simp add: isdigit_def [of "CHR ''-''"])
  then have digits: "rev (takeWhile isdigit (rev ?a)) = digits_of n" by simp
  have minus: "(?a @ ?p @ ext) ! (length ?a - length (digits_of n) - 1) = CHR ''-''" by (simp add: nth_append)
  have len: "length (digits_of n) \<le> 19" by (rule length_digits_of) (use assms(2) in simp_all)
  have "atoll (digits_of n) = Inr (int n)" using assms(2) by (simp add: atoll_def digits_of_value Let_def)
  then show ?thesis
    unfolding parse_frames_limit_from_filename_def base Let_def at option.case take digits minus
    using len assms(1) digits_of_nonempty [of n] by simp
qed

lemma frames_limit_roundtrip_witness:
  "parse_frames_limit_from_filename ''./tx/file-500_frames.bin'' = Inr 500"
proof -
  have "char_of (53 :: nat) = CHR ''5''" "char_of (48 :: nat) = CHR ''0''"
    by (simp_all add: char_of_eq_iff)
  then have d: "digits_of 500 = ''500''" by (simp add: digits_of.simps)
  show ?thesis using frames_limit_roundtrip [of 500 "''file''" "''.bin''" "''./tx''"] by (simp add: d)
qed

end
