(* ===== verification/Daemon_Rx.thy ===== *)
theory Daemon_Rx
  imports Delivery Daemon_Queue
begin

section \<open>The daemon's receiving thread (daemon.c)\<close>

text \<open>
  Every frame of the daemon carries the configuration with a symbol, so a session may start at any frame. The
  thread keeps one session; a frame of another configuration replaces it, a completed file closes it, and the last
  completed configuration is remembered so that its later frames start nothing. \<open>rx_frame\<close> is one pass
  of the loop on a frame. The main fact: with any number of senders of different configurations and any losses,
  every file that is reported is the file of the sender whose configuration it was.
\<close>

record daemon_ctx =
  d_frame_size :: nat
  d_symbol_size :: nat
  d_rx_dir :: string
  d_tx_dir :: string

text \<open>What \<open>main\<close> makes of a mode number: \<open>None\<close> where it leaves with an error.\<close>

definition daemon_mode :: "string \<Rightarrow> string \<Rightarrow> int \<Rightarrow> daemon_ctx option" where
  "daemon_mode tx_dir rx_dir mode =
     (if mode < 0 \<or> int HERMES_MODE_MAX < mode then None
      else let frame_size = hermes_frame_size ! nat mode
           in if frame_size \<le> HERMES_SIZE + CONFIG_BODY_SIZE + TAG_BODY_SIZE then None
              else Some \<lparr>d_frame_size = frame_size,
                d_symbol_size = frame_size - HERMES_SIZE - CONFIG_BODY_SIZE - TAG_BODY_SIZE,
                d_rx_dir = rx_dir, d_tx_dir = tx_dir\<rparr>)"

record rx_session =
  rs_active :: bool
  rs_completed_last :: bool
  rs_last_common :: u64
  rs_last_scheme :: u32
  rs_common :: u64
  rs_scheme :: u32
  rs_num_sbn :: nat
  rs_path :: string
  rs_io :: "ioctx option"
  rs_rq :: "nanorq option"
  rs_decoded :: "bool list"
  rs_seen :: "u32 list"

definition rx_session_zero :: rx_session where
  "rx_session_zero = \<lparr>rs_active = False, rs_completed_last = False, rs_last_common = 0, rs_last_scheme = 0, rs_common = 0,
     rs_scheme = 0, rs_num_sbn = 0, rs_path = [], rs_io = None, rs_rq = None, rs_decoded = [], rs_seen = []\<rparr>"

definition rx_session_reset :: "rx_session \<Rightarrow> rx_session" where
  "rx_session_reset rx = rx_session_zero\<lparr>rs_completed_last := rs_completed_last rx,
     rs_last_common := rs_last_common rx, rs_last_scheme := rs_last_scheme rx\<rparr>"

text \<open>What the system answers to a session that starts: the time, which paths exist, and what the file holds
  that \<open>fopen\<close> opens (\<open>None\<close> where it fails).\<close>

record rx_env =
  env_now :: tm
  env_exists :: "string \<Rightarrow> bool"
  env_disk :: "string \<Rightarrow> bytes option"

definition rx_session_start :: "daemon_ctx \<Rightarrow> rx_env \<Rightarrow> rx_session \<Rightarrow> u64 \<Rightarrow> u32 \<Rightarrow> (bool \<times> rx_session) result" where
  "rx_session_start ctx env rx oti_common oti_scheme =
     (let rx = rx_session_reset rx;
          (ok, path) = build_output_path (d_rx_dir ctx) PATH_MAX (env_now env) (env_exists env);
          rx = rx\<lparr>rs_path := path\<rparr>
      in if \<not> ok then Inr (False, rx)
         else case ioctx_from_file (env_disk env path) False of
           None \<Rightarrow> Inr (False, rx)
         | Some myio \<Rightarrow>
             (case nanorq_decoder_new oti_common oti_scheme of
                Inl e \<Rightarrow> Inl e
              | Inr None \<Rightarrow> Inr (False, rx_session_reset rx)
              | Inr (Some (p, m)) \<Rightarrow>
                  Inr (True, rx\<lparr>rs_io := Some (File myio), rs_rq := Some (snd (nanorq_set_max_esi (nanorq_init p m) MAX_ESI)),
                    rs_num_sbn := nanorq_blocks p, rs_decoded := replicate (nanorq_blocks p) False,
                    rs_seen := replicate (nanorq_blocks p) 0, rs_common := oti_common, rs_scheme := oti_scheme, rs_active := True\<rparr>)))"

definition rx_session_is_complete :: "rx_session \<Rightarrow> bool result" where
  "rx_session_is_complete rx =
     (if length (rs_decoded rx) < rs_num_sbn rx then Inl Out_Of_Bounds
      else Inr (\<forall>i \<in> set [0..<rs_num_sbn rx]. rs_decoded rx ! i))"

subsection \<open>One frame\<close>

text \<open>What follows \<open>NANORQ_SYM_ADDED\<close>.\<close>

definition rx_added :: "rx_session \<Rightarrow> nanorq \<Rightarrow> ioctx \<Rightarrow> nat \<Rightarrow> rx_session result" where
  "rx_added rx rq io sbn =
     (if length (rs_seen rx) \<le> sbn \<or> length (rs_decoded rx) \<le> sbn then Inl Out_Of_Bounds
      else let rx = rx\<lparr>rs_rq := Some rq, rs_io := Some io, rs_seen := (rs_seen rx)[sbn := rs_seen rx ! sbn + 1]\<rparr>
           in if \<not> rs_decoded rx ! sbn \<and> nanorq_block_symbols (par rq) sbn \<le> unat (rs_seen rx ! sbn)
              then rbind (nanorq_repair_block rq io sbn) (\<lambda>(ok, rq, io).
                     Inr (rx\<lparr>rs_rq := Some rq, rs_io := Some io,
                             rs_decoded := (if ok then (rs_decoded rx)[sbn := True] else rs_decoded rx)\<rparr>))
              else Inr rx)"

text \<open>A complete file is reported and its session closed.\<close>

definition rx_close :: "rx_session \<Rightarrow> ((string \<times> ioctx) option \<times> rx_session) result" where
  "rx_close rx = rbind (rx_session_is_complete rx) (\<lambda>complete.
     if complete
     then Inr (map_option (Pair (rs_path rx)) (rs_io rx),
       rx_session_reset (rx\<lparr>rs_completed_last := True, rs_last_common := rs_common rx, rs_last_scheme := rs_scheme rx\<rparr>))
     else Inr (None, rx))"

text \<open>The symbol of a frame goes to the session's decoder. The answer is the file that is reported.\<close>

definition rx_symbol :: "rx_session \<Rightarrow> bytes \<Rightarrow> ((string \<times> ioctx) option \<times> rx_session) result" where
  "rx_symbol rx frame =
     (case (rs_rq rx, rs_io rx) of
        (Some rq, Some io) \<Rightarrow>
          (let sbn = frame_sbn frame (1 + CONFIG_BODY_SIZE); esi = frame_esi frame (1 + CONFIG_BODY_SIZE); tag = nanorq_tag sbn esi
           in rbind (nanorq_decoder_add_symbol rq (drop (1 + CONFIG_BODY_SIZE + TAG_BODY_SIZE) frame) tag io) (\<lambda>(ret, rq, io).
              rbind (if ret = NANORQ_SYM_ADDED then rx_added rx rq io (unat sbn)
                     else Inr (rx\<lparr>rs_rq := Some rq, rs_io := Some io\<rparr>)) rx_close))
      | _ \<Rightarrow> Inl Uninitialised)"

text \<open>The session a frame of this configuration belongs to; not \<open>ok\<close> where none can be started.\<close>

definition rx_session_for :: "daemon_ctx \<Rightarrow> rx_env \<Rightarrow> rx_session \<Rightarrow> u64 \<Rightarrow> u32 \<Rightarrow> (bool \<times> rx_session) result" where
  "rx_session_for ctx env rx oti_common oti_scheme =
     (if \<not> rs_active rx \<or> rs_common rx \<noteq> oti_common \<or> rs_scheme rx \<noteq> oti_scheme
      then rbind (rx_session_start ctx env rx oti_common oti_scheme) (\<lambda>(ok, rx).
             Inr (if ok then (True, rx\<lparr>rs_completed_last := False\<rparr>) else (False, rx)))
      else Inr (True, rx))"

text \<open>The configuration that was completed last, with no session since.\<close>

definition rx_known :: "rx_session \<Rightarrow> u64 \<Rightarrow> u32 \<Rightarrow> bool" where
  "rx_known rx oti_common oti_scheme \<longleftrightarrow>
     rs_completed_last rx \<and> rs_last_common rx = oti_common \<and> rs_last_scheme rx = oti_scheme \<and> \<not> rs_active rx"

definition rx_frame :: "daemon_ctx \<Rightarrow> rx_env \<Rightarrow> rx_session \<Rightarrow> bytes \<Rightarrow> nat \<Rightarrow> ((string \<times> ioctx) option \<times> rx_session) result" where
  "rx_frame ctx env rx frame n_read =
     (if n_read \<noteq> d_frame_size ctx then Inr (None, rx)
      else rbind (joint_frame_ok frame (d_frame_size ctx)) (\<lambda>good.
        if \<not> good then Inr (None, rx)
        else let oti_common = parse_oti_common_from_frame frame; oti_scheme = parse_oti_scheme_from_frame frame
             in if rx_known rx oti_common oti_scheme then Inr (None, rx)
                else rbind (rx_session_for ctx env rx oti_common oti_scheme) (\<lambda>(ok, rx).
                     if \<not> ok then Inr (None, rx) else rx_symbol rx frame)))"

text \<open>The thread over what \<open>tcp_interface_recv_kiss\<close> returns, each with the system's answers at that moment, until it returns an
  error or the list ends: the files that were reported.\<close>

type_synonym daemon_read = "int \<times> bytes \<times> rx_env"

fun rx_thread :: "daemon_ctx \<Rightarrow> rx_session \<Rightarrow> daemon_read list \<Rightarrow> ((string \<times> ioctx) list \<times> rx_session) result" where
  "rx_thread ctx rx [] = Inr ([], rx)"
| "rx_thread ctx rx ((n_read, frame, env) # rs) =
     (if n_read = 0 then rx_thread ctx rx rs
      else if n_read < 0 then Inr ([], rx_session_reset rx)
      else rbind (rx_frame ctx env rx frame (nat n_read)) (\<lambda>(out, rx).
           rbind (rx_thread ctx rx rs) (\<lambda>(outs, rx).
             Inr ((case out of None \<Rightarrow> outs | Some x \<Rightarrow> x # outs), rx))))"

subsection \<open>Senders\<close>

text \<open>An encoder of a transmitting daemon with symbols of \<open>t\<close> bytes, and what it puts on the air.\<close>

definition daemon_sender :: "nat \<Rightarrow> nanorq_params \<Rightarrow> bytes \<Rightarrow> bool" where
  "daemon_sender t p f \<longleftrightarrow> nanorq_encoder_new (length f) t 1 = Some (Inr (Some p)) \<and> length f < 2 ^ 24 \<and> t < 65536 \<and> oT (common p) = t"

definition emitted_frame :: "nanorq_params \<Rightarrow> bytes \<Rightarrow> nat \<Rightarrow> nat \<Rightarrow> bytes \<Rightarrow> bool" where
  "emitted_frame p f sbn esi frame \<longleftrightarrow> sbn < nanorq_blocks p \<and> esi \<le> MAX_ESI \<and> (\<exists>d rest. emitted p f sbn esi d
     \<and> frame = joint_frame (tl (configuration_packet p)) (of_nat sbn) (of_nat esi) d @ rest)"

lemma daemon_sender_ok: "daemon_sender t p f \<Longrightarrow> rq_ok p \<and> length f = oF (common p)"
  using encoder_rq_ok [of "length f" t 0 0 1 p] by (simp add: daemon_sender_def nanorq_encoder_new_def)

lemma same_sender:
  "nanorq_encoder_new n t 1 = Some (Inr (Some p)) \<Longrightarrow> nanorq_encoder_new n t 1 = Some (Inr (Some q)) \<Longrightarrow> p = q"
  by simp

lemma emitted_frame_parsed:
  assumes s: "daemon_sender t p f" and e: "emitted_frame p f sbn esi frame"
  shows "joint_frame_ok frame (HERMES_SIZE + CONFIG_BODY_SIZE + TAG_BODY_SIZE + t) = Inr True"
    "parse_oti_common_from_frame frame = nanorq_oti_common p" "parse_oti_scheme_from_frame frame = nanorq_oti_scheme_specific p"
    "nanorq_decoder_new (nanorq_oti_common p) (nanorq_oti_scheme_specific p) = Inr (Some (p, 2 * pKprime (rqP p)))"
    "frame_sbn frame (1 + CONFIG_BODY_SIZE) = of_nat sbn" "unat (of_nat sbn :: u8) = sbn"
    "frame_esi frame (1 + CONFIG_BODY_SIZE) = of_nat esi"
    "t \<le> length (drop (1 + CONFIG_BODY_SIZE + TAG_BODY_SIZE) frame)"
    "emitted p f sbn esi (take t (drop (1 + CONFIG_BODY_SIZE + TAG_BODY_SIZE) frame))"
proof -
  have p: "rq_ok p" "length f = oF (common p)" using daemon_sender_ok [OF s] by auto
  have new: "nanorq_encoder_new (length f) t 1 = Some (Inr (Some p))" "t < 65536" "length f < 2 ^ 24" "oT (common p) = t"
    using s by (auto simp: daemon_sender_def)
  obtain d rest where b: "sbn < nanorq_blocks p" "esi \<le> MAX_ESI" and d: "emitted p f sbn esi d"
    and frame: "frame = joint_frame (tl (configuration_packet p)) (of_nat sbn) (of_nat esi) d @ rest"
    using e by (auto simp: emitted_frame_def)
  have len: "length d = t" using length_emitted [OF p(1) b(1) p(2) d] new(4) by simp
  have "nanorq_blocks p \<le> 256" using rq_ok_symbols(4) [OF p(1)] p(1) by (simp add: rq_ok_def Z_max_def)
  then show "unat (of_nat sbn :: u8) = sbn" using b(1) by (intro unat_of_nat_small) simp
  have es: "of_nat esi \<le> (0xffff :: u32)" using b(2) by (simp add: word_le_nat_alt unat_of_nat_small MAX_ESI_def)
  note jp = joint_parsed [OF new(1-3) es frame, unfolded len]
  show "joint_frame_ok frame (HERMES_SIZE + CONFIG_BODY_SIZE + TAG_BODY_SIZE + t) = Inr True" using jp by blast
  show "parse_oti_common_from_frame frame = nanorq_oti_common p" "parse_oti_scheme_from_frame frame = nanorq_oti_scheme_specific p"
    "nanorq_decoder_new (nanorq_oti_common p) (nanorq_oti_scheme_specific p) = Inr (Some (p, 2 * pKprime (rqP p)))"
    "frame_sbn frame (1 + CONFIG_BODY_SIZE) = of_nat sbn" "frame_esi frame (1 + CONFIG_BODY_SIZE) = of_nat esi"
    using jp by auto
  have ch: "take t (drop (1 + CONFIG_BODY_SIZE + TAG_BODY_SIZE) frame) = d" using jp by (simp add: chunk_def)
  then show "emitted p f sbn esi (take t (drop (1 + CONFIG_BODY_SIZE + TAG_BODY_SIZE) frame))" using d by simp
  show "t \<le> length (drop (1 + CONFIG_BODY_SIZE + TAG_BODY_SIZE) frame)" using arg_cong [OF ch, of length] len by simp
qed

subsection \<open>A session holds what its sender has sent\<close>

definition session_of :: "nanorq_params \<Rightarrow> rx_session \<Rightarrow> bool" where
  "session_of p rx \<longleftrightarrow> rs_active rx \<and> rs_common rx = nanorq_oti_common p \<and> rs_scheme rx = nanorq_oti_scheme_specific p
     \<and> rs_num_sbn rx = nanorq_blocks p \<and> length (rs_decoded rx) = nanorq_blocks p \<and> length (rs_seen rx) = nanorq_blocks p"

definition serving :: "nanorq_params \<Rightarrow> bytes \<Rightarrow> rx_session \<Rightarrow> bool" where
  "serving p f rx \<longleftrightarrow> session_of p rx
     \<and> (\<exists>rq io R. rs_rq rx = Some rq \<and> rs_io rx = Some io \<and> fed p f rq io R \<and> flags_ok p R (rs_decoded rx))"

text \<open>The repair a symbol leads to, if it does, has its checkpoints apart.\<close>

definition symbol_sound :: "rx_session \<Rightarrow> bytes \<Rightarrow> bool" where
  "symbol_sound rx frame \<longleftrightarrow> (\<forall>rq io ret rq' io'. rs_rq rx = Some rq \<longrightarrow> rs_io rx = Some io \<longrightarrow>
     nanorq_decoder_add_symbol rq (drop (1 + CONFIG_BODY_SIZE + TAG_BODY_SIZE) frame)
       (nanorq_tag (frame_sbn frame (1 + CONFIG_BODY_SIZE)) (frame_esi frame (1 + CONFIG_BODY_SIZE))) io = Inr (ret, rq', io') \<longrightarrow>
     ret = NANORQ_SYM_ADDED \<longrightarrow>
     (let b = unat (frame_sbn frame (1 + CONFIG_BODY_SIZE))
      in nanorq_block_symbols (par rq') b \<le> unat (rs_seen rx ! b + 1) \<longrightarrow> repair_sound rq' b))"

definition reported :: "bytes \<Rightarrow> nanorq_params \<Rightarrow> (string \<times> ioctx) option \<times> rx_session \<Rightarrow> bool" where
  "reported f p x = (case x of
     (None, rx) \<Rightarrow> serving p f rx
   | (Some (path, io), rx) \<Rightarrow> io_content io = f \<and> \<not> rs_active rx)"

lemma reset_fields [simp]:
  "\<not> rs_active (rx_session_reset rx)" "rs_completed_last (rx_session_reset rx) = rs_completed_last rx"
  "rs_last_common (rx_session_reset rx) = rs_last_common rx" "rs_last_scheme (rx_session_reset rx) = rs_last_scheme rx"
  by (simp_all add: rx_session_reset_def rx_session_zero_def)

lemma rx_added_ok:
  assumes p: "rq_ok p" and f: "length f = oF (common p)" and b: "sbn < nanorq_blocks p"
    and c: "session_of p rx" and fed: "fed p f rq io R" and fl: "flags_ok p R (rs_decoded rx)"
    and s: "nanorq_block_symbols (par rq) sbn \<le> unat (rs_seen rx ! sbn + 1) \<Longrightarrow> repair_sound rq sbn"
  shows "yields (serving p f) (rx_added rx rq io sbn)"
proof -
  let ?rx = "rx\<lparr>rs_rq := Some rq, rs_io := Some io, rs_seen := (rs_seen rx)[sbn := rs_seen rx ! sbn + 1]\<rparr>"
  have len: "length (rs_decoded rx) = nanorq_blocks p" "length (rs_seen rx) = nanorq_blocks p" using c by (simp_all add: session_of_def)
  show ?thesis
  proof (cases "\<not> rs_decoded ?rx ! sbn \<and> nanorq_block_symbols (par rq) sbn \<le> unat (rs_seen ?rx ! sbn)")
    case True
    then have sound: "repair_sound rq sbn" using s b len by simp
    have run: "rx_added rx rq io sbn = rbind (nanorq_repair_block rq io sbn) (\<lambda>(ok, rq, io).
        Inr (?rx\<lparr>rs_rq := Some rq, rs_io := Some io, rs_decoded := (if ok then (rs_decoded ?rx)[sbn := True] else rs_decoded ?rx)\<rparr>))"
      unfolding rx_added_def Let_def using True b len by simp
    have "yields (serving p f) (case x of (ok, rq, io) \<Rightarrow>
        Inr (?rx\<lparr>rs_rq := Some rq, rs_io := Some io, rs_decoded := (if ok then (rs_decoded ?rx)[sbn := True] else rs_decoded ?rx)\<rparr>))"
      if "case x of (ok, rq', io') \<Rightarrow> \<exists>R'. fed p f rq' io' R' \<and> R \<subseteq> R' \<and> (ok \<longrightarrow> (\<forall>esi < nanorq_block_symbols p sbn. (sbn, esi) \<in> R'))" for x
    proof -
      obtain ok rq2 io2 where x: "x = (ok, rq2, io2)" by (cases x) auto
      from that obtain R' where R': "fed p f rq2 io2 R'" "R \<subseteq> R'" "ok \<longrightarrow> (\<forall>esi < nanorq_block_symbols p sbn. (sbn, esi) \<in> R')"
        by (auto simp: x)
      show ?thesis using flags_update [OF flags_mono [OF fl R'(2)] R'(3)] R'(1) c by (auto simp: x serving_def session_of_def)
    qed
    from yields_rbind [OF fed_repair [OF p f fed b sound] this] show ?thesis unfolding run .
  next
    case False
    then have "rx_added rx rq io sbn = Inr ?rx" unfolding rx_added_def Let_def using b len by auto
    then show ?thesis using c fed fl by (auto simp: serving_def session_of_def)
  qed
qed

lemma rx_symbol_ok:
  assumes snd: "daemon_sender t p f" and sv: "serving p f rx" and e: "emitted_frame p f sbn esi frame" and s: "symbol_sound rx frame"
  shows "yields (reported f p) (rx_symbol rx frame)"
proof -
  have p: "rq_ok p" "length f = oF (common p)" using daemon_sender_ok [OF snd] by auto
  have t: "oT (common p) = t" using snd by (simp add: daemon_sender_def)
  have b: "sbn < nanorq_blocks p" "esi \<le> MAX_ESI" using e by (auto simp: emitted_frame_def)
  note fr = emitted_frame_parsed [OF snd e]
  let ?d = "drop (1 + CONFIG_BODY_SIZE + TAG_BODY_SIZE) frame"
  from sv obtain rq io R where c: "session_of p rx" and R: "rs_rq rx = Some rq" "rs_io rx = Some io" "fed p f rq io R" "flags_ok p R (rs_decoded rx)"
    by (auto simp: serving_def)
  obtain r rq1 io1 R1 where a: "nanorq_decoder_add_symbol rq ?d (nanorq_tag (of_nat sbn) (of_nat esi)) io = Inr (r, rq1, io1)"
    "fed p f rq1 io1 R1" "R \<subseteq> R1"
    using fed_add [OF p R(3) b, of ?d] fr t by auto
  have fl: "flags_ok p R1 (rs_decoded rx)" using flags_mono [OF R(4) a(3)] .
  have "yields (serving p f) (if r = NANORQ_SYM_ADDED then rx_added rx rq1 io1 sbn else Inr (rx\<lparr>rs_rq := Some rq1, rs_io := Some io1\<rparr>))"
  proof (cases "r = NANORQ_SYM_ADDED")
    case True
    have "nanorq_block_symbols (par rq1) sbn \<le> unat (rs_seen rx ! sbn + 1) \<Longrightarrow> repair_sound rq1 sbn"
      using s a(1) R(1,2) fr True by (auto simp: symbol_sound_def Let_def)
    from rx_added_ok [OF p b(1) c a(2) fl this] True show ?thesis by simp
  next
    case False
    then show ?thesis using c a(2) fl by (auto simp: serving_def session_of_def)
  qed
  moreover have "yields (reported f p) (rx_close rx2)" if "serving p f rx2" for rx2
  proof -
    from that obtain rq io R where c: "session_of p rx2" and R: "rs_rq rx2 = Some rq" "rs_io rx2 = Some io" "fed p f rq io R" "flags_ok p R (rs_decoded rx2)"
      by (auto simp: serving_def)
    have len: "length (rs_decoded rx2) = nanorq_blocks p" "rs_num_sbn rx2 = nanorq_blocks p" using c by (simp_all add: session_of_def)
    have "(\<forall>i < nanorq_blocks p. rs_decoded rx2 ! i) \<Longrightarrow> io_content io = f"
      using fed_complete [OF p R(3,4)] len by simp
    then show ?thesis using R that len by (simp add: rx_close_def rx_session_is_complete_def reported_def)
  qed
  moreover have "rx_symbol rx frame = rbind (if r = NANORQ_SYM_ADDED then rx_added rx rq1 io1 sbn
      else Inr (rx\<lparr>rs_rq := Some rq1, rs_io := Some io1\<rparr>)) rx_close"
    using R(1,2) a(1) fr by (simp add: rx_symbol_def Let_def)
  ultimately show ?thesis using yields_rbind by metis
qed

lemma rx_start_ok:
  assumes snd: "daemon_sender t p f"
  shows "\<exists>ok rx'. rx_session_start ctx env rx (nanorq_oti_common p) (nanorq_oti_scheme_specific p) = Inr (ok, rx')
    \<and> (if ok then serving p f rx' else \<not> rs_active rx')"
proof -
  have p: "rq_ok p" "length f = oF (common p)" using daemon_sender_ok [OF snd] by auto
  have new: "nanorq_encoder_new (length f) t 1 = Some (Inr (Some p))" "t < 65536" "length f < 2 ^ 24"
    using snd by (auto simp: daemon_sender_def)
  have dec: "nanorq_decoder_new (nanorq_oti_common p) (nanorq_oti_scheme_specific p) = Inr (Some (p, 2 * pKprime (rqP p)))"
    using configuration_parsed [OF new, of "[]" 0] by auto
  have set: "snd (nanorq_set_max_esi (nanorq_init p (2 * pKprime (rqP p))) MAX_ESI) = nanorq_init p MAX_ESI"
    using max_esi_bounds [OF p(1)] by (simp add: nanorq_set_max_esi_def nanorq_init_def)
  obtain ok path where path: "build_output_path (d_rx_dir ctx) PATH_MAX (env_now env) (env_exists env) = (ok, path)" by fastforce
  show ?thesis
  proof (cases "ok \<and> env_disk env path \<noteq> None")
    case False
    then show ?thesis using path by (auto simp: rx_session_start_def Let_def ioctx_from_file_def)
  next
    case True
    then obtain bs where bs: "env_disk env path = Some bs" by auto
    have "fed p f (nanorq_init p MAX_ESI) (File \<lparr>f_bytes = [], f_pos = 0, f_writable = True\<rparr>) {}" by (rule fed_init) simp_all
    then show ?thesis
      using True path bs by (auto simp: rx_session_start_def Let_def ioctx_from_file_def dec set serving_def session_of_def flags_ok_def)
  qed
qed

subsection \<open>The thread\<close>

definition heard :: "nat \<Rightarrow> (nanorq_params \<times> bytes) set \<Rightarrow> daemon_read \<Rightarrow> bool" where
  "heard t S x = (case x of (n, frame, env) \<Rightarrow>
     n \<le> 0 \<or> nat n \<noteq> HERMES_SIZE + CONFIG_BODY_SIZE + TAG_BODY_SIZE + t
     \<or> joint_frame_ok frame (HERMES_SIZE + CONFIG_BODY_SIZE + TAG_BODY_SIZE + t) = Inr False
     \<or> (\<exists>(p, f) \<in> S. \<exists>sbn esi. emitted_frame p f sbn esi frame))"

text \<open>The repair an accepted frame leads to, if it does, has its checkpoints apart.\<close>

definition accepted_sound :: "daemon_ctx \<Rightarrow> rx_session \<Rightarrow> daemon_read \<Rightarrow> bool" where
  "accepted_sound ctx rx x = (case x of (n, frame, env) \<Rightarrow>
     let oti_common = parse_oti_common_from_frame frame; oti_scheme = parse_oti_scheme_from_frame frame
     in nat n = d_frame_size ctx \<longrightarrow> joint_frame_ok frame (d_frame_size ctx) = Inr True \<longrightarrow> \<not> rx_known rx oti_common oti_scheme \<longrightarrow>
       (\<forall>rx'. rx_session_for ctx env rx oti_common oti_scheme = Inr (True, rx') \<longrightarrow> symbol_sound rx' frame))"

fun thread_sound :: "daemon_ctx \<Rightarrow> rx_session \<Rightarrow> daemon_read list \<Rightarrow> bool" where
  "thread_sound ctx rx [] = True"
| "thread_sound ctx rx ((n, frame, env) # rs) =
     (if n = 0 then thread_sound ctx rx rs
      else accepted_sound ctx rx (n, frame, env)
        \<and> (\<forall>out rx'. rx_frame ctx env rx frame (nat n) = Inr (out, rx') \<longrightarrow> thread_sound ctx rx' rs))"

definition same_oti :: "nanorq_params \<Rightarrow> nanorq_params \<Rightarrow> bool" where
  "same_oti p q \<longleftrightarrow> nanorq_oti_common p = nanorq_oti_common q \<and> nanorq_oti_scheme_specific p = nanorq_oti_scheme_specific q"

text \<open>The session, if there is one, is one of the senders'.\<close>

definition thread_inv :: "(nanorq_params \<times> bytes) set \<Rightarrow> rx_session \<Rightarrow> bool" where
  "thread_inv S rx \<longleftrightarrow> (rs_active rx \<longrightarrow> (\<exists>(p, f) \<in> S. serving p f rx))"

definition frame_outcome :: "(nanorq_params \<times> bytes) set \<Rightarrow> (string \<times> ioctx) option \<times> rx_session \<Rightarrow> bool" where
  "frame_outcome S x = (case x of (out, rx) \<Rightarrow> thread_inv S rx
     \<and> (case out of None \<Rightarrow> True | Some (path, io) \<Rightarrow> \<exists>(p, f) \<in> S. io_content io = f))"

lemma rx_for_ok:
  assumes S: "\<forall>(p, f) \<in> S. daemon_sender t p f" "\<forall>(p, f) \<in> S. \<forall>(q, g) \<in> S. same_oti p q \<longrightarrow> f = g"
    and pf: "(p, f) \<in> S" and inv: "thread_inv S rx"
  shows "\<exists>ok rx'. rx_session_for ctx env rx (nanorq_oti_common p) (nanorq_oti_scheme_specific p) = Inr (ok, rx')
    \<and> (if ok then serving p f rx' else \<not> rs_active rx')"
proof (cases "\<not> rs_active rx \<or> rs_common rx \<noteq> nanorq_oti_common p \<or> rs_scheme rx \<noteq> nanorq_oti_scheme_specific p")
  case True
  have "daemon_sender t p f" using S(1) pf by auto
  then obtain ok rx1 where st: "rx_session_start ctx env rx (nanorq_oti_common p) (nanorq_oti_scheme_specific p) = Inr (ok, rx1)"
    "if ok then serving p f rx1 else \<not> rs_active rx1" using rx_start_ok by blast
  have "serving p f rx1 \<Longrightarrow> serving p f (rx1\<lparr>rs_completed_last := False\<rparr>)" by (simp add: serving_def session_of_def)
  then show ?thesis using True st by (cases ok) (auto simp: rx_session_for_def)
next
  case False
  then obtain q g where q: "(q, g) \<in> S" "serving q g rx" using inv by (auto simp: thread_inv_def)
  then have oti: "same_oti p q" using False by (auto simp: serving_def session_of_def same_oti_def)
  have "daemon_sender t p f" "daemon_sender t q g" using S(1) pf q(1) by auto
  moreover have "f = g" using S(2) pf q(1) oti by auto
  ultimately have "p = q" using same_sender by (auto simp: daemon_sender_def)
  with \<open>f = g\<close> q(2) False show ?thesis by (auto simp: rx_session_for_def)
qed

lemma rx_frame_ok:
  assumes S: "\<forall>(p, f) \<in> S. daemon_sender t p f" "\<forall>(p, f) \<in> S. \<forall>(q, g) \<in> S. same_oti p q \<longrightarrow> f = g"
    and ctx: "d_frame_size ctx = HERMES_SIZE + CONFIG_BODY_SIZE + TAG_BODY_SIZE + t"
    and inv: "thread_inv S rx" and h: "heard t S (n, frame, env)" "0 < n"
    and s: "accepted_sound ctx rx (n, frame, env)"
  shows "yields (frame_outcome S) (rx_frame ctx env rx frame (nat n))"
proof -
  consider "nat n \<noteq> d_frame_size ctx" | "joint_frame_ok frame (d_frame_size ctx) = Inr False" "nat n = d_frame_size ctx"
    | p f sbn esi where "(p, f) \<in> S" "emitted_frame p f sbn esi frame" "nat n = d_frame_size ctx"
    using h by (auto simp: heard_def ctx)
  then show ?thesis
  proof cases
    case 3
    have snd: "daemon_sender t p f" using S(1) 3(1) by auto
    note fr = emitted_frame_parsed [OF snd 3(2)]
    obtain ok rx1 where sel: "rx_session_for ctx env rx (nanorq_oti_common p) (nanorq_oti_scheme_specific p) = Inr (ok, rx1)"
      "if ok then serving p f rx1 else \<not> rs_active rx1" using rx_for_ok [OF S 3(1) inv] by blast
    let ?skip = "rx_known rx (nanorq_oti_common p) (nanorq_oti_scheme_specific p)"
    have run: "rx_frame ctx env rx frame (nat n) = (if ?skip then Inr (None, rx) else if ok then rx_symbol rx1 frame else Inr (None, rx1))"
      using 3(3) fr(1-3) sel(1) by (simp add: rx_frame_def ctx Let_def)
    have out: "frame_outcome S x" if "reported f p x" for x
      using that 3(1) by (cases x) (auto simp: reported_def frame_outcome_def thread_inv_def split: option.splits)
    show ?thesis
    proof (cases "\<not> ?skip \<and> ok")
      case True
      then have sym: "serving p f rx1" "symbol_sound rx1 frame"
        using sel s fr(1-3) 3(3) by (auto simp: accepted_sound_def ctx)
      from yields_weaken [OF rx_symbol_ok [OF snd sym(1) 3(2) sym(2)] out] show ?thesis unfolding run using True by auto
    next
      case False
      then show ?thesis unfolding run using inv sel(2) by (auto simp: frame_outcome_def thread_inv_def)
    qed
  qed (use inv in \<open>simp_all add: rx_frame_def frame_outcome_def\<close>)
qed

lemma rx_thread_ok:
  assumes S: "\<forall>(p, f) \<in> S. daemon_sender t p f" "\<forall>(p, f) \<in> S. \<forall>(q, g) \<in> S. same_oti p q \<longrightarrow> f = g"
    and ctx: "d_frame_size ctx = HERMES_SIZE + CONFIG_BODY_SIZE + TAG_BODY_SIZE + t"
  shows "thread_inv S rx \<Longrightarrow> list_all (heard t S) reads \<Longrightarrow> thread_sound ctx rx reads \<Longrightarrow>
    yields (\<lambda>(outs, _). \<forall>(path, io) \<in> set outs. \<exists>(p, f) \<in> S. io_content io = f) (rx_thread ctx rx reads)"
proof (induction reads arbitrary: rx)
  case (Cons x reads)
  obtain n frame env where x: "x = (n, frame, env)" by (cases x) auto
  show ?case
  proof (cases "0 < n")
    case False
    then show ?thesis using Cons by (simp add: x)
  next
    case True
    have "yields (frame_outcome S) (rx_frame ctx env rx frame (nat n))"
      by (rule rx_frame_ok [OF S ctx Cons.prems(1)]) (use Cons.prems(2,3) True in \<open>auto simp: x\<close>)
    then have step: "yields (\<lambda>y. frame_outcome S y \<and> rx_frame ctx env rx frame (nat n) = Inr y) (rx_frame ctx env rx frame (nat n))"
      by (cases "rx_frame ctx env rx frame (nat n)") simp_all
    have "yields (\<lambda>(outs, _). \<forall>(path, io) \<in> set outs. \<exists>(p, f) \<in> S. io_content io = f) (case y of (out, rx) \<Rightarrow>
         rbind (rx_thread ctx rx reads) (\<lambda>(outs, rx). Inr ((case out of None \<Rightarrow> outs | Some x \<Rightarrow> x # outs), rx)))"
      if y: "frame_outcome S y \<and> rx_frame ctx env rx frame (nat n) = Inr y" for y
    proof -
      obtain out rx1 where yy: "y = (out, rx1)" by fastforce
      have i: "thread_inv S rx1" "thread_sound ctx rx1 reads" using y Cons.prems(3) True by (auto simp: yy x frame_outcome_def)
      have "yields (\<lambda>(outs, _). \<forall>(path, io) \<in> set outs. \<exists>(p, f) \<in> S. io_content io = f) (rx_thread ctx rx1 reads)"
        using Cons.IH [OF i(1) _ i(2)] Cons.prems(2) by simp
      then show ?thesis
        unfolding yy prod.case by (rule yields_rbind) (use y in \<open>auto simp: yy frame_outcome_def split: option.splits prod.splits\<close>)
    qed
    from yields_rbind [OF step this] show ?thesis using True by (simp add: x)
  qed
qed simp

end
