(* ===== verification/Daemon_Delivery.thy ===== *)
theory Daemon_Delivery
  imports Daemon_Rx
begin

section \<open>The daemon receives files\<close>

text \<open>
  What the receiving thread does in the long run: it never reports anything but a sender's file, and when the source symbols of
  a file arrive it reports that file, once. As for the receiver, the state of a session that gets
  source symbols only is described by the set \<open>R\<close> of those that have arrived.
\<close>

definition gathering :: "nanorq_params \<Rightarrow> bytes \<Rightarrow> rx_session \<Rightarrow> (nat \<times> nat) set \<Rightarrow> bool" where
  "gathering p f rx R \<longleftrightarrow> session_of p rx \<and> R \<subset> source_ids p
     \<and> (\<exists>rq io. rs_rq rx = Some rq \<and> rs_io rx = Some io \<and> dec_inv p MAX_ESI f rq io R)
     \<and> (\<forall>b < nanorq_blocks p. unat (rs_seen rx ! b) = card {e. (b, e) \<in> R})
     \<and> (\<forall>b < nanorq_blocks p. rs_decoded rx ! b \<longleftrightarrow> (\<forall>e < nanorq_block_symbols p b. (b, e) \<in> R))"

text \<open>The end of a pass.\<close>

lemma gather_close:
  assumes p: "rq_ok p" and f: "length f = oF (common p)" and c: "session_of p rx" and R: "R \<subseteq> source_ids p"
    and io: "rs_rq rx = Some rq" "rs_io rx = Some io" "dec_inv p MAX_ESI f rq io R"
    and cnt: "\<forall>b < nanorq_blocks p. unat (rs_seen rx ! b) = card {e. (b, e) \<in> R}"
    and dec: "\<forall>b < nanorq_blocks p. rs_decoded rx ! b \<longleftrightarrow> (\<forall>e < nanorq_block_symbols p b. (b, e) \<in> R)"
  shows "if R = source_ids p
    then \<exists>rx'. rx_close rx = Inr (Some (rs_path rx, io), rx') \<and> io_content io = f \<and> rx_known rx' (nanorq_oti_common p) (nanorq_oti_scheme_specific p)
    else rx_close rx = Inr (None, rx) \<and> gathering p f rx R"
proof -
  have len: "length (rs_decoded rx) = nanorq_blocks p" "rs_num_sbn rx = nanorq_blocks p" using c by (simp_all add: session_of_def)
  have "rx_session_is_complete rx = Inr (R = source_ids p)"
    using len dec by (simp add: rx_session_is_complete_def sources_complete [OF R] atLeast0LessThan Ball_def)
  moreover have "io_content io = f" if "R = source_ids p"
    using complete_file [OF p f io(3)] that unfolding sources_complete [OF R] by blast
  moreover have "gathering p f rx R" if "R \<noteq> source_ids p"
    using that c R io cnt dec by (auto simp: gathering_def)
  ultimately show ?thesis using io c by (simp add: rx_close_def rx_known_def session_of_def)
qed

lemma gather_symbol:
  assumes snd: "daemon_sender t p f" and g: "gathering p f rx R" and id: "(sbn, esi) \<in> source_ids p"
    and e: "emitted_frame p f sbn esi frame"
  shows "symbol_sound rx frame"
    "if insert (sbn, esi) R = source_ids p
     then \<exists>path io rx'. rx_symbol rx frame = Inr (Some (path, io), rx') \<and> io_content io = f
       \<and> rx_known rx' (nanorq_oti_common p) (nanorq_oti_scheme_specific p)
     else \<exists>rx'. rx_symbol rx frame = Inr (None, rx') \<and> gathering p f rx' (insert (sbn, esi) R)"
proof -
  let ?k = "nanorq_block_symbols p" and ?R = "insert (sbn, esi) R"
  have p: "rq_ok p" "length f = oF (common p)" using daemon_sender_ok [OF snd] by auto
  have m: "0 < MAX_ESI" "pKprime (rqP p) \<le> MAX_ESI" "MAX_ESI < 2 ^ 24" using max_esi_bounds [OF p(1)] by blast+
  have t: "oT (common p) = t" using snd by (simp add: daemon_sender_def)
  have b: "sbn < nanorq_blocks p" "esi < ?k sbn" using id by (auto simp: source_ids_def)
  note fr = emitted_frame_parsed [OF snd e]
  let ?d = "drop (1 + CONFIG_BODY_SIZE + TAG_BODY_SIZE) frame"
  from g obtain rq io where c: "session_of p rx" and RS: "R \<subset> source_ids p" and rq: "rs_rq rx = Some rq" "rs_io rx = Some io" "dec_inv p MAX_ESI f rq io R"
    and cnt: "\<forall>b < nanorq_blocks p. unat (rs_seen rx ! b) = card {e. (b, e) \<in> R}"
    and dec: "\<forall>b < nanorq_blocks p. rs_decoded rx ! b \<longleftrightarrow> (\<forall>e < ?k b. (b, e) \<in> R)"
    by (auto simp: gathering_def)
  have len: "length (rs_decoded rx) = nanorq_blocks p" "length (rs_seen rx) = nanorq_blocks p" using c by (simp_all add: session_of_def)
  have R': "?R \<subseteq> source_ids p" using RS id by auto
  have v: "symbol_valid p MAX_ESI f (sbn, esi, ?d)"
    using b fr(8,9) t e by (auto simp: symbol_valid_def emitted_def emitted_frame_def)
  obtain r rq1 io1 where a: "nanorq_decoder_add_symbol rq ?d (nanorq_tag (of_nat sbn) (of_nat esi)) io = Inr (r, rq1, io1)"
    "if (\<forall>g < ?k sbn. (sbn, g) \<in> R) \<or> (sbn, esi) \<in> R
     then r \<in> {NANORQ_SYM_IGN, NANORQ_SYM_DUP} \<and> dec_inv p MAX_ESI f rq1 io1 R
     else r = NANORQ_SYM_ADDED \<and> dec_inv p MAX_ESI f rq1 io1 ?R"
    using add_symbol_exact [OF p(1) m p(2) rq(3) v] by blast
  have pr1: "par rq1 = p" using a(2) by (auto simp: dec_inv_def split: if_splits)
  have run: "rx_symbol rx frame = rbind (if r = NANORQ_SYM_ADDED then rx_added rx rq1 io1 sbn
      else Inr (rx\<lparr>rs_rq := Some rq1, rs_io := Some io1\<rparr>)) rx_close"
    using rq(1,2) a(1) fr by (simp add: rx_symbol_def Let_def)
  have new: "(sbn, esi) \<notin> R" "dec_inv p MAX_ESI f rq1 io1 ?R" "unat (rs_seen rx ! sbn + 1) = card {e. (sbn, e) \<in> ?R}"
    if "r = NANORQ_SYM_ADDED"
  proof -
    show n: "(sbn, esi) \<notin> R" "dec_inv p MAX_ESI f rq1 io1 ?R" using a(2) that by (auto simp: sym_codes split: if_splits)
    have "{e. (sbn, e) \<in> ?R} = insert esi {e. (sbn, e) \<in> R}" by auto
    then have cards: "card {e. (sbn, e) \<in> ?R} = Suc (card {e. (sbn, e) \<in> R})"
      using collected_block(2) [of R p sbn] RS n by (simp add: card_insert_disjoint subset_iff psubset_eq)
    have "Suc (unat (rs_seen rx ! sbn)) < 2 ^ 32"
      using cnt b(1) cards collected_block(3) [OF R', of sbn] small_block_symbols [OF p(1), of sbn] by simp
    then show "unat (rs_seen rx ! sbn + 1) = card {e. (sbn, e) \<in> ?R}" using cnt b(1) cards by (simp add: unat_word_ariths)
  qed
  define full where "full \<longleftrightarrow> (\<forall>e < ?k sbn. (sbn, e) \<in> ?R)"
  have count: "?k sbn \<le> unat (rs_seen rx ! sbn + 1) \<longleftrightarrow> full" if "r = NANORQ_SYM_ADDED"
    unfolding new(3) [OF that] full_def by (rule collected_block(4) [OF R'])
  show "symbol_sound rx frame"
    unfolding symbol_sound_def Let_def fr(5-7)
  proof (intro allI impI)
    fix rq' io' ret rq2 io2
    assume h: "rs_rq rx = Some rq'" "rs_io rx = Some io'"
      "nanorq_decoder_add_symbol rq' ?d (nanorq_tag (of_nat sbn) (of_nat esi)) io' = Inr (ret, rq2, io2)"
      "ret = NANORQ_SYM_ADDED" "nanorq_block_symbols (par rq2) sbn \<le> unat (rs_seen rx ! sbn + 1)"
    then have same: "rq2 = rq1" "r = NANORQ_SYM_ADDED" using rq(1,2) a(1) by auto
    then have full using h(5) count pr1 by simp
    then show "repair_sound rq2 sbn"
      using repair_complete(1) [OF p(1) m(1,2) new(2) [OF same(2)]] unfolding full_def same(1) by blast
  qed
  show "if ?R = source_ids p
     then \<exists>path io rx'. rx_symbol rx frame = Inr (Some (path, io), rx') \<and> io_content io = f
       \<and> rx_known rx' (nanorq_oti_common p) (nanorq_oti_scheme_specific p)
     else \<exists>rx'. rx_symbol rx frame = Inr (None, rx') \<and> gathering p f rx' ?R"
  proof (cases "r = NANORQ_SYM_ADDED")
    case False
    then have same: "?R = R" and inv: "dec_inv p MAX_ESI f rq1 io1 R" using a(2) b by (auto split: if_splits)
    let ?rx = "rx\<lparr>rs_rq := Some rq1, rs_io := Some io1\<rparr>"
    have "session_of p ?rx" using c by (simp add: session_of_def)
    from gather_close [OF p this _ _ _ inv, of] RS cnt dec show ?thesis
      unfolding run same using False by (auto split: if_splits)
  next
    case True
    note n = new [OF True]
    let ?rx = "rx\<lparr>rs_rq := Some rq1, rs_io := Some io1, rs_seen := (rs_seen rx)[sbn := rs_seen rx ! sbn + 1]\<rparr>"
    have "\<exists>rq2. (full \<longrightarrow> nanorq_repair_block rq1 io1 sbn = Inr (True, rq2, io1)) \<and> (\<not> full \<longrightarrow> rq2 = rq1) \<and> dec_inv p MAX_ESI f rq2 io1 ?R"
    proof (cases full)
      case True
      from repair_complete(2) [OF p(1) m(1,2) n(2) True [unfolded full_def]] show ?thesis using True by simp
    next
      case False
      with n(2) show ?thesis by simp
    qed
    then obtain rq2 where rq2: "full \<longrightarrow> nanorq_repair_block rq1 io1 sbn = Inr (True, rq2, io1)" "\<not> full \<longrightarrow> rq2 = rq1"
      "dec_inv p MAX_ESI f rq2 io1 ?R" by (elim exE conjE)
    let ?rx2 = "?rx\<lparr>rs_rq := Some rq2, rs_decoded := (if full then (rs_decoded rx)[sbn := True] else rs_decoded rx)\<rparr>"
    have nd: "\<not> rs_decoded rx ! sbn" using dec b n(1) by auto
    have add: "rx_added rx rq1 io1 sbn = Inr ?rx2"
      unfolding rx_added_def Let_def using len b(1) nd count [OF True] rq2(1,2) by (cases full) (simp_all add: pr1)
    have "session_of p ?rx2" using c by (simp add: session_of_def)
    moreover have "\<forall>b < nanorq_blocks p. unat (rs_seen ?rx2 ! b) = card {e. (b, e) \<in> ?R}"
    proof (intro allI impI)
      fix b assume b': "b < nanorq_blocks p"
      show "unat (rs_seen ?rx2 ! b) = card {e. (b, e) \<in> ?R}"
      proof (cases "b = sbn")
        case True
        then show ?thesis using n(3) len b by simp
      next
        case False
        then have "{e. (b, e) \<in> ?R} = {e. (b, e) \<in> R}" "rs_seen ?rx2 ! b = rs_seen rx ! b" by simp_all
        then show ?thesis using cnt b' by (simp only:)
      qed
    qed
    moreover have "\<forall>b < nanorq_blocks p. rs_decoded ?rx2 ! b \<longleftrightarrow> (\<forall>e < ?k b. (b, e) \<in> ?R)"
    proof (intro allI impI)
      fix b assume b': "b < nanorq_blocks p"
      show "rs_decoded ?rx2 ! b \<longleftrightarrow> (\<forall>e < ?k b. (b, e) \<in> ?R)"
      proof (cases "b = sbn")
        case True
        have "rs_decoded ?rx2 ! sbn \<longleftrightarrow> full" using nd b len by (cases full) simp_all
        then show ?thesis unfolding True full_def .
      next
        case False
        then have "rs_decoded ?rx2 ! b = rs_decoded rx ! b" by simp
        then show ?thesis using dec b' False by simp
      qed
    qed
    ultimately have "if ?R = source_ids p
      then \<exists>rx'. rx_close ?rx2 = Inr (Some (rs_path ?rx2, io1), rx') \<and> io_content io1 = f \<and> rx_known rx' (nanorq_oti_common p) (nanorq_oti_scheme_specific p)
      else rx_close ?rx2 = Inr (None, ?rx2) \<and> gathering p f ?rx2 ?R"
      by (intro gather_close [OF p _ R' _ _ rq2(3)]) simp_all
    then show ?thesis unfolding run add using True by (auto split: if_splits)
  qed
qed

subsection \<open>From the first frame\<close>

text \<open>Nothing the thread waits for is lost: frames it rejects, and source symbols. A session can be started.\<close>

definition heard_source :: "nat \<Rightarrow> nanorq_params \<Rightarrow> bytes \<Rightarrow> daemon_read \<Rightarrow> bool" where
  "heard_source t p f x = (case x of (n, frame, env) \<Rightarrow>
     n = 0 \<or> 0 < n \<and> (nat n \<noteq> HERMES_SIZE + CONFIG_BODY_SIZE + TAG_BODY_SIZE + t
       \<or> joint_frame_ok frame (HERMES_SIZE + CONFIG_BODY_SIZE + TAG_BODY_SIZE + t) = Inr False
       \<or> (\<exists>(b, e) \<in> source_ids p. emitted_frame p f b e frame)))"

definition env_good :: "daemon_ctx \<Rightarrow> daemon_read \<Rightarrow> bool" where
  "env_good ctx x = (case x of (n, frame, env) \<Rightarrow> fst (build_output_path (d_rx_dir ctx) PATH_MAX (env_now env) (env_exists env))
     \<and> (\<forall>path. env_disk env path \<noteq> None))"

definition borne :: "nat \<Rightarrow> daemon_read \<Rightarrow> (nat \<times> nat) set" where
  "borne t x = (case x of (n, frame, env) \<Rightarrow>
     if 0 < n \<and> nat n = HERMES_SIZE + CONFIG_BODY_SIZE + TAG_BODY_SIZE + t
       \<and> joint_frame_ok frame (HERMES_SIZE + CONFIG_BODY_SIZE + TAG_BODY_SIZE + t) = Inr True
     then {(unat (frame_sbn frame (1 + CONFIG_BODY_SIZE)), unat (frame_esi frame (1 + CONFIG_BODY_SIZE)))} else {})"

text \<open>Waiting for the first frame, or in a session.\<close>

definition waiting :: "nanorq_params \<Rightarrow> bytes \<Rightarrow> rx_session \<Rightarrow> (nat \<times> nat) set \<Rightarrow> bool" where
  "waiting p f rx R \<longleftrightarrow> gathering p f rx R \<or> \<not> rs_active rx \<and> \<not> rs_completed_last rx \<and> R = {}"

lemma waiting_session:
  assumes snd: "daemon_sender t p f" and ne: "source_ids p \<noteq> {}" and blocks: "\<forall>b < nanorq_blocks p. 0 < nanorq_block_symbols p b"
    and w: "waiting p f rx R" and env: "env_good ctx (n, frame, env)"
  shows "\<not> rx_known rx (nanorq_oti_common p) (nanorq_oti_scheme_specific p)"
    "\<exists>rx'. rx_session_for ctx env rx (nanorq_oti_common p) (nanorq_oti_scheme_specific p) = Inr (True, rx') \<and> gathering p f rx' R"
proof -
  show "\<not> rx_known rx (nanorq_oti_common p) (nanorq_oti_scheme_specific p)"
    using w by (auto simp: rx_known_def waiting_def gathering_def session_of_def)
  show "\<exists>rx'. rx_session_for ctx env rx (nanorq_oti_common p) (nanorq_oti_scheme_specific p) = Inr (True, rx') \<and> gathering p f rx' R"
  proof (cases "gathering p f rx R")
    case True
    then have "rs_active rx" "rs_common rx = nanorq_oti_common p" "rs_scheme rx = nanorq_oti_scheme_specific p"
      by (auto simp: gathering_def session_of_def)
    then have "rx_session_for ctx env rx (nanorq_oti_common p) (nanorq_oti_scheme_specific p) = Inr (True, rx)"
      by (simp add: rx_session_for_def)
    then show ?thesis using True by blast
  next
    case False
    then have na: "\<not> rs_active rx" "R = {}" using w by (auto simp: waiting_def)
    have p: "rq_ok p" "length f = oF (common p)" using daemon_sender_ok [OF snd] by auto
    have new: "nanorq_encoder_new (length f) t 1 = Some (Inr (Some p))" "t < 65536" "length f < 2 ^ 24"
      using snd by (auto simp: daemon_sender_def)
    have dec: "nanorq_decoder_new (nanorq_oti_common p) (nanorq_oti_scheme_specific p) = Inr (Some (p, 2 * pKprime (rqP p)))"
      using configuration_parsed [OF new, of "[]" 0] by auto
    have set: "snd (nanorq_set_max_esi (nanorq_init p (2 * pKprime (rqP p))) MAX_ESI) = nanorq_init p MAX_ESI"
      using max_esi_bounds [OF p(1)] by (simp add: nanorq_set_max_esi_def nanorq_init_def)
    obtain path where path: "build_output_path (d_rx_dir ctx) PATH_MAX (env_now env) (env_exists env) = (True, path)"
      using env by (cases "build_output_path (d_rx_dir ctx) PATH_MAX (env_now env) (env_exists env)") (simp add: env_good_def)
    obtain bs where bs: "env_disk env path = Some bs" using env by (auto simp: env_good_def)
    have "fed p f (nanorq_init p MAX_ESI) (File \<lparr>f_bytes = [], f_pos = 0, f_writable = True\<rparr>) {}" by (rule fed_init) simp_all
    then have fed: "dec_inv p MAX_ESI f (nanorq_init p MAX_ESI) (File \<lparr>f_bytes = [], f_pos = 0, f_writable = True\<rparr>) {}" by (simp add: fed_def)
    obtain rx1 where rx1: "rx_session_start ctx env rx (nanorq_oti_common p) (nanorq_oti_scheme_specific p) = Inr (True, rx1)"
      and g: "gathering p f rx1 {}"
      using path bs fed ne blocks
      by (auto simp: rx_session_start_def Let_def ioctx_from_file_def dec set gathering_def session_of_def)
    from g have "gathering p f (rx1\<lparr>rs_completed_last := False\<rparr>) {}" by (simp add: gathering_def session_of_def)
    then show ?thesis using rx1 na by (simp add: rx_session_for_def)
  qed
qed

text \<open>Nothing, a rejected frame, or any symbol of this sender.\<close>

definition heard_own :: "nat \<Rightarrow> nanorq_params \<Rightarrow> bytes \<Rightarrow> daemon_read \<Rightarrow> bool" where
  "heard_own t p f x \<longleftrightarrow> 0 \<le> fst x \<and> heard t {(p, f)} x"

lemma heard_source_own: "heard_source t p f x \<Longrightarrow> heard_own t p f x"
  by (auto simp: heard_source_def heard_own_def heard_def split: prod.splits)

lemma known_thread:
  assumes snd: "daemon_sender t p f" and ctx: "d_frame_size ctx = HERMES_SIZE + CONFIG_BODY_SIZE + TAG_BODY_SIZE + t"
    and k: "rx_known rx (nanorq_oti_common p) (nanorq_oti_scheme_specific p)"
  shows "list_all (heard_own t p f) reads \<Longrightarrow> rx_thread ctx rx reads = Inr ([], rx) \<and> thread_sound ctx rx reads"
proof (induction reads)
  case (Cons x reads)
  obtain n frame env where x: "x = (n, frame, env)" by (cases x) auto
  have ih: "rx_thread ctx rx reads = Inr ([], rx)" "thread_sound ctx rx reads" using Cons by simp_all
  consider "n = 0" | "0 < n" "nat n \<noteq> d_frame_size ctx"
    | "0 < n" "nat n = d_frame_size ctx" "joint_frame_ok frame (d_frame_size ctx) = Inr False"
    | b e where "0 < n" "nat n = d_frame_size ctx" "emitted_frame p f b e frame"
    using Cons.prems by (cases "n = 0"; cases "nat n = d_frame_size ctx") (auto simp: heard_own_def heard_def x ctx)
  then show ?case
  proof cases
    case 2
    then have "rx_frame ctx env rx frame (nat n) = Inr (None, rx)" by (simp add: rx_frame_def)
    then show ?thesis using ih 2 by (simp add: x accepted_sound_def)
  next
    case 3
    then have "rx_frame ctx env rx frame (nat n) = Inr (None, rx)" by (simp add: rx_frame_def)
    then show ?thesis using ih 3(1,3) by (simp add: x accepted_sound_def)
  next
    case 4
    note fr = emitted_frame_parsed [OF snd 4(3)]
    have "rx_frame ctx env rx frame (nat n) = Inr (None, rx)" using fr(1-3) 4(2) k by (simp add: rx_frame_def ctx)
    then show ?thesis using ih 4(1) fr(2,3) k by (simp add: x accepted_sound_def)
  qed (use ih in \<open>simp add: x\<close>)
qed simp

lemma gather_thread:
  assumes snd: "daemon_sender t p f" and ne: "source_ids p \<noteq> {}" and blocks: "\<forall>b < nanorq_blocks p. 0 < nanorq_block_symbols p b"
    and ctx: "d_frame_size ctx = HERMES_SIZE + CONFIG_BODY_SIZE + TAG_BODY_SIZE + t"
  shows "waiting p f rx R \<Longrightarrow> list_all (heard_source t p f) reads \<Longrightarrow> list_all (env_good ctx) reads \<Longrightarrow>
    source_ids p \<subseteq> R \<union> (\<Union>x \<in> set reads. borne t x) \<Longrightarrow>
    thread_sound ctx rx reads \<and> (\<exists>path io rx'. rx_thread ctx rx reads = Inr ([(path, io)], rx') \<and> io_content io = f
      \<and> rx_known rx' (nanorq_oti_common p) (nanorq_oti_scheme_specific p))"
proof (induction reads arbitrary: rx R)
  case Nil
  then show ?case using ne by (auto simp: waiting_def gathering_def)
next
  case (Cons x reads)
  obtain n frame env where x: "x = (n, frame, env)" by (cases x) auto
  have reads: "list_all (heard_source t p f) reads" "list_all (env_good ctx) reads" using Cons.prems by simp_all
  consider "n = 0" | "0 < n" "nat n \<noteq> d_frame_size ctx"
    | "0 < n" "nat n = d_frame_size ctx" "joint_frame_ok frame (d_frame_size ctx) = Inr False"
    | b e where "0 < n" "nat n = d_frame_size ctx" "(b, e) \<in> source_ids p" "emitted_frame p f b e frame"
    using Cons.prems(2) by (auto simp: heard_source_def x ctx)
  then show ?case
  proof cases
    case 1
    then have "borne t x = {}" by (simp add: borne_def x)
    then show ?thesis using Cons.IH [OF Cons.prems(1) reads] Cons.prems(4) 1 by (simp add: x)
  next
    case 2
    then have "borne t x = {}" "rx_frame ctx env rx frame (nat n) = Inr (None, rx)" by (simp_all add: borne_def x rx_frame_def ctx)
    then show ?thesis using Cons.IH [OF Cons.prems(1) reads] Cons.prems(4) 2 by (auto simp: x accepted_sound_def)
  next
    case 3
    then have "borne t x = {}" "rx_frame ctx env rx frame (nat n) = Inr (None, rx)" by (simp_all add: borne_def x rx_frame_def ctx)
    then show ?thesis using Cons.IH [OF Cons.prems(1) reads] Cons.prems(4) 3 by (auto simp: x accepted_sound_def)
  next
    case 4
    note fr = emitted_frame_parsed [OF snd 4(4)]
    have "e \<le> MAX_ESI" using 4(4) by (simp add: emitted_frame_def)
    then have es: "unat (of_nat e :: u32) = e" by (intro unat_of_nat_small) (simp add: MAX_ESI_def)
    have bo: "borne t x = {(b, e)}" using fr(1,5-7) 4(1,2) es by (simp add: borne_def x ctx)
    have good: "env_good ctx (n, frame, env)" using Cons.prems(3) by (simp add: x)
    note ws = waiting_session [OF snd ne blocks Cons.prems(1) good]
    from ws(2) obtain rx1 where rx1: "rx_session_for ctx env rx (nanorq_oti_common p) (nanorq_oti_scheme_specific p) = Inr (True, rx1)"
      "gathering p f rx1 R" by blast
    note gs = gather_symbol [OF snd rx1(2) 4(3,4)]
    have acc: "accepted_sound ctx rx (n, frame, env)" using gs(1) rx1(1) fr(2,3) by (simp add: accepted_sound_def)
    have run: "rx_frame ctx env rx frame (nat n) = rx_symbol rx1 frame"
      using fr(1-3) 4(2) ws(1) rx1(1) by (simp add: rx_frame_def ctx)
    show ?thesis
    proof (cases "insert (b, e) R = source_ids p")
      case True
      then obtain path io rx2 where r: "rx_symbol rx1 frame = Inr (Some (path, io), rx2)" "io_content io = f"
        "rx_known rx2 (nanorq_oti_common p) (nanorq_oti_scheme_specific p)" using gs(2) by auto
      have "list_all (heard_own t p f) reads" using reads(1) heard_source_own by (auto simp: list_all_iff)
      from known_thread [OF snd ctx r(3) this] show ?thesis using 4(1) acc run r by (simp add: x)
    next
      case False
      then obtain rx2 where r: "rx_symbol rx1 frame = Inr (None, rx2)" "gathering p f rx2 (insert (b, e) R)" using gs(2) by auto
      have "source_ids p \<subseteq> insert (b, e) R \<union> (\<Union>x \<in> set reads. borne t x)" using Cons.prems(4) bo by auto
      with Cons.IH [OF _ reads this] r(2) have
        "thread_sound ctx rx2 reads \<and> (\<exists>path io rx'. rx_thread ctx rx2 reads = Inr ([(path, io)], rx') \<and> io_content io = f
      \<and> rx_known rx' (nanorq_oti_common p) (nanorq_oti_scheme_specific p))"
        by (simp add: waiting_def)
      then show ?thesis using 4(1) acc run r(1) by (auto simp: x)
    qed
  qed
qed

lemma daemon_sender_blocks:
  assumes "daemon_sender t p f" and "2 \<le> t"
  shows "source_ids p \<noteq> {}" "\<forall>b < nanorq_blocks p. 0 < nanorq_block_symbols p b"
proof -
  have new: "nanorq_encoder_new (length f) t 1 = Some (Inr (Some p))" "length f < 2 ^ 24" "t < 65536"
    using assms(1) by (auto simp: daemon_sender_def)
  have "div_ceil (length f) t \<le> 256 * K_max"
  proof -
    have "length f \<le> 8388608 * t" using new(2) assms(2) by simp
    then show ?thesis using assms(2) by (simp add: div_ceil_le_iff K_max_def)
  qed
  then show b: "\<forall>b < nanorq_blocks p. 0 < nanorq_block_symbols p b"
    using encoder_blocks_bound(2) [OF new(1) _ new(3), of 256] assms(2) by auto
  have p: "rq_ok p" using daemon_sender_ok [OF assms(1)] by simp
  have "0 < nanorq_blocks p" using rq_ok_symbols(4) [OF p] p by (simp add: rq_ok_def)
  with b have "(0, 0) \<in> source_ids p" by (simp add: source_ids_def)
  then show "source_ids p \<noteq> {}" by blast
qed

subsection \<open>What the thread reports\<close>

lemma daemon_mode_sizes:
  assumes "daemon_mode tx_dir rx_dir mode = Some ctx"
  shows "d_frame_size ctx = HERMES_SIZE + CONFIG_BODY_SIZE + TAG_BODY_SIZE + d_symbol_size ctx" "2 \<le> d_symbol_size ctx" "d_symbol_size ctx < 65536"
proof -
  have "mode \<in> {0, 1, 2, 3, 4, 5, 6}" using assms by (auto simp: daemon_mode_def HERMES_MODE_MAX_def split: if_splits)
  then have "d_frame_size ctx = HERMES_SIZE + CONFIG_BODY_SIZE + TAG_BODY_SIZE + d_symbol_size ctx \<and> 2 \<le> d_symbol_size ctx \<and> d_symbol_size ctx < 65536"
    using assms by (auto simp: daemon_mode_def hermes_frame_size_def HERMES_MODE_MAX_def packet_sizes)
  then show "d_frame_size ctx = HERMES_SIZE + CONFIG_BODY_SIZE + TAG_BODY_SIZE + d_symbol_size ctx" "2 \<le> d_symbol_size ctx" "d_symbol_size ctx < 65536"
    by blast+
qed

lemma daemon_sender_new:
  assumes "nanorq_encoder_new (length f) t 1 = Some (Inr (Some p))" and "length f \<le> 16777215" and "2 \<le> t" and "t < 65536"
  shows "daemon_sender t p f"
proof -
  have "div_ceil (length f) t \<le> 256 * K_max"
  proof -
    have "length f \<le> 8388608 * t" using assms(2,3) by simp
    then show ?thesis using assms(3) by (simp add: div_ceil_le_iff K_max_def)
  qed
  then have "oT (common p) = t" using encoder_blocks_bound(3) [OF assms(1) _ assms(4), of 256] assms(3) by simp
  then show ?thesis using assms by (simp add: daemon_sender_def)
qed


lemma daemon_receives:
  assumes mode: "daemon_mode tx_dir rx_dir mode = Some ctx" and t: "t = d_symbol_size ctx"
    and new: "nanorq_encoder_new (length f) t 1 = Some (Inr (Some p))" "length f \<le> 16777215"
    and reads: "list_all (heard_source t p f) reads" "list_all (env_good ctx) reads"
    and all: "\<forall>(b, e) \<in> source_ids p. \<exists>(n, frame, env) \<in> set reads. 0 < n \<and> nat n = d_frame_size ctx \<and> emitted_frame p f b e frame"
  shows "thread_sound ctx rx_session_zero reads
    \<and> (\<exists>path io rx'. rx_thread ctx rx_session_zero reads = Inr ([(path, io)], rx') \<and> io_content io = f
      \<and> rx_known rx' (nanorq_oti_common p) (nanorq_oti_scheme_specific p))"
proof -
  note sz = daemon_mode_sizes [OF mode, folded t]
  have snd: "daemon_sender t p f" using daemon_sender_new [OF new sz(2,3)] .
  have w: "waiting p f rx_session_zero {}" by (simp add: waiting_def rx_session_zero_def)
  have "source_ids p \<subseteq> {} \<union> (\<Union>x \<in> set reads. borne t x)"
  proof
    fix x assume x: "x \<in> source_ids p"
    obtain b e where be: "x = (b, e)" by fastforce
    from all x obtain n frame env where r: "(n, frame, env) \<in> set reads" "0 < n" "nat n = d_frame_size ctx" "emitted_frame p f b e frame"
      by (auto simp: be)
    have "e \<le> MAX_ESI" using r(4) by (simp add: emitted_frame_def)
    then have "unat (of_nat e :: u32) = e" by (intro unat_of_nat_small) (simp add: MAX_ESI_def)
    then have "x \<in> borne t (n, frame, env)" using emitted_frame_parsed [OF snd r(4)] r(2,3) sz(1) by (simp add: borne_def be)
    with r(1) show "x \<in> {} \<union> (\<Union>x \<in> set reads. borne t x)" by blast
  qed
  from gather_thread [OF snd daemon_sender_blocks [OF snd sz(2)] sz(1) w reads this] show ?thesis .
qed


text \<open>The frames of all source symbols of a file.\<close>

definition source_reads :: "daemon_ctx \<Rightarrow> rx_env \<Rightarrow> nanorq_params \<Rightarrow> bytes \<Rightarrow> daemon_read list" where
  "source_reads ctx env p f = map (\<lambda>(b, e, d). (int (d_frame_size ctx), joint_frame (tl (configuration_packet p)) (of_nat b) (of_nat e) d, env)) (all_symbols p f)"

lemma source_frame_emitted:
  assumes "rq_ok p" and "(b, e) \<in> source_ids p" and "d = file_symbol p f b e"
  shows "emitted_frame p f b e (joint_frame (tl (configuration_packet p)) (of_nat b) (of_nat e) d)"
proof -
  have b: "b < nanorq_blocks p" "e < nanorq_block_symbols p b" using assms(2) by (auto simp: source_ids_def)
  moreover have "e \<le> MAX_ESI" using b(2) small_block_symbols [OF assms(1), of b] by (simp add: MAX_ESI_def)
  moreover have "emitted p f b e d" using b assms(3) by (simp add: emitted_def)
  ultimately show ?thesis unfolding emitted_frame_def by (intro conjI exI [of _ d] exI [of _ "[]"]) simp_all
qed

lemma in_source_reads:
  assumes "x \<in> set (source_reads ctx env p f)"
  obtains b e where "(b, e) \<in> source_ids p"
    "x = (int (d_frame_size ctx), joint_frame (tl (configuration_packet p)) (of_nat b) (of_nat e) (file_symbol p f b e), env)"
  using assms by (auto simp: source_reads_def all_symbols_set source_ids_def)

lemma source_reads_heard:
  assumes p: "rq_ok p" and ctx: "0 < d_frame_size ctx"
  shows "list_all (heard_source t p f) (source_reads ctx env p f)"
  unfolding list_all_iff
proof
  fix x assume "x \<in> set (source_reads ctx env p f)"
  then obtain b e where x: "(b, e) \<in> source_ids p"
    "x = (int (d_frame_size ctx), joint_frame (tl (configuration_packet p)) (of_nat b) (of_nat e) (file_symbol p f b e), env)"
    by (rule in_source_reads)
  show "heard_source t p f x" using source_frame_emitted [OF p x(1) refl, of f] x(1) ctx unfolding heard_source_def x(2) by auto
qed

lemma source_reads_env:
  assumes "fst (build_output_path (d_rx_dir ctx) PATH_MAX (env_now env) (env_exists env))" and "\<And>path. env_disk env path \<noteq> None"
  shows "list_all (env_good ctx) (source_reads ctx env p f)"
  using assms by (auto simp: list_all_iff env_good_def elim!: in_source_reads)

lemma source_reads_all:
  assumes p: "rq_ok p" and ctx: "0 < d_frame_size ctx"
  shows "\<forall>(b, e) \<in> source_ids p. \<exists>(n, frame, env) \<in> set (source_reads ctx env p f). 0 < n \<and> nat n = d_frame_size ctx \<and> emitted_frame p f b e frame"
proof clarify
  fix b e assume be: "(b, e) \<in> source_ids p"
  let ?x = "(int (d_frame_size ctx), joint_frame (tl (configuration_packet p)) (of_nat b) (of_nat e) (file_symbol p f b e), env)"
  have "(b, e, file_symbol p f b e) \<in> set (all_symbols p f)" using be by (simp add: all_symbols_set source_ids_def)
  from imageI [OF this, of "\<lambda>(b, e, d). (int (d_frame_size ctx), joint_frame (tl (configuration_packet p)) (of_nat b) (of_nat e) d, env)"]
  have "?x \<in> set (source_reads ctx env p f)" by (simp add: source_reads_def)
  then show "\<exists>(n, frame, env) \<in> set (source_reads ctx env p f). 0 < n \<and> nat n = d_frame_size ctx \<and> emitted_frame p f b e frame"
    using source_frame_emitted [OF p be refl, of f] ctx by (intro bexI [of _ ?x]) auto
qed

text \<open>A daemon in mode 1, and a file system with room.\<close>

definition sample_ctx :: daemon_ctx where
  "sample_ctx = \<lparr>d_frame_size = 126, d_symbol_size = 114, d_rx_dir = ''rx'', d_tx_dir = ''tx''\<rparr>"

definition sample_env :: rx_env where
  "sample_env = \<lparr>env_now = \<lparr>tm_year = 126, tm_mon = 0, tm_mday = 31, tm_hour = 12, tm_min = 5, tm_sec = 9\<rparr>,
     env_exists = (\<lambda>_. False), env_disk = (\<lambda>_. Some [])\<rparr>"

lemma sample_daemon:
  "daemon_mode ''tx'' ''rx'' 1 = Some sample_ctx" "0 < d_frame_size sample_ctx" "d_symbol_size sample_ctx = 114"
  "fst (build_output_path (d_rx_dir sample_ctx) PATH_MAX (env_now sample_env) (env_exists sample_env))" "env_disk sample_env path \<noteq> None"
proof -
  show "daemon_mode ''tx'' ''rx'' 1 = Some sample_ctx"
    by (simp add: daemon_mode_def HERMES_MODE_MAX_def hermes_frame_size_def packet_sizes sample_ctx_def)
  have "[0..<1000] = 0 # [Suc 0..<1000]" by (rule upt_conv_Cons) simp
  then have "find (\<lambda>i. \<not> env_exists sample_env (q i)) [0..<1000] = Some 0" for q
    by (simp only: find.simps sample_env_def rx_env.simps not_False_eq_True if_True)
  then show "fst (build_output_path (d_rx_dir sample_ctx) PATH_MAX (env_now sample_env) (env_exists sample_env))"
    by (simp only: build_output_path_def Let_def option.case fst_conv)
qed (simp_all add: sample_ctx_def sample_env_def)

lemma sample_sender:
  obtains p where "nanorq_encoder_new 1000 114 1 = Some (Inr (Some p))" "rq_ok p"
proof -
  obtain p where p: "nanorq_encoder_new 1000 114 1 = Some (Inr (Some p))" "common p = \<lparr>oF = 1000, oT = 114, oAl = 1\<rparr>"
    using encoder_new_exists [of 1000 114] by (auto simp: NANORQ_MAX_TRANSFER_def Z_max_def K_max_def div_ceil_def)
  with that show thesis using encoder_rq_ok [of 1000 114 0 0 1 p] by (simp add: nanorq_encoder_new_def)
qed



subsection \<open>Files of one length\<close>

text \<open>C38: The configuration does not identify a file: it is the same for all files of one length. When a sender
  replaces its file by another of the same length before the receiver has finished, the receiving thread goes on
  with the same session, and reports a file made of symbols of both, though every frame was sent and none was
  damaged. Here \<open>h\<close> is any such mixture of the files \<open>f\<close> and \<open>g\<close>.\<close>

theorem files_of_one_length_mix:
  fixes env :: rx_env
  assumes "daemon_mode tx_dir rx_dir mode = Some ctx" and "t = d_symbol_size ctx"
    and "nanorq_encoder_new (length f) t 1 = Some (Inr (Some p))" and "length f \<le> 16777215" and "length g = length f" and "length h = length f"
    and "\<forall>(b, e) \<in> source_ids p. file_symbol p h b e \<in> {file_symbol p f b e, file_symbol p g b e}"
    and "fst (build_output_path (d_rx_dir ctx) PATH_MAX (env_now env) (env_exists env))" and "\<And>path. env_disk env path \<noteq> None"
  shows "\<exists>reads path io rx. list_all (heard t {(p, f), (p, g)}) reads
    \<and> rx_thread ctx rx_session_zero reads = Inr ([(path, io)], rx) \<and> io_content io = h"
proof -
  note sz = daemon_mode_sizes [OF assms(1), folded assms(2)]
  have snd: "daemon_sender t p f" using daemon_sender_new [OF assms(3,4) sz(2,3)] .
  then have p: "rq_ok p" using daemon_sender_ok by blast
  have fs: "0 < d_frame_size ctx" using sz(1) by (simp add: packet_sizes)
  let ?reads = "source_reads ctx env p h"
  note src = source_reads_heard [OF p fs, of t h env] source_reads_env [OF assms(8,9), of p h] source_reads_all [OF p fs, of env h]
  have "list_all (heard t {(p, f), (p, g)}) ?reads"
    unfolding list_all_iff
  proof
    fix x assume "x \<in> set ?reads"
    then obtain b e where x: "(b, e) \<in> source_ids p"
      "x = (int (d_frame_size ctx), joint_frame (tl (configuration_packet p)) (of_nat b) (of_nat e) (file_symbol p h b e), env)"
      by (rule in_source_reads)
    then have "emitted_frame p f b e (fst (snd x)) \<or> emitted_frame p g b e (fst (snd x))"
      using assms(7) source_frame_emitted [OF p x(1)] by fastforce
    then show "heard t {(p, f), (p, g)} x" by (auto simp: heard_def x(2))
  qed
  moreover have "nanorq_encoder_new (length h) t 1 = Some (Inr (Some p))" "length h \<le> 16777215" using assms(3,4,6) by simp_all
  ultimately show ?thesis using daemon_receives [OF assms(1,2) _ _ src] by blast
qed

lemma files_of_one_length_mix_witness:
  "\<exists>p reads path io rx. nanorq_encoder_new 1000 114 1 = Some (Inr (Some p))
    \<and> list_all (heard 114 {(p, replicate 1000 7), (p, replicate 1000 8)}) reads
    \<and> rx_thread sample_ctx rx_session_zero reads = Inr ([(path, io)], rx) \<and> io_content io = replicate 114 7 @ replicate 886 8"
proof -
  obtain p where p: "nanorq_encoder_new 1000 114 1 = Some (Inr (Some p))" "rq_ok p" by (rule sample_sender)
  let ?f = "replicate 1000 (7 :: 8 word)" and ?g = "replicate 1000 (8 :: 8 word)" and ?h = "replicate 114 7 @ replicate 886 (8 :: 8 word)"
  have "daemon_sender 114 p ?f" by (rule daemon_sender_new) (use p(1) in simp_all)
  then have c: "oT (common p) = 114" "oF (common p) = 1000" using daemon_sender_ok [of 114 p ?f] by (simp_all add: daemon_sender_def)
  have "file_symbol p ?h b e \<in> {file_symbol p ?f b e, file_symbol p ?g b e}" for b e
  proof -
    let ?n = "part_start (src_part p) b + e"
    have off: "sym_off p b e = ?n * 114" by (simp add: sym_off_def c(1))
    have len: "sym_len p b e \<le> 114" "sym_len p b e \<le> 1000 - sym_off p b e" by (simp_all add: sym_len_def c)
    show ?thesis
    proof (cases ?n)
      case 0
      then have "chunk ?h (sym_off p b e) (sym_len p b e) = chunk ?f (sym_off p b e) (sym_len p b e)"
        unfolding off using len by (simp add: chunk_def min_def)
      then show ?thesis by (simp add: file_symbol_def)
    next
      case (Suc k)
      then have "chunk ?h (sym_off p b e) (sym_len p b e) = chunk ?g (sym_off p b e) (sym_len p b e)"
        unfolding off using len by (simp add: chunk_def)
      then show ?thesis by (simp add: file_symbol_def)
    qed
  qed
  then have mix: "\<forall>(b, e) \<in> source_ids p. file_symbol p ?h b e \<in> {file_symbol p ?f b e, file_symbol p ?g b e}" by blast
  have "\<exists>reads path io rx. list_all (heard 114 {(p, ?f), (p, ?g)}) reads
    \<and> rx_thread sample_ctx rx_session_zero reads = Inr ([(path, io)], rx) \<and> io_content io = ?h"
    by (rule files_of_one_length_mix [OF sample_daemon(1) sample_daemon(3) [symmetric] _ _ _ _ mix sample_daemon(4,5)]) (use p(1) in simp_all)
  with p(1) show ?thesis by blast
qed

end
