(* ===== verification/Daemon_Tx.thy ===== *)
theory Daemon_Tx
  imports Daemon_Rx Turns
begin

section \<open>The daemon's sending thread (daemon.c)\<close>

text \<open>
  The thread opens the first file of its queue directory and sends a frame in every pass, the blocks in turn, until
  the file is removed or changed or its frame budget is used up. \<open>tx_pass\<close> is one pass of the loop, in a state
  of the system that does not change during the pass; waiting is left out. The main fact is which
  frame is the \<open>i\<close>-th.
\<close>

record tx_session =
  ts_active :: bool
  ts_path :: string
  ts_mtime :: int
  ts_limit :: int
  ts_sent :: nat
  ts_next :: nat
  ts_body :: bytes
  ts_io :: "ioctx option"
  ts_rq :: "nanorq option"
  ts_esi :: "nat list"
  ts_num :: nat

definition tx_session_zero :: tx_session where
  "tx_session_zero = \<lparr>ts_active = False, ts_path = [], ts_mtime = 0, ts_limit = 0, ts_sent = 0, ts_next = 0, ts_body = [],
     ts_io = None, ts_rq = None, ts_esi = [], ts_num = 0\<rparr>"

definition tx_session_reset :: "tx_session \<Rightarrow> tx_session" where
  "tx_session_reset tx = tx_session_zero"

text \<open>What the system answers during a pass: the entries of the queue directory, \<open>stat\<close>, the bytes a path is read
  with, and whether the modem takes a frame.\<close>

record tx_env =
  te_entries :: "string list option"
  te_stat :: "string \<Rightarrow> (bool \<times> int) option"
  te_disk :: "string \<Rightarrow> bytes option"
  te_takes :: bool

definition tx_session_open :: "daemon_ctx \<Rightarrow> tx_env \<Rightarrow> tx_session \<Rightarrow> string \<Rightarrow> int \<Rightarrow> (bool \<times> tx_session) result" where
  "tx_session_open ctx env tx file_path mtime =
     (let tx = tx_session_reset tx
      in case ioctx_from_file (te_disk env file_path) True of
           None \<Rightarrow> Inr (False, tx)
         | Some myio \<Rightarrow>
             if 16777215 < io_size (File myio) then Inr (False, tx_session_reset tx)
             else case nanorq_encoder_new (io_size (File myio)) (d_symbol_size ctx mod 65536) 1 of
                    None \<Rightarrow> Inl Diverges
                  | Some (Inl e) \<Rightarrow> Inl e
                  | Some (Inr None) \<Rightarrow> Inr (False, tx_session_reset tx)
                  | Some (Inr (Some p)) \<Rightarrow>
                      let rq = snd (nanorq_set_max_esi (nanorq_init p 0) MAX_ESI); num_sbn = nanorq_blocks p
                      in rbind (generate_all rq (File myio) [0..<num_sbn]) (\<lambda>(rq, io).
                         rbind (parse_frames_limit_from_filename file_path) (\<lambda>limit.
                           Inr (True, \<lparr>ts_active = True, ts_path = take (PATH_MAX - 1) file_path, ts_mtime = mtime, ts_limit = limit,
                             ts_sent = 0, ts_next = 0, ts_body = nanorq_oti_common_reduced p @ nanorq_oti_scheme_specific_align1 p,
                             ts_io = Some io, ts_rq = Some rq, ts_esi = replicate num_sbn 0, ts_num = num_sbn\<rparr>))))"

text \<open>The number of the next symbol of a block, which starts again after the last one.\<close>

definition tx_take_esi :: "tx_session \<Rightarrow> nat \<Rightarrow> nat \<times> tx_session" where
  "tx_take_esi tx sbn =
     (if MAX_ESI < ts_esi tx ! sbn then (0, tx\<lparr>ts_esi := (ts_esi tx)[sbn := 0]\<rparr>) else (ts_esi tx ! sbn, tx))"

text \<open>The frame handed to the modem, if one is, and the return value.\<close>

definition tx_send_symbol :: "daemon_ctx \<Rightarrow> tx_env \<Rightarrow> tx_session \<Rightarrow> nat \<Rightarrow> nat \<Rightarrow> bytes \<Rightarrow> bytes option \<times> bool \<times> tx_session" where
  "tx_send_symbol ctx env tx sbn esi symbol =
     (let tx = tx\<lparr>ts_esi := (ts_esi tx)[sbn := ts_esi tx ! sbn + 1]\<rparr>;
          frame = joint_frame (ts_body tx) (of_nat sbn) (of_nat esi) symbol
      in if \<not> te_takes env then (Some frame, False, tx)
         else (Some frame, True, tx\<lparr>ts_sent := ts_sent tx + 1\<rparr>))"

text \<open>\<open>next_sbn\<close> is an \<open>int\<close> that only grows.\<close>

definition tx_send_one_frame :: "daemon_ctx \<Rightarrow> tx_env \<Rightarrow> tx_session \<Rightarrow> (bytes option \<times> bool \<times> tx_session) result" where
  "tx_send_one_frame ctx env tx =
     (case (ts_rq tx, ts_io tx) of
        (Some rq, Some io) \<Rightarrow>
          if ts_next tx = 2147483647 then Inl Overflow
          else if ts_num tx = 0 then Inl Div_By_Zero
          else let sbn = ts_next tx mod ts_num tx;
                   (esi, tx) = tx_take_esi (tx\<lparr>ts_next := ts_next tx + 1\<rparr>) sbn
               in rbind (nanorq_encode rq esi sbn io) (\<lambda>(written, symbol, rq, io).
                    let tx = tx\<lparr>ts_rq := Some rq, ts_io := Some io\<rparr>
                    in Inr (if written \<noteq> d_symbol_size ctx then (None, False, tx)
                            else tx_send_symbol ctx env tx sbn esi symbol))
      | _ \<Rightarrow> Inl Uninitialised)"

text \<open>
  A pass: the frame, whether the thread goes on, and the session. A changed file is opened by a name that lies in
  the session, which \<open>tx_session_open\<close> clears first.
\<close>

definition tx_budget_left :: "tx_session \<Rightarrow> bool" where
  "tx_budget_left tx \<longleftrightarrow> \<not> (ts_limit tx \<noteq> - 1 \<and> ts_limit tx \<le> int (ts_sent tx))"

definition tx_serve :: "daemon_ctx \<Rightarrow> tx_env \<Rightarrow> tx_session \<Rightarrow> (bytes option \<times> bool \<times> tx_session) result" where
  "tx_serve ctx env tx = (if tx_budget_left tx then tx_send_one_frame ctx env tx else Inr (None, True, tx))"

definition tx_pass :: "daemon_ctx \<Rightarrow> tx_env \<Rightarrow> tx_session \<Rightarrow> (bytes option \<times> bool \<times> tx_session) result" where
  "tx_pass ctx env tx =
     (if ts_active tx
      then (case te_stat env (ts_path tx) of
              None \<Rightarrow> Inr (None, True, tx_session_reset tx)
            | Some (_, mtime) \<Rightarrow>
                if mtime \<noteq> ts_mtime tx
                then rbind (tx_session_open ctx env tx (ts_path (tx_session_reset tx)) mtime) (\<lambda>(_, tx). Inr (None, True, tx))
                else tx_serve ctx env tx)
      else case find_first_regular_file (d_tx_dir ctx) (te_entries env) (te_stat env) of
             None \<Rightarrow> Inr (None, True, tx)
           | Some (file_path, mtime) \<Rightarrow>
               rbind (tx_session_open ctx env tx file_path mtime) (\<lambda>(ok, tx).
                 if ok then tx_serve ctx env tx else Inr (None, True, tx)))"

fun tx_thread :: "daemon_ctx \<Rightarrow> tx_session \<Rightarrow> tx_env list \<Rightarrow> (bytes list \<times> tx_session) result" where
  "tx_thread ctx tx [] = Inr ([], tx)"
| "tx_thread ctx tx (env # envs) =
     rbind (tx_pass ctx env tx) (\<lambda>(frame, go, tx).
       let out = (case frame of None \<Rightarrow> [] | Some x \<Rightarrow> [x])
       in if go then rbind (tx_thread ctx tx envs) (\<lambda>(frames, tx). Inr (out @ frames, tx))
          else Inr (out, tx_session_reset tx))"

subsection \<open>The frames of a session\<close>

definition next_esi :: "nat \<Rightarrow> nat" where
  "next_esi e = (if MAX_ESI < e then 0 else e)"

text \<open>A session that has sent \<open>k\<close> frames of the file \<open>f\<close>.\<close>

definition sending :: "nanorq_params \<Rightarrow> bytes \<Rightarrow> string \<Rightarrow> int \<Rightarrow> int \<Rightarrow> nat \<Rightarrow> tx_session \<Rightarrow> bool" where
  "sending p f path mtime limit k tx \<longleftrightarrow> ts_active tx \<and> ts_path tx = path \<and> ts_mtime tx = mtime \<and> ts_limit tx = limit
     \<and> ts_sent tx = k \<and> ts_next tx = k \<and> ts_body tx = tl (configuration_packet p) \<and> ts_num tx = nanorq_blocks p
     \<and> length (ts_esi tx) = nanorq_blocks p \<and> (\<forall>b < nanorq_blocks p. next_esi (ts_esi tx ! b) = rounds (nanorq_blocks p) k b mod 65536)
     \<and> (\<exists>rq io. ts_rq tx = Some rq \<and> ts_io tx = Some io \<and> enc_inv p f rq \<and> file_io f io)"

definition nth_frame :: "nanorq_params \<Rightarrow> bytes \<Rightarrow> nat \<Rightarrow> bytes \<Rightarrow> bool" where
  "nth_frame p f k frame \<longleftrightarrow> emitted_frame p f (k mod nanorq_blocks p) (k div nanorq_blocks p mod 65536) frame"

text \<open>Frame \<open>k\<close> would carry a symbol beyond the source symbols.\<close>

definition repair_turn :: "nanorq_params \<Rightarrow> nat \<Rightarrow> bool" where
  "repair_turn p k \<longleftrightarrow> nanorq_block_symbols p (k mod nanorq_blocks p) \<le> k div nanorq_blocks p mod 65536"

lemma daemon_sender_Z: "daemon_sender t p f \<Longrightarrow> 0 < nanorq_blocks p"
  using daemon_sender_ok [of t p f] rq_ok_symbols(4) [of p] by (auto simp: rq_ok_def)

lemma send_ok:
  assumes s: "daemon_sender (d_symbol_size ctx) p f" and snd: "schedule_sound (rqP p)" and tx: "sending p f path mtime limit k tx"
    and k: "k < 2147483647" and env: "te_takes env"
  shows "yields (\<lambda>(frame, go, tx'). if go then sending p f path mtime limit (k + 1) tx' \<and> (\<exists>x. frame = Some x \<and> nth_frame p f k x)
      else frame = None \<and> repair_turn p k) (tx_send_one_frame ctx env tx)"
proof -
  let ?Z = "nanorq_blocks p"
  note p = daemon_sender_ok [OF s] and Z = daemon_sender_Z [OF s]
  obtain rq io where T: "ts_next tx = k" "ts_num tx = ?Z" "ts_rq tx = Some rq" "ts_io tx = Some io" "enc_inv p f rq" "file_io f io"
    "length (ts_esi tx) = ?Z" "ts_body tx = tl (configuration_packet p)" and
    R: "\<And>b. b < ?Z \<Longrightarrow> next_esi (ts_esi tx ! b) = rounds ?Z k b mod 65536" using tx by (auto simp: sending_def)
  define sbn where "sbn = k mod ?Z"
  define esi where "esi = k div ?Z mod 65536"
  have b: "sbn < ?Z" using Z by (simp add: sbn_def)
  have e: "esi \<le> MAX_ESI" "esi < 2 ^ 24" using mod_less_divisor [of 65536 "k div ?Z"] by (simp_all add: esi_def MAX_ESI_def)
  have next_s: "next_esi (ts_esi tx ! sbn) = esi" using R [OF b] by (simp add: rounds_def sbn_def esi_def)
  define es where "es = (ts_esi tx)[sbn := esi]"
  define tx1 where "tx1 = tx\<lparr>ts_next := k + 1, ts_esi := es\<rparr>"
  have es: "length es = ?Z" "es ! sbn = esi" "\<And>b. b \<noteq> sbn \<Longrightarrow> es ! b = ts_esi tx ! b" using b T(7) by (simp_all add: es_def)
  have start: "tx_take_esi (tx\<lparr>ts_next := ts_next tx + 1\<rparr>) sbn = (esi, tx1)"
    using next_s T(1,7) b list_update_id [of "ts_esi tx" sbn] by (auto simp: tx_take_esi_def next_esi_def tx1_def es_def split: if_splits)
  let ?k = "\<lambda>(written, symbol, rq, io). let tx = tx1\<lparr>ts_rq := Some rq, ts_io := Some io\<rparr>
      in Inr (if written \<noteq> d_symbol_size ctx then (None, False, tx) else tx_send_symbol ctx env tx sbn esi symbol)"
  have run: "tx_send_one_frame ctx env tx = rbind (nanorq_encode rq esi sbn io) ?k"
  proof -
    have c: "ts_next tx \<noteq> 2147483647" "ts_num tx \<noteq> 0" "ts_next tx mod ts_num tx = sbn" using T(1,2) k Z by (simp_all add: sbn_def)
    show ?thesis
      unfolding tx_send_one_frame_def T(3,4) prod.case option.case if_not_P [OF c(1)] if_not_P [OF c(2)] Let_def c(3) start by (rule refl)
  qed
  have t: "d_symbol_size ctx = oT (common p)" "0 < oT (common p)" using s p by (simp_all add: daemon_sender_def rq_ok_def)
  have step: "next_esi ((es[sbn := esi + 1]) ! b) = rounds ?Z (k + 1) b mod 65536" if "b < ?Z" for b
  proof (cases "b = sbn")
    case True
    have "(if MAX_ESI < esi + 1 then 0 else esi + 1) = (k div ?Z + 1) mod 65536"
      by (auto simp: esi_def MAX_ESI_def mod_Suc)
    then have e1: "next_esi (esi + 1) = (k div ?Z + 1) mod 65536" by (simp only: next_esi_def)
    have "rounds ?Z (k + 1) sbn = k div ?Z + 1" using rounds_Suc [OF Z b, of k] by (simp add: rounds_def sbn_def)
    then show ?thesis using e1 True b es(1) by (simp only: nth_list_update_eq)
  next
    case False
    then show ?thesis using es(3) [OF False] R [OF that] rounds_Suc [OF Z that, of k] by (simp add: sbn_def)
  qed
  show ?thesis
    unfolding run
  proof (rule yields_rbind [OF encode_ok [OF p [THEN conjunct1] T(5) b e(2) snd T(6) p [THEN conjunct2]]])
    fix x :: "nat \<times> bytes \<times> nanorq \<times> ioctx"
    obtain n d rq' io' where x: "x = (n, d, rq', io')" by (cases x) auto
    assume "case x of (n, d, rq', io') \<Rightarrow> enc_inv p f rq' \<and> file_io f io'
      \<and> (n = oT (common p) \<and> emitted p f sbn esi d \<or> n = 0 \<and> d = [] \<and> nanorq_block_symbols p sbn \<le> esi)"
    then have h: "enc_inv p f rq'" "file_io f io'"
      "n = oT (common p) \<and> emitted p f sbn esi d \<or> n = 0 \<and> d = [] \<and> nanorq_block_symbols p sbn \<le> esi" by (simp_all add: x)
    have frame: "emitted_frame p f sbn esi (joint_frame (tl (configuration_packet p)) (of_nat sbn) (of_nat esi) d)" if "emitted p f sbn esi d"
      unfolding emitted_frame_def using b e(1) that by (intro conjI exI [of _ d] exI [of _ "[]"]) simp_all
    show "yields (\<lambda>(frame, go, tx'). if go then sending p f path mtime limit (k + 1) tx' \<and> (\<exists>x. frame = Some x \<and> nth_frame p f k x)
        else frame = None \<and> repair_turn p k) (?k x)"
      using h frame t env T(8) tx step es(1,2)
      by (auto simp: x Let_def tx_send_symbol_def sending_def tx1_def nth_frame_def repair_turn_def sbn_def [symmetric] esi_def [symmetric])
  qed
qed

subsection \<open>A file that stays in the queue\<close>

lemma daemon_symbol_size:
  assumes "daemon_mode tx_dir rx_dir mode = Some ctx"
  shows "2 \<le> d_symbol_size ctx" "d_symbol_size ctx \<le> 498" "d_frame_size ctx = HERMES_SIZE + CONFIG_BODY_SIZE + TAG_BODY_SIZE + d_symbol_size ctx"
    "d_tx_dir ctx = tx_dir" "d_rx_dir ctx = rx_dir"
proof -
  have m: "0 \<le> mode" "mode \<le> 6" using assms by (auto simp: daemon_mode_def HERMES_MODE_MAX_def split: if_splits)
  then have "nat mode \<in> {0, 1, 2, 3, 4, 5, 6}" by auto
  then show "2 \<le> d_symbol_size ctx" "d_symbol_size ctx \<le> 498" "d_frame_size ctx = HERMES_SIZE + CONFIG_BODY_SIZE + TAG_BODY_SIZE + d_symbol_size ctx"
    "d_tx_dir ctx = tx_dir" "d_rx_dir ctx = rx_dir"
    using assms by (auto simp: daemon_mode_def hermes_frame_size_def packet_sizes Let_def split: if_splits)
qed

lemma sender_exists:
  assumes "daemon_mode tx_dir rx_dir mode = Some ctx" and "f \<noteq> []" and "length f \<le> 16777215"
  obtains p where "daemon_sender (d_symbol_size ctx) p f"
proof -
  note s = daemon_symbol_size [OF assms(1)]
  have "14439168 * 2 \<le> 14439168 * d_symbol_size ctx" using s by (intro mult_le_mono) auto
  then have "length f \<le> 14439168 * d_symbol_size ctx" using assms(3) by linarith
  then have dc: "div_ceil (length f) (d_symbol_size ctx) \<le> Z_max * K_max"
    using s(1) div_ceil_le_iff [of "d_symbol_size ctx" "length f"] by (simp add: Z_max_def K_max_def)
  obtain p where "nanorq_encoder_new (length f) (d_symbol_size ctx) 1 = Some (Inr (Some p))"
    "common p = \<lparr>oF = length f, oT = d_symbol_size ctx, oAl = 1\<rparr>"
  proof (rule encoder_new_exists [of "length f" "d_symbol_size ctx"])
    show "d_symbol_size ctx < 65536" using s by simp
  qed (use s assms dc in \<open>auto simp: NANORQ_MAX_TRANSFER_def\<close>)
  then show thesis using s(2) assms(3) that by (simp add: daemon_sender_def)
qed

lemma find_first_props:
  assumes "find_first_regular_file dir entries stat = Some (path, m)"
  shows "length path \<le> PATH_MAX - 1" "\<exists>r. stat path = Some (r, m)"
  using assms by (auto simp: find_first_regular_file_def snprintf_def Let_def PATH_MAX_def split: option.splits)

text \<open>The file is the first of the queue and the modem takes frames.\<close>

definition offers :: "daemon_ctx \<Rightarrow> string \<Rightarrow> int \<Rightarrow> bytes \<Rightarrow> tx_env \<Rightarrow> bool" where
  "offers ctx path mtime f env \<longleftrightarrow> find_first_regular_file (d_tx_dir ctx) (te_entries env) (te_stat env) = Some (path, mtime)
     \<and> te_disk env path = Some f \<and> te_takes env"

lemma open_ok:
  assumes s: "daemon_sender (d_symbol_size ctx) p f" and snd: "schedule_sound (rqP p)" and f: "length f \<le> 16777215"
    and env: "offers ctx path mtime f env" and limit: "parse_frames_limit_from_filename path = Inr limit"
  shows "yields (\<lambda>(ok, tx'). ok \<and> sending p f path mtime limit 0 tx') (tx_session_open ctx env tx path mtime)"
proof -
  note p = daemon_sender_ok [OF s]
  let ?io = "File \<lparr>f_bytes = f, f_pos = 0, f_writable = False\<rparr>" and ?rq = "nanorq_init p MAX_ESI" and ?Z = "nanorq_blocks p"
  have io: "file_io f ?io" by (simp add: file_io_def)
  then have size: "io_size ?io = length f" using io_size_content [of ?io] by (simp add: file_io_def)
  have e: "nanorq_encoder_new (length f) (d_symbol_size ctx mod 65536) 1 = Some (Inr (Some p))" using s by (simp add: daemon_sender_def)
  have path: "take (PATH_MAX - 1) path = path" using find_first_props(1) [of _ _ _ path] env by (auto simp: offers_def)
  have inv: "enc_inv p f ?rq" by (rule enc_inv_init) (simp add: Kprime_max_esi [OF p [THEN conjunct1]])
  have gen: "yields (\<lambda>(rq', io'). enc_inv p f rq' \<and> file_io f io') (generate_all ?rq ?io [0..<?Z])"
    by (rule generate_all_ok [OF p [THEN conjunct1] snd p [THEN conjunct2] inv io]) simp
  have run: "tx_session_open ctx env tx path mtime = rbind (generate_all ?rq ?io [0..<?Z]) (\<lambda>(rq, io).
      rbind (parse_frames_limit_from_filename path) (\<lambda>limit.
      Inr (True, \<lparr>ts_active = True, ts_path = take (PATH_MAX - 1) path, ts_mtime = mtime, ts_limit = limit, ts_sent = 0, ts_next = 0,
        ts_body = nanorq_oti_common_reduced p @ nanorq_oti_scheme_specific_align1 p, ts_io = Some io, ts_rq = Some rq,
        ts_esi = replicate ?Z 0, ts_num = ?Z\<rparr>)))"
    using env f e size set_max_esi_init [OF Kprime_max_esi [OF p [THEN conjunct1]]]
    by (simp add: tx_session_open_def offers_def ioctx_from_file_def Let_def)
  show ?thesis
    unfolding run limit rbind_simps path
    by (rule yields_rbind [OF gen]) (auto simp: sending_def rounds_def next_esi_def MAX_ESI_def configuration_packet_def Let_def)
qed

subsection \<open>The thread\<close>

text \<open>The number of frames that \<open>n\<close> passes may still send after \<open>k\<close>.\<close>

definition budget :: "int \<Rightarrow> nat \<Rightarrow> nat \<Rightarrow> nat" where
  "budget limit n k = (if limit = - 1 then n else min n (nat limit - k))"

lemma budget_Suc: "limit = - 1 \<or> int k < limit \<Longrightarrow> budget limit (Suc n) k = Suc (budget limit n (Suc k))"
  by (auto simp: budget_def)

lemma budget_none: "limit \<noteq> - 1 \<Longrightarrow> limit \<le> int k \<Longrightarrow> budget limit n k = 0"
  by (simp add: budget_def)

text \<open>The frames from the \<open>k\<close>-th on; they end early only where a block cannot be encoded.\<close>

definition transmission :: "nanorq_params \<Rightarrow> bytes \<Rightarrow> nat \<Rightarrow> nat \<Rightarrow> bytes list \<Rightarrow> bool" where
  "transmission p f k n frames \<longleftrightarrow> length frames \<le> n \<and> (\<forall>i < length frames. nth_frame p f (k + i) (frames ! i))
     \<and> (length frames < n \<longrightarrow> repair_turn p (k + length frames))"

lemma transmission_Cons:
  "nth_frame p f k x \<Longrightarrow> transmission p f (Suc k) n xs \<Longrightarrow> transmission p f k (Suc n) (x # xs)"
  by (auto simp: transmission_def nth_Cons split: nat.splits)

lemma serve_ok:
  assumes s: "daemon_sender (d_symbol_size ctx) p f" and snd: "schedule_sound (rqP p)" and tx: "sending p f path mtime limit k tx"
    and k: "k < 2147483647" and env: "offers ctx path mtime f env"
  shows "yields (\<lambda>(frame, go, tx').
      if limit \<noteq> - 1 \<and> limit \<le> int k then frame = None \<and> go \<and> tx' = tx
      else if go then sending p f path mtime limit (k + 1) tx' \<and> (\<exists>x. frame = Some x \<and> nth_frame p f k x)
      else frame = None \<and> repair_turn p k) (tx_serve ctx env tx)"
proof (cases "limit \<noteq> - 1 \<and> limit \<le> int k")
  case True
  then show ?thesis using tx by (auto simp: tx_serve_def tx_budget_left_def sending_def)
next
  case False
  then have "tx_budget_left tx" using tx by (auto simp: tx_budget_left_def sending_def)
  then have serve: "tx_serve ctx env tx = tx_send_one_frame ctx env tx" by (simp add: tx_serve_def)
  have "te_takes env" using env by (simp add: offers_def)
  from send_ok [OF s snd tx k this] show ?thesis unfolding serve if_not_P [OF False] .
qed

lemma tx_pass_active:
  assumes "sending p f path mtime limit k tx" and "offers ctx path mtime f env"
  shows "tx_pass ctx env tx = tx_serve ctx env tx"
  using assms find_first_props(2) [of "d_tx_dir ctx" "te_entries env" "te_stat env" path mtime]
  by (auto simp: tx_pass_def sending_def offers_def)

text \<open>What a pass has answered carries over to the rest of the thread.\<close>

lemma thread_after:
  assumes pass: "yields (\<lambda>(frame, go, tx').
      if limit \<noteq> - 1 \<and> limit \<le> int k then frame = None \<and> go \<and> sending p f path mtime limit k tx'
      else if go then sending p f path mtime limit (k + 1) tx' \<and> (\<exists>x. frame = Some x \<and> nth_frame p f k x)
      else frame = None \<and> repair_turn p k) (tx_pass ctx env tx)"
    and rest: "\<And>k tx. sending p f path mtime limit k tx \<Longrightarrow> k + length envs < 2147483648 \<Longrightarrow>
      yields (\<lambda>(frames, _). transmission p f k (budget limit (length envs) k) frames) (tx_thread ctx tx envs)"
    and k: "k + Suc (length envs) < 2147483648"
  shows "yields (\<lambda>(frames, _). transmission p f k (budget limit (Suc (length envs)) k) frames) (tx_thread ctx tx (env # envs))"
  unfolding tx_thread.simps
proof (rule yields_rbind [OF pass])
  fix y :: "bytes option \<times> bool \<times> tx_session"
  obtain frame go tx1 where y: "y = (frame, go, tx1)" by (cases y) auto
  assume "case y of (frame, go, tx') \<Rightarrow>
      if limit \<noteq> - 1 \<and> limit \<le> int k then frame = None \<and> go \<and> sending p f path mtime limit k tx'
      else if go then sending p f path mtime limit (k + 1) tx' \<and> (\<exists>x. frame = Some x \<and> nth_frame p f k x)
      else frame = None \<and> repair_turn p k"
  then consider (full) "limit \<noteq> - 1" "limit \<le> int k" "frame = None" "go" "sending p f path mtime limit k tx1"
    | (sent) x where "limit = - 1 \<or> int k < limit" "go" "sending p f path mtime limit (k + 1) tx1" "frame = Some x" "nth_frame p f k x"
    | (stop) "limit = - 1 \<or> int k < limit" "\<not> go" "frame = None" "repair_turn p k"
    unfolding y by (auto split: if_splits)
  then show "yields (\<lambda>(frames, _). transmission p f k (budget limit (Suc (length envs)) k) frames) (case y of (frame, go, tx) \<Rightarrow>
      let out = case frame of None \<Rightarrow> [] | Some x \<Rightarrow> [x]
      in if go then rbind (tx_thread ctx tx envs) (\<lambda>(frames, tx). Inr (out @ frames, tx)) else Inr (out, tx_session_reset tx))"
  proof cases
    case full
    have b: "budget limit (Suc (length envs)) k = budget limit (length envs) k" using budget_none full(1,2) by simp
    have "yields (\<lambda>(frames, _). transmission p f k (budget limit (length envs) k) frames) (tx_thread ctx tx1 envs)"
      using rest [OF full(5)] k by simp
    then show ?thesis unfolding b y using full(3,4) by (auto elim!: yields_weaken yields_rbind)
  next
    case sent
    have "yields (\<lambda>(frames, _). transmission p f (Suc k) (budget limit (length envs) (Suc k)) frames) (tx_thread ctx tx1 envs)"
      using rest [OF sent(3)] k by simp
    then have "yields (\<lambda>(frames, _). transmission p f k (budget limit (Suc (length envs)) k) frames)
        (rbind (tx_thread ctx tx1 envs) (\<lambda>(frames, tx). Inr ([x] @ frames, tx)))"
      by (rule yields_rbind) (use transmission_Cons [OF sent(5)] budget_Suc [OF sent(1)] in auto)
    then show ?thesis unfolding y using sent(2,4) by simp
  next
    case stop
    then show ?thesis unfolding y using budget_Suc [OF stop(1), of "length envs"] by (simp add: transmission_def)
  qed
qed

lemma thread_sends:
  assumes s: "daemon_sender (d_symbol_size ctx) p f" and snd: "schedule_sound (rqP p)"
  shows "sending p f path mtime limit k tx \<Longrightarrow> k + length envs < 2147483648 \<Longrightarrow> list_all (offers ctx path mtime f) envs \<Longrightarrow>
    yields (\<lambda>(frames, _). transmission p f k (budget limit (length envs) k) frames) (tx_thread ctx tx envs)"
proof (induction envs arbitrary: k tx)
  case Nil
  then show ?case by (simp add: transmission_def budget_def)
next
  case (Cons env envs)
  have env: "offers ctx path mtime f env" "list_all (offers ctx path mtime f) envs" and k: "k < 2147483647" using Cons.prems(2,3) by simp_all
  have "yields (\<lambda>(frame, go, tx').
      if limit \<noteq> - 1 \<and> limit \<le> int k then frame = None \<and> go \<and> sending p f path mtime limit k tx'
      else if go then sending p f path mtime limit (k + 1) tx' \<and> (\<exists>x. frame = Some x \<and> nth_frame p f k x)
      else frame = None \<and> repair_turn p k) (tx_pass ctx env tx)"
    using serve_ok [OF s snd Cons.prems(1) k env(1)] Cons.prems(1)
    unfolding tx_pass_active [OF Cons.prems(1) env(1)] by (auto elim!: yields_weaken split: if_splits)
  from thread_after [OF this Cons.IH [OF _ _ env(2)]] Cons.prems(2) show ?case by simp
qed

text \<open>From the start: the first pass opens the file and sends its first frame.\<close>

lemma thread_transmits:
  assumes s: "daemon_sender (d_symbol_size ctx) p f" and snd: "schedule_sound (rqP p)" and f: "length f \<le> 16777215"
    and envs: "list_all (offers ctx path mtime f) envs" "length envs < 2147483648" and limit: "parse_frames_limit_from_filename path = Inr limit"
  shows "yields (\<lambda>(frames, _). transmission p f 0 (budget limit (length envs) 0) frames) (tx_thread ctx tx_session_zero envs)"
proof (cases envs)
  case Nil
  then show ?thesis by (simp add: transmission_def budget_def)
next
  case (Cons env rest)
  have env: "offers ctx path mtime f env" "list_all (offers ctx path mtime f) rest" using envs(1) by (simp_all add: Cons)
  have first: "find_first_regular_file (d_tx_dir ctx) (te_entries env) (te_stat env) = Some (path, mtime)" using env(1) by (simp add: offers_def)
  have pass: "tx_pass ctx env tx_session_zero = rbind (tx_session_open ctx env tx_session_zero path mtime)
      (\<lambda>(ok, tx). if ok then tx_serve ctx env tx else Inr (None, True, tx))"
    by (simp add: tx_pass_def first tx_session_zero_def)
  have "yields (\<lambda>(frame, go, tx').
      if limit \<noteq> - 1 \<and> limit \<le> int 0 then frame = None \<and> go \<and> sending p f path mtime limit 0 tx'
      else if go then sending p f path mtime limit (0 + 1) tx' \<and> (\<exists>x. frame = Some x \<and> nth_frame p f 0 x)
      else frame = None \<and> repair_turn p 0) (tx_pass ctx env tx_session_zero)"
    unfolding pass
  proof (rule yields_rbind [OF open_ok [OF s snd f env(1) limit]])
    fix x :: "bool \<times> tx_session" assume "case x of (ok, tx') \<Rightarrow> ok \<and> sending p f path mtime limit 0 tx'"
    then obtain tx where x: "x = (True, tx)" "sending p f path mtime limit 0 tx" by auto
    show "yields (\<lambda>(frame, go, tx').
      if limit \<noteq> - 1 \<and> limit \<le> int 0 then frame = None \<and> go \<and> sending p f path mtime limit 0 tx'
      else if go then sending p f path mtime limit (0 + 1) tx' \<and> (\<exists>x. frame = Some x \<and> nth_frame p f 0 x)
      else frame = None \<and> repair_turn p 0) (case x of (ok, tx) \<Rightarrow> if ok then tx_serve ctx env tx else Inr (None, True, tx))"
      using serve_ok [OF s snd x(2) _ env(1)] x(2) unfolding x(1) prod.case if_True by (auto elim!: yields_weaken split: if_splits)
  qed
  from thread_after [OF this thread_sends [OF s snd _ _ env(2)]] envs(2) show ?thesis unfolding Cons by simp
qed

text \<open>C15: The sending daemon sends the file that is first in its queue, the blocks in turn. In any of its modes, with a file
  that stays unchanged at the head of the directory and a modem that takes every frame, in \<open>n\<close> passes of the thread
  frame \<open>i\<close> carries the configuration of the file and symbol \<open>i div Z\<close> of block \<open>i mod Z\<close>, modulo the range of symbol
  numbers; no more frames are sent than the name of the file allows, and no fewer unless the program
  aborts or the first repair symbol of a block cannot be made. (Of the solver's schedule it is assumed that its
  checkpoints are apart.)\<close>

theorem daemon_transmission:
  assumes "daemon_mode tx_dir rx_dir mode = Some ctx" and "f \<noteq> []" and "length f \<le> 16777215"
    and "\<And>p. nanorq_encoder_new (length f) (d_symbol_size ctx) 1 = Some (Inr (Some p)) \<Longrightarrow> schedule_sound (rqP p)"
    and "list_all (offers ctx path mtime f) envs" and "length envs < 2147483648" and "parse_frames_limit_from_filename path = Inr limit"
  shows "case tx_thread ctx tx_session_zero envs of
      Inl e \<Rightarrow> e = Aborted
    | Inr (frames, _) \<Rightarrow> \<exists>p. nanorq_encoder_new (length f) (d_symbol_size ctx) 1 = Some (Inr (Some p))
        \<and> transmission p f 0 (budget limit (length envs) 0) frames"
proof -
  obtain p where s: "daemon_sender (d_symbol_size ctx) p f" by (rule sender_exists [OF assms(1-3)])
  then have new: "nanorq_encoder_new (length f) (d_symbol_size ctx) 1 = Some (Inr (Some p))" by (simp add: daemon_sender_def)
  from thread_transmits [OF s assms(4) [OF new] assms(3,5-7)] new show ?thesis by (auto simp: yields_def split: sum.splits)
qed

text \<open>A daemon in mode 1 with a file of 20 bytes in its queue, which is one block of one symbol.\<close>

definition tx_sample_ctx :: daemon_ctx where
  "tx_sample_ctx = \<lparr>d_frame_size = 126, d_symbol_size = 114, d_rx_dir = ''rx'', d_tx_dir = ''tx''\<rparr>"

definition tx_sample_env :: tx_env where
  "tx_sample_env = \<lparr>te_entries = Some [''b'', ''.x'', ''a-5_frames''], te_stat = (\<lambda>path. Some (True, 7)), te_disk = (\<lambda>path. Some (replicate 20 3)), te_takes = True\<rparr>"

lemma tx_sample_offers: "offers tx_sample_ctx ''tx/a-5_frames'' 7 (replicate 20 3) tx_sample_env"
  by (simp add: offers_def tx_sample_ctx_def tx_sample_env_def find_first_regular_file_def first_regular_def better_name_def
    snprintf_def NAME_MAX_def PATH_MAX_def)

lemma tx_sample_facts:
  "daemon_mode ''tx'' ''rx'' 1 = Some tx_sample_ctx" "parse_frames_limit_from_filename ''tx/a-5_frames'' = Inr 5" "d_symbol_size tx_sample_ctx = 114"
proof -
  show "daemon_mode ''tx'' ''rx'' 1 = Some tx_sample_ctx" "d_symbol_size tx_sample_ctx = 114"
    by (simp_all add: daemon_mode_def HERMES_MODE_MAX_def hermes_frame_size_def tx_sample_ctx_def packet_sizes Let_def)
  have base: "base_name ''tx/a-5_frames'' = ''a-5_frames''" "strstr ''a-5_frames'' ''_frames'' = Some 3" by code_simp+
  have digits: "rev (takeWhile isdigit (rev (take 3 ''a-5_frames''))) = ''5''" by code_simp
  have number: "atoll ''5'' = Inr 5" by (simp add: atoll_def digit_value_def)
  show "parse_frames_limit_from_filename ''tx/a-5_frames'' = Inr 5"
    unfolding parse_frames_limit_from_filename_def base Let_def option.case digits number by simp
qed

lemma daemon_transmission_witness:
  "case tx_thread tx_sample_ctx tx_session_zero (replicate 9 tx_sample_env) of
      Inl e \<Rightarrow> e = Aborted
    | Inr (frames, _) \<Rightarrow> \<exists>p. nanorq_encoder_new 20 114 1 = Some (Inr (Some p)) \<and> transmission p (replicate 20 3) 0 5 frames"
proof -
  have snd: "\<And>p. nanorq_encoder_new (length (replicate 20 (3 :: 8 word))) (d_symbol_size tx_sample_ctx) 1 = Some (Inr (Some p))
      \<Longrightarrow> schedule_sound (rqP p)"
    by (erule small_file_sound) (simp_all add: tx_sample_facts(3))
  have envs: "list_all (offers tx_sample_ctx ''tx/a-5_frames'' 7 (replicate 20 3)) (replicate 9 tx_sample_env)"
    using tx_sample_offers by (simp add: list_all_iff)
  have b: "budget 5 (length (replicate 9 tx_sample_env)) 0 = 5" by (simp only: budget_def length_replicate) simp
  have f: "replicate 20 (3 :: 8 word) \<noteq> []" "length (replicate 20 (3 :: 8 word)) \<le> 16777215" "length (replicate 9 tx_sample_env) < 2147483648"
    by simp_all
  from daemon_transmission [OF tx_sample_facts(1) f(1,2) snd envs f(3) tx_sample_facts(2)]
  show ?thesis unfolding b tx_sample_facts(3) by (simp only: length_replicate)
qed

end
