(* ===== verification/Daemon_Pair.thy ===== *)
theory Daemon_Pair
  imports Daemon_Delivery Daemon_Tx
begin

section \<open>From daemon to daemon\<close>

text \<open>
  The sending thread of one daemon and the receiving thread of another, joined by a channel without losses. The sender
  takes the blocks in turn, and the blocks with the greater number of symbols come first, so that its first
  frames are exactly the source symbols.
\<close>

lemma source_frame:
  assumes p: "rq_ok p" and k: "k < oKt (scheme p)" and x: "nth_frame p f k x"
  shows "emitted_frame p f (k mod nanorq_blocks p) (k div nanorq_blocks p) x"
proof -
  have "(k mod nanorq_blocks p, k div nanorq_blocks p) \<in> source_ids p" using source_turn [OF p] k by blast
  then have "k div nanorq_blocks p < 65536"
    using small_block_symbols [OF p, of "k mod nanorq_blocks p"] by (auto simp: source_ids_def)
  then show ?thesis using x by (simp add: nth_frame_def)
qed

subsection \<open>The channel\<close>

text \<open>Frame \<open>i\<close> is read whole while the receiver's system answers \<open>env i\<close>.\<close>

definition relay :: "daemon_ctx \<Rightarrow> (nat \<Rightarrow> rx_env) \<Rightarrow> bytes list \<Rightarrow> daemon_read list" where
  "relay ctx env frames = map (\<lambda>i. (int (d_frame_size ctx), frames ! i, env i)) [0..<length frames]"

lemma relay_append: "relay ctx env (xs @ ys) = relay ctx env xs @ relay ctx (\<lambda>i. env (length xs + i)) ys"
proof -
  have "[0..<length xs + length ys] = [0..<length xs] @ map (\<lambda>i. length xs + i) [0..<length ys]"
    using upt_add_eq_append [of 0 "length xs" "length ys"] map_add_upt [of "length xs" "length ys"] by (simp add: add.commute)
  then show ?thesis by (simp add: relay_def nth_append)
qed

definition receiver_ready :: "daemon_ctx \<Rightarrow> rx_env \<Rightarrow> bool" where
  "receiver_ready ctx env \<longleftrightarrow> fst (build_output_path (d_rx_dir ctx) PATH_MAX (env_now env) (env_exists env))
     \<and> (\<forall>path. env_disk env path \<noteq> None)"

lemma rx_thread_append:
  "list_all (\<lambda>x. 0 \<le> fst x) xs \<Longrightarrow> rx_thread ctx rx (xs @ ys) = rbind (rx_thread ctx rx xs) (\<lambda>(outs, rx).
     rbind (rx_thread ctx rx ys) (\<lambda>(outs', rx). Inr (outs @ outs', rx)))"
proof (induction xs arbitrary: rx)
  case Nil
  show ?case by (cases "rx_thread ctx rx ys") auto
next
  case (Cons x xs)
  obtain n frame env where x: "x = (n, frame, env)" by (cases x) auto
  have ih: "rx_thread ctx rx' (xs @ ys) = rbind (rx_thread ctx rx' xs) (\<lambda>(outs, rx).
     rbind (rx_thread ctx rx ys) (\<lambda>(outs', rx). Inr (outs @ outs', rx)))" for rx' using Cons by simp
  show ?case
  proof (cases "n = 0")
    case True
    then show ?thesis using ih by (simp add: x)
  next
    case False
    then have n: "\<not> n < 0" using Cons.prems by (simp add: x)
    show ?thesis
    proof (cases "rx_frame ctx env rx frame (nat n)")
      case (Inl e)
      then show ?thesis using False n by (simp add: x)
    next
      case (Inr r)
      obtain out rx1 where r: "r = (out, rx1)" by (cases r) auto
      show ?thesis
      proof (cases "rx_thread ctx rx1 xs")
        case (Inl e)
        then show ?thesis using False n Inr ih by (simp add: x r)
      next
        case (Inr s)
        obtain outs rx2 where s: "s = (outs, rx2)" by (cases s) auto
        show ?thesis using False n \<open>rx_frame ctx env rx frame (nat n) = Inr r\<close> Inr ih
          by (cases "rx_thread ctx rx2 ys") (auto simp: x r s split: option.splits)
      qed
    qed
  qed
qed

text \<open>The first frames complete the file, the later ones are recognised.\<close>

lemma relay_received:
  assumes s: "daemon_sender t p f" and mode: "daemon_mode tx_dir rx_dir mode = Some ctx" "t = d_symbol_size ctx" and f: "length f \<le> 16777215"
    and frames: "\<forall>i < length frames. nth_frame p f i (frames ! i)" "oKt (scheme p) \<le> length frames"
    and env: "\<forall>i. receiver_ready ctx (env i)"
  shows "\<exists>path io rx. rx_thread ctx rx_session_zero (relay ctx env frames) = Inr ([(path, io)], rx) \<and> io_content io = f"
proof -
  let ?n = "oKt (scheme p)" and ?Z = "nanorq_blocks p"
  define xs where "xs = take ?n frames"
  define ys where "ys = drop ?n frames"
  have p: "rq_ok p" using daemon_sender_ok [OF s] by simp
  have new: "nanorq_encoder_new (length f) t 1 = Some (Inr (Some p))" using s by (simp add: daemon_sender_def)
  note sz = daemon_mode_sizes [OF mode(1), folded mode(2)]
  have xs: "length xs = ?n" "\<And>i. i < ?n \<Longrightarrow> emitted_frame p f (i mod ?Z) (i div ?Z) (xs ! i)"
    using frames source_frame [OF p] by (auto simp: xs_def)
  have ys: "emitted_frame p f ((?n + i) mod ?Z) ((?n + i) div ?Z mod 65536) (ys ! i)" if "i < length ys" for i
    using frames that by (simp add: ys_def nth_frame_def)
  have frames_eq: "relay ctx env frames = relay ctx env xs @ relay ctx (\<lambda>i. env (?n + i)) ys"
    using relay_append [of ctx env xs ys] xs(1) by (simp add: xs_def ys_def)
  have pos: "0 < d_frame_size ctx" using sz(1) by (simp add: packet_sizes)
  have heard: "list_all (heard_source t p f) (relay ctx env xs)"
  proof -
    have "heard_source t p f (int (d_frame_size ctx), xs ! i, env i)" if "i < length xs" for i
      unfolding heard_source_def using xs that source_turn [OF p, of i] pos by auto
    then show ?thesis by (auto simp: relay_def list_all_iff)
  qed
  have ready: "list_all (env_good ctx) (relay ctx env xs)" using env by (auto simp: relay_def list_all_iff env_good_def receiver_ready_def)
  have all: "\<forall>(b, e) \<in> source_ids p. \<exists>(n, frame, env) \<in> set (relay ctx env xs). 0 < n \<and> nat n = d_frame_size ctx \<and> emitted_frame p f b e frame"
  proof clarify
    fix b e assume be: "(b, e) \<in> source_ids p"
    define k where "k = e * ?Z + b"
    have k: "k mod ?Z = b" "k div ?Z = e" using be by (simp_all add: k_def source_ids_def)
    then have lt: "k < ?n" using be source_turn [OF p, of k] by simp
    then have "(int (d_frame_size ctx), xs ! k, env k) \<in> set (relay ctx env xs)" using xs(1) by (auto simp: relay_def)
    moreover have "emitted_frame p f b e (xs ! k)" using xs(2) [OF lt] k by simp
    ultimately show "\<exists>(n, frame, env) \<in> set (relay ctx env xs). 0 < n \<and> nat n = d_frame_size ctx \<and> emitted_frame p f b e frame"
      using pos by (intro bexI [of _ "(int (d_frame_size ctx), xs ! k, env k)"]) simp_all
  qed
  obtain path io rx where r: "rx_thread ctx rx_session_zero (relay ctx env xs) = Inr ([(path, io)], rx)" "io_content io = f"
    "rx_known rx (nanorq_oti_common p) (nanorq_oti_scheme_specific p)"
    using daemon_receives [OF mode new f heard ready all] by blast
  have "heard_own t p f (int (d_frame_size ctx), ys ! i, env')" if "i < length ys" for i env'
    using ys [OF that] unfolding heard_own_def heard_def by auto
  then have "list_all (heard_own t p f) (relay ctx (\<lambda>i. env (?n + i)) ys)" by (auto simp: relay_def list_all_iff)
  from known_thread [OF s sz(1) r(3) this]
  have "rx_thread ctx rx (relay ctx (\<lambda>i. env (?n + i)) ys) = Inr ([], rx)" by blast
  moreover have "list_all (\<lambda>x. 0 \<le> fst x) (relay ctx env xs)" by (auto simp: relay_def list_all_iff)
  ultimately show ?thesis unfolding frames_eq by (simp add: rx_thread_append r(1,2))
qed

text \<open>C1: One daemon sends a file and another receives it. Two daemons in the same mode: the first has the file at the head of its
  queue, unchanged for as many passes as the file has symbols, or more, with a budget in its name, if there is one, that is not
  smaller; its modem takes the frames and the other daemon, which is just started and can create files, reads them in
  order. Then, unless the sender aborts, the second daemon reports exactly one file and its content is the first daemon's
  file. (Of the solver's schedule it is assumed that its checkpoints are apart.)\<close>

theorem daemon_to_daemon:
  assumes "daemon_mode tx_dir rx_dir mode = Some ctx" and "daemon_mode tx_dir' rx_dir' mode = Some ctx'"
    and "f \<noteq> []" and "length f \<le> 16777215"
    and "\<And>p. nanorq_encoder_new (length f) (d_symbol_size ctx) 1 = Some (Inr (Some p)) \<Longrightarrow> schedule_sound (rqP p)"
    and "list_all (offers ctx path mtime f) envs" and "length envs < 2147483648" and "parse_frames_limit_from_filename path = Inr limit"
    and "div_ceil (length f) (d_symbol_size ctx) \<le> budget limit (length envs) 0" and "\<forall>i. receiver_ready ctx' (env i)"
  shows "case tx_thread ctx tx_session_zero envs of
      Inl e \<Rightarrow> e = Aborted
    | Inr (frames, _) \<Rightarrow> \<exists>path' io rx. rx_thread ctx' rx_session_zero (relay ctx' env frames) = Inr ([(path', io)], rx) \<and> io_content io = f"
proof -
  obtain p where s: "daemon_sender (d_symbol_size ctx) p f" by (rule sender_exists [OF assms(1,3,4)])
  then have new: "nanorq_encoder_new (length f) (d_symbol_size ctx) 1 = Some (Inr (Some p))" by (simp add: daemon_sender_def)
  have p: "rq_ok p" "length f = oF (common p)" using daemon_sender_ok [OF s] by auto
  have t: "d_symbol_size ctx = d_symbol_size ctx'" "oT (common p) = d_symbol_size ctx"
    using assms(1,2) s by (auto simp: daemon_mode_def daemon_sender_def Let_def split: if_splits)
  have n: "oKt (scheme p) \<le> budget limit (length envs) 0" using assms(9) p t(2) by (simp add: rq_ok_def)
  have recv: "\<exists>path' io rx. rx_thread ctx' rx_session_zero (relay ctx' env frames) = Inr ([(path', io)], rx) \<and> io_content io = f"
    if tr: "transmission p f 0 (budget limit (length envs) 0) frames" for frames
  proof (rule relay_received [OF s assms(2) t(1) assms(4) _ _ assms(10)])
    show "\<forall>i < length frames. nth_frame p f i (frames ! i)" using tr by (simp add: transmission_def)
    show "oKt (scheme p) \<le> length frames"
    proof (rule ccontr)
      assume "\<not> oKt (scheme p) \<le> length frames"
      then have short: "length frames < oKt (scheme p)" by simp
      then have turn: "repair_turn p (length frames)" using tr n by (simp add: transmission_def)
      have "(length frames mod nanorq_blocks p, length frames div nanorq_blocks p) \<in> source_ids p" using source_turn [OF p(1)] short by blast
      then have "length frames div nanorq_blocks p < nanorq_block_symbols p (length frames mod nanorq_blocks p)" by (simp add: source_ids_def)
      moreover have "length frames div nanorq_blocks p mod 65536 \<le> length frames div nanorq_blocks p" by simp
      ultimately show False using turn by (simp add: repair_turn_def)
    qed
  qed
  from thread_transmits [OF s assms(5) [OF new] assms(4,6-8)] recv show ?thesis by (auto simp: yields_def split: sum.splits)
qed

lemma daemon_to_daemon_witness:
  "case tx_thread tx_sample_ctx tx_session_zero (replicate 9 tx_sample_env) of
      Inl e \<Rightarrow> e = Aborted
    | Inr (frames, _) \<Rightarrow> \<exists>path' io rx. rx_thread sample_ctx rx_session_zero (relay sample_ctx (\<lambda>_. sample_env) frames) = Inr ([(path', io)], rx)
        \<and> io_content io = replicate 20 3"
proof (rule daemon_to_daemon [OF tx_sample_facts(1) sample_daemon(1) _ _ _ _ _ tx_sample_facts(2)])
  show "schedule_sound (rqP p)" if "nanorq_encoder_new (length (replicate 20 (3 :: 8 word))) (d_symbol_size tx_sample_ctx) 1 = Some (Inr (Some p))" for p
    by (rule small_file_sound [OF that]) (simp_all add: tx_sample_facts(3))
  show "list_all (offers tx_sample_ctx ''tx/a-5_frames'' 7 (replicate 20 3)) (replicate 9 tx_sample_env)"
    using tx_sample_offers by (simp add: list_all_iff)
  show "div_ceil (length (replicate 20 (3 :: 8 word))) (d_symbol_size tx_sample_ctx) \<le> budget 5 (length (replicate 9 tx_sample_env)) 0"
    unfolding length_replicate tx_sample_facts(3) by (simp add: budget_def div_ceil_def)
  show "\<forall>i. receiver_ready sample_ctx sample_env" using sample_daemon(4,5) by (simp add: receiver_ready_def)
qed simp_all

end
